(* ===== verification/Prelude.thy ===== *)
theory Prelude
  imports Main "HOL-Library.Word" "HOL-Library.Signed_Division" "HOL-Library.Monad_Syntax"
begin

text \<open>
  Conventions shared by every component of the model.

  \<^item> The code is compiled for a 32-bit flat memory.  An \<open>unsigned long\<close> is a \<open>32 word\<close>;
    a C \<open>int\<close> (or \<open>long\<close>) is an \<open>int\<close> that every operation which can leave the signed
    32-bit range puts back into it with \<open>s32\<close>.  \<open>c_int\<close> and \<open>c_ulong\<close> are the conversions
    between the two.
  \<^item> A region of memory is a function from addresses to bytes (\<open>mem\<close>); \<open>read_at\<close> and
    \<open>write_at\<close> move whole byte strings, \<open>le16\<close> and \<open>le32\<close> read little-endian fields.
  \<^item> A C string that is only read forward is the list of its remaining bytes; \<open>cur\<close> reads
    the byte under the pointer, which is NUL at the end of the list.
  \<^item> \<open>errnum\<close> holds a value of \<open>grub_error\<close>.
\<close>

unbundle bit_operations_syntax

section \<open>Machine integers\<close>

type_synonym u8 = "8 word"
type_synonym u16 = "16 word"
type_synonym u32 = "32 word"
type_synonym u64 = "64 word"

named_theorems c_arith \<open>conversions between C integers\<close>
named_theorems mem_simps \<open>reading from and writing to memory regions\<close>

text \<open>Wrap-around of a signed 32-bit result.\<close>

definition s32 :: "int \<Rightarrow> int" where
  "s32 x = (x + 2147483648) mod 4294967296 - 2147483648"

definition c_int :: "u32 \<Rightarrow> int" where
  "c_int w = s32 (uint w)"

definition c_ulong :: "int \<Rightarrow> u32" where
  "c_ulong i = word_of_int i"

text \<open>\<open>MAXINT\<close> of \<open>loader/include/shared.h\<close>.\<close>

abbreviation (input) MAXINT :: int where
  "MAXINT \<equiv> 2147483647"

lemma s32_id [simp, c_arith]: "- 2147483648 \<le> x \<Longrightarrow> x < 2147483648 \<Longrightarrow> s32 x = x"
  by (simp add: s32_def)

lemma s32_nat [c_arith]: "n < 2147483648 \<Longrightarrow> s32 (int n) = int n"
  by (rule s32_id) simp_all

lemma s32_range: "- 2147483648 \<le> s32 x" "s32 x < 2147483648"
  by (simp_all add: s32_def)

lemma s32_s32 [simp]: "s32 (s32 x) = s32 x"
  using s32_range [of x] by simp

lemma s32_mod: "s32 x mod 4294967296 = x mod 4294967296"
  by (simp add: s32_def mod_simps)

lemma s32_cong: "x mod 4294967296 = y mod 4294967296 \<Longrightarrow> s32 x = s32 y"
  unfolding s32_def by (metis mod_add_left_eq)

lemma s32_add_s32 [simp]: "s32 (s32 x + y) = s32 (x + y)" "s32 (x + s32 y) = s32 (x + y)"
  by (rule s32_cong, metis mod_add_left_eq mod_add_right_eq s32_mod)+

lemma s32_mult_s32 [simp]: "s32 (s32 x * y) = s32 (x * y)" "s32 (x * s32 y) = s32 (x * y)"
  by (rule s32_cong, metis mod_mult_left_eq mod_mult_right_eq s32_mod)+

lemma c_int_small [c_arith]: "uint w < 2147483648 \<Longrightarrow> c_int w = uint w"
proof -
  assume "uint w < 2147483648"
  moreover have "- 2147483648 \<le> uint w" by (rule order_trans [of _ 0]) simp_all
  ultimately show ?thesis unfolding c_int_def by (rule s32_id [rotated])
qed

lemma uint_c_ulong [c_arith]: "0 \<le> i \<Longrightarrow> i < 4294967296 \<Longrightarrow> uint (c_ulong i) = i"
  by (simp add: c_ulong_def uint_word_of_int)

lemma c_int_c_ulong [simp, c_arith]:
  "- 2147483648 \<le> i \<Longrightarrow> i < 2147483648 \<Longrightarrow> c_int (c_ulong i) = i"
proof -
  assume r: "- 2147483648 \<le> i" "i < 2147483648"
  have "c_int (c_ulong i) = s32 (i mod 4294967296)"
    by (simp add: c_int_def c_ulong_def uint_word_of_int)
  also have "\<dots> = s32 i"
    by (simp add: s32_def mod_simps)
  finally show ?thesis using r by simp
qed

lemma c_ulong_c_int [c_arith]: "c_ulong (c_int w) = w"
proof -
  have "uint (c_ulong (c_int w)) = uint w mod 4294967296"
    by (simp add: c_ulong_def c_int_def uint_word_of_int s32_mod)
  also have "\<dots> = uint w" using uint_range_size [of w] by (intro mod_pos_pos_trivial) (simp_all add: word_size)
  finally show ?thesis by (rule iffD2 [OF word_uint_eq_iff])
qed

lemma unat_u32: "unat (w :: u32) < 4294967296"
  using unsigned_less [of w] by simp

lemma unat_c_ulong [c_arith]: "n < 4294967296 \<Longrightarrow> unat (c_ulong (int n)) = n"
  by (simp add: c_ulong_def unat_of_nat)

lemma c_int_nat [c_arith]: "n < 2147483648 \<Longrightarrow> c_int (c_ulong (int n)) = int n"
  by (intro c_int_c_ulong) simp_all

lemma c_ulong_le_iff [c_arith]:
  "0 \<le> i \<Longrightarrow> i < 4294967296 \<Longrightarrow> w \<le> c_ulong i \<longleftrightarrow> uint w \<le> i"
  by (simp add: word_le_def uint_c_ulong)

lemma c_ulong_less_iff [c_arith]:
  "0 \<le> i \<Longrightarrow> i < 4294967296 \<Longrightarrow> c_ulong i < w \<longleftrightarrow> i < uint w"
  by (simp add: word_less_def uint_c_ulong)

lemma uint_eq_iff [simp]: "uint (a :: 'a::len word) = uint b \<longleftrightarrow> a = b"
  by (auto intro: unsigned_word_eqI)

lemma uint_pos_iff [simp]: "0 < uint (w :: 'a::len word) \<longleftrightarrow> w \<noteq> 0"
  using uint_ge_0 [of w] uint_0_iff [of w] by (auto simp: order_less_le)

lemma uint_drop_bit [c_arith]: "uint (drop_bit n (w :: 'a::len word)) = uint w div 2 ^ n"
  unfolding unsigned_drop_bit_eq by (simp add: drop_bit_eq_div take_bit_int_eq_self)

text \<open>C divides towards zero; on numbers that are not negative this is \<open>div\<close> and \<open>mod\<close>.\<close>

lemma sdiv_nonneg [c_arith]: "0 \<le> a \<Longrightarrow> 0 < b \<Longrightarrow> (a :: int) sdiv b = a div b"
  by (simp add: signed_divide_int_def sgn_if)

lemma smod_nonneg [c_arith]: "0 \<le> a \<Longrightarrow> 0 < b \<Longrightarrow> (a :: int) smod b = a mod b"
  by (simp add: signed_modulo_int_def sgn_if)

lemma div_mod_le:
  assumes "0 \<le> (a :: int)" "0 < b"
  shows "0 \<le> a div b" "a div b \<le> a" "0 \<le> a mod b" "a mod b \<le> a"
proof -
  show "0 \<le> a div b" "0 \<le> a mod b" using assms by (simp_all add: pos_imp_zdiv_nonneg_iff)
  show "a mod b \<le> a" using assms by (intro zmod_le_nonneg_dividend)
  have "a div b * 1 \<le> a div b * b" using assms by (intro mult_left_mono) (auto simp: pos_imp_zdiv_nonneg_iff)
  then show "a div b \<le> a"
    using div_mult_mod_eq [of a b] \<open>0 \<le> a mod b\<close> by linarith
qed

section \<open>Bytes and memory regions\<close>

type_synonym mem = "nat \<Rightarrow> u8"

definition read_at :: "nat \<Rightarrow> nat \<Rightarrow> mem \<Rightarrow> u8 list" where
  "read_at a n m = map (\<lambda>i. m (a + i)) [0..<n]"

definition write_at :: "nat \<Rightarrow> u8 list \<Rightarrow> mem \<Rightarrow> mem" where
  "write_at a bs m = (\<lambda>i. if a \<le> i \<and> i - a < length bs then bs ! (i - a) else m i)"

definition le16 :: "mem \<Rightarrow> nat \<Rightarrow> int" where
  "le16 m a = uint (m a) + 256 * uint (m (a + 1))"

definition le32 :: "mem \<Rightarrow> nat \<Rightarrow> u32" where
  "le32 m a = word_of_int (le16 m a + 65536 * le16 m (a + 2))"

text \<open>The region that a byte list occupies, zero elsewhere.\<close>

definition of_bytes :: "u8 list \<Rightarrow> mem" where
  "of_bytes bs = write_at 0 bs (\<lambda>_. 0)"

lemma length_read_at [simp, mem_simps]: "length (read_at a n m) = n"
  by (simp add: read_at_def)

lemma nth_read_at [simp, mem_simps]: "i < n \<Longrightarrow> read_at a n m ! i = m (a + i)"
  by (simp add: read_at_def)

lemma read_at_0 [simp, mem_simps]: "read_at a 0 m = []"
  by (simp add: read_at_def)

lemma read_at_Suc: "read_at a (Suc n) m = m a # read_at (Suc a) n m"
  by (rule nth_equalityI) (auto simp: nth_Cons split: nat.splits)

lemma read_at_append: "read_at a (n + k) m = read_at a n m @ read_at (a + n) k m"
  by (rule nth_equalityI) (auto simp: nth_append)

lemma read_at_cong: "(\<And>i. a \<le> i \<Longrightarrow> i < a + n \<Longrightarrow> m i = m' i) \<Longrightarrow> read_at a n m = read_at a n m'"
  by (rule nth_equalityI) auto

lemma take_read_at [mem_simps]: "take k (read_at a n m) = read_at a (min k n) m"
  by (rule nth_equalityI) auto

lemma drop_read_at [mem_simps]: "drop k (read_at a n m) = read_at (a + k) (n - k) m"
  by (rule nth_equalityI) (auto simp: add.assoc)

lemma write_at_Nil [simp, mem_simps]: "write_at a [] m = m"
  by (simp add: write_at_def)

lemma write_at_inside [mem_simps]: "a \<le> i \<Longrightarrow> i < a + length bs \<Longrightarrow> write_at a bs m i = bs ! (i - a)"
  by (auto simp: write_at_def)

lemma write_at_outside [mem_simps]: "i < a \<or> a + length bs \<le> i \<Longrightarrow> write_at a bs m i = m i"
  by (auto simp: write_at_def)

lemma write_at_Cons: "write_at a (b # bs) m = write_at (Suc a) bs (m(a := b))"
  by (rule ext) (auto simp: write_at_def nth_Cons split: nat.splits, metis Suc_diff_Suc Suc_le_eq not_less_eq nat.inject le_neq_implies_less)

lemma write_at_snoc: "write_at a (bs @ [b]) m = (write_at a bs m)(a + length bs := b)"
  by (rule ext) (auto simp: write_at_def nth_append)

lemma write_at_append: "write_at (a + length xs) ys (write_at a xs m) = write_at a (xs @ ys) m"
  by (rule ext) (auto simp: write_at_def nth_append)

lemma read_write_same [simp, mem_simps]: "read_at a (length bs) (write_at a bs m) = bs"
  by (rule nth_equalityI) (auto simp: write_at_inside)

lemma read_write_inside [mem_simps]:
  "a \<le> b \<Longrightarrow> b + n \<le> a + length bs \<Longrightarrow> read_at b n (write_at a bs m) = take n (drop (b - a) bs)"
  by (rule nth_equalityI) (auto simp: write_at_inside)

lemma read_write_outside [mem_simps]:
  "b + n \<le> a \<or> a + length bs \<le> b \<Longrightarrow> read_at b n (write_at a bs m) = read_at b n m"
  by (rule read_at_cong) (auto simp: write_at_outside)

lemma le16_cong: "m a = m' a \<Longrightarrow> m (a + 1) = m' (a + 1) \<Longrightarrow> le16 m a = le16 m' a"
  by (simp add: le16_def)

lemma le16_range: "0 \<le> le16 m a" "le16 m a < 65536"
proof -
  have "uint (m a) < 256" "uint (m (a + 1)) < 256"
    using uint_lt2p [of "m a"] uint_lt2p [of "m (a + 1)"] by simp_all
  then show "0 \<le> le16 m a" "le16 m a < 65536"
    by (simp_all add: le16_def)
qed

lemma le32_cong:
  assumes "\<And>i. i < 4 \<Longrightarrow> m (a + i) = m' (a + i)"
  shows "le32 m a = le32 m' a"
  using assms [of 0] assms [of 1] assms [of 2] assms [of 3]
  by (simp add: le32_def le16_def numeral_eq_Suc)

text \<open>Storing a little-endian field.\<close>

definition word_bytes :: "u32 \<Rightarrow> u8 list" where
  "word_bytes w = [ucast w, ucast (drop_bit 8 w), ucast (drop_bit 16 w), ucast (drop_bit 24 w)]"

definition put32 :: "nat \<Rightarrow> u32 \<Rightarrow> mem \<Rightarrow> mem" where
  "put32 a w m = write_at a (word_bytes w) m"

lemma length_word_bytes [simp]: "length (word_bytes w) = 4"
  by (simp add: word_bytes_def)

lemma base256_digits:
  fixes x :: int
  assumes "0 \<le> x" "x < 4294967296"
  shows "x mod 256 + 256 * (x div 256 mod 256) + 65536 * (x div 65536 mod 256 + 256 * (x div 16777216 mod 256)) = x"
proof -
  have d3: "x div 16777216 = x div 65536 div 256"
    by (simp only: zdiv_zmult2_eq [of 256 x 65536, symmetric] zero_le_numeral) simp
  have d2: "x div 65536 = x div 256 div 256"
    by (simp only: zdiv_zmult2_eq [of 256 x 256, symmetric] zero_le_numeral) simp
  have top: "x div 16777216 mod 256 = x div 16777216"
    by (rule mod_pos_pos_trivial) (use assms in linarith)+
  have split: "y = y mod 256 + 256 * (y div 256)" for y :: int by simp
  have add: "x = r0 + 256 * q1 \<Longrightarrow> q1 = r1 + 256 * q2 \<Longrightarrow> q2 = r2 + 256 * q3 \<Longrightarrow>
    r0 + 256 * r1 + 65536 * (r2 + 256 * q3) = x" for r0 q1 r1 q2 r2 q3 :: int
    by simp
  show ?thesis unfolding top
    by (rule add [OF split split [of "x div 256", folded d2] split [of "x div 65536", folded d3]])
qed

lemma le32_word_bytes:
  "word_of_int (uint (ucast w :: u8) + 256 * uint (ucast (drop_bit 8 w) :: u8) +
     65536 * (uint (ucast (drop_bit 16 w) :: u8) + 256 * uint (ucast (drop_bit 24 w) :: u8))) = (w :: u32)"
proof -
  have u: "uint (ucast (drop_bit n w) :: u8) = uint w div 2 ^ n mod 256" for n
    by (simp add: unsigned_ucast_eq take_bit_eq_mod uint_drop_bit [symmetric])
  have u0: "uint (ucast w :: u8) = uint w mod 256"
    "uint (ucast (drop_bit 8 w) :: u8) = uint w div 256 mod 256"
    "uint (ucast (drop_bit 16 w) :: u8) = uint w div 65536 mod 256"
    "uint (ucast (drop_bit 24 w) :: u8) = uint w div 16777216 mod 256"
    using u [of 0] u [of 8] u [of 16] u [of 24] by simp_all
  have "0 \<le> uint w" "uint w < 4294967296" using uint_lt2p [of w] by simp_all
  from base256_digits [OF this] show ?thesis unfolding u0 by (simp only: word_of_int_uint)
qed

lemma le32_put32 [simp, mem_simps]: "le32 (put32 a w m) a = w"
  using le32_word_bytes [of w]
  by (simp add: le32_def le16_def put32_def word_bytes_def write_at_def algebra_simps)

lemma le32_put32_other [mem_simps]: "a + 4 \<le> b \<or> b + 4 \<le> a \<Longrightarrow> le32 (put32 a w m) b = le32 m b"
  by (rule le32_cong) (auto simp: put32_def write_at_outside)

lemma put32_outside [mem_simps]: "i < a \<or> a + 4 \<le> i \<Longrightarrow> put32 a w m i = m i"
  by (simp add: put32_def write_at_outside)

section \<open>C strings read forward\<close>

text \<open>\<open>cur s\<close> is \<open>*s\<close>: the byte under the pointer, NUL at the end of the string.\<close>

definition cur :: "u8 list \<Rightarrow> u8" where
  "cur s = (case s of [] \<Rightarrow> 0 | c # _ \<Rightarrow> c)"

lemma cur_simps [simp]: "cur [] = 0" "cur (c # s) = c"
  by (simp_all add: cur_def)

text \<open>Character constants and string literals.\<close>

abbreviation ch :: "char \<Rightarrow> u8" where
  "ch c \<equiv> of_char c"

definition bs :: "string \<Rightarrow> u8 list" where
  "bs s = map of_char s"

lemma bs_simps [simp]: "bs [] = []" "bs (c # s) = of_char c # bs s"
  by (simp_all add: bs_def)

lemma bs_append [simp]: "bs (s @ t) = bs s @ bs t"
  by (simp add: bs_def)

text \<open>A string has no NUL inside.\<close>

definition cstr :: "u8 list \<Rightarrow> bool" where
  "cstr s \<longleftrightarrow> 0 \<notin> set s"

lemma cstr_simps [simp]: "cstr []" "cstr (c # s) \<longleftrightarrow> c \<noteq> 0 \<and> cstr s" "cstr (s @ t) \<longleftrightarrow> cstr s \<and> cstr t"
  by (auto simp: cstr_def)

section \<open>Error numbers\<close>

text \<open>\<open>grub_error_t\<close> of \<open>loader/include/shared.h\<close>.\<close>

datatype grub_error =
    ERR_NONE | ERR_BAD_FILENAME | ERR_BAD_FILETYPE | ERR_BAD_GZIP_DATA | ERR_BAD_GZIP_HEADER
  | ERR_BAD_PART_TABLE | ERR_BAD_VERSION | ERR_BELOW_1MB | ERR_BOOT_COMMAND | ERR_BOOT_FAILURE
  | ERR_BOOT_FEATURES | ERR_DEV_FORMAT | ERR_DEV_VALUES | ERR_EXEC_FORMAT | ERR_FILELENGTH
  | ERR_FILE_NOT_FOUND | ERR_FSYS_CORRUPT | ERR_FSYS_MOUNT | ERR_GEOM | ERR_NEED_LX_KERNEL
  | ERR_NEED_MB_KERNEL | ERR_NO_DISK | ERR_NO_PART | ERR_NUMBER_PARSING | ERR_OUTSIDE_PART
  | ERR_READ | ERR_SYMLINK_LOOP | ERR_UNRECOGNIZED | ERR_WONT_FIT | ERR_WRITE
  | ERR_BAD_ARGUMENT | ERR_UNALIGNED | ERR_PRIVILEGED | ERR_DEV_NEED_INIT | ERR_NO_DISK_SPACE
  | ERR_NUMBER_OVERFLOW | ERR_BADMODADDR

end
