(* ===== verification/Libc.thy ===== *)
theory Libc
  imports Prelude
begin

text \<open>
  The mini C library of \<open>loader/shared\<close>: the memory and string routines over a flat memory
  (\<open>mem\<close>, addresses are \<open>nat\<close>).  A loop that a missing NUL or a negative count keeps running
  is a \<open>partial_function (option)\<close>: \<open>None\<close> is "does not return".  The library is compiled
  without \<open>-j\<close>, so a plain \<open>char\<close> is unsigned.  The lemmas relate each routine to an operation on
  byte strings; \<open>holds m p s\<close> says that the C string \<open>s\<close> is stored at \<open>p\<close>.
\<close>

section \<open>Moving and filling memory\<close>

text \<open>The two copying loops of \<open>grub_memmove\<close>: downwards from the end, and upwards.\<close>

partial_function (option) copy_down :: "mem \<Rightarrow> nat \<Rightarrow> nat \<Rightarrow> int \<Rightarrow> mem option" where
  "copy_down m to from len =
     (if len = 0 then Some m
      else copy_down (m(to - 1 := m (from - 1))) (to - 1) (from - 1) (len - 1))"

partial_function (option) copy_up :: "mem \<Rightarrow> nat \<Rightarrow> nat \<Rightarrow> int \<Rightarrow> mem option" where
  "copy_up m to from len =
     (if len = 0 then Some m else copy_up (m(to := m from)) (to + 1) (from + 1) (len - 1))"

definition grub_memmove :: "mem \<Rightarrow> nat \<Rightarrow> nat \<Rightarrow> int \<Rightarrow> mem option" where
  "grub_memmove m to from len =
     (if from = to then Some m
      else if from < to \<and> int from + len > int to
      then copy_down m (nat (int to + len)) (nat (int from + len)) len
      else copy_up m to from len)"

function grub_memset :: "mem \<Rightarrow> nat \<Rightarrow> u8 \<Rightarrow> int \<Rightarrow> mem" where
  "grub_memset m p c len = (if 0 < len then grub_memset (m(p := c)) (p + 1) c (len - 1) else m)"
  by pat_completeness auto
termination
  by (relation "measure (\<lambda>(m, p, c, len). nat len)") auto

declare grub_memset.simps [simp del]

partial_function (option) grub_memcmp :: "mem \<Rightarrow> nat \<Rightarrow> nat \<Rightarrow> int \<Rightarrow> int option" where
  "grub_memcmp m s1 s2 n =
     (if n = 0 then Some 0
      else if uint (m s1) < uint (m s2) then Some (- 1)
      else if uint (m s1) > uint (m s2) then Some 1
      else grub_memcmp m (s1 + 1) (s2 + 1) (n - 1))"

section \<open>String routines\<close>

partial_function (option) strlen_loop :: "mem \<Rightarrow> nat \<Rightarrow> int \<Rightarrow> int option" where
  "strlen_loop m p len = (if m p = 0 then Some len else strlen_loop m (p + 1) (len + 1))"

definition grub_strlen :: "mem \<Rightarrow> nat \<Rightarrow> int option" where
  "grub_strlen m p = strlen_loop m p 0"

definition grub_strcpy :: "mem \<Rightarrow> nat \<Rightarrow> nat \<Rightarrow> mem option" where
  "grub_strcpy m dest src =
     do { l \<leftarrow> grub_strlen m src; grub_memmove m dest src (l + 1) }"

definition grub_strcat :: "mem \<Rightarrow> nat \<Rightarrow> nat \<Rightarrow> nat \<Rightarrow> mem option" where
  "grub_strcat m dest src1 src2 =
     do {
       l \<leftarrow> grub_strlen m src1;
       m1 \<leftarrow> grub_strcpy m dest src1;
       grub_strcpy m1 (nat (int dest + l)) src2
     }"

text \<open>The loop of \<open>grub_strncpy\<close>; the final store to \<open>dest[n]\<close> is made on every path.\<close>

function strncpy_loop :: "mem \<Rightarrow> nat \<Rightarrow> nat \<Rightarrow> nat \<Rightarrow> nat \<Rightarrow> mem" where
  "strncpy_loop m dest src i n =
     (if i < n
      then let m1 = m(dest + i := m (src + i)) in
           if m1 (src + i) = 0 then m1 else strncpy_loop m1 dest src (i + 1) n
      else m)"
  by pat_completeness auto
termination
  by (relation "measure (\<lambda>(m, dest, src, i, n). n - i)") auto

declare strncpy_loop.simps [simp del]

definition grub_strncpy :: "mem \<Rightarrow> nat \<Rightarrow> nat \<Rightarrow> nat \<Rightarrow> mem" where
  "grub_strncpy m dest src n = (strncpy_loop m dest src 0 n)(dest + n := 0)"

partial_function (option) grub_strcmp :: "mem \<Rightarrow> nat \<Rightarrow> nat \<Rightarrow> int option" where
  "grub_strcmp m s1 s2 =
     (if m s1 \<noteq> 0 \<or> m s2 \<noteq> 0
      then if uint (m s1) < uint (m s2) then Some (- 1)
           else if uint (m s1) > uint (m s2) then Some 1
           else grub_strcmp m (s1 + 1) (s2 + 1)
      else Some 0)"

text \<open>The inner loop of \<open>grub_strstr\<close> returns the final \<open>tmp\<close>; the result 0 is NULL.\<close>

partial_function (option) strstr_match :: "mem \<Rightarrow> nat \<Rightarrow> nat \<Rightarrow> nat option" where
  "strstr_match m ptr tmp =
     (if m tmp \<noteq> 0 \<and> m ptr = m tmp then strstr_match m (ptr + 1) (tmp + 1) else Some tmp)"

partial_function (option) grub_strstr :: "mem \<Rightarrow> nat \<Rightarrow> nat \<Rightarrow> nat option" where
  "grub_strstr m s1 s2 =
     (if m s1 = 0 then Some 0
      else Option.bind (strstr_match m s1 s2)
             (\<lambda>tmp. if tmp > s2 \<and> m tmp = 0 then Some s1 else grub_strstr m (s1 + 1) s2))"

partial_function (option) substring :: "mem \<Rightarrow> nat \<Rightarrow> nat \<Rightarrow> int option" where
  "substring m s1 s2 =
     (if m s1 = m s2
      then if m s1 = 0 then Some 0 else substring m (s1 + 1) (s2 + 1)
      else if m s1 = 0 then Some (- 1) else Some 1)"

partial_function (option) index_loop :: "mem \<Rightarrow> u8 \<Rightarrow> nat \<Rightarrow> int \<Rightarrow> int option" where
  "index_loop m c p i =
     (if m p \<noteq> 0 \<and> m p \<noteq> c then index_loop m c (p + 1) (i + 1)
      else if m p = 0 then Some 0 else Some (i + 1))"

definition grub_index :: "mem \<Rightarrow> u8 \<Rightarrow> nat \<Rightarrow> int option" where
  "grub_index m c s = index_loop m c s 0"

section \<open>Characters\<close>

definition grub_isspace :: "int \<Rightarrow> bool" where
  "grub_isspace c \<longleftrightarrow> c = 32 \<or> c = 9 \<or> c = 13 \<or> c = 10"

definition grub_tolower :: "int \<Rightarrow> int" where
  "grub_tolower c = (if 65 \<le> c \<and> c \<le> 90 then c + 32 else c)"

definition grub_toupper :: "int \<Rightarrow> int" where
  "grub_toupper c = (if 97 \<le> c \<and> c \<le> 122 then c - 32 else c)"

text \<open>The checking function of the library accepts every range.\<close>

definition grub_memcheck :: "u32 \<Rightarrow> int \<Rightarrow> int" where
  "grub_memcheck addr len = 1"

section \<open>Strings in memory\<close>

primrec holds :: "mem \<Rightarrow> nat \<Rightarrow> u8 list \<Rightarrow> bool" where
  "holds m p [] \<longleftrightarrow> m p = 0"
| "holds m p (c # s) \<longleftrightarrow> c \<noteq> 0 \<and> m p = c \<and> holds m (Suc p) s"

lemma holds_cstr: "holds m p s \<Longrightarrow> cstr s"
  by (induction s arbitrary: p) auto

lemma holds_read: "holds m p s \<longleftrightarrow> cstr s \<and> read_at p (Suc (length s)) m = s @ [0]"
  by (induction s arbitrary: p) (auto simp: read_at_Suc)

lemma holds_cong: "(\<And>i. p \<le> i \<Longrightarrow> i \<le> p + length s \<Longrightarrow> m i = m' i) \<Longrightarrow> holds m p s = holds m' p s"
  by (induction s arbitrary: p) auto

lemma holds_write: "cstr s \<Longrightarrow> holds (write_at p (s @ [0]) m) p s"
  using read_write_same [of p "s @ [0]" m] by (simp add: holds_read)

lemma holds_fun: "holds m p s \<Longrightarrow> holds m p t \<Longrightarrow> s = t"
  by (induction s arbitrary: p t; case_tac t) auto

section \<open>Correctness of the memory routines\<close>

lemma copy_down_eq:
  "from < to \<Longrightarrow> copy_down m (to + n) (from + n) (int n) = Some (write_at to (read_at from n m) m)"
proof (induction n arbitrary: m)
  case 0
  then show ?case by (simp add: copy_down.simps)
next
  case (Suc n)
  let ?m = "m(to + n := m (from + n))"
  have "copy_down m (to + Suc n) (from + Suc n) (int (Suc n)) = copy_down ?m (to + n) (from + n) (int n)"
    by (subst copy_down.simps) simp
  also have "\<dots> = Some (write_at to (read_at from n ?m) ?m)"
    using Suc by blast
  also have "read_at from n ?m = read_at from n m"
    using Suc.prems by (intro read_at_cong) auto
  also have "write_at to (read_at from n m) ?m = write_at to (read_at from (Suc n) m) m"
    using read_at_append [of "from" n 1 m]
    by (simp add: write_at_snoc read_at_Suc) (rule ext, simp add: write_at_def)
  finally show ?case .
qed

lemma copy_up_eq:
  "to < from \<or> from + n \<le> to \<Longrightarrow> copy_up m to from (int n) = Some (write_at to (read_at from n m) m)"
proof (induction n arbitrary: m to "from")
  case 0
  then show ?case by (simp add: copy_up.simps)
next
  case (Suc n)
  let ?m = "m(to := m from)"
  have "copy_up m to from (int (Suc n)) = copy_up ?m (to + 1) (from + 1) (int n)"
    by (subst copy_up.simps) simp
  also have "\<dots> = Some (write_at (to + 1) (read_at (from + 1) n ?m) ?m)"
    using Suc.prems by (intro Suc.IH) auto
  also have "read_at (from + 1) n ?m = read_at (from + 1) n m"
    using Suc.prems by (intro read_at_cong) auto
  also have "write_at (to + 1) (read_at (from + 1) n m) ?m = write_at to (read_at from (Suc n) m) m"
    by (simp add: read_at_Suc write_at_Cons)
  finally show ?case .
qed

lemma grub_memmove_eq:
  assumes "0 \<le> len"
  shows "grub_memmove m to from len = Some (write_at to (read_at from (nat len) m) m)"
proof -
  obtain n where n: "len = int n" using assms nonneg_eq_int by blast
  consider "from = to" | "from < to" "from + n > to" | "to < from \<or> from + n \<le> to" by linarith
  then show ?thesis
  proof cases
    case 1
    have "write_at to (read_at to n m) m = m"
      by (rule ext) (auto simp: write_at_def)
    then show ?thesis using 1 n by (simp add: grub_memmove_def)
  next
    case 2
    then show ?thesis using copy_down_eq [of "from" to m n] n
      by (simp add: grub_memmove_def nat_int_add)
  next
    case 3
    then show ?thesis using copy_up_eq [of to "from" n m] n
      by (cases "from = to") (auto simp: grub_memmove_def copy_up.simps)
  qed
qed

lemma grub_memset_eq: "grub_memset m p c len = write_at p (replicate (nat len) c) m"
proof (induction m p c len rule: grub_memset.induct)
  case (1 m p c len)
  show ?case
  proof (cases "0 < len")
    case True
    then have "nat len = Suc (nat (len - 1))" by simp
    with 1 True show ?thesis by (subst grub_memset.simps) (simp add: write_at_Cons fun_upd_def)
  next
    case False
    then show ?thesis by (subst grub_memset.simps) simp
  qed
qed

lemma grub_memcmp_zero:
  "grub_memcmp m p q (int n) = Some 0 \<longleftrightarrow> read_at p n m = read_at q n m"
proof (induction n arbitrary: p q)
  case 0
  then show ?case by (simp add: grub_memcmp.simps)
next
  case (Suc n)
  show ?case
    using Suc [of "Suc p" "Suc q"] by (subst grub_memcmp.simps) (auto simp: read_at_Suc)
qed

section \<open>Correctness of the string routines\<close>

lemma strlen_loop_eq: "holds m p s \<Longrightarrow> strlen_loop m p n = Some (n + int (length s))"
  by (induction s arbitrary: p n) (simp_all add: strlen_loop.simps)

lemma grub_strlen_eq: "holds m p s \<Longrightarrow> grub_strlen m p = Some (int (length s))"
  by (simp add: grub_strlen_def strlen_loop_eq)

lemma grub_strcpy_eq: "holds m src s \<Longrightarrow> grub_strcpy m dest src = Some (write_at dest (s @ [0]) m)"
  by (simp add: grub_strcpy_def grub_strlen_eq grub_memmove_eq holds_read nat_add_distrib)

lemma grub_strcat_eq:
  assumes "holds m src1 s" "holds m src2 t"
    and "src2 + length t < dest \<or> dest + length s < src2"
  shows "grub_strcat m dest src1 src2 = Some (write_at dest (s @ t @ [0]) m)"
proof -
  let ?m = "write_at dest (s @ [0]) m"
  have "holds ?m src2 t = holds m src2 t"
    using assms(3) by (intro holds_cong) (auto intro!: write_at_outside)
  with assms have "grub_strcat m dest src1 src2 = Some (write_at (dest + length s) (t @ [0]) ?m)"
    by (simp add: grub_strcat_def grub_strlen_eq grub_strcpy_eq nat_int_add)
  also have "write_at (dest + length s) (t @ [0]) ?m = write_at dest (s @ t @ [0]) m"
    by (rule ext) (auto simp: write_at_def nth_append)
  finally show ?thesis .
qed

lemma strncpy_loop_eq:
  assumes "holds m (src + i) s" "dest + n \<le> src \<or> src + i + length s < dest + i" "i \<le> n"
  shows "strncpy_loop m dest src i n = write_at (dest + i) (take (n - i) (s @ [0])) m"
  using assms
proof (induction s arbitrary: i m)
  case Nil
  then show ?case
    by (subst strncpy_loop.simps) (auto simp: Let_def write_at_Cons)
next
  case (Cons c s)
  show ?case
  proof (cases "i < n")
    case False
    with Cons.prems show ?thesis by (subst strncpy_loop.simps) simp
  next
    case True
    let ?m = "m(dest + i := c)"
    have h: "holds ?m (src + Suc i) s = holds m (src + Suc i) s"
      using Cons.prems True by (intro holds_cong) auto
    have "strncpy_loop m dest src i n = strncpy_loop ?m dest src (Suc i) n"
      using Cons.prems True by (subst strncpy_loop.simps) (auto simp: Let_def fun_upd_def)
    also have "\<dots> = write_at (dest + Suc i) (take (n - Suc i) (s @ [0])) ?m"
      using Cons.prems True h by (intro Cons.IH) (auto simp: fun_upd_def)
    also have "\<dots> = write_at (dest + i) (take (n - i) ((c # s) @ [0])) m"
      using True by (simp add: Suc_diff_Suc [symmetric] write_at_Cons del: Suc_diff_Suc)
    finally show ?thesis .
  qed
qed

lemma grub_strncpy_eq:
  assumes "holds m src s" "dest + n \<le> src \<or> src + length s < dest"
  shows "grub_strncpy m dest src n = (write_at dest (take n (s @ [0])) m)(dest + n := 0)"
  using strncpy_loop_eq [of m src 0 s dest n] assms by (simp add: grub_strncpy_def)

text \<open>The order that \<open>grub_strcmp\<close> decides and the three answers of \<open>substring\<close>.\<close>

fun str_order :: "u8 list \<Rightarrow> u8 list \<Rightarrow> int" where
  "str_order [] [] = 0"
| "str_order [] (d # t) = - 1"
| "str_order (c # s) [] = 1"
| "str_order (c # s) (d # t) = (if c < d then - 1 else if d < c then 1 else str_order s t)"

fun str_prefix :: "u8 list \<Rightarrow> u8 list \<Rightarrow> int" where
  "str_prefix [] [] = 0"
| "str_prefix [] (d # t) = - 1"
| "str_prefix (c # s) [] = 1"
| "str_prefix (c # s) (d # t) = (if c = d then str_prefix s t else 1)"

lemma grub_strcmp_eq: "holds m p s \<Longrightarrow> holds m q t \<Longrightarrow> grub_strcmp m p q = Some (str_order s t)"
proof (induction s t arbitrary: p q rule: str_order.induct)
  case (4 c s d t)
  then show ?case by (subst grub_strcmp.simps) (auto simp: word_less_def)
qed (subst grub_strcmp.simps; simp)+

lemma substring_eq: "holds m p s \<Longrightarrow> holds m q t \<Longrightarrow> substring m p q = Some (str_prefix s t)"
  by (induction s t arbitrary: p q rule: str_prefix.induct) (subst substring.simps; auto)+

lemma str_order_zero: "str_order s t = 0 \<longleftrightarrow> s = t"
  by (induction s t rule: str_order.induct) auto

lemma str_prefix_iff: "str_prefix s t = 0 \<longleftrightarrow> s = t" "str_prefix s t \<le> 0 \<longleftrightarrow> take (length s) t = s"
  by (induction s t rule: str_prefix.induct) auto

section \<open>Properties\<close>

text \<open>C31: \<open>grub_memmove\<close> with a length that is not negative returns, the destination then holds the
  bytes that the source held before the call, whatever the overlap, and nothing else changes.\<close>

theorem memmove_copies:
  assumes "0 \<le> len"
  shows "\<exists>m'. grub_memmove m to from len = Some m' \<and>
    read_at to (nat len) m' = read_at from (nat len) m \<and>
    (\<forall>a. a < to \<or> to + nat len \<le> a \<longrightarrow> m' a = m a)"
  using read_write_same [of to "read_at from (nat len) m" m]
  by (simp add: grub_memmove_eq [OF assms] write_at_outside)

theorem memmove_copies_witness:
  "\<exists>m'. grub_memmove (of_bytes [1, 2, 3]) 1 0 2 = Some m' \<and>
    read_at 1 2 m' = read_at 0 2 (of_bytes [1, 2, 3]) \<and>
    (\<forall>a. a < 1 \<or> 1 + 2 \<le> a \<longrightarrow> m' a = of_bytes [1, 2, 3] a)"
  using memmove_copies [of 2 "of_bytes [1, 2, 3]" 1 0] by simp

text \<open>C32: \<open>grub_strcat\<close> builds the concatenation of its two source strings at the destination, as long
  as the second one does not overlap what it writes; comparing the result with any string \<open>t\<close> stored
  in the memory it leaves returns 0 exactly when \<open>t\<close> is that concatenation.\<close>

theorem strcat_then_strcmp:
  assumes "holds m src1 s1" "holds m src2 s2"
    and "src2 + length s2 < dest \<or> dest + length s1 < src2"
  shows "\<exists>m'. grub_strcat m dest src1 src2 = Some m' \<and> holds m' dest (s1 @ s2) \<and>
    (\<forall>p t. holds m' p t \<longrightarrow> (grub_strcmp m' dest p = Some 0 \<longleftrightarrow> t = s1 @ s2))"
proof -
  let ?m = "write_at dest ((s1 @ s2) @ [0]) m"
  have "holds ?m dest (s1 @ s2)"
    using assms(1,2) by (intro holds_write) (simp add: holds_cstr)
  then show ?thesis
    using grub_strcat_eq [OF assms] by (auto simp: grub_strcmp_eq str_order_zero)
qed

theorem strcat_then_strcmp_witness:
  "let m = of_bytes (bs ''boot'' @ [0] @ bs ''/ldr'' @ [0]) in
   \<exists>m'. grub_strcat m 20 0 5 = Some m' \<and> holds m' 20 (bs ''boot/ldr'') \<and>
     (\<forall>p t. holds m' p t \<longrightarrow> (grub_strcmp m' 20 p = Some 0 \<longleftrightarrow> t = bs ''boot/ldr''))"
  using strcat_then_strcmp
    [of "of_bytes (bs ''boot'' @ [0] @ bs ''/ldr'' @ [0])" 0 "bs ''boot''" 5 "bs ''/ldr''" 20]
  by (simp add: of_bytes_def write_at_def)

end
