(* ===== verification/Numbers.thy ===== *)
theory Numbers
  imports Libc
begin

text \<open>
  Numbers as text (\<open>loader/shared\<close>): parsing with \<open>safe_parse_maxint\<close> and \<open>grub_aton\<close>, printing with
  \<open>convert_to_ascii\<close>, \<open>grub_sprintf\<close>, \<open>grub_printf\<close> and \<open>ltoa\<close>.  The parsers walk forward over a string,
  so they take and return the list of remaining bytes.
\<close>

section \<open>Parsing\<close>

text \<open>The digit under the pointer, computed with the unsigned wrap-around the code relies on.\<close>

definition digit_of :: "int \<Rightarrow> u8 \<Rightarrow> int option" where
  "digit_of mult c =
     (let digit = (grub_tolower (uint c) - 48) mod 4294967296 in
      if digit > 9
      then let digit = (digit - 49) mod 4294967296 in
           if mult = 10 \<or> digit > 5 then None else Some (digit + 10)
      else Some digit)"

fun parse_loop :: "int \<Rightarrow> int \<Rightarrow> bool \<Rightarrow> u8 list \<Rightarrow> (int \<times> u8 list) option" where
  "parse_loop mult myint found [] = (if found then Some (myint, []) else None)"
| "parse_loop mult myint found (c # s) =
     (case digit_of mult c of
        None \<Rightarrow> if found then Some (myint, c # s) else None
      | Some digit \<Rightarrow>
          if myint > (MAXINT - digit) div mult then None
          else parse_loop mult (myint * mult + digit) True s)"

text \<open>\<open>None\<close> is the result 0, which leaves both arguments alone.\<close>

definition safe_parse_maxint :: "u8 list \<Rightarrow> (int \<times> u8 list) option" where
  "safe_parse_maxint s =
     (if cur s = ch CHR ''0'' \<and> grub_tolower (uint (cur (tl s))) = 120
      then parse_loop 16 0 False (tl (tl s))
      else parse_loop 10 0 False s)"

fun mult_loop :: "nat \<Rightarrow> int \<Rightarrow> int \<Rightarrow> int" where
  "mult_loop 0 k base = k"
| "mult_loop (Suc l) k base = mult_loop l (s32 (k * base)) base"

text \<open>\<open>None\<close> is the early \<open>return 0\<close> on a character that is not a digit of the base.\<close>

fun aton_loop :: "int \<Rightarrow> int \<Rightarrow> u8 list \<Rightarrow> int option" where
  "aton_loop base i [] = Some i"
| "aton_loop base i (h # s) =
     (let c = grub_tolower (uint h) in
      if 97 \<le> c \<and> c \<le> 102
      then if base = 16
           then aton_loop base (s32 (i + mult_loop (length s) (c - 97 + 10) base)) s
           else None
      else if 48 \<le> c \<and> c \<le> 57
      then aton_loop base (s32 (i + mult_loop (length s) (c - 48) base)) s
      else None)"

definition grub_aton :: "u8 list \<Rightarrow> int" where
  "grub_aton h =
     (let r = (if cur h = ch CHR ''0'' \<and> cur (tl h) = ch CHR ''x''
               then aton_loop 16 0 (tl (tl h)) else aton_loop 10 0 h)
      in case r of None \<Rightarrow> 0 | Some i \<Rightarrow> i)"

section \<open>Printing\<close>

definition digit_char :: "nat \<Rightarrow> u8" where
  "digit_char dig = of_nat (if dig > 9 then dig + 97 - 10 else 48 + dig)"

text \<open>The digits in the order the first loop of \<open>convert_to_ascii\<close> stores them: last one first.\<close>

function conv_digits :: "bool \<Rightarrow> nat \<Rightarrow> u8 list" where
  "conv_digits hex num =
     (let mult = (if hex then 16 else 10) in
      digit_char (num mod mult) #
      (if num div mult \<noteq> 0 then conv_digits hex (num div mult) else []))"
  by pat_completeness auto
termination
  by (relation "measure snd") (auto split: if_splits)

declare conv_digits.simps [simp del]

text \<open>The second loop swaps the digits from both ends.\<close>

function reorder :: "u8 list \<Rightarrow> nat \<Rightarrow> nat \<Rightarrow> u8 list" where
  "reorder xs lo hi =
     (if lo < hi then reorder (xs[hi := xs ! lo, lo := xs ! hi]) (lo + 1) (hi - 1) else xs)"
  by pat_completeness auto
termination
  by (relation "measure (\<lambda>(xs, lo, hi). hi - lo)") auto

declare reorder.simps [simp del]

definition convert_to_ascii :: "u8 \<Rightarrow> u32 \<Rightarrow> u8 list" where
  "convert_to_ascii c num =
     (let hex = (c = ch CHR ''x'' \<or> c = ch CHR ''X'');
          neg = (num AND 0x80000000 \<noteq> 0 \<and> c = ch CHR ''d'');
          ds = conv_digits hex (unat (if neg then NOT num + 1 else num))
      in (if neg then [ch CHR ''-''] else []) @ reorder ds 0 (length ds - 1))"

text \<open>
  The arguments behind the format string.  Reading past them, or reading a string as a number
  and the reverse, is not defined by the code: \<open>None\<close>.
\<close>

datatype fmt_arg = Num u32 | Str "u8 list"

fun grub_sprintf :: "u8 list \<Rightarrow> fmt_arg list \<Rightarrow> u8 list option" where
  "grub_sprintf [] args = Some []"
| "grub_sprintf (c # fmt) args =
     (if c \<noteq> ch CHR ''%'' then map_option ((#) c) (grub_sprintf fmt args)
      else case fmt of
        [] \<Rightarrow> None
      | k # fmt' \<Rightarrow>
          if k = ch CHR ''d'' \<or> k = ch CHR ''u'' \<or> k = ch CHR ''x''
          then (case args of Num n # as \<Rightarrow> map_option ((@) (convert_to_ascii k n)) (grub_sprintf fmt' as)
                | _ \<Rightarrow> None)
          else if k = ch CHR ''c''
          then (case args of Num n # as \<Rightarrow> map_option ((#) (ucast (n AND 0xff))) (grub_sprintf fmt' as)
                | _ \<Rightarrow> None)
          else if k = ch CHR ''s''
          then (case args of Str s # as \<Rightarrow> map_option ((@) s) (grub_sprintf fmt' as) | _ \<Rightarrow> None)
          else grub_sprintf fmt' args)"

text \<open>\<open>grub_printf\<close> gives the characters it sends to \<open>grub_putchar\<close>; it also knows \<open>%X\<close>.\<close>

fun grub_printf :: "u8 list \<Rightarrow> fmt_arg list \<Rightarrow> u8 list option" where
  "grub_printf [] args = Some []"
| "grub_printf (c # fmt) args =
     (if c \<noteq> ch CHR ''%'' then map_option ((#) c) (grub_printf fmt args)
      else case fmt of
        [] \<Rightarrow> None
      | k # fmt' \<Rightarrow>
          if k = ch CHR ''d'' \<or> k = ch CHR ''x'' \<or> k = ch CHR ''X'' \<or> k = ch CHR ''u''
          then (case args of Num n # as \<Rightarrow> map_option ((@) (convert_to_ascii k n)) (grub_printf fmt' as)
                | _ \<Rightarrow> None)
          else if k = ch CHR ''c''
          then (case args of Num n # as \<Rightarrow> map_option ((#) (ucast (n AND 0xff))) (grub_printf fmt' as)
                | _ \<Rightarrow> None)
          else if k = ch CHR ''s''
          then (case args of Str s # as \<Rightarrow> map_option ((@) s) (grub_printf fmt' as) | _ \<Rightarrow> None)
          else grub_printf fmt' args)"

text \<open>\<open>ltoa\<close>: \<open>while (--l) buf[l] = buf[l - 1]\<close>, then the conversion loop over memory.\<close>

fun shift_forth :: "mem \<Rightarrow> nat \<Rightarrow> nat \<Rightarrow> mem" where
  "shift_forth m buf 0 = m"
| "shift_forth m buf (Suc l) = shift_forth (m(buf + Suc l := m (buf + l))) buf l"

partial_function (option) ltoa_loop :: "mem \<Rightarrow> nat \<Rightarrow> int \<Rightarrow> int \<Rightarrow> nat \<Rightarrow> mem option" where
  "ltoa_loop m buf n radix i =
     (let d = n smod radix;
          n' = n sdiv radix;
          c = (if d \<le> 10 then word_of_int (48 + d) else word_of_int (97 + d));
          m' = (shift_forth m buf i)(buf := c)
      in if n' \<noteq> 0 then ltoa_loop m' buf n' radix (i + 1) else Some m')"

definition ltoa :: "mem \<Rightarrow> int \<Rightarrow> nat \<Rightarrow> int \<Rightarrow> mem option" where
  "ltoa m n buf radix = ltoa_loop (grub_memset m buf 0 4) buf n radix 0"

section \<open>The parser computes the value of the longest run of digits\<close>

definition digits_prefix :: "int \<Rightarrow> u8 list \<Rightarrow> int list" where
  "digits_prefix mult s = map (\<lambda>c. the (digit_of mult c)) (takeWhile (\<lambda>c. digit_of mult c \<noteq> None) s)"

definition digits_value :: "int \<Rightarrow> int \<Rightarrow> int list \<Rightarrow> int" where
  "digits_value mult v ds = foldl (\<lambda>v d. v * mult + d) v ds"

lemma digits_prefix_simps [simp]:
  "digits_prefix mult [] = []"
  "digits_prefix mult (c # s) =
     (case digit_of mult c of None \<Rightarrow> [] | Some d \<Rightarrow> d # digits_prefix mult s)"
  by (simp_all add: digits_prefix_def split: option.splits)

lemma digits_value_simps [simp]:
  "digits_value mult v [] = v" "digits_value mult v (d # ds) = digits_value mult (v * mult + d) ds"
  "digits_value mult v (ds @ es) = digits_value mult (digits_value mult v ds) es"
  by (simp_all add: digits_value_def)

lemma digit_of_range:
  assumes "digit_of mult c = Some d" "mult = 10 \<or> mult = 16"
  shows "0 \<le> d \<and> d < mult"
proof -
  have "0 \<le> x mod 4294967296" for x :: int by simp
  with assms show ?thesis
    by (auto simp: digit_of_def Let_def split: if_splits)
qed

lemma digits_prefix_range:
  "mult = 10 \<or> mult = 16 \<Longrightarrow> d \<in> set (digits_prefix mult s) \<Longrightarrow> 0 \<le> d \<and> d < mult"
  by (induction s) (auto simp: digit_of_range split: option.splits dest: digit_of_range [OF sym])

lemma digits_value_mono:
  assumes "1 \<le> mult" "\<And>d. d \<in> set ds \<Longrightarrow> 0 \<le> d" "0 \<le> v"
  shows "v \<le> digits_value mult v ds"
  using assms(2,3)
proof (induction ds arbitrary: v)
  case Nil
  then show ?case by simp
next
  case (Cons d ds)
  have "v * 1 \<le> v * mult" using Cons.prems assms(1) by (intro mult_left_mono) auto
  with Cons.prems have "v \<le> v * mult + d" by (auto simp: add_increasing2)
  moreover have "v * mult + d \<le> digits_value mult (v * mult + d) ds"
    using Cons calculation by auto
  ultimately show ?case by simp
qed

lemma overflow_check:
  assumes "mult = 10 \<or> mult = 16"
  shows "myint > (MAXINT - digit) div mult \<longleftrightarrow> myint * mult + digit > MAXINT"
proof -
  have "(b::int) div 10 < a \<longleftrightarrow> b < a * 10" "b div 16 < a \<longleftrightarrow> b < a * 16" for a b
    by linarith+
  with assms show ?thesis by (elim disjE) (simp_all add: algebra_simps)
qed

lemma parse_loop_spec:
  assumes m: "mult = 10 \<or> mult = 16" and "0 \<le> v" "v \<le> MAXINT"
  shows "parse_loop mult v found s =
     (let ds = digits_prefix mult s; r = digits_value mult v ds in
      if ds = [] \<and> \<not> found \<or> r > MAXINT then None else Some (r, drop (length ds) s))"
  using assms(2,3)
proof (induction s arbitrary: v found)
  case Nil
  then show ?case by (simp add: Let_def)
next
  case (Cons c s)
  show ?case
  proof (cases "digit_of mult c")
    case None
    with Cons.prems show ?thesis by (simp add: Let_def)
  next
    case (Some d)
    with m have d: "0 \<le> d" by (blast dest: digit_of_range)
    let ?v = "v * mult + d"
    have "0 \<le> ?v" using m d Cons.prems by auto
    moreover have "?v \<le> digits_value mult ?v (digits_prefix mult s)"
      using m digits_prefix_range [OF m] calculation by (intro digits_value_mono) auto
    ultimately show ?thesis
      using Some m Cons.IH [of ?v True] by (auto simp: Let_def overflow_check)
  qed
qed

text \<open>The prefix \<open>0x\<close> selects base 16.\<close>

definition number_base :: "u8 list \<Rightarrow> int \<times> u8 list" where
  "number_base s =
     (if cur s = ch CHR ''0'' \<and> grub_tolower (uint (cur (tl s))) = 120 then (16, tl (tl s)) else (10, s))"

lemma safe_parse_maxint_spec:
  "safe_parse_maxint s =
     (let (mult, t) = number_base s; ds = digits_prefix mult t; r = digits_value mult 0 ds in
      if ds = [] \<or> r > MAXINT then None else Some (r, drop (length ds) t))"
  by (simp add: safe_parse_maxint_def number_base_def parse_loop_spec Let_def)

lemma safe_parse_maxint_range: "safe_parse_maxint s = Some (v, t) \<Longrightarrow> 0 \<le> v \<and> v \<le> MAXINT"
proof -
  assume a: "safe_parse_maxint s = Some (v, t)"
  obtain mult t' where b: "number_base s = (mult, t')" by fastforce
  then have m: "mult = 10 \<or> mult = 16"
    by (auto simp: number_base_def split: if_splits)
  have "0 \<le> digits_value mult 0 (digits_prefix mult t')"
    using m digits_prefix_range [OF m] by (intro digits_value_mono) auto
  with a b show ?thesis
    by (auto simp: safe_parse_maxint_spec Let_def split: if_splits)
qed

section \<open>The printer writes the digits of the number\<close>

fun num_digits :: "nat \<Rightarrow> nat \<Rightarrow> nat list" where
  "num_digits b n = (if n < b \<or> b < 2 then [n] else num_digits b (n div b) @ [n mod b])"

declare num_digits.simps [simp del]

lemma num_digits_not_Nil [simp]: "num_digits b n \<noteq> []"
  by (subst num_digits.simps) simp

lemma num_digits_less: "2 \<le> b \<Longrightarrow> d \<in> set (num_digits b n) \<Longrightarrow> d < b"
  by (induction b n rule: num_digits.induct) (subst (asm) (2) num_digits.simps, auto split: if_splits)

lemma num_digits_value: "2 \<le> b \<Longrightarrow> digits_value (int b) 0 (map int (num_digits b n)) = int n"
proof (induction b n rule: num_digits.induct)
  case (1 b n)
  show ?case
  proof (cases "n < b")
    case True
    then show ?thesis by (subst num_digits.simps) simp
  next
    case False
    have "int (n div b) * int b + int (n mod b) = int n"
      by (simp flip: of_nat_mult of_nat_add)
    with 1 False show ?thesis by (subst num_digits.simps) simp
  qed
qed

lemma num_digits_hd: "2 \<le> b \<Longrightarrow> hd (num_digits b n) = 0 \<longleftrightarrow> n = 0"
proof (induction b n rule: num_digits.induct)
  case (1 b n)
  show ?case
  proof (cases "n < b")
    case True
    then show ?thesis by (subst num_digits.simps) simp
  next
    case False
    then have "n div b \<noteq> 0" using "1.prems" by (simp add: div_eq_0_iff)
    with 1 False show ?thesis by (subst num_digits.simps) simp
  qed
qed

lemma conv_digits_eq: "conv_digits hex n = rev (map digit_char (num_digits (if hex then 16 else 10) n))"
proof (induction hex n rule: conv_digits.induct)
  case (1 hex n)
  show ?case
    using 1 by (subst conv_digits.simps, subst num_digits.simps) (auto simp: Let_def div_eq_0_iff)
qed

lemma length_reorder [simp]: "length (reorder xs lo hi) = length xs"
proof (induction xs lo hi rule: reorder.induct)
  case (1 xs lo hi)
  then show ?case by (subst reorder.simps) simp
qed

lemma reorder_nth:
  "hi < length xs \<Longrightarrow> lo \<le> Suc hi \<Longrightarrow> i < length xs \<Longrightarrow>
   reorder xs lo hi ! i = (if lo \<le> i \<and> i \<le> hi then xs ! (lo + hi - i) else xs ! i)"
proof (induction xs lo hi rule: reorder.induct)
  case (1 xs lo hi)
  show ?case
  proof (cases "lo < hi")
    case False
    with "1.prems" have "lo \<le> i \<and> i \<le> hi \<Longrightarrow> lo + hi - i = i" by auto
    with False show ?thesis by (subst reorder.simps) auto
  next
    case True
    with 1 show ?thesis
      by (subst reorder.simps) (auto simp: nth_list_update)
  qed
qed

lemma reorder_rev: "reorder xs 0 (length xs - 1) = rev xs"
proof (cases "xs = []")
  case True
  then show ?thesis by (simp add: reorder.simps)
next
  case False
  then show ?thesis
    by (intro nth_equalityI) (auto simp: rev_nth reorder_nth)
qed

lemma reorder_conv_digits:
  "reorder (conv_digits hex n) 0 (length (conv_digits hex n) - Suc 0) =
    map digit_char (num_digits (if hex then 16 else 10) n)"
  using reorder_rev [of "conv_digits hex n"] by (simp add: conv_digits_eq)

lemma top_bit_clear:
  assumes "uint (n :: u32) < 2147483648"
  shows "n AND 0x80000000 = 0"
proof -
  have "uint n div 2 ^ 31 = 0" using assms by (simp add: div_eq_0_iff)
  then have "\<not> bit (uint n) 31" by (simp add: bit_iff_odd)
  then have "\<not> bit n 31" by (simp add: bit_uint_iff)
  then have "n AND 2 ^ 31 = 0" using and_exp_eq_0_iff_not_bit [of n 31] by blast
  then show ?thesis by simp
qed

lemma convert_to_ascii_eq:
  assumes "c = ch CHR ''d'' \<longrightarrow> uint n < 2147483648"
  shows "convert_to_ascii c n =
    map digit_char (num_digits (if c = ch CHR ''x'' \<or> c = ch CHR ''X'' then 16 else 10) (unat n))"
proof -
  have "c = ch CHR ''d'' \<Longrightarrow> n AND 0x80000000 = 0"
    using assms top_bit_clear by blast
  then show ?thesis
    by (auto simp: convert_to_ascii_def Let_def reorder_conv_digits)
qed

section \<open>Printing and parsing back\<close>

lemma digit_of_digit_char:
  assumes "mult = 10 \<or> mult = 16" "int d < mult"
  shows "digit_of mult (digit_char d) = Some (int d)"
proof -
  have "d \<in> set [0..<16]" using assms by auto
  then have "d \<in> {0,1,2,3,4,5,6,7,8,9,10,11,12,13,14,15}"
    by (simp add: upt_rec insert_commute numeral_eq_Suc)
  then show ?thesis using assms
    by (elim insertE disjE) (simp_all add: digit_of_def digit_char_def grub_tolower_def)
qed

lemma digits_prefix_digit_chars:
  assumes "mult = 10 \<or> mult = 16" "\<And>d. d \<in> set ds \<Longrightarrow> int d < mult" "digit_of mult (cur rest) = None"
  shows "digits_prefix mult (map digit_char ds @ rest) = map int ds"
  using assms(2)
proof (induction ds)
  case Nil
  then show ?case using assms(3) by (cases rest) auto
next
  case (Cons d ds)
  then show ?case using assms(1) by (simp add: digit_of_digit_char)
qed

lemma parse_digits:
  assumes "hex = (mult = 16)" "mult = 10 \<or> mult = 16" "int n \<le> MAXINT" "digit_of mult (cur rest) = None"
  shows "parse_loop mult 0 False (map digit_char (num_digits (nat mult) n) @ rest) = Some (int n, rest)"
proof -
  have b: "2 \<le> nat mult" "int (nat mult) = mult" using assms(2) by auto
  have "digits_prefix mult (map digit_char (num_digits (nat mult) n) @ rest) = map int (num_digits (nat mult) n)"
    using assms b num_digits_less [OF b(1), of _ n] by (intro digits_prefix_digit_chars) force+
  moreover have "digits_value mult 0 (map int (num_digits (nat mult) n)) = int n"
    using num_digits_value [OF b(1)] b(2) by simp
  ultimately show ?thesis
    using assms by (simp add: parse_loop_spec Let_def)
qed

lemma digit_char_hd_zero: "d < 10 \<Longrightarrow> digit_char d = ch CHR ''0'' \<longleftrightarrow> d = 0"
proof -
  assume "d < 10"
  then have "d \<in> {0,1,2,3,4,5,6,7,8,9}" by auto
  then show ?thesis by (elim insertE) (simp_all add: digit_char_def)
qed

lemma print_parse_decimal:
  assumes "uint n \<le> MAXINT" "digit_of 10 (cur rest) = None"
    and "n = 0 \<Longrightarrow> grub_tolower (uint (cur rest)) \<noteq> 120"
  shows "safe_parse_maxint (convert_to_ascii (ch CHR ''d'') n @ rest) = Some (uint n, rest)"
proof -
  let ?ds = "num_digits 10 (unat n)"
  have c: "convert_to_ascii (ch CHR ''d'') n = map digit_char ?ds"
    using assms(1) by (simp add: convert_to_ascii_eq)
  obtain d ds where ds: "?ds = d # ds" by (cases ?ds) auto
  have d: "d < 10" using num_digits_less [of 10 d "unat n"] ds by simp
  have "digit_char d = ch CHR ''0'' \<longleftrightarrow> n = 0"
    using digit_char_hd_zero [OF d] num_digits_hd [of 10 "unat n"] ds by (simp add: unat_eq_zero)
  moreover have "n = 0 \<Longrightarrow> ds = []"
    using ds by (simp add: num_digits.simps)
  ultimately have "number_base (convert_to_ascii (ch CHR ''d'') n @ rest) = (10, map digit_char ?ds @ rest)"
    using assms(3) c ds by (auto simp: number_base_def)
  then show ?thesis
    using parse_digits [of False 10 "unat n" rest] assms c
    by (auto simp: safe_parse_maxint_def number_base_def split: if_splits)
qed

lemma print_parse_hex:
  assumes "uint n \<le> MAXINT" "digit_of 16 (cur rest) = None"
  shows "safe_parse_maxint (bs ''0x'' @ convert_to_ascii (ch CHR ''x'') n @ rest) = Some (uint n, rest)"
  using parse_digits [of True 16 "unat n" rest] assms
  by (simp add: safe_parse_maxint_def convert_to_ascii_eq grub_tolower_def)

section \<open>\<open>ltoa\<close> and \<open>grub_aton\<close>\<close>

lemma shift_forth_eq: "shift_forth m buf n = write_at (Suc buf) (read_at buf n m) m"
proof (induction n arbitrary: m)
  case 0
  then show ?case by simp
next
  case (Suc n)
  let ?m = "m(buf + Suc n := m (buf + n))"
  have r: "read_at buf n ?m = read_at buf n m"
    by (rule read_at_cong) auto
  have "shift_forth m buf (Suc n) = write_at (Suc buf) (read_at buf n m) ?m"
    using Suc [of ?m] r by (simp del: fun_upd_apply)
  also have "\<dots> = write_at (Suc buf) (read_at buf (Suc n) m) m"
    using read_at_append [of buf n 1 m]
    by (simp add: write_at_snoc read_at_Suc) (rule ext, simp add: write_at_def)
  finally show ?case .
qed

lemma shift_push: "(shift_forth (write_at buf ds m) buf (length ds))(buf := c) = write_at buf (c # ds) m"
  unfolding shift_forth_eq read_write_same
proof (rule ext)
  fix i
  show "((write_at (Suc buf) ds (write_at buf ds m))(buf := c)) i = write_at buf (c # ds) m i"
  proof (cases "i \<le> buf")
    case True
    then show ?thesis by (auto simp: write_at_def)
  next
    case False
    then obtain k where "i = Suc buf + k" using le_Suc_ex [of "Suc buf" i] by auto
    then show ?thesis by (auto simp: write_at_def)
  qed
qed

lemma ltoa_loop_eq:
  "ltoa_loop (write_at buf ds m) buf (int n) 10 (length ds) =
   Some (write_at buf (map digit_char (num_digits 10 n) @ ds) m)"
proof (induction "10::nat" n arbitrary: ds rule: num_digits.induct)
  case (1 n)
  let ?c = "digit_char (n mod 10)"
  have "int n smod 10 = int (n mod 10)" "int n sdiv 10 = int (n div 10)"
    by (simp_all add: smod_nonneg sdiv_nonneg zmod_int zdiv_int)
  moreover have "48 + word_of_nat k = digit_char k" if "k < 10" for k
    using that by (simp add: digit_char_def)
  ultimately have u: "ltoa_loop (write_at buf ds m) buf (int n) 10 (length ds) =
      (if n div 10 \<noteq> 0
       then ltoa_loop (write_at buf (?c # ds) m) buf (int (n div 10)) 10 (length (?c # ds))
       else Some (write_at buf (?c # ds) m))"
    by (subst ltoa_loop.simps) (simp add: Let_def shift_push div_eq_0_iff)
  show ?case
  proof (cases "n < 10")
    case True
    then show ?thesis using u by (simp add: num_digits.simps)
  next
    case False
    then have "ltoa_loop (write_at buf (?c # ds) m) buf (int (n div 10)) 10 (length (?c # ds)) =
        Some (write_at buf (map digit_char (num_digits 10 (n div 10)) @ ?c # ds) m)"
      by (intro "1.hyps") auto
    with u False show ?thesis
      by (simp add: num_digits.simps [of 10 n] div_eq_0_iff)
  qed
qed

lemma ltoa_eq:
  "ltoa m (int n) buf 10 = Some (write_at buf (map digit_char (num_digits 10 n)) (write_at buf [0,0,0,0] m))"
  using ltoa_loop_eq [of buf "[]" "write_at buf [0,0,0,0] m" n]
  by (simp add: ltoa_def grub_memset_eq numeral_eq_Suc)

lemma digits_value_acc: "digits_value b v ds = v * b ^ length ds + digits_value b 0 ds"
proof (induction ds arbitrary: v)
  case Nil
  then show ?case by simp
next
  case (Cons d ds)
  have "digits_value b v (d # ds) = (v * b + d) * b ^ length ds + digits_value b 0 ds"
    using Cons [of "v * b + d"] by simp
  also have "\<dots> = v * b ^ length (d # ds) + digits_value b 0 (d # ds)"
    using Cons [of d] by (simp add: algebra_simps)
  finally show ?case .
qed

lemma mult_loop_eq: "s32 (mult_loop l k b) = s32 (k * b ^ l)"
proof (induction l arbitrary: k)
  case 0
  then show ?case by simp
next
  case (Suc l)
  have "s32 (mult_loop (Suc l) k b) = s32 (s32 (k * b) * b ^ l)" using Suc by simp
  also have "\<dots> = s32 (k * b ^ Suc l)" by (simp add: mult.assoc)
  finally show ?case .
qed

lemma aton_loop_eq:
  assumes "\<And>d. d \<in> set ds \<Longrightarrow> d < 10" "s32 i = i"
  shows "aton_loop 10 i (map digit_char ds) = Some (s32 (i + digits_value 10 0 (map int ds)))"
  using assms
proof (induction ds arbitrary: i)
  case Nil
  then show ?case by simp
next
  case (Cons d ds)
  have "d \<in> {0,1,2,3,4,5,6,7,8,9}" using Cons.prems(1) [of d] by auto
  then have c: "grub_tolower (uint (digit_char d)) = 48 + int d"
    by (elim insertE) (simp_all add: digit_char_def grub_tolower_def)
  let ?k = "mult_loop (length ds) (int d) 10"
  have "aton_loop 10 i (map digit_char (d # ds)) = aton_loop 10 (s32 (i + ?k)) (map digit_char ds)"
    using c Cons.prems(1) [of d] by simp
  also have "\<dots> = Some (s32 (s32 (i + ?k) + digits_value 10 0 (map int ds)))"
    using Cons by (intro Cons.IH) auto
  also have "s32 (i + ?k) = s32 (i + s32 ?k)" by simp
  also have "s32 ?k = s32 (int d * 10 ^ length ds)" by (rule mult_loop_eq)
  finally show ?case
    by (simp add: digits_value_acc [of 10 "int d"] add.assoc)
qed

lemma digits_no_prefix:
  assumes "\<And>d. d \<in> set ds \<Longrightarrow> d < 10"
  shows "\<not> (cur (map digit_char ds) = ch CHR ''0'' \<and> cur (tl (map digit_char ds)) = ch CHR ''x'')"
proof -
  have "digit_char d \<noteq> ch CHR ''x''" if "d < 10" for d
  proof -
    from that have "d \<in> {0,1,2,3,4,5,6,7,8,9}" by auto
    then show ?thesis by (elim insertE) (simp_all add: digit_char_def)
  qed
  then show ?thesis
    using assms by (cases ds; cases "tl ds") auto
qed

lemma num_digits_count:
  assumes "n < 10 ^ k" "0 < k" "k = 1 \<or> 10 ^ (k - 1) \<le> n"
  shows "length (num_digits 10 n) = k"
  using assms
proof (induction k arbitrary: n)
  case 0
  then show ?case by simp
next
  case (Suc k)
  show ?case
  proof (cases "n < 10")
    case True
    moreover have "k = 0"
    proof (rule ccontr)
      assume "k \<noteq> 0"
      then have "10 ^ 1 \<le> (10 :: nat) ^ k" by (intro power_increasing) simp_all
      then show False using Suc.prems(3) True \<open>k \<noteq> 0\<close> by simp
    qed
    ultimately show ?thesis by (simp add: num_digits.simps)
  next
    case False
    then have "k \<noteq> 0" using Suc.prems(1) by (cases k) auto
    moreover from this have "10 ^ k \<le> n" using Suc.prems(3) by simp
    then have "10 ^ k div 10 \<le> n div 10" by (rule div_le_mono)
    then have "10 ^ (k - 1) \<le> n div 10" using \<open>k \<noteq> 0\<close> by (cases k) simp_all
    moreover have "n div 10 < 10 ^ k" using Suc.prems(1) by (simp add: less_mult_imp_div_less mult.commute)
    ultimately have "length (num_digits 10 (n div 10)) = k" using Suc.IH by simp
    then show ?thesis using False by (simp add: num_digits.simps [of 10 n])
  qed
qed

lemma digit_char_bounds: "d < 10 \<Longrightarrow> 48 \<le> digit_char d \<and> digit_char d \<le> 57"
proof -
  assume "d < 10"
  then have "d \<in> {0,1,2,3,4,5,6,7,8,9}" by auto
  then show ?thesis by (elim insertE) (simp_all add: digit_char_def)
qed

section \<open>Properties\<close>

text \<open>C33: \<open>safe_parse_maxint\<close> reads the longest run of digits of the base that the prefix selects: it
  fails exactly when there is no digit or the value exceeds \<open>MAXINT\<close>, and otherwise returns the value
  and leaves the pointer on the first character that is not a digit.\<close>

theorem safe_parse_maxint_correct:
  "safe_parse_maxint s =
     (let (mult, t) = number_base s; ds = digits_prefix mult t; r = digits_value mult 0 ds in
      if ds = [] \<or> r > MAXINT then None else Some (r, drop (length ds) t))"
  by (rule safe_parse_maxint_spec)

text \<open>C34: a number that \<open>convert_to_ascii\<close> printed, in decimal or behind \<open>0x\<close> in hexadecimal, is read
  back by \<open>safe_parse_maxint\<close>, which stops right behind it.\<close>

theorem print_parse_roundtrip:
  assumes "uint n \<le> MAXINT" "digit_of 16 (cur rest) = None" "grub_tolower (uint (cur rest)) \<noteq> 120"
  shows "safe_parse_maxint (convert_to_ascii (ch CHR ''d'') n @ rest) = Some (uint n, rest) \<and>
    safe_parse_maxint (bs ''0x'' @ convert_to_ascii (ch CHR ''x'') n @ rest) = Some (uint n, rest)"
proof -
  have "digit_of 10 (cur rest) = None"
    using assms(2) by (auto simp: digit_of_def Let_def split: if_splits)
  then show ?thesis
    using print_parse_decimal [of n rest] print_parse_hex [of n rest] assms by blast
qed

theorem print_parse_roundtrip_witness:
  "safe_parse_maxint (convert_to_ascii (ch CHR ''d'') 640 @ bs '',0'') = Some (640, bs '',0'')"
  using print_parse_roundtrip [of 640 "bs '',0''"]
  by (simp add: digit_of_def grub_tolower_def)

text \<open>C35: for a number of \<open>k\<close> decimal digits that is not negative, \<open>ltoa\<close> in base 10 writes exactly \<open>k\<close> digits that
  \<open>grub_aton\<close> reads back to the number, and changes nothing else but the four bytes it clears.  Four bytes are cleared
  because \<open>sizeof(buf)\<close> is the size of a pointer: the digits are a terminated string if and only if there are at most three
  of them or the byte behind them was 0 before.\<close>

theorem ltoa_aton_roundtrip:
  assumes "n < 10 ^ k" "0 < k" "k = 1 \<or> 10 ^ (k - 1) \<le> n" "n \<le> 2147483647"
  shows "\<exists>m' str. ltoa m (int n) buf 10 = Some m' \<and> read_at buf k m' = str \<and>
    (\<forall>c\<in>set str. 48 \<le> c \<and> c \<le> 57) \<and> grub_aton str = int n \<and>
    (holds m' buf str \<longleftrightarrow> k \<le> 3 \<or> m (buf + k) = 0) \<and>
    (\<forall>a. a < buf \<or> buf + max 4 k \<le> a \<longrightarrow> m' a = m a)"
proof -
  let ?ds = "num_digits 10 n"
  let ?str = "map digit_char ?ds"
  let ?m' = "write_at buf ?str (write_at buf [0,0,0,0] m)"
  have len: "length ?ds = k" by (rule num_digits_count [OF assms(1-3)])
  have less: "d \<in> set ?ds \<Longrightarrow> d < 10" for d by (rule num_digits_less) auto
  then have "\<not> (cur ?str = ch CHR ''0'' \<and> cur (tl ?str) = ch CHR ''x'')" by (rule digits_no_prefix)
  moreover have "aton_loop 10 0 ?str = Some (int n)"
    using aton_loop_eq [of ?ds 0] less num_digits_value [of 10 n] assms(4) by simp
  ultimately have at: "grub_aton ?str = int n" unfolding grub_aton_def Let_def by (simp only: if_False option.case)
  have r: "read_at buf k ?m' = ?str" using read_write_same [of buf ?str] len by simp
  have dg: "\<forall>c\<in>set ?str. 48 \<le> c \<and> c \<le> 57" using less digit_char_bounds by auto
  have "cstr ?str" using dg by (auto simp: cstr_def)
  moreover have "?m' (buf + k) = (if k \<le> 3 then 0 else m (buf + k))"
    using len by (auto simp: write_at_outside write_at_def numeral_eq_Suc less_Suc_eq nth_Cons split: nat.split)
  ultimately have "holds ?m' buf ?str \<longleftrightarrow> k \<le> 3 \<or> m (buf + k) = 0"
    using r len read_at_append [of buf k 1 ?m'] by (simp add: holds_read read_at_Suc)
  then show ?thesis
    using r dg at len by (intro exI [of _ ?m'] exI [of _ ?str]) (simp add: ltoa_eq write_at_outside)
qed

theorem ltoa_aton_roundtrip_witness:
  "(\<exists>m' str. ltoa (\<lambda>_. 9) 640 7 10 = Some m' \<and> holds m' 7 str \<and> length str = 3 \<and> grub_aton str = 640 \<and> m' 11 = 9) \<and>
   (\<exists>m' str. ltoa (\<lambda>_. 9) 4096 7 10 = Some m' \<and> read_at 7 4 m' = str \<and> grub_aton str = 4096 \<and> \<not> holds m' 7 str)"
proof
  obtain m' str where "ltoa (\<lambda>_. 9) 640 7 10 = Some m'" "read_at 7 3 m' = str" "grub_aton str = 640" "holds m' 7 str" "m' 11 = 9"
    using ltoa_aton_roundtrip [of 640 3 "\<lambda>_. 9" 7] by auto
  then show "\<exists>m' str. ltoa (\<lambda>_. 9) 640 7 10 = Some m' \<and> holds m' 7 str \<and> length str = 3 \<and> grub_aton str = 640 \<and> m' 11 = 9"
    by auto
  show "\<exists>m' str. ltoa (\<lambda>_. 9) 4096 7 10 = Some m' \<and> read_at 7 4 m' = str \<and> grub_aton str = 4096 \<and> \<not> holds m' 7 str"
    using ltoa_aton_roundtrip [of 4096 4 "\<lambda>_. 9" 7] by auto
qed
end
