(* ===== verification/BlockDevice.thy ===== *)
theory BlockDevice
  imports Prelude
begin

text \<open>
  The interface between the sector transfers of \<open>bios.c\<close> and the disk access of \<open>dskaccess.c\<close>:
  the drive geometry both share, and what a transfer routine promises to its client.
\<close>

section \<open>Drive geometry\<close>

record geometry =
  cylinders :: u32
  heads :: u32
  sectors :: u32
  total_sectors :: u32
  sector_size :: u32
  flags :: u32

abbreviation (input) BIOSDISK_READ :: int where "BIOSDISK_READ \<equiv> 0"
abbreviation (input) BIOSDISK_WRITE :: int where "BIOSDISK_WRITE \<equiv> 1"
abbreviation (input) BIOSDISK_ERROR_GEOMETRY :: int where "BIOSDISK_ERROR_GEOMETRY \<equiv> 256"
abbreviation (input) BIOSDISK_FLAG_LBA_EXTENSION :: u32 where "BIOSDISK_FLAG_LBA_EXTENSION \<equiv> 1"
abbreviation (input) BIOSDISK_FLAG_CDROM :: u32 where "BIOSDISK_FLAG_CDROM \<equiv> 2"
abbreviation (input) SECTOR_SIZE :: int where "SECTOR_SIZE \<equiv> 512"


text \<open>The length of the track buffer, in \<open>loader/include/fsd.h\<close>.\<close>

abbreviation (input) BUFFERLEN :: int where "BUFFERLEN \<equiv> 3584"

text \<open>
  The sectors of a virtual track: as many sectors of a track as fit into the track buffer
  (\<open>rawread\<close> of \<open>dskaccess.c\<close>; a sector has \<open>2 ^ b\<close> bytes).
\<close>

definition vtrack :: "geometry \<Rightarrow> nat \<Rightarrow> int" where
  "vtrack g b =
     (if push_bit b (sectors g) > c_ulong BUFFERLEN then drop_bit b BUFFERLEN else c_int (sectors g))"

text \<open>
  A geometry that the code can work with: a sector of \<open>2 ^ b\<close> bytes that fits into the track
  buffer, at least one sector per track, sector numbers that fit into an \<open>int\<close>.
\<close>

definition geom_sane :: "geometry \<Rightarrow> nat \<Rightarrow> bool" where
  "geom_sane g b \<longleftrightarrow> uint (sector_size g) = 2 ^ b \<and> 9 \<le> b \<and> b \<le> 11 \<and>
     0 < uint (sectors g) \<and> uint (sectors g) < 65536 \<and> uint (total_sectors g) < 2147483648"

section \<open>What the client of a transfer routine relies on\<close>

text \<open>
  \<open>bd read drive geometry sector nsec segment buf m\<close> is a transfer of \<open>nsec\<close> sectors between the
  media \<open>m\<close> and the memory \<open>buf\<close> at the segment.  \<open>disk m\<close> is the content of the drive.
  A read of sectors of one virtual track inside the drive succeeds and leaves the geometry and the
  media alone.
\<close>

locale block_device =
  fixes bd :: "int \<Rightarrow> int \<Rightarrow> geometry \<Rightarrow> int \<Rightarrow> int \<Rightarrow> int \<Rightarrow> mem \<Rightarrow> 'm \<Rightarrow> (int \<times> geometry \<times> mem \<times> 'm) option"
    and drive :: int
    and geom :: geometry
    and bits :: nat
    and disk :: "'m \<Rightarrow> mem"
  assumes sane: "geom_sane geom bits"
    and read_inside:
      "0 \<le> sec \<Longrightarrow> 0 < n \<Longrightarrow> sec mod vtrack geom bits + n \<le> vtrack geom bits \<Longrightarrow>
       sec + n \<le> uint (total_sectors geom) \<Longrightarrow>
       bd BIOSDISK_READ drive geom sec n seg buf m =
         Some (0, geom, write_at 0 (read_at (nat (sec * 2 ^ bits)) (nat (n * 2 ^ bits)) (disk m)) buf, m)"

text \<open>A drive that can be written as well: a sector written is the sector read back.\<close>

locale rw_block_device = block_device +
  assumes write_inside:
      "0 \<le> sec \<Longrightarrow> sec < uint (total_sectors geom) \<Longrightarrow>
       \<exists>m'. bd BIOSDISK_WRITE drive geom sec 1 seg buf m = Some (0, geom, buf, m') \<and>
         disk m' = write_at (nat (sec * 2 ^ bits)) (read_at 0 (2 ^ bits) buf) (disk m)"

section \<open>Virtual tracks\<close>

lemma vtrack_eq:
  assumes "geom_sane g b"
  shows "vtrack g b = min (uint (sectors g)) (3584 div 2 ^ b)"
proof -
  have b: "b \<in> {9, 10, 11}" and s: "uint (sectors g) < 65536"
    using assms by (auto simp: geom_sane_def)
  have "uint (push_bit b (sectors g)) = uint (sectors g) * 2 ^ b"
    using b s by (auto simp: push_bit_eq_mult uint_word_ariths)
  moreover have "c_int (sectors g) = uint (sectors g)"
    using s by (intro c_int_small) simp
  moreover have "x * 2 ^ b > 3584 \<longleftrightarrow> x > 3584 div 2 ^ b" for x :: int
    using b by auto
  ultimately show ?thesis
    by (auto simp: vtrack_def word_less_def uint_c_ulong drop_bit_eq_div min_def)
qed

lemma vtrack_bounds:
  assumes "geom_sane g b"
  shows "0 < vtrack g b" "vtrack g b \<le> uint (sectors g)" "vtrack g b * 2 ^ b \<le> 3584" "vtrack g b \<le> 7"
proof -
  have b: "b \<in> {9, 10, 11}" and s: "0 < uint (sectors g)"
    using assms by (auto simp: geom_sane_def)
  have v: "vtrack g b = min (uint (sectors g)) (3584 div 2 ^ b)" by (rule vtrack_eq [OF assms])
  show "0 < vtrack g b" "vtrack g b \<le> uint (sectors g)" "vtrack g b \<le> 7"
    using b s unfolding v by auto
  have "vtrack g b * 2 ^ b \<le> 3584 div 2 ^ b * 2 ^ b"
    unfolding v by (intro mult_right_mono) auto
  also have "\<dots> \<le> 3584" using b by auto
  finally show "vtrack g b * 2 ^ b \<le> 3584" .
qed

lemma aligned_transfers:
  assumes "(0::int) \<le> a" "0 \<le> b" "a \<noteq> b"
  shows "nat (b * 2 ^ k) + 2 ^ k \<le> nat (a * 2 ^ k) \<or> nat (a * 2 ^ k) + 2 ^ k \<le> nat (b * 2 ^ k)"
proof -
  obtain x y where xy: "a = int x" "b = int y" using assms by (metis nonneg_eq_int)
  then have "nat (a * 2 ^ k) = x * 2 ^ k" "nat (b * 2 ^ k) = y * 2 ^ k"
    by (simp_all add: nat_mult_distrib nat_power_eq)
  moreover have "Suc y * 2 ^ k \<le> x * 2 ^ k \<or> Suc x * 2 ^ k \<le> y * 2 ^ k"
    using assms(3) xy by (metis Suc_leI linorder_neqE_nat mult_le_mono1)
  ultimately show ?thesis by (simp add: add.commute)
qed

context rw_block_device
begin

lemma write_read:
  assumes "0 \<le> sec" "sec < uint (total_sectors geom)"
  shows "\<exists>m'. bd BIOSDISK_WRITE drive geom sec 1 seg buf m = Some (0, geom, buf, m') \<and>
    bd BIOSDISK_READ drive geom sec 1 seg2 buf2 m' =
      Some (0, geom, write_at 0 (read_at 0 (2 ^ bits) buf) buf2, m') \<and>
    (\<forall>sec2. 0 \<le> sec2 \<and> sec2 \<noteq> sec \<longrightarrow>
      read_at (nat (sec2 * 2 ^ bits)) (2 ^ bits) (disk m') = read_at (nat (sec2 * 2 ^ bits)) (2 ^ bits) (disk m))"
proof -
  obtain m' where w: "bd BIOSDISK_WRITE drive geom sec 1 seg buf m = Some (0, geom, buf, m')"
    "disk m' = write_at (nat (sec * 2 ^ bits)) (read_at 0 (2 ^ bits) buf) (disk m)"
    using write_inside [OF assms] by blast
  have "sec mod vtrack geom bits + 1 \<le> vtrack geom bits"
    using pos_mod_bound [OF vtrack_bounds(1) [OF sane], of sec] by linarith
  then have "bd BIOSDISK_READ drive geom sec 1 seg2 buf2 m' =
      Some (0, geom, write_at 0 (read_at (nat (sec * 2 ^ bits)) (nat (1 * 2 ^ bits)) (disk m')) buf2, m')"
    using assms by (intro read_inside) auto
  moreover have "nat (1 * 2 ^ bits) = 2 ^ bits" by (simp add: nat_power_eq)
  moreover have "read_at (nat (sec2 * 2 ^ bits)) (2 ^ bits) (disk m') =
      read_at (nat (sec2 * 2 ^ bits)) (2 ^ bits) (disk m)" if "0 \<le> sec2" "sec2 \<noteq> sec" for sec2
    unfolding w(2) using aligned_transfers [of sec sec2 bits] that assms
    by (intro read_write_outside) auto
  moreover have "read_at (nat (sec * 2 ^ bits)) (2 ^ bits) (disk m') = read_at 0 (2 ^ bits) buf"
    unfolding w(2) using read_write_same [of "nat (sec * 2 ^ bits)" "read_at 0 (2 ^ bits) buf"] by simp
  ultimately show ?thesis using w(1) by (metis (no_types))
qed

end

end
