(* ===== verification/BiosDisk.thy ===== *)
theory BiosDisk
  imports BlockDevice
begin

text \<open>
  \<open>loader/preldr/bios.c\<close>: sector transfers and drive geometry over INT 13h.  The assembly stubs
  (\<open>biosdisk.asm\<close>) and the BIOS behind them are the parameter \<open>fw\<close>: one function per entry
  point.  A transfer function gets the memory at the transfer segment and the media \<open>'m\<close>, and
  returns the error code with both as they are afterwards.
\<close>

section \<open>Data\<close>

record disk_address_packet =
  dap_length :: u8
  dap_reserved :: u8
  dap_blocks :: u16
  dap_buffer :: u32
  dap_block :: u64

text \<open>The fields of \<open>iso_spec_packet\<close> and \<open>drive_parameters\<close> that the code reads back.\<close>

record iso_spec_packet =
  cd_media_type :: u8
  cd_drive_no :: u8
  cd_cylinders :: u8
  cd_sectors :: u8
  cd_heads :: u8

record drive_parameters =
  dp_cylinders :: u32
  dp_heads :: u32
  dp_sectors :: u32
  dp_total_sectors :: u64

record 'm firmware =
  int13_extensions :: "int \<Rightarrow> int \<Rightarrow> disk_address_packet \<Rightarrow> mem \<Rightarrow> 'm \<Rightarrow> int \<times> mem \<times> 'm"
  biosdisk_standard :: "int \<Rightarrow> int \<Rightarrow> int \<Rightarrow> int \<Rightarrow> int \<Rightarrow> int \<Rightarrow> mem \<Rightarrow> 'm \<Rightarrow> int \<times> mem \<times> 'm"
  check_int13_extensions :: "int \<Rightarrow> int"
  int13_cdinfo :: "int \<Rightarrow> int \<times> iso_spec_packet"
  int13_drive_parameters :: "int \<Rightarrow> int \<times> drive_parameters"
  get_diskinfo_standard :: "int \<Rightarrow> int \<times> u32 \<times> u32 \<times> u32"

section \<open>Sector transfers\<close>

definition chs_size :: "geometry \<Rightarrow> u32" where
  "chs_size g = cylinders g * heads g * sectors g"

text \<open>
  \<open>None\<close> is the divide fault of a geometry without sectors or heads.  The operands of the
  divisions are unsigned, because the geometry is.
\<close>

function biosdisk ::
  "'m firmware \<Rightarrow> int \<Rightarrow> int \<Rightarrow> geometry \<Rightarrow> int \<Rightarrow> int \<Rightarrow> int \<Rightarrow> mem \<Rightarrow> 'm
   \<Rightarrow> (int \<times> geometry \<times> mem \<times> 'm) option" where
  "biosdisk fw read drive geometry sector nsec segment buf m =
     (if flags geometry AND BIOSDISK_FLAG_LBA_EXTENSION \<noteq> 0
      then
        let dap = \<lparr>dap_length = 16, dap_reserved = 0, dap_blocks = word_of_int nsec,
                   dap_buffer = push_bit 16 (c_ulong segment), dap_block = word_of_int sector\<rparr>;
            (err, buf', m') = int13_extensions fw (push_bit 8 (read + 66)) drive dap buf m
        in if err \<noteq> 0
           then if flags geometry AND BIOSDISK_FLAG_CDROM \<noteq> 0
                then Some (err, geometry, buf', m')
                else let g = geometry\<lparr>flags := flags geometry AND NOT BIOSDISK_FLAG_LBA_EXTENSION,
                                      total_sectors := chs_size geometry\<rparr>
                     in biosdisk fw read drive g sector nsec segment buf' m'
           else Some (err, geometry, buf', m')
      else if sectors geometry = 0 \<or> heads geometry = 0 then None
      else
        let sector_offset = c_int (c_ulong sector mod sectors geometry + 1);
            head = c_int (c_ulong sector div sectors geometry);
            head_offset = c_int (c_ulong head mod heads geometry);
            cylinder_offset = c_int (c_ulong head div heads geometry)
        in if c_ulong cylinder_offset \<ge> cylinders geometry
           then Some (BIOSDISK_ERROR_GEOMETRY, geometry, buf, m)
           else let (err, buf', m') =
                  biosdisk_standard fw (read + 2) drive cylinder_offset head_offset sector_offset nsec buf m
                in Some (err, geometry, buf', m'))"
  by pat_completeness auto
termination
  by (relation "measure (\<lambda>(fw, read, drive, g, _). if flags g AND BIOSDISK_FLAG_LBA_EXTENSION \<noteq> 0 then 1 else 0)")
    (auto simp: and.assoc)

declare biosdisk.simps [simp del]

section \<open>Drive geometry\<close>

text \<open>The result tells whether (and how) the drive is a bootable CD-ROM: 0, 1 or -1.\<close>

definition get_cdinfo :: "'m firmware \<Rightarrow> int \<Rightarrow> geometry \<Rightarrow> int \<times> geometry" where
  "get_cdinfo fw drive geometry =
     (let (err, cdrp) = int13_cdinfo fw drive in
      if err = 0 \<and> uint (cd_drive_no cdrp) = drive
      then if cd_media_type cdrp AND 0x0F = 0
           then (1, geometry\<lparr>flags := BIOSDISK_FLAG_LBA_EXTENSION OR BIOSDISK_FLAG_CDROM,
                             cylinders := 0, heads := 1, sectors := 15, sector_size := 2048,
                             total_sectors := c_ulong MAXINT\<rparr>)
           else let g = geometry\<lparr>
                  cylinders := ucast (cd_cylinders cdrp) + push_bit 2 (ucast (cd_sectors cdrp AND 0xC0)),
                  heads := ucast (cd_heads cdrp),
                  sectors := ucast (cd_sectors cdrp AND 0x3F),
                  sector_size := c_ulong SECTOR_SIZE\<rparr>
                in (- 1, g\<lparr>total_sectors := chs_size g\<rparr>)
      else (0, geometry))"

text \<open>
  The hard-disk part of \<open>get_diskinfo\<close> after the CD-ROM probe: the extended parameters first
  (they set the LBA flag and the sector count), then the standard geometry.
\<close>

definition extended_info :: "'m firmware \<Rightarrow> int \<Rightarrow> int \<Rightarrow> geometry \<Rightarrow> geometry \<times> u32" where
  "extended_info fw drive version geometry =
     (if version \<noteq> 0
      then let (err, drp) = int13_drive_parameters fw drive in
           if err = 0
           then (geometry\<lparr>flags := BIOSDISK_FLAG_LBA_EXTENSION\<rparr>,
                 if dp_total_sectors drp \<noteq> 0 then ucast (dp_total_sectors drp)
                 else dp_cylinders drp * dp_heads drp * dp_sectors drp)
           else (geometry, 0)
      else (geometry, 0))"

definition standard_info :: "'m firmware \<Rightarrow> int \<Rightarrow> geometry \<Rightarrow> int \<times> geometry" where
  "standard_info fw drive geometry =
     (let (err, c, h, s) = get_diskinfo_standard fw drive
      in (err, geometry\<lparr>cylinders := c, heads := h, sectors := s\<rparr>))"

definition get_diskinfo :: "'m firmware \<Rightarrow> int \<Rightarrow> geometry \<Rightarrow> int \<times> geometry" where
  "get_diskinfo fw drive geometry0 =
     (let geometry = geometry0\<lparr>flags := 0\<rparr> in
      if drive AND 0x80 \<noteq> 0
      then
        let version = check_int13_extensions fw drive;
            (cd, g) = (if drive \<ge> 0x88 \<or> version \<noteq> 0 then get_cdinfo fw drive geometry else (0, geometry))
        in if cd \<noteq> 0 then (0, g)
           else
             let (g, total) = extended_info fw drive version g;
                 (err, g) = standard_info fw drive g
             in if err \<noteq> 0 then (err, g)
                else (0, g\<lparr>total_sectors := (if total = 0 then chs_size g else total),
                           sector_size := c_ulong SECTOR_SIZE\<rparr>)
      else
        let (err, g) = standard_info fw drive geometry
        in if err \<noteq> 0 then (err, g)
           else (0, g\<lparr>total_sectors := chs_size g, sector_size := c_ulong SECTOR_SIZE\<rparr>))"

section \<open>What a BIOS documents\<close>

text \<open>
  The enhanced disk drive calls 42h and 43h transfer up to 127 sectors at a linear address that
  ends on the drive.
\<close>

definition documented_lba :: "'m firmware \<Rightarrow> int \<Rightarrow> int \<Rightarrow> nat \<Rightarrow> ('m \<Rightarrow> mem) \<Rightarrow> bool" where
  "documented_lba fw drive tot bits disk \<longleftrightarrow>
     (\<forall>dap buf m. dap_length dap = 16 \<and> 0 < uint (dap_blocks dap) \<and> uint (dap_blocks dap) < 128 \<and>
        uint (dap_block dap) + uint (dap_blocks dap) \<le> tot \<longrightarrow>
      (let a = nat (uint (dap_block dap) * 2 ^ bits); l = nat (uint (dap_blocks dap) * 2 ^ bits) in
       int13_extensions fw 0x4200 drive dap buf m = (0, write_at 0 (read_at a l (disk m)) buf, m) \<and>
       (\<exists>m'. int13_extensions fw 0x4300 drive dap buf m = (0, buf, m') \<and>
          disk m' = write_at a (read_at 0 l buf) (disk m))))"

text \<open>
  The calls 02h and 03h transfer sectors of one track, addressed by cylinder, head and sector, the
  sector counted from one.
\<close>

definition documented_chs :: "'m firmware \<Rightarrow> int \<Rightarrow> int \<Rightarrow> int \<Rightarrow> int \<Rightarrow> nat \<Rightarrow> ('m \<Rightarrow> mem) \<Rightarrow> bool" where
  "documented_chs fw drive C H S bits disk \<longleftrightarrow>
     (\<forall>c h s n buf m. 0 \<le> c \<and> c < C \<and> 0 \<le> h \<and> h < H \<and> 1 \<le> s \<and> 0 < n \<and> s - 1 + n \<le> S \<longrightarrow>
      (let a = nat (((c * H + h) * S + (s - 1)) * 2 ^ bits); l = nat (n * 2 ^ bits) in
       biosdisk_standard fw 2 drive c h s n buf m = (0, write_at 0 (read_at a l (disk m)) buf, m) \<and>
       (\<exists>m'. biosdisk_standard fw 3 drive c h s n buf m = (0, buf, m') \<and>
          disk m' = write_at a (read_at 0 l buf) (disk m))))"

section \<open>Linear addresses\<close>

lemma documented_lbaD:
  assumes "documented_lba fw drive tot bits disk" "0 \<le> sec" "0 < n" "n < 128"
    "sec + n \<le> tot" "tot < 2147483648"
    and "dap = \<lparr>dap_length = 16, dap_reserved = r, dap_blocks = word_of_int n,
                dap_buffer = b, dap_block = word_of_int sec\<rparr>"
  shows "int13_extensions fw 0x4200 drive dap buf m =
      (0, write_at 0 (read_at (nat (sec * 2 ^ bits)) (nat (n * 2 ^ bits)) (disk m)) buf, m)"
    and "\<exists>m'. int13_extensions fw 0x4300 drive dap buf m = (0, buf, m') \<and>
      disk m' = write_at (nat (sec * 2 ^ bits)) (read_at 0 (nat (n * 2 ^ bits)) buf) (disk m)"
proof -
  have "uint (dap_blocks dap) = n" "uint (dap_block dap) = sec" "dap_length dap = 16"
    using assms(2-) by (simp_all add: uint_word_of_int)
  with assms(1) assms(3-5)
  have "(let a = nat (sec * 2 ^ bits); l = nat (n * 2 ^ bits) in
       int13_extensions fw 0x4200 drive dap buf m = (0, write_at 0 (read_at a l (disk m)) buf, m) \<and>
       (\<exists>m'. int13_extensions fw 0x4300 drive dap buf m = (0, buf, m') \<and>
          disk m' = write_at a (read_at 0 l buf) (disk m)))"
    unfolding documented_lba_def by metis
  then show "int13_extensions fw 0x4200 drive dap buf m =
      (0, write_at 0 (read_at (nat (sec * 2 ^ bits)) (nat (n * 2 ^ bits)) (disk m)) buf, m)"
    and "\<exists>m'. int13_extensions fw 0x4300 drive dap buf m = (0, buf, m') \<and>
      disk m' = write_at (nat (sec * 2 ^ bits)) (read_at 0 (nat (n * 2 ^ bits)) buf) (disk m)"
    by (simp_all add: Let_def)
qed

lemma biosdisk_lba:
  assumes "flags g AND BIOSDISK_FLAG_LBA_EXTENSION \<noteq> 0"
    "documented_lba fw drive tot bits disk" "0 \<le> sec" "0 < n" "n < 128"
    "sec + n \<le> tot" "tot < 2147483648"
  shows "biosdisk fw BIOSDISK_READ drive g sec n seg buf m =
      Some (0, g, write_at 0 (read_at (nat (sec * 2 ^ bits)) (nat (n * 2 ^ bits)) (disk m)) buf, m)"
    and "\<exists>m'. biosdisk fw BIOSDISK_WRITE drive g sec n seg buf m = Some (0, g, buf, m') \<and>
      disk m' = write_at (nat (sec * 2 ^ bits)) (read_at 0 (nat (n * 2 ^ bits)) buf) (disk m)"
proof -
  note d = documented_lbaD [OF assms(2-7) refl]
  have "push_bit 8 (0 + 66 :: int) = 0x4200" "push_bit 8 (1 + 66 :: int) = 0x4300" by simp_all
  then show "biosdisk fw BIOSDISK_READ drive g sec n seg buf m =
      Some (0, g, write_at 0 (read_at (nat (sec * 2 ^ bits)) (nat (n * 2 ^ bits)) (disk m)) buf, m)"
    and "\<exists>m'. biosdisk fw BIOSDISK_WRITE drive g sec n seg buf m = Some (0, g, buf, m') \<and>
      disk m' = write_at (nat (sec * 2 ^ bits)) (read_at 0 (nat (n * 2 ^ bits)) buf) (disk m)"
    using assms(1) d(1) [of 0 "push_bit 16 (c_ulong seg)" buf m] d(2) [of 0 "push_bit 16 (c_ulong seg)" buf m]
    by (subst biosdisk.simps; auto simp: Let_def)+
qed

section \<open>Cylinder, head and sector\<close>

text \<open>The decomposition is the inverse of the linear numbering, and stays in range.\<close>

lemma chs_linear:
  assumes "0 < (S::int)" "0 < H" "0 \<le> sec"
  shows "(sec div S div H * H + sec div S mod H) * S + sec mod S = sec"
  by simp

lemma chs_cylinder:
  assumes "0 < (S::int)" "0 < H" "0 \<le> sec" "sec < C * H * S"
  shows "0 \<le> sec div S div H \<and> sec div S div H < C"
proof -
  have "sec div (S * H) < C"
  proof (rule ccontr)
    assume "\<not> sec div (S * H) < C"
    then have "C * (S * H) \<le> sec div (S * H) * (S * H)"
      using assms by (intro mult_right_mono) auto
    also have "\<dots> \<le> sec"
      using div_mult_mod_eq [of sec "S * H"] pos_mod_sign [of "S * H" sec] mult_pos_pos [OF assms(1,2)]
      by linarith
    finally show False using assms by (simp add: mult_ac)
  qed
  then show ?thesis
    using assms by (simp add: zdiv_zmult2_eq pos_imp_zdiv_nonneg_iff)
qed

lemma c_int_of_nonneg: "0 \<le> i \<Longrightarrow> i < 2147483648 \<Longrightarrow> uint w = i \<Longrightarrow> c_int w = i"
  by (simp add: c_int_small)

lemma biosdisk_chs_addr:
  assumes "flags g AND BIOSDISK_FLAG_LBA_EXTENSION = 0"
    "0 < uint (sectors g)" "0 < uint (heads g)" "uint (sectors g) < 65536"
    "0 \<le> sec" "sec < uint (cylinders g) * uint (heads g) * uint (sectors g)" "sec < 2147483648"
  shows "biosdisk fw read drive g sec n seg buf m =
    (let head = sec div uint (sectors g);
         (err, buf', m') = biosdisk_standard fw (read + 2) drive (head div uint (heads g))
            (head mod uint (heads g)) (sec mod uint (sectors g) + 1) n buf m
     in Some (err, g, buf', m'))"
proof -
  let ?S = "uint (sectors g)" and ?H = "uint (heads g)" and ?C = "uint (cylinders g)"
  let ?head = "sec div ?S"
  have r: "0 \<le> ?head" "?head < 2147483648" "0 \<le> sec mod ?S" "sec mod ?S < ?S"
    "0 \<le> ?head div ?H" "?head div ?H < 2147483648" "0 \<le> ?head mod ?H" "?head mod ?H < 2147483648"
    using div_mod_le [of sec ?S] div_mod_le [of ?head ?H] pos_mod_bound [of ?S sec] assms by linarith+
  have "uint (c_ulong sec mod sectors g) = sec mod ?S"
    using assms by (simp add: uint_mod uint_c_ulong)
  moreover have "0 \<le> sec mod ?S + 1" "sec mod ?S + 1 < 65537"
    using r assms by linarith+
  ultimately have s: "c_int (c_ulong sec mod sectors g + 1) = sec mod ?S + 1"
    by (intro c_int_of_nonneg) (simp_all only: uint_word_ariths mod_pos_pos_trivial, simp_all)
  have h: "c_int (c_ulong sec div sectors g) = ?head"
    using assms r by (intro c_int_of_nonneg) (auto simp: uint_div uint_c_ulong)
  have ho: "c_int (c_ulong ?head mod heads g) = ?head mod ?H"
    using assms r by (intro c_int_of_nonneg) (auto simp: uint_mod uint_c_ulong)
  have co: "c_int (c_ulong ?head div heads g) = ?head div ?H"
    using assms r by (intro c_int_of_nonneg) (auto simp: uint_div uint_c_ulong)
  have "?head div ?H < ?C"
    using chs_cylinder [of ?S ?H sec ?C] assms by simp
  then have "\<not> cylinders g \<le> c_ulong (?head div ?H)"
    using r by (simp add: c_ulong_le_iff)
  moreover have "sectors g \<noteq> 0" "heads g \<noteq> 0" using assms by auto
  ultimately show ?thesis
    using assms(1) by (subst biosdisk.simps) (simp only: if_False if_True Let_def s h ho co simp_thms)
qed

lemma biosdisk_chs:
  assumes "flags g AND BIOSDISK_FLAG_LBA_EXTENSION = 0"
    "0 < uint (sectors g)" "0 < uint (heads g)" "uint (sectors g) < 65536"
    "documented_chs fw drive (uint (cylinders g)) (uint (heads g)) (uint (sectors g)) bits disk"
    "0 \<le> sec" "0 < n" "sec mod uint (sectors g) + n \<le> uint (sectors g)"
    "sec < uint (cylinders g) * uint (heads g) * uint (sectors g)" "sec < 2147483648"
  shows "biosdisk fw BIOSDISK_READ drive g sec n seg buf m =
      Some (0, g, write_at 0 (read_at (nat (sec * 2 ^ bits)) (nat (n * 2 ^ bits)) (disk m)) buf, m)"
    and "\<exists>m'. biosdisk fw BIOSDISK_WRITE drive g sec n seg buf m = Some (0, g, buf, m') \<and>
      disk m' = write_at (nat (sec * 2 ^ bits)) (read_at 0 (nat (n * 2 ^ bits)) buf) (disk m)"
proof -
  let ?S = "uint (sectors g)" and ?H = "uint (heads g)" and ?C = "uint (cylinders g)"
  let ?head = "sec div ?S"
  have "0 \<le> ?head div ?H \<and> ?head div ?H < ?C"
    using chs_cylinder [of ?S ?H sec ?C] assms by simp
  moreover have "0 \<le> ?head mod ?H" "?head mod ?H < ?H" "0 \<le> sec mod ?S"
    using assms by auto
  ultimately have "(let a = nat (sec * 2 ^ bits); l = nat (n * 2 ^ bits) in
      biosdisk_standard fw 2 drive (?head div ?H) (?head mod ?H) (sec mod ?S + 1) n buf m =
        (0, write_at 0 (read_at a l (disk m)) buf, m) \<and>
      (\<exists>m'. biosdisk_standard fw 3 drive (?head div ?H) (?head mod ?H) (sec mod ?S + 1) n buf m = (0, buf, m') \<and>
         disk m' = write_at a (read_at 0 l buf) (disk m)))"
    using assms(5) [unfolded documented_chs_def, rule_format,
        of "?head div ?H" "?head mod ?H" "sec mod ?S + 1" n buf m]
      chs_linear [of ?S ?H sec] assms by simp
  then show "biosdisk fw BIOSDISK_READ drive g sec n seg buf m =
      Some (0, g, write_at 0 (read_at (nat (sec * 2 ^ bits)) (nat (n * 2 ^ bits)) (disk m)) buf, m)"
    and "\<exists>m'. biosdisk fw BIOSDISK_WRITE drive g sec n seg buf m = Some (0, g, buf, m') \<and>
      disk m' = write_at (nat (sec * 2 ^ bits)) (read_at 0 (nat (n * 2 ^ bits)) buf) (disk m)"
    using assms by (auto simp: biosdisk_chs_addr Let_def)
qed

lemma biosdisk_fallback:
  assumes "flags g AND BIOSDISK_FLAG_LBA_EXTENSION \<noteq> 0" "flags g AND BIOSDISK_FLAG_CDROM = 0"
    and "int13_extensions fw (push_bit 8 (read + 66)) drive
          \<lparr>dap_length = 16, dap_reserved = 0, dap_blocks = word_of_int n,
           dap_buffer = push_bit 16 (c_ulong seg), dap_block = word_of_int sec\<rparr> buf m = (err, buf', m')"
    and "err \<noteq> 0"
  shows "biosdisk fw read drive g sec n seg buf m =
    biosdisk fw read drive
      (g\<lparr>flags := flags g AND NOT BIOSDISK_FLAG_LBA_EXTENSION, total_sectors := chs_size g\<rparr>) sec n seg buf' m'"
  using assms by (subst biosdisk.simps) (simp add: Let_def)

lemma write_at_over: "(\<And>i. length xs \<le> i \<Longrightarrow> b i = c i) \<Longrightarrow> write_at 0 xs b = write_at 0 xs c"
  by (rule ext) (simp add: write_at_def)

lemma uint_chs_size:
  assumes "uint (cylinders g) * uint (heads g) * uint (sectors g) < 4294967296"
  shows "uint (chs_size g) = uint (cylinders g) * uint (heads g) * uint (sectors g)"
  using assms by (simp add: chs_size_def uint_word_ariths mod_simps)

lemma biosdisk_chs_end:
  assumes "flags g AND BIOSDISK_FLAG_LBA_EXTENSION = 0" "0 < uint (sectors g)" "0 < uint (heads g)"
    and "uint (cylinders g) * uint (heads g) * uint (sectors g) \<le> sec" "sec < 2147483648"
  shows "biosdisk fw read drive g sec n seg buf m = Some (BIOSDISK_ERROR_GEOMETRY, g, buf, m)"
proof -
  let ?S = "uint (sectors g)" and ?H = "uint (heads g)" and ?C = "uint (cylinders g)"
  let ?head = "sec div ?S"
  have sec: "0 \<le> sec" using assms(2-4) by (meson mult_nonneg_nonneg order_trans uint_ge_0)
  have r: "0 \<le> ?head" "?head < 2147483648" "0 \<le> ?head div ?H" "?head div ?H < 2147483648"
    using div_mod_le [of sec ?S] div_mod_le [of ?head ?H] assms sec by linarith+
  have h: "c_int (c_ulong sec div sectors g) = ?head"
    using assms r sec by (intro c_int_of_nonneg) (auto simp: uint_div uint_c_ulong)
  have co: "c_int (c_ulong ?head div heads g) = ?head div ?H"
    using assms r by (intro c_int_of_nonneg) (auto simp: uint_div uint_c_ulong)
  have "?C * (?S * ?H) div (?S * ?H) \<le> sec div (?S * ?H)"
    using assms(2-4) by (intro zdiv_mono1) (auto simp: mult_ac)
  then have "?C \<le> ?head div ?H" using assms(2,3) by (simp add: zdiv_zmult2_eq)
  then have "cylinders g \<le> c_ulong (?head div ?H)" using r by (simp add: c_ulong_le_iff)
  moreover have "sectors g \<noteq> 0" "heads g \<noteq> 0" using assms by auto
  ultimately show ?thesis
    using assms(1) by (subst biosdisk.simps) (simp only: if_False if_True Let_def h co simp_thms)
qed

section \<open>The BIOS as a block device\<close>

text \<open>
  A drive with the extensions serves every read of the client.  A drive without them serves those
  that stay on a track, which the reads of one virtual track do when the length of the track is a
  multiple of that of the virtual one (63 sectors a track, 7 a virtual track).
\<close>

locale bios_drive =
  fixes fw :: "'m firmware" and drive :: int and geom :: geometry and bits :: nat and disk :: "'m \<Rightarrow> mem"
  assumes geometry_sane: "geom_sane geom bits"

locale lba_drive = bios_drive +
  assumes lba: "flags geom AND BIOSDISK_FLAG_LBA_EXTENSION \<noteq> 0"
    and ext: "documented_lba fw drive (uint (total_sectors geom)) bits disk"

locale chs_drive = bios_drive +
  assumes no_lba: "flags geom AND BIOSDISK_FLAG_LBA_EXTENSION = 0"
    and std: "documented_chs fw drive (uint (cylinders geom)) (uint (heads geom)) (uint (sectors geom)) bits disk"
    and has_heads: "0 < uint (heads geom)"
    and capacity: "uint (total_sectors geom) = uint (cylinders geom) * uint (heads geom) * uint (sectors geom)"
    and aligned: "vtrack geom bits dvd uint (sectors geom)"

lemma inside_track:
  assumes "0 < (v::int)" "v dvd S" "0 < S" "sec mod v + n \<le> v"
  shows "sec mod S + n \<le> S"
proof -
  obtain k where k: "S = v * k" using assms(2) by blast
  then have "0 < k" using assms(1,3) by (simp add: zero_less_mult_iff)
  have "sec mod S = v * (sec div v mod k) + sec mod v"
    using k \<open>0 < k\<close> by (simp add: zmod_zmult2_eq)
  also have "v * (sec div v mod k) \<le> v * (k - 1)"
    using \<open>0 < k\<close> assms(1) pos_mod_bound [of k "sec div v"] by (intro mult_left_mono) auto
  finally show ?thesis using assms(4) k by (simp add: algebra_simps)
qed

sublocale lba_drive \<subseteq> rw_block_device "biosdisk fw" drive geom bits disk
proof unfold_locales
  have t: "uint (total_sectors geom) < 2147483648" "vtrack geom bits \<le> 7"
    using geometry_sane vtrack_bounds [OF geometry_sane] by (auto simp: geom_sane_def)
  show "geom_sane geom bits" by (rule geometry_sane)
  show "biosdisk fw BIOSDISK_READ drive geom sec n seg buf m =
      Some (0, geom, write_at 0 (read_at (nat (sec * 2 ^ bits)) (nat (n * 2 ^ bits)) (disk m)) buf, m)"
    if "0 \<le> sec" "0 < n" "sec mod vtrack geom bits + n \<le> vtrack geom bits"
      "sec + n \<le> uint (total_sectors geom)" for sec n seg buf m
    using that t pos_mod_sign [OF vtrack_bounds(1) [OF geometry_sane], of sec]
    by (intro biosdisk_lba(1) [OF lba ext]) auto
  show "\<exists>m'. biosdisk fw BIOSDISK_WRITE drive geom sec 1 seg buf m = Some (0, geom, buf, m') \<and>
      disk m' = write_at (nat (sec * 2 ^ bits)) (read_at 0 (2 ^ bits) buf) (disk m)"
    if "0 \<le> sec" "sec < uint (total_sectors geom)" for sec seg buf m
    using that t biosdisk_lba(2) [OF lba ext, of sec 1] by (simp add: nat_power_eq)
qed

sublocale chs_drive \<subseteq> rw_block_device "biosdisk fw" drive geom bits disk
proof unfold_locales
  have t: "uint (total_sectors geom) < 2147483648" "0 < uint (sectors geom)" "uint (sectors geom) < 65536"
    using geometry_sane by (auto simp: geom_sane_def)
  note c = biosdisk_chs [OF no_lba t(2) has_heads t(3) std]
  show "geom_sane geom bits" by (rule geometry_sane)
  show "biosdisk fw BIOSDISK_READ drive geom sec n seg buf m =
      Some (0, geom, write_at 0 (read_at (nat (sec * 2 ^ bits)) (nat (n * 2 ^ bits)) (disk m)) buf, m)"
    if "0 \<le> sec" "0 < n" "sec mod vtrack geom bits + n \<le> vtrack geom bits"
      "sec + n \<le> uint (total_sectors geom)" for sec n seg buf m
    using that t capacity inside_track [OF vtrack_bounds(1) [OF geometry_sane] aligned t(2), of sec n]
    by (intro c(1)) auto
  show "\<exists>m'. biosdisk fw BIOSDISK_WRITE drive geom sec 1 seg buf m = Some (0, geom, buf, m') \<and>
      disk m' = write_at (nat (sec * 2 ^ bits)) (read_at 0 (2 ^ bits) buf) (disk m)"
    if "0 \<le> sec" "sec < uint (total_sectors geom)" for sec seg buf m
    using that t capacity c(2) [of sec 1] pos_mod_bound [OF t(2), of sec] by (simp add: nat_power_eq)
qed

context lba_drive
begin

lemma lba_rw: "rw_block_device (biosdisk fw) drive geom bits disk"
  by unfold_locales

end

context chs_drive
begin

lemma chs_rw: "rw_block_device (biosdisk fw) drive geom bits disk"
  by unfold_locales

end

lemma drive_rw:
  "lba_drive fw drive g bits disk \<or> chs_drive fw drive g bits disk \<Longrightarrow> rw_block_device (biosdisk fw) drive g bits disk"
  using lba_drive.lba_rw chs_drive.chs_rw by blast

section \<open>A drive that is an image\<close>

text \<open>
  A concrete BIOS over an image of one drive, the media being the image itself: it serves exactly
  the transfers its documentation names and refuses every other one.
\<close>

record image_drive =
  id_drive :: int
  id_cylinders :: int
  id_heads :: int
  id_sectors :: int
  id_total :: int
  id_bits :: nat

definition image_transfer :: "image_drive \<Rightarrow> bool \<Rightarrow> int \<Rightarrow> int \<Rightarrow> mem \<Rightarrow> mem \<Rightarrow> int \<times> mem \<times> mem" where
  "image_transfer i wr sec n buf m =
     (let a = nat (sec * 2 ^ id_bits i); l = nat (n * 2 ^ id_bits i) in
      if wr then (0, buf, write_at a (read_at 0 l buf) m) else (0, write_at 0 (read_at a l m) buf, m))"

definition image_bios :: "image_drive \<Rightarrow> mem firmware" where
  "image_bios i = \<lparr>
     int13_extensions = (\<lambda>ax drive dap buf m.
       let sec = uint (dap_block dap); n = uint (dap_blocks dap) in
       if drive = id_drive i \<and> (ax = 0x4200 \<or> ax = 0x4300) \<and> dap_length dap = 16 \<and> n < 128 \<and> sec + n \<le> id_total i
       then image_transfer i (ax = 0x4300) sec n buf m else (1, buf, m)),
     biosdisk_standard = (\<lambda>ah drive c h s n buf m.
       if drive = id_drive i \<and> (ah = 2 \<or> ah = 3) \<and> 0 \<le> c \<and> c < id_cylinders i \<and> 0 \<le> h \<and> h < id_heads i \<and>
          1 \<le> s \<and> s - 1 + n \<le> id_sectors i
       then image_transfer i (ah = 3) ((c * id_heads i + h) * id_sectors i + (s - 1)) n buf m else (1, buf, m)),
     check_int13_extensions = (\<lambda>drive. if drive = id_drive i \<and> id_total i \<noteq> 0 then 1 else 0),
     int13_cdinfo = (\<lambda>drive. (1, \<lparr>cd_media_type = 0, cd_drive_no = 0, cd_cylinders = 0, cd_sectors = 0, cd_heads = 0\<rparr>)),
     int13_drive_parameters = (\<lambda>drive. (if drive = id_drive i then 0 else 1,
       \<lparr>dp_cylinders = word_of_int (id_cylinders i), dp_heads = word_of_int (id_heads i),
        dp_sectors = word_of_int (id_sectors i), dp_total_sectors = word_of_int (id_total i)\<rparr>)),
     get_diskinfo_standard = (\<lambda>drive. (if drive = id_drive i then 0 else 1,
       word_of_int (id_cylinders i), word_of_int (id_heads i), word_of_int (id_sectors i)))\<rparr>"

lemma image_lba: "documented_lba (image_bios i) (id_drive i) (id_total i) (id_bits i) (\<lambda>m. m)"
  by (simp add: documented_lba_def image_bios_def image_transfer_def Let_def)

lemma image_chs:
  "documented_chs (image_bios i) (id_drive i) (id_cylinders i) (id_heads i) (id_sectors i) (id_bits i) (\<lambda>m. m)"
  by (simp add: documented_chs_def image_bios_def image_transfer_def Let_def)

text \<open>A hard disk of 1032192 sectors, with the extensions and without them.\<close>

definition hd_image :: image_drive where
  "hd_image = \<lparr>id_drive = 128, id_cylinders = 1024, id_heads = 16, id_sectors = 63, id_total = 1032192, id_bits = 9\<rparr>"

definition hd_geometry :: "u32 \<Rightarrow> geometry" where
  "hd_geometry fl = \<lparr>cylinders = 1024, heads = 16, sectors = 63, total_sectors = 1032192, sector_size = 512, flags = fl\<rparr>"

lemma hd_geometry_sane: "geom_sane (hd_geometry fl) 9"
  by (simp add: geom_sane_def hd_geometry_def)

lemma hd_vtrack: "vtrack (hd_geometry fl) 9 = 7"
  by (simp add: vtrack_eq [OF hd_geometry_sane]) (simp add: hd_geometry_def)

interpretation hd_lba: lba_drive "image_bios hd_image" 128 "hd_geometry 1" 9 "\<lambda>m. m"
  using image_lba [of hd_image]
  by unfold_locales (simp_all add: hd_geometry_sane hd_vtrack, simp_all add: hd_geometry_def hd_image_def)

interpretation hd_chs: chs_drive "image_bios hd_image" 128 "hd_geometry 0" 9 "\<lambda>m. m"
  using image_chs [of hd_image]
  by unfold_locales (simp_all add: hd_geometry_sane hd_vtrack, simp_all add: hd_geometry_def hd_image_def)

lemma get_diskinfo_extended:
  assumes "drive AND 0x80 \<noteq> 0" "check_int13_extensions fw drive \<noteq> 0"
    and "fst (int13_cdinfo fw drive) \<noteq> 0"
    and "int13_drive_parameters fw drive = (0, drp)" "ucast (dp_total_sectors drp) \<noteq> (0 :: u32)"
    and "get_diskinfo_standard fw drive = (0, c, h, s)"
  shows "get_diskinfo fw drive g0 =
    (0, g0\<lparr>cylinders := c, heads := h, sectors := s, total_sectors := ucast (dp_total_sectors drp),
           sector_size := 512, flags := BIOSDISK_FLAG_LBA_EXTENSION\<rparr>)"
proof -
  have "dp_total_sectors drp \<noteq> 0" using assms(5) by auto
  then have e: "extended_info fw drive (check_int13_extensions fw drive) g =
      (g\<lparr>flags := BIOSDISK_FLAG_LBA_EXTENSION\<rparr>, ucast (dp_total_sectors drp))" for g
    using assms by (simp add: extended_info_def)
  have c: "get_cdinfo fw drive g = (0, g)" for g
    using assms(3) by (cases "int13_cdinfo fw drive") (simp add: get_cdinfo_def)
  have s: "standard_info fw drive g = (0, g\<lparr>cylinders := c, heads := h, sectors := s\<rparr>)" for g
    using assms by (simp add: standard_info_def)
  have "get_diskinfo fw drive g0 = (0, g0\<lparr>flags := 0, flags := 1, cylinders := c, heads := h, sectors := s,
      total_sectors := ucast (dp_total_sectors drp), sector_size := c_ulong 512\<rparr>)"
    using assms unfolding get_diskinfo_def Let_def c e s by simp
  then show ?thesis by (simp add: c_ulong_def)
qed

section \<open>Properties\<close>

text \<open>C27: a sector written through \<open>biosdisk\<close> is the sector read back, at any segment, in LBA and in
  CHS mode, and no other sector of the drive changes.\<close>

theorem biosdisk_write_read:
  assumes "lba_drive fw drive g bits disk \<or> chs_drive fw drive g bits disk"
    and "0 \<le> sec" "sec < uint (total_sectors g)"
  shows "\<exists>m'. biosdisk fw BIOSDISK_WRITE drive g sec 1 seg buf m = Some (0, g, buf, m') \<and>
    biosdisk fw BIOSDISK_READ drive g sec 1 seg2 buf2 m' =
      Some (0, g, write_at 0 (read_at 0 (2 ^ bits) buf) buf2, m') \<and>
    (\<forall>sec2. 0 \<le> sec2 \<and> sec2 \<noteq> sec \<longrightarrow>
      read_at (nat (sec2 * 2 ^ bits)) (2 ^ bits) (disk m') = read_at (nat (sec2 * 2 ^ bits)) (2 ^ bits) (disk m))"
  by (rule rw_block_device.write_read [OF drive_rw, OF assms])

theorem biosdisk_write_read_witness:
  "\<exists>m'. biosdisk (image_bios hd_image) BIOSDISK_WRITE 128 (hd_geometry 1) 5 1 0 (\<lambda>_. 7) (\<lambda>_. 0) =
      Some (0, hd_geometry 1, \<lambda>_. 7, m') \<and>
    biosdisk (image_bios hd_image) BIOSDISK_READ 128 (hd_geometry 1) 5 1 9 (\<lambda>_. 0) m' =
      Some (0, hd_geometry 1, write_at 0 (read_at 0 (2 ^ 9) (\<lambda>_. 7)) (\<lambda>_. 0), m') \<and>
    (\<forall>sec2. 0 \<le> sec2 \<and> sec2 \<noteq> 5 \<longrightarrow>
      read_at (nat (sec2 * 2 ^ 9)) (2 ^ 9) m' = read_at (nat (sec2 * 2 ^ 9)) (2 ^ 9) (\<lambda>_. 0))"
  by (rule biosdisk_write_read [OF disjI1, OF hd_lba.lba_drive_axioms]) (simp_all add: hd_geometry_def)

text \<open>C28: the two address forms agree: on a drive whose BIOS documents both, a read that stays on a
  track delivers the same bytes in LBA mode and in CHS mode.\<close>

theorem lba_chs_agree:
  assumes "documented_lba fw drive (uint (cylinders g) * uint (heads g) * uint (sectors g)) bits disk"
    and "documented_chs fw drive (uint (cylinders g)) (uint (heads g)) (uint (sectors g)) bits disk"
    and "0 < uint (sectors g)" "uint (sectors g) < 128" "0 < uint (heads g)"
    and "uint (cylinders g) * uint (heads g) * uint (sectors g) < 2147483648"
    and "flags g = 0" "0 \<le> sec" "0 < n" "sec mod uint (sectors g) + n \<le> uint (sectors g)"
    and "sec + n \<le> uint (cylinders g) * uint (heads g) * uint (sectors g)"
  shows "biosdisk fw BIOSDISK_READ drive (g\<lparr>flags := BIOSDISK_FLAG_LBA_EXTENSION\<rparr>) sec n seg buf m =
    map_option (\<lambda>(err, g', r). (err, g'\<lparr>flags := BIOSDISK_FLAG_LBA_EXTENSION\<rparr>, r))
      (biosdisk fw BIOSDISK_READ drive g sec n seg buf m)"
  using biosdisk_lba(1) [of "g\<lparr>flags := BIOSDISK_FLAG_LBA_EXTENSION\<rparr>", OF _ assms(1), of sec n seg buf m]
    biosdisk_chs(1) [of g fw drive bits disk sec n seg buf m] assms pos_mod_sign [OF assms(3), of sec]
  by auto

theorem lba_chs_agree_witness:
  "biosdisk (image_bios hd_image) BIOSDISK_READ 128 (hd_geometry 0\<lparr>flags := BIOSDISK_FLAG_LBA_EXTENSION\<rparr>) 64 3 0 (\<lambda>_. 0) (\<lambda>_. 7) =
    map_option (\<lambda>(err, g', r). (err, g'\<lparr>flags := BIOSDISK_FLAG_LBA_EXTENSION\<rparr>, r))
      (biosdisk (image_bios hd_image) BIOSDISK_READ 128 (hd_geometry 0) 64 3 0 (\<lambda>_. 0) (\<lambda>_. 7))"
  using image_lba [of hd_image] image_chs [of hd_image]
  by (intro lba_chs_agree [where bits = 9 and disk = "\<lambda>m. m"]) (simp_all add: hd_image_def hd_geometry_def)

text \<open>C29: when the LBA call fails on a drive that is not a CD-ROM, changing nothing on the medium and writing at most
  the bytes asked for, the read is done again by cylinder, head and sector and delivers the bytes of the drive all the
  same.  The geometry that comes back has lost the LBA flag and counts \<open>cylinders * heads * sectors\<close> sectors, whatever the
  count was before: from then on every read inside this count delivers the bytes of the drive without an LBA call, and every
  read behind it is refused with \<open>BIOSDISK_ERROR_GEOMETRY\<close>.\<close>

theorem biosdisk_falls_back:
  assumes "flags g AND BIOSDISK_FLAG_LBA_EXTENSION \<noteq> 0" "flags g AND BIOSDISK_FLAG_CDROM = 0"
    and "documented_chs fw drive (uint (cylinders g)) (uint (heads g)) (uint (sectors g)) bits disk"
    and "0 < uint (sectors g)" "uint (sectors g) < 65536" "0 < uint (heads g)"
    and "uint (cylinders g) * uint (heads g) * uint (sectors g) < 2147483648"
    and "0 \<le> sec" "0 < n" "sec mod uint (sectors g) + n \<le> uint (sectors g)"
    and "sec < uint (cylinders g) * uint (heads g) * uint (sectors g)"
    and "int13_extensions fw 0x4200 drive
          \<lparr>dap_length = 16, dap_reserved = 0, dap_blocks = word_of_int n,
           dap_buffer = push_bit 16 (c_ulong seg), dap_block = word_of_int sec\<rparr> buf m = (err, buf', m')"
    and "err \<noteq> 0" "disk m' = disk m" "\<And>i. nat (n * 2 ^ bits) \<le> i \<Longrightarrow> buf' i = buf i"
  shows "\<exists>g'. biosdisk fw BIOSDISK_READ drive g sec n seg buf m =
      Some (0, g', write_at 0 (read_at (nat (sec * 2 ^ bits)) (nat (n * 2 ^ bits)) (disk m)) buf, m') \<and>
    uint (total_sectors g') = uint (cylinders g) * uint (heads g) * uint (sectors g) \<and>
    cylinders g' = cylinders g \<and> heads g' = heads g \<and> sectors g' = sectors g \<and> sector_size g' = sector_size g \<and>
    flags g' = flags g AND NOT BIOSDISK_FLAG_LBA_EXTENSION \<and>
    (\<forall>sec2 n2 seg2 buf2 m2. 0 \<le> sec2 \<and> 0 < n2 \<and> sec2 mod uint (sectors g) + n2 \<le> uint (sectors g) \<and> sec2 < 2147483648 \<longrightarrow>
       biosdisk fw BIOSDISK_READ drive g' sec2 n2 seg2 buf2 m2 =
         (if sec2 < uint (total_sectors g')
          then Some (0, g', write_at 0 (read_at (nat (sec2 * 2 ^ bits)) (nat (n2 * 2 ^ bits)) (disk m2)) buf2, m2)
          else Some (BIOSDISK_ERROR_GEOMETRY, g', buf2, m2)))"
proof -
  define g' where "g' = g\<lparr>flags := flags g AND NOT BIOSDISK_FLAG_LBA_EXTENSION, total_sectors := chs_size g\<rparr>"
  have t: "uint (total_sectors g') = uint (cylinders g) * uint (heads g) * uint (sectors g)"
    using uint_chs_size [of g] assms(7) by (simp add: g'_def)
  have g': "flags g' AND BIOSDISK_FLAG_LBA_EXTENSION = 0" "cylinders g' = cylinders g" "heads g' = heads g" "sectors g' = sectors g"
    by (simp_all add: g'_def and.assoc)
  have chs: "biosdisk fw BIOSDISK_READ drive g' sec2 n2 seg2 buf2 m2 =
      Some (0, g', write_at 0 (read_at (nat (sec2 * 2 ^ bits)) (nat (n2 * 2 ^ bits)) (disk m2)) buf2, m2)"
    if "0 \<le> sec2" "0 < n2" "sec2 mod uint (sectors g) + n2 \<le> uint (sectors g)" "sec2 < uint (cylinders g) * uint (heads g) * uint (sectors g)"
    for sec2 n2 seg2 buf2 m2
    using biosdisk_chs(1) [of g' fw drive bits disk sec2 n2 seg2 buf2 m2, unfolded g'(2-4), OF g'(1) assms(4,6,5,3) that] that(4) assms(7)
    by simp
  have "push_bit 8 (0 + 66 :: int) = 0x4200" by simp
  then have "biosdisk fw BIOSDISK_READ drive g sec n seg buf m = biosdisk fw BIOSDISK_READ drive g' sec n seg buf' m'"
    unfolding g'_def using assms(12) by (intro biosdisk_fallback [OF assms(1,2) _ assms(13)]) simp
  also have "\<dots> = Some (0, g', write_at 0 (read_at (nat (sec * 2 ^ bits)) (nat (n * 2 ^ bits)) (disk m)) buf, m')"
    using chs [OF assms(8-11), of seg buf' m'] assms(14) write_at_over [of "read_at (nat (sec * 2 ^ bits)) (nat (n * 2 ^ bits)) (disk m)" buf' buf] assms(15)
    by simp
  finally have "biosdisk fw BIOSDISK_READ drive g sec n seg buf m =
    Some (0, g', write_at 0 (read_at (nat (sec * 2 ^ bits)) (nat (n * 2 ^ bits)) (disk m)) buf, m')" .
  moreover have "biosdisk fw BIOSDISK_READ drive g' sec2 n2 seg2 buf2 m2 = Some (BIOSDISK_ERROR_GEOMETRY, g', buf2, m2)"
    if "\<not> sec2 < uint (total_sectors g')" "sec2 < 2147483648" for sec2 n2 seg2 buf2 m2
    using biosdisk_chs_end [OF g'(1), of sec2 fw BIOSDISK_READ drive n2 seg2 buf2 m2] assms(4,6) that unfolding g'(2-4) t by simp
  ultimately show ?thesis
    using t chs by (intro exI [of _ g']) (auto simp: g'_def)
qed

theorem biosdisk_falls_back_witness:
  "\<exists>g'. biosdisk (image_bios (hd_image\<lparr>id_total := 0\<rparr>)) BIOSDISK_READ 128 ((hd_geometry 1)\<lparr>total_sectors := 2000000\<rparr>) 63 2 0 (\<lambda>_. 0) (\<lambda>_. 7) =
      Some (0, g', write_at 0 (read_at 32256 1024 (\<lambda>_. 7)) (\<lambda>_. 0), \<lambda>_. 7) \<and> uint (total_sectors g') = 1032192 \<and> flags g' = 0 \<and>
    biosdisk (image_bios (hd_image\<lparr>id_total := 0\<rparr>)) BIOSDISK_READ 128 g' 1500000 1 0 (\<lambda>_. 0) (\<lambda>_. 7) =
      Some (BIOSDISK_ERROR_GEOMETRY, g', \<lambda>_. 0, \<lambda>_. 7)"
proof -
  let ?fw = "image_bios (hd_image\<lparr>id_total := 0\<rparr>)" and ?g = "(hd_geometry 1)\<lparr>total_sectors := 2000000\<rparr>"
  have c: "documented_chs ?fw 128 1024 16 63 9 (\<lambda>m. m)"
    using image_chs [of "hd_image\<lparr>id_total := 0\<rparr>"] by (simp add: hd_image_def)
  have e: "int13_extensions ?fw 0x4200 128 \<lparr>dap_length = 16, dap_reserved = 0, dap_blocks = word_of_int 2,
      dap_buffer = push_bit 16 (c_ulong 0), dap_block = word_of_int 63\<rparr> (\<lambda>_. 0) (\<lambda>_. 7) = (1, \<lambda>_. 0, \<lambda>_. 7)"
    by (simp add: hd_image_def image_bios_def)
  have g: "flags ?g = 1" "cylinders ?g = 1024" "heads ?g = 16" "sectors ?g = 63" by (simp_all add: hd_geometry_def)
  obtain g' where g': "biosdisk ?fw BIOSDISK_READ 128 ?g 63 2 0 (\<lambda>_. 0) (\<lambda>_. 7) =
      Some (0, g', write_at 0 (read_at 32256 1024 (\<lambda>_. 7)) (\<lambda>_. 0), \<lambda>_. 7)" "uint (total_sectors g') = 1032192" "flags g' = 0"
    "\<forall>sec2 n2 seg2 buf2 m2. 0 \<le> sec2 \<and> 0 < n2 \<and> sec2 mod 63 + n2 \<le> 63 \<and> sec2 < 2147483648 \<longrightarrow>
       biosdisk ?fw BIOSDISK_READ 128 g' sec2 n2 seg2 buf2 m2 =
         (if sec2 < uint (total_sectors g')
          then Some (0, g', write_at 0 (read_at (nat (sec2 * 2 ^ 9)) (nat (n2 * 2 ^ 9)) m2) buf2, m2)
          else Some (BIOSDISK_ERROR_GEOMETRY, g', buf2, m2))"
    using biosdisk_falls_back [of ?g ?fw 128 9 "\<lambda>m. m" 63 2 0 "\<lambda>_. 0" "\<lambda>_. 7" 1 "\<lambda>_. 0" "\<lambda>_. 7", unfolded g] c e by auto
  show ?thesis using g'(1-3) g'(4) [rule_format, of 1500000 1 0 "\<lambda>_. 0" "\<lambda>_. 7"] by (intro exI [of _ g']) simp
qed

text \<open>C30: on a hard disk whose BIOS answers the extended calls, \<open>get_diskinfo\<close> reports the sector count
  of the extended call (32 bits of it) and the standard geometry, and the drive it reports is one on
  which \<open>biosdisk\<close> reads and writes in LBA mode.\<close>

theorem get_diskinfo_detects:
  assumes "drive AND 0x80 \<noteq> 0" "check_int13_extensions fw drive \<noteq> 0" "fst (int13_cdinfo fw drive) \<noteq> 0"
    and "int13_drive_parameters fw drive = (0, drp)"
    and "0 < uint (dp_total_sectors drp)" "uint (dp_total_sectors drp) < 2147483648"
    and "get_diskinfo_standard fw drive = (0, c, h, s)" "0 < uint s" "uint s < 65536"
    and "documented_lba fw drive (uint (dp_total_sectors drp)) 9 disk"
  shows "\<exists>g. get_diskinfo fw drive g0 = (0, g) \<and> lba_drive fw drive g 9 disk \<and>
    uint (total_sectors g) = uint (dp_total_sectors drp) \<and> cylinders g = c \<and> heads g = h \<and> sectors g = s"
proof -
  have u: "uint (ucast (dp_total_sectors drp) :: u32) = uint (dp_total_sectors drp)"
    using assms(6) by (simp add: unsigned_ucast_eq take_bit_int_eq_self_iff)
  then have "ucast (dp_total_sectors drp) \<noteq> (0 :: u32)" using assms(5) by (metis less_irrefl uint_0_eq)
  note g = get_diskinfo_extended [OF assms(1-4) this assms(7), of g0]
  have "lba_drive fw drive (snd (get_diskinfo fw drive g0)) 9 disk"
    using assms u by unfold_locales (simp_all add: g geom_sane_def)
  with g u show ?thesis by auto
qed

theorem get_diskinfo_detects_witness:
  "\<exists>g. get_diskinfo (image_bios hd_image) 128 (hd_geometry 0) = (0, g) \<and>
    lba_drive (image_bios hd_image) 128 g 9 (\<lambda>m. m) \<and>
    uint (total_sectors g) = 1032192 \<and> cylinders g = 1024 \<and> heads g = 16 \<and> sectors g = 63"
  using get_diskinfo_detects [of 128 "image_bios hd_image"
      "\<lparr>dp_cylinders = 1024, dp_heads = 16, dp_sectors = 63, dp_total_sectors = 1032192\<rparr>" 1024 16 63 "\<lambda>m. m" "hd_geometry 0"]
    image_lba [of hd_image]
  by (simp add: hd_image_def) (simp add: image_bios_def)

end
