(* ===== verification/ByteDevice.thy ===== *)
theory ByteDevice
  imports Prelude
begin

text \<open>
  The interface between \<open>devread\<close> and the file system drivers: a partition is a string of
  \<open>dev_size s\<close> bytes, read at a sector of 512 bytes and an offset from it (which may be larger than
  a sector) into a buffer of the caller.
\<close>

locale byte_device =
  fixes dr :: "int \<Rightarrow> int \<Rightarrow> int \<Rightarrow> mem \<Rightarrow> nat \<Rightarrow> 's \<Rightarrow> (bool \<times> mem \<times> 's) option"
    and dev_ok :: "'s \<Rightarrow> bool"
    and content :: "'s \<Rightarrow> mem"
    and dev_size :: "'s \<Rightarrow> nat"
  assumes dev_read: "dev_ok s \<Longrightarrow> 0 < l \<Longrightarrow> sec * 512 + off + l \<le> dev_size s \<Longrightarrow> off + l + 512 \<le> 2147483648 \<Longrightarrow>
    \<exists>s'. dr (int sec) (int off) (int l) dst a s =
        Some (True, write_at a (read_at (sec * 512 + off) l (content s)) dst, s') \<and>
      dev_ok s' \<and> content s' = content s \<and> dev_size s' = dev_size s"

end
