(* ===== verification/Dskaccess.thy ===== *)
theory Dskaccess
  imports BiosDisk ByteDevice
begin

text \<open>
  \<open>loader/preldr/dskaccess.c\<close>: byte-granular disk access through the track buffer.  The record
  \<open>disk_state\<close> holds the globals the file shares with the rest of the pre-loader; \<open>tbuf\<close> is the
  memory at \<open>bufferaddr\<close>, \<open>scratch\<close> that at \<open>scratchaddr\<close>, and \<open>hook_calls\<close> the calls of
  \<open>disk_read_func\<close> made so far.  The transfer and geometry routines are arguments (\<open>disk_env\<close>), put
  together with \<open>biosdisk\<close> and \<open>get_diskinfo\<close> in \<open>bios_env\<close>.  A destination buffer is a memory and
  an address in it.  \<open>None\<close> is an arithmetic fault, a copy with a negative length, or a loop that
  does not end.
\<close>

section \<open>State\<close>

record 'm disk_state =
  errnum :: grub_error
  buf_drive :: int
  buf_track :: int
  buf_geom :: geometry
  cur_sector_size :: u32
  tbuf :: mem
  scratch :: mem
  media :: 'm
  disk_read_func :: bool
  hook_calls :: "(int \<times> int \<times> int) list"
  current_drive :: u32
  current_partition :: u32
  current_slice :: int
  part_start :: u32
  part_length :: u32
  bsd_evil_hack :: int
  cur_part_offset :: u32
  cur_part_addr :: u32

record 'm disk_env =
  env_biosdisk :: "int \<Rightarrow> int \<Rightarrow> geometry \<Rightarrow> int \<Rightarrow> int \<Rightarrow> int \<Rightarrow> mem \<Rightarrow> 'm \<Rightarrow> (int \<times> geometry \<times> mem \<times> 'm) option"
  env_diskinfo :: "int \<Rightarrow> geometry \<Rightarrow> int \<times> geometry"
  env_rawread_loop :: "int \<Rightarrow> int \<Rightarrow> int \<Rightarrow> int \<Rightarrow> mem \<Rightarrow> nat \<Rightarrow> 'm disk_state \<Rightarrow> (bool \<times> mem \<times> 'm disk_state) option"
  bufferaddr :: int
  scratchaddr :: int

section \<open>Reading\<close>

text \<open>
  \<open>log2\<close> is the instruction \<open>bsf\<close>: the number of the lowest set bit.  Of 0 it leaves its
  operand, 0, alone.
\<close>

definition log2 :: "u32 \<Rightarrow> nat" where
  "log2 w = (case List.find (bit w) [0..<32] of None \<Rightarrow> 0 | Some i \<Rightarrow> i)"

text \<open>\<open>PC_SLICE_TYPE\<close> of \<open>pc_slice.h\<close>, and the test for an EZ-Drive disk map.\<close>

abbreviation (input) PC_SLICE_OFFSET :: nat where "PC_SLICE_OFFSET \<equiv> 446"
abbreviation (input) PC_SLICE_TYPE_EZD :: int where "PC_SLICE_TYPE_EZD \<equiv> 0x55"

definition PC_SLICE_TYPE :: "mem \<Rightarrow> nat \<Rightarrow> int" where
  "PC_SLICE_TYPE mbr part = uint (mbr (PC_SLICE_OFFSET + part * 16 + 4))"

definition is_ezd :: "mem \<Rightarrow> bool" where
  "is_ezd mbr \<longleftrightarrow> (\<exists>i\<in>{0, 1, 2, 3}. PC_SLICE_TYPE mbr i = PC_SLICE_TYPE_EZD)"

text \<open>
  One call of \<open>biosdisk\<close> for reading into the track buffer.
\<close>

definition track_read :: "'m disk_env \<Rightarrow> int \<Rightarrow> int \<Rightarrow> int \<Rightarrow> 'm disk_state \<Rightarrow> (int \<times> 'm disk_state) option" where
  "track_read env drive start n st =
     do {
       (err, g, b, m) \<leftarrow> env_biosdisk env BIOSDISK_READ drive (buf_geom st) start n
                          (drop_bit 4 (bufferaddr env)) (tbuf st) (media st);
       Some (err, st\<lparr>buf_geom := g, tbuf := b, media := m\<rparr>)
     }"

text \<open>Lines 104 to 115: forget the track and get the geometry when the drive has changed.\<close>

definition check_drive :: "'m disk_env \<Rightarrow> int \<Rightarrow> nat \<Rightarrow> 'm disk_state \<Rightarrow> bool \<times> nat \<times> 'm disk_state" where
  "check_drive env drive bits st =
     (if buf_drive st \<noteq> drive
      then let (err, g) = env_diskinfo env drive (buf_geom st) in
           if err \<noteq> 0 then (False, bits, st\<lparr>buf_geom := g, errnum := ERR_NO_DISK\<rparr>)
           else (True, log2 (sector_size g),
                 st\<lparr>buf_geom := g, buf_drive := drive, buf_track := - 1, cur_sector_size := sector_size g\<rparr>)
      else (True, bits, st))"

text \<open>Lines 181 to 201: an EZ-Drive disk keeps the real sector 0 in sector 1.\<close>

definition map_ezd :: "'m disk_env \<Rightarrow> int \<Rightarrow> int \<Rightarrow> int \<Rightarrow> 'm disk_state \<Rightarrow> 'm disk_state option" where
  "map_ezd env drive sector slen st =
     (if (buf_track st = 0 \<or> sector = 0) \<and> is_ezd (tbuf st)
      then if buf_track st = 0 \<or> slen \<ge> 2
           then let n = unat (cur_sector_size st) in
                Some (st\<lparr>tbuf := write_at 0 (read_at n n (tbuf st)) (tbuf st)\<rparr>)
           else do {
             (err, st1) \<leftarrow> track_read env drive 1 1 st;
             Some (if err \<noteq> 0 then st1\<lparr>errnum := ERR_READ\<rparr> else st1)
           }
      else Some st)"

text \<open>
  Lines 137 to 202: get the sectors into the track buffer.  The result is the offset in it at
  which the bytes of the caller start.
\<close>

definition fetch_track ::
  "'m disk_env \<Rightarrow> int \<Rightarrow> int \<Rightarrow> int \<Rightarrow> nat \<Rightarrow> int \<Rightarrow> int \<Rightarrow> 'm disk_state \<Rightarrow> (int \<times> 'm disk_state) option" where
  "fetch_track env drive sector byte_offset bits slen spv st =
     (let soff = sector mod spv;
          track = sector - soff;
          num_sect = spv - soff;
          bufaddr = s32 (s32 (soff * 2 ^ bits) + byte_offset)
      in if track = buf_track st then Some (bufaddr, st)
         else
           let (read_start, read_len, bufaddr) =
             (if slen > num_sect then (sector, num_sect, byte_offset) else (track, spv, bufaddr))
           in do {
             (bios_err, st) \<leftarrow> track_read env drive read_start read_len st;
             (bufaddr, st) \<leftarrow>
               (if bios_err \<noteq> 0
                then
                  let st = st\<lparr>buf_track := - 1\<rparr> in
                  if bios_err = BIOSDISK_ERROR_GEOMETRY then Some (bufaddr, st\<lparr>errnum := ERR_GEOM\<rparr>)
                  else do {
                    (err, st) \<leftarrow> (if slen > num_sect then Some (1, st) else track_read env drive sector slen st);
                    Some (byte_offset, if err \<noteq> 0 then st\<lparr>errnum := ERR_READ\<rparr> else st)
                  }
                else Some (bufaddr, st\<lparr>buf_track := track\<rparr>));
             st \<leftarrow> map_ezd env drive sector slen st;
             Some (bufaddr, st)
           })"

text \<open>Lines 206 to 228: tell the hook which sectors were read and used.\<close>

function hook_whole :: "int \<Rightarrow> int \<Rightarrow> int \<Rightarrow> (int \<times> int \<times> int) list" where
  "hook_whole ss sector_num len =
     (if len > ss \<and> ss > 0 then (sector_num, 0, ss) # hook_whole ss (sector_num + 1) (len - ss)
      else [(sector_num, 0, len)])"
  by pat_completeness auto
termination
  by (relation "measure (\<lambda>(ss, sector_num, len). nat len)") auto

declare hook_whole.simps [simp del]

definition call_hook :: "int \<Rightarrow> int \<Rightarrow> int \<Rightarrow> 'm disk_state \<Rightarrow> 'm disk_state" where
  "call_hook sector byte_offset n st =
     (if disk_read_func st
      then
        let ss = uint (cur_sector_size st);
            len = min (s32 (ss - byte_offset)) n;
            rest = n - len
        in st\<lparr>hook_calls := hook_calls st @ (sector, byte_offset, len) #
                (if rest > 0 then hook_whole ss (sector + 1) rest else [])\<rparr>
      else st)"

text \<open>The copy to the caller's buffer.  A negative length or offset leaves the modelled memory.\<close>

definition copy_out :: "mem \<Rightarrow> int \<Rightarrow> int \<Rightarrow> mem \<Rightarrow> nat \<Rightarrow> mem option" where
  "copy_out src bufaddr n dst a =
     (if n < 0 \<or> bufaddr < 0 then None
      else Some (write_at a (read_at (nat bufaddr) (nat n) src) dst))"

text \<open>The \<open>while\<close> loop of \<open>rawread\<close>.\<close>

partial_function (option) rawread_while ::
  "'m disk_env \<Rightarrow> int \<Rightarrow> int \<Rightarrow> int \<Rightarrow> int \<Rightarrow> nat \<Rightarrow> mem \<Rightarrow> nat \<Rightarrow> 'm disk_state
   \<Rightarrow> (bool \<times> mem \<times> 'm disk_state) option" where
  "rawread_while env drive sector byte_offset byte_len bits dst a st =
     (if \<not> (byte_len > 0 \<and> errnum st = ERR_NONE) then Some (errnum st = ERR_NONE, dst, st)
      else case check_drive env drive bits st of (ok, bits, st) \<Rightarrow>
        if \<not> ok then Some (False, dst, st)
        else if sector < 0 \<or> sector \<ge> uint (total_sectors (buf_geom st))
        then Some (False, dst, st\<lparr>errnum := ERR_GEOM\<rparr>)
        else
          let slen = c_int (drop_bit bits (c_ulong (byte_offset + byte_len) + cur_sector_size st - 1));
              spv = vtrack (buf_geom st) bits
          in if spv \<le> 0 then None
             else do {
               (bufaddr, st) \<leftarrow> fetch_track env drive sector byte_offset bits slen spv st;
               let num_sect = spv - sector mod spv;
               let n = min byte_len (s32 (s32 (num_sect * 2 ^ bits) - byte_offset));
               let st = call_hook sector byte_offset n st;
               dst \<leftarrow> copy_out (tbuf st) bufaddr n dst a;
               rawread_while env drive (s32 (sector + num_sect)) 0 (byte_len - n) bits dst (a + nat n) st
             })"

definition rawread ::
  "'m disk_env \<Rightarrow> int \<Rightarrow> int \<Rightarrow> int \<Rightarrow> int \<Rightarrow> mem \<Rightarrow> nat \<Rightarrow> 'm disk_state \<Rightarrow> (bool \<times> mem \<times> 'm disk_state) option" where
  "rawread env drive sector byte_offset byte_len dst a st =
     (if byte_len \<le> 0 then Some (True, dst, st)
      else if 0xC0 \<le> drive \<and> drive \<le> 0xC7
      then env_rawread_loop env (drive - 0xC0) sector byte_offset byte_len dst a st
      else rawread_while env drive sector byte_offset byte_len (log2 (cur_sector_size st)) dst a st)"

text \<open>
  \<open>rawread_loop\<close> reads a loopback drive through its image file.  The file operations are arguments:
  the result of \<open>u_open\<close> on the name in slot \<open>num\<close> of \<open>LOOPARRAY\<close>, of \<open>u_seek\<close> and of \<open>u_read\<close>.
\<close>

definition rawread_loop ::
  "(int \<Rightarrow> 'm disk_state \<Rightarrow> (int \<times> 'm disk_state) option) \<Rightarrow>
   (int \<Rightarrow> 'm disk_state \<Rightarrow> (int \<times> 'm disk_state) option) \<Rightarrow>
   (int \<Rightarrow> mem \<Rightarrow> nat \<Rightarrow> 'm disk_state \<Rightarrow> (int \<times> mem \<times> 'm disk_state) option) \<Rightarrow>
   int \<Rightarrow> int \<Rightarrow> int \<Rightarrow> int \<Rightarrow> mem \<Rightarrow> nat \<Rightarrow> 'm disk_state \<Rightarrow> (bool \<times> mem \<times> 'm disk_state) option" where
  "rawread_loop u_open u_seek u_read num sector byte_offset byte_len dst a st =
     (let cd = current_drive st; cp = current_partition st; cs = current_slice st;
          ss = sector_size (buf_geom st)
      in do {
        (rc, st) \<leftarrow> u_open num (st\<lparr>cur_sector_size := c_ulong SECTOR_SIZE\<rparr>);
        if rc \<noteq> 0 then Some (False, dst, st)
        else do {
          let st = st\<lparr>cur_sector_size := c_ulong SECTOR_SIZE\<rparr>;
          (pos, st) \<leftarrow> u_seek (c_int (c_ulong sector * cur_sector_size st + c_ulong byte_offset)) st;
          if pos = - 1 then Some (False, dst, st)
          else do {
            (n, dst, st) \<leftarrow> u_read byte_len dst a (st\<lparr>cur_sector_size := ss\<rparr>);
            if n \<noteq> byte_len then Some (False, dst, st)
            else Some (errnum st = ERR_NONE, dst,
              st\<lparr>cur_sector_size := ss, current_drive := cd, current_partition := cp, current_slice := cs\<rparr>)
          }
        }
      })"

section \<open>Writing\<close>

text \<open>One sector from the buffer at \<open>b\<close> of the caller's memory.\<close>

definition rawwrite :: "'m disk_env \<Rightarrow> int \<Rightarrow> int \<Rightarrow> mem \<Rightarrow> nat \<Rightarrow> 'm disk_state \<Rightarrow> (bool \<times> 'm disk_state) option" where
  "rawwrite env drive sector src b st =
     do {
       (ok, sector, st) \<leftarrow>
         (if sector = 0
          then do {
            (err, g, s, m) \<leftarrow> env_biosdisk env BIOSDISK_READ drive (buf_geom st) 0 1
                                (drop_bit 4 (scratchaddr env)) (scratch st) (media st);
            let st = st\<lparr>buf_geom := g, scratch := s, media := m\<rparr>;
            Some (if err \<noteq> 0 then (False, sector, st\<lparr>errnum := ERR_WRITE\<rparr>)
                  else (True, if is_ezd (scratch st) then 1 else sector, st))
          }
          else Some (True, sector, st));
       if \<not> ok then Some (False, st)
       else do {
         let st = st\<lparr>scratch := write_at 0 (read_at b 512 src) (scratch st)\<rparr>;
         (err, g, s, m) \<leftarrow> env_biosdisk env BIOSDISK_WRITE drive (buf_geom st) sector 1
                             (drop_bit 4 (scratchaddr env)) (scratch st) (media st);
         let st = st\<lparr>buf_geom := g, scratch := s, media := m\<rparr>;
         if err \<noteq> 0 then Some (False, st\<lparr>errnum := ERR_WRITE\<rparr>)
         else if sectors (buf_geom st) = 0 then None
         else Some (True,
           if c_ulong sector - c_ulong sector mod sectors (buf_geom st) = c_ulong (buf_track st)
           then st\<lparr>buf_track := - 1\<rparr> else st)
       }
     }"

fun devwrite_from :: "'m disk_env \<Rightarrow> int \<Rightarrow> nat \<Rightarrow> nat \<Rightarrow> mem \<Rightarrow> nat \<Rightarrow> 'm disk_state \<Rightarrow> (bool \<times> 'm disk_state) option" where
  "devwrite_from env sector i 0 src b st = Some (True, st)"
| "devwrite_from env sector i (Suc n) src b st =
     do {
       (ok, st) \<leftarrow> rawwrite env (c_int (current_drive st))
                     (c_int (part_start st + c_ulong sector + of_nat i)) src (b + i * 512) st;
       if \<not> ok then Some (False, st) else devwrite_from env sector (Suc i) n src b st
     }"

definition devwrite :: "'m disk_env \<Rightarrow> int \<Rightarrow> int \<Rightarrow> mem \<Rightarrow> nat \<Rightarrow> 'm disk_state \<Rightarrow> (bool \<times> 'm disk_state) option" where
  "devwrite env sector sector_count src b st = devwrite_from env sector 0 (nat sector_count) src b st"

section \<open>Reading inside the partition\<close>

definition devread ::
  "'m disk_env \<Rightarrow> int \<Rightarrow> int \<Rightarrow> int \<Rightarrow> mem \<Rightarrow> nat \<Rightarrow> 'm disk_state \<Rightarrow> (bool \<times> mem \<times> 'm disk_state) option" where
  "devread env sector byte_offset byte_len dst a st =
     (if sector < 0 \<or>
         c_ulong (sector + drop_bit 9 (s32 (byte_offset + byte_len - 1))) \<ge> part_length st
      then Some (False, dst, st\<lparr>errnum := ERR_OUTSIDE_PART\<rparr>)
      else
        let sector = s32 (sector + drop_bit 9 byte_offset);
            byte_offset = byte_offset AND (SECTOR_SIZE - 1)
        in rawread env (c_int (current_drive st)) (c_int (part_start st + c_ulong sector))
             byte_offset byte_len dst a st)"

text \<open>The pre-loader's own composition: the file drives reach the firmware through \<open>bios.c\<close>.\<close>

definition bios_env ::
  "'m firmware \<Rightarrow> (int \<Rightarrow> int \<Rightarrow> int \<Rightarrow> int \<Rightarrow> mem \<Rightarrow> nat \<Rightarrow> 'm disk_state \<Rightarrow> (bool \<times> mem \<times> 'm disk_state) option)
   \<Rightarrow> int \<Rightarrow> int \<Rightarrow> 'm disk_env" where
  "bios_env fw lr baddr saddr = \<lparr>env_biosdisk = biosdisk fw, env_diskinfo = get_diskinfo fw, env_rawread_loop = lr,
     bufferaddr = baddr, scratchaddr = saddr\<rparr>"

section \<open>The track buffer\<close>

text \<open>
  What reading leaves alone: everything but the buffered drive, its geometry and track, and the
  record of the hook.
\<close>

definition same_view :: "'m disk_state \<Rightarrow> 'm disk_state \<Rightarrow> bool" where
  "same_view st st' \<longleftrightarrow> media st' = media st \<and> errnum st' = errnum st \<and> scratch st' = scratch st \<and>
     disk_read_func st' = disk_read_func st \<and> current_drive st' = current_drive st \<and>
     current_partition st' = current_partition st \<and> current_slice st' = current_slice st \<and>
     part_start st' = part_start st \<and> part_length st' = part_length st \<and> bsd_evil_hack st' = bsd_evil_hack st \<and>
     cur_part_offset st' = cur_part_offset st \<and> cur_part_addr st' = cur_part_addr st"

lemma same_view_refl [simp]: "same_view st st"
  by (simp add: same_view_def)

lemma same_view_trans: "same_view st st' \<Longrightarrow> same_view st' st'' \<Longrightarrow> same_view st st''"
  by (simp add: same_view_def)

text \<open>The buffer belongs to the drive, and the cached track, when there is one, holds its sectors.\<close>

definition buffer_ready :: "int \<Rightarrow> geometry \<Rightarrow> 'm disk_state \<Rightarrow> bool" where
  "buffer_ready drive g st \<longleftrightarrow> buf_drive st = drive \<and> buf_geom st = g \<and> cur_sector_size st = sector_size g"

definition cache_ok :: "geometry \<Rightarrow> nat \<Rightarrow> ('m \<Rightarrow> mem) \<Rightarrow> 'm disk_state \<Rightarrow> bool" where
  "cache_ok g bits disk st \<longleftrightarrow> buf_track st < 0 \<or>
     buf_track st mod vtrack g bits = 0 \<and> buf_track st + vtrack g bits \<le> uint (total_sectors g) \<and>
     read_at 0 (nat (vtrack g bits) * 2 ^ bits) (tbuf st) =
     read_at (nat (buf_track st) * 2 ^ bits) (nat (vtrack g bits) * 2 ^ bits) (disk (media st))"

text \<open>No sector of the first virtual track looks like an EZ-Drive map.\<close>

definition no_ezd :: "geometry \<Rightarrow> nat \<Rightarrow> mem \<Rightarrow> bool" where
  "no_ezd g bits d \<longleftrightarrow> (\<forall>s. int s < vtrack g bits \<longrightarrow> \<not> is_ezd (\<lambda>i. d (s * 2 ^ bits + i)))"

text \<open>Every virtual track that the bytes \<open>off\<close> to \<open>off + len\<close> from \<open>sector\<close> on touch is inside the drive.\<close>

definition tracks_inside :: "geometry \<Rightarrow> nat \<Rightarrow> nat \<Rightarrow> nat \<Rightarrow> nat \<Rightarrow> bool" where
  "tracks_inside g bits sec off len \<longleftrightarrow>
     (let v = nat (vtrack g bits); last = (sec * 2 ^ bits + off + len - 1) div 2 ^ bits
      in (last div v + 1) * v \<le> unat (total_sectors g))"

text \<open>The state fit for a call of \<open>rawread\<close>: the drive is not the buffered one, or its buffer is good.\<close>

definition readable :: "int \<Rightarrow> geometry \<Rightarrow> nat \<Rightarrow> ('m \<Rightarrow> mem) \<Rightarrow> 'm disk_state \<Rightarrow> bool" where
  "readable drive g bits disk st \<longleftrightarrow> errnum st = ERR_NONE \<and> no_ezd g bits (disk (media st)) \<and>
     (buf_drive st = drive \<longrightarrow> buffer_ready drive g st \<and> cache_ok g bits disk st)"

text \<open>
  The state fit for a call of \<open>devread\<close> on sectors of 512 bytes: the current drive is readable, and the
  last virtual track that the partition touches is inside the drive.
\<close>

definition part_ok :: "int \<Rightarrow> geometry \<Rightarrow> ('m \<Rightarrow> mem) \<Rightarrow> 'm disk_state \<Rightarrow> bool" where
  "part_ok drive g disk st \<longleftrightarrow> readable drive g 9 disk st \<and> c_int (current_drive st) = drive \<and>
     tracks_inside g 9 (unat (part_start st)) 0 (unat (part_length st) * 512)"

lemma is_ezd_cong: "(\<And>i. i < 512 \<Longrightarrow> m i = m' i) \<Longrightarrow> is_ezd m = is_ezd m'"
  by (simp add: is_ezd_def PC_SLICE_TYPE_def)

lemma map_ezd_none:
  "\<not> is_ezd (tbuf st) \<or> buf_track st \<noteq> 0 \<and> sector \<noteq> 0 \<Longrightarrow> map_ezd env drive sector slen st = Some st"
  by (auto simp: map_ezd_def)

lemma slen_eq:
  assumes "uint ss = 2 ^ bits" "bits \<le> 11" "o' + l + 2 ^ bits \<le> (2147483648 :: nat)" "0 < l"
  shows "c_int (drop_bit bits (c_ulong (int o' + int l) + ss - 1)) = int ((o' + l + 2 ^ bits - 1) div 2 ^ bits)"
proof -
  have b: "(2::nat) ^ bits \<le> 2 ^ 11" using assms(2) by (intro power_increasing) auto
  have i: "int (o' + l + 2 ^ bits - 1) = int o' + int l + 2 ^ bits - 1"
    using assms(4) by (simp add: of_nat_diff)
  have "uint (c_ulong (int o' + int l)) = int o' + int l"
    using assms(3) by (intro uint_c_ulong) auto
  then have "uint (c_ulong (int o' + int l) + ss - 1) = (int o' + int l + 2 ^ bits - 1) mod 4294967296"
    using assms(1) by (simp only: uint_word_ariths) (simp add: mod_simps)
  also have "\<dots> = int (o' + l + 2 ^ bits - 1)"
    unfolding i [symmetric] using assms(3) by (intro mod_pos_pos_trivial) auto
  finally have u: "uint (drop_bit bits (c_ulong (int o' + int l) + ss - 1)) = int ((o' + l + 2 ^ bits - 1) div 2 ^ bits)"
    by (simp only: uint_drop_bit) (simp add: zdiv_int)
  have "(o' + l + 2 ^ bits - 1) div 2 ^ bits \<le> o' + l + 2 ^ bits - 1" by (rule div_le_dividend)
  with assms(3,4) have "int ((o' + l + 2 ^ bits - 1) div 2 ^ bits) < 2147483648" by linarith
  with u show ?thesis by (simp add: c_int_small)
qed

lemma log2_power:
  assumes "uint ss = 2 ^ bits" "bits \<in> {9, 10, 11}"
  shows "log2 (ss :: u32) = bits"
proof -
  have "ss = word_of_int (2 ^ bits)" using assms(1) by (metis word_of_int_uint)
  then show ?thesis using assms(2)
    by (elim insertE emptyE) (simp_all add: log2_def upt_rec bit_iff_odd_drop_bit)
qed

section \<open>Reading through the buffer\<close>

text \<open>
  The environment of \<open>rawread\<close>: its transfers are those of a block device, and probing the drive
  finds the geometry of that device.
\<close>

locale disk_reader = block_device bd drive geom bits disk
  for bd :: "int \<Rightarrow> int \<Rightarrow> geometry \<Rightarrow> int \<Rightarrow> int \<Rightarrow> int \<Rightarrow> mem \<Rightarrow> 'm \<Rightarrow> (int \<times> geometry \<times> mem \<times> 'm) option"
    and drive :: int and geom :: geometry and bits :: nat and disk :: "'m \<Rightarrow> mem" +
  fixes env :: "'m disk_env"
  assumes transfers: "env_biosdisk env = bd"
    and probe: "env_diskinfo env drive g = (0, geom)"
    and no_loop_drive: "\<not> (0xC0 \<le> drive \<and> drive \<le> 0xC7)"
begin

definition v :: nat where "v = nat (vtrack geom bits)"

definition B :: nat where "B = 2 ^ bits"

lemma v_int: "vtrack geom bits = int v" and v_pos: "0 < v" and vB: "v * B \<le> 3584"
  and B_range: "512 \<le> B" "B \<le> 2048" and bits_range: "bits \<in> {9, 10, 11}" "bits \<le> 11"
  and total_range: "unat (total_sectors geom) < 2147483648"
proof -
  note vb = vtrack_bounds [OF sane]
  show b: "bits \<in> {9, 10, 11}" "bits \<le> 11" using sane by (auto simp: geom_sane_def)
  then show "512 \<le> B" "B \<le> 2048" by (auto simp: B_def)
  show v: "vtrack geom bits = int v" using vb by (simp add: v_def)
  show "0 < v" using vb v by simp
  have "int (v * B) \<le> 3584" using vb(3) by (simp add: v B_def)
  then show "v * B \<le> 3584" by linarith
  show "unat (total_sectors geom) < 2147483648"
    using sane unfolding geom_sane_def by (metis of_nat_less_iff of_nat_numeral uint_nat)
qed

lemma track_read_ok:
  assumes "buffer_ready drive geom st" "0 < n" "s mod v + n \<le> v" "s + n \<le> unat (total_sectors geom)"
  shows "track_read env drive (int s) (int n) st =
    Some (0, st\<lparr>tbuf := write_at 0 (read_at (s * B) (n * B) (disk (media st))) (tbuf st)\<rparr>)"
proof -
  have "bd BIOSDISK_READ drive geom (int s) (int n) seg buf m = Some (0, geom,
      write_at 0 (read_at (nat (int s * 2 ^ bits)) (nat (int n * 2 ^ bits)) (disk m)) buf, m)" for seg buf m
  proof (rule read_inside)
    show "0 \<le> int s" "0 < int n" using assms(2) by simp_all
    show "int s mod vtrack geom bits + int n \<le> vtrack geom bits"
      using assms(3) unfolding v_int by (simp flip: of_nat_mod of_nat_add)
    show "int s + int n \<le> uint (total_sectors geom)"
      using assms(4) unfolding uint_nat by linarith
  qed
  moreover have "nat (int x * 2 ^ bits) = x * B" for x
    by (simp add: B_def nat_mult_distrib nat_power_eq)
  ultimately show ?thesis
    using assms(1) by (simp add: track_read_def transfers buffer_ready_def)
qed

lemma not_ezd_buffer:
  assumes "no_ezd geom bits d" "s < v" "0 < n"
  shows "\<not> is_ezd (write_at 0 (read_at (s * B) (n * B) d) b)"
proof -
  have "B \<le> n * B" using assms(3) by simp
  then have "i < 512 \<Longrightarrow> i < n * B" for i using B_range by linarith
  then have "is_ezd (write_at 0 (read_at (s * B) (n * B) d) b) = is_ezd (\<lambda>i. d (s * 2 ^ bits + i))"
    by (intro is_ezd_cong) (simp add: write_at_inside B_def [symmetric])
  with assms(1,2) show ?thesis by (simp add: no_ezd_def v_int)
qed

text \<open>The state of the loop between two iterations.\<close>

definition fetchable :: "nat \<Rightarrow> 'm disk_state \<Rightarrow> bool" where
  "fetchable s st \<longleftrightarrow> buffer_ready drive geom st \<and> errnum st = ERR_NONE \<and> no_ezd geom bits (disk (media st)) \<and>
     (cache_ok geom bits disk st \<or> s mod v = 0 \<and> int s \<noteq> buf_track st)"

text \<open>
  A sector is a track \<open>t\<close> and the \<open>r\<close> sectors before it on the track, with \<open>n\<close> sectors to the end.
\<close>

definition on_track :: "nat \<Rightarrow> nat \<Rightarrow> nat \<Rightarrow> bool" where
  "on_track t r n \<longleftrightarrow> t mod v = 0 \<and> 0 < n \<and> v = r + n"

lemma on_track_ex: "\<exists>t r n. on_track t r n \<and> s = t + r"
proof -
  have "on_track (s - s mod v) (s mod v) (v - s mod v)"
    using v_pos by (simp add: on_track_def minus_mod_eq_mult_div less_imp_le)
  moreover have "s = (s - s mod v) + s mod v" by simp
  ultimately show ?thesis by blast
qed

lemma on_track_mod:
  assumes "on_track t r n"
  shows "(t + r) mod v = r" "int (t + r) mod int v = int r" "int (t + r) - int r = int t"
    "int v - int r = int n" "(r + n) * B \<le> 3584" "r < v" "t mod v = 0" "0 < n" "v = r + n"
proof -
  show m: "(t + r) mod v = r"
  proof -
    have "(t + r) mod v = (t mod v + r) mod v" by (rule mod_add_left_eq [symmetric])
    also have "\<dots> = r" using assms by (auto simp: on_track_def)
    finally show ?thesis .
  qed
  then show i: "int (t + r) mod int v = int r" by (simp only: of_nat_mod [symmetric])
  show "int (t + r) - int r = int t" "int v - int r = int n"
    using assms by (simp_all add: on_track_def)
  show n: "t mod v = 0" "0 < n" "v = r + n"
    using assms unfolding on_track_def by blast+
  show "(r + n) * B \<le> 3584" "r < v"
    using vB n by simp_all
qed

lemma cache_ok_nat:
  assumes "buf_track st = int t"
  shows "cache_ok geom bits disk st \<longleftrightarrow> t mod v = 0 \<and> t + v \<le> unat (total_sectors geom) \<and>
     read_at 0 (v * B) (tbuf st) = read_at (t * B) (v * B) (disk (media st))"
proof -
  have "int t mod int v = 0 \<longleftrightarrow> t mod v = 0" by (simp flip: of_nat_mod)
  moreover have "int t + int v \<le> uint (total_sectors geom) \<longleftrightarrow> t + v \<le> unat (total_sectors geom)"
    unfolding uint_nat by linarith
  ultimately show ?thesis
    by (simp add: cache_ok_def assms v_int B_def)
qed

lemma buffer_offset:
  assumes "on_track t r n" "off \<le> n * B"
  shows "s32 (s32 (int r * 2 ^ bits) + int off) = int (r * B + off)"
proof -
  have "r * B + off \<le> 3584"
    using on_track_mod(5) [OF assms(1)] assms(2) by (simp add: add_mult_distrib)
  moreover have "int r * 2 ^ bits + int off = int (r * B + off)" by (simp add: B_def)
  ultimately show ?thesis
    using s32_nat [of "r * B + off"] by (simp only: s32_add_s32)
qed

lemma fetch_hit:
  assumes "on_track t r n" "int t = buf_track st" "off \<le> n * B"
  shows "fetch_track env drive (int (t + r)) (int off) bits slen (int v) st = Some (int (r * B + off), st)"
  unfolding fetch_track_def Let_def on_track_mod(2-4) [OF assms(1)] buffer_offset [OF assms(1,3)]
  using assms(2) by simp

lemma fetch_cached:
  assumes "fetchable (t + r) st" "on_track t r n" "int t = buf_track st" "off \<le> n * B"
  shows "fetch_track env drive (int (t + r)) (int off) bits slen (int v) st = Some (int (r * B + off), st)"
    and "cache_ok geom bits disk st"
proof -
  note t = on_track_mod [OF assms(2)]
  show "fetch_track env drive (int (t + r)) (int off) bits slen (int v) st = Some (int (r * B + off), st)"
    by (rule fetch_hit [OF assms(2-4)])
  have "r \<noteq> 0 \<or> int (t + r) = buf_track st" using assms(3) by auto
  then show "cache_ok geom bits disk st"
    using assms(1) unfolding fetchable_def t(1) by metis
qed

lemma cached_bytes:
  assumes "cache_ok geom bits disk st" "on_track t r n" "buf_track st = int t" "off + k \<le> n * B"
  shows "read_at (r * B + off) k (tbuf st) = read_at ((t + r) * B + off) k (disk (media st))"
proof -
  note t = on_track_mod [OF assms(2)]
  have "read_at 0 (v * B) (tbuf st) = read_at (t * B) (v * B) (disk (media st))"
    using assms(1) cache_ok_nat [OF assms(3)] by simp
  then have "take k (drop (r * B + off) (read_at 0 (v * B) (tbuf st))) =
      take k (drop (r * B + off) (read_at (t * B) (v * B) (disk (media st))))" by simp
  moreover have "k \<le> v * B - (r * B + off)"
    using assms(4) t(9) by (simp add: add_mult_distrib)
  ultimately show ?thesis
    by (simp add: take_read_at drop_read_at min_def add_mult_distrib add.assoc)
qed

lemma fetch_partial:
  assumes "fetchable (t + r) st" "on_track t r n" "int t \<noteq> buf_track st" "int n < slen"
    and "t + v \<le> unat (total_sectors geom)"
  defines "b \<equiv> write_at 0 (read_at ((t + r) * B) (n * B) (disk (media st))) (tbuf st)"
  shows "fetch_track env drive (int (t + r)) (int off) bits slen (int v) st =
    Some (int off, st\<lparr>tbuf := b, buf_track := int t\<rparr>)"
proof -
  note t = on_track_mod [OF assms(2)]
  have ready: "buffer_ready drive geom st" and ez: "no_ezd geom bits (disk (media st))"
    using assms(1) by (simp_all add: fetchable_def)
  have r: "track_read env drive (int (t + r)) (int n) st = Some (0, st\<lparr>tbuf := b\<rparr>)"
    unfolding b_def using t assms(5) by (intro track_read_ok [OF ready]) simp_all
  have "\<not> is_ezd b \<or> int t \<noteq> 0 \<and> int (t + r) \<noteq> 0"
    using not_ezd_buffer [OF ez, of "t + r" n "tbuf st"] t(6,8) unfolding b_def by (cases "t = 0") simp_all
  then have m: "map_ezd env drive (int (t + r)) slen (st\<lparr>tbuf := b, buf_track := int t\<rparr>) =
      Some (st\<lparr>tbuf := b, buf_track := int t\<rparr>)"
    by (intro map_ezd_none) simp
  show ?thesis
    unfolding fetch_track_def Let_def t(2-4) using assms(3,4) r m by simp
qed

lemma fetch_whole:
  assumes "fetchable (t + r) st" "on_track t r n" "int t \<noteq> buf_track st" "\<not> int n < slen"
    and "t + v \<le> unat (total_sectors geom)" "off \<le> n * B"
  defines "b \<equiv> write_at 0 (read_at (t * B) (v * B) (disk (media st))) (tbuf st)"
  shows "fetch_track env drive (int (t + r)) (int off) bits slen (int v) st =
      Some (int (r * B + off), st\<lparr>tbuf := b, buf_track := int t\<rparr>)"
    and "cache_ok geom bits disk (st\<lparr>tbuf := b, buf_track := int t\<rparr>)"
proof -
  note t = on_track_mod [OF assms(2)]
  have ready: "buffer_ready drive geom st" and ez: "no_ezd geom bits (disk (media st))"
    using assms(1) by (simp_all add: fetchable_def)
  have r: "track_read env drive (int t) (int v) st = Some (0, st\<lparr>tbuf := b\<rparr>)"
    unfolding b_def using t(7) v_pos assms(5) by (intro track_read_ok [OF ready]) simp_all
  have "\<not> is_ezd b \<or> int t \<noteq> 0 \<and> int (t + r) \<noteq> 0"
    using not_ezd_buffer [OF ez, of t v "tbuf st"] v_pos unfolding b_def by (cases "t = 0") simp_all
  then have m: "map_ezd env drive (int (t + r)) slen (st\<lparr>tbuf := b, buf_track := int t\<rparr>) =
      Some (st\<lparr>tbuf := b, buf_track := int t\<rparr>)"
    by (intro map_ezd_none) simp
  show "fetch_track env drive (int (t + r)) (int off) bits slen (int v) st =
      Some (int (r * B + off), st\<lparr>tbuf := b, buf_track := int t\<rparr>)"
    unfolding fetch_track_def Let_def t(2-4) buffer_offset [OF assms(2,6)] using assms(3,4) r m by simp
  have "read_at 0 (v * B) b = read_at (t * B) (v * B) (disk (media st))"
    using read_write_same [of 0 "read_at (t * B) (v * B) (disk (media st))"] by (simp add: b_def)
  then show "cache_ok geom bits disk (st\<lparr>tbuf := b, buf_track := int t\<rparr>)"
    using t(7) assms(5) by (subst cache_ok_nat [of _ t]) simp_all
qed

text \<open>
  Whatever the way the bytes got into the buffer: the first \<open>k\<close> bytes wanted are at the offset
  returned, and the state is fit for the sector that starts the next track, or the cache is good.
\<close>

lemma fetch_track_ok:
  assumes "fetchable (t + r) st" "on_track t r n" "t + v \<le> unat (total_sectors geom)" "off < n * B"
  shows "\<exists>p st'. fetch_track env drive (int (t + r)) (int off) bits slen (int v) st = Some (int p, st') \<and>
    same_view st st' \<and> buffer_ready drive geom st' \<and>
    (\<forall>k. off + k \<le> n * B \<longrightarrow> read_at p k (tbuf st') = read_at ((t + r) * B + off) k (disk (media st))) \<and>
    (cache_ok geom bits disk st' \<or> buf_track st' = int t \<and> int n < slen)"
proof -
  have ready: "buffer_ready drive geom st" using assms(1) by (simp add: fetchable_def)
  consider "int t = buf_track st" | "int t \<noteq> buf_track st" "int n < slen" | "int t \<noteq> buf_track st" "\<not> int n < slen"
    by blast
  then show ?thesis
  proof cases
    case 1
    note f = fetch_cached [OF assms(1,2) 1 less_imp_le [OF assms(4)]]
    show ?thesis
      using f cached_bytes [OF f(2) assms(2) 1 [symmetric]] ready
      by (intro exI [of _ "r * B + off"] exI [of _ st]) (simp del: of_nat_add of_nat_mult)
  next
    case 2
    let ?b = "write_at 0 (read_at ((t + r) * B) (n * B) (disk (media st))) (tbuf st)"
    have "off + k \<le> n * B \<Longrightarrow> read_at off k ?b = read_at ((t + r) * B + off) k (disk (media st))" for k
      by (auto simp: read_write_inside take_read_at drop_read_at min_def)
    then show ?thesis
      using fetch_partial [OF assms(1,2) 2 assms(3), of off] 2 ready
      by (auto simp: same_view_def buffer_ready_def)
  next
    case 3
    note f = fetch_whole [OF assms(1,2) 3 assms(3) less_imp_le [OF assms(4)]]
    let ?st = "st\<lparr>tbuf := write_at 0 (read_at (t * B) (v * B) (disk (media st))) (tbuf st), buf_track := int t\<rparr>"
    show ?thesis
      using f cached_bytes [OF f(2) assms(2)] ready
      by (intro exI [of _ "r * B + off"] exI [of _ ?st])
        (simp add: same_view_def buffer_ready_def del: of_nat_add of_nat_mult)
  qed
qed

lemma call_hook_view [simp]:
  "same_view st (call_hook s off k st)" "buffer_ready d g (call_hook s off k st) = buffer_ready d g st"
  "cache_ok g bits disk (call_hook s off k st) = cache_ok g bits disk st"
  "buf_track (call_hook s off k st) = buf_track st" "tbuf (call_hook s off k st) = tbuf st"
  by (simp_all add: call_hook_def same_view_def buffer_ready_def cache_ok_def Let_def)

lemma tracks_inside_step:
  assumes "tracks_inside geom bits (t + r) off l" "on_track t r n" "0 < l"
  shows "t + v \<le> unat (total_sectors geom)"
    and "n * B \<le> off + l \<Longrightarrow> n * B - off < l \<Longrightarrow> off < n * B \<Longrightarrow>
      tracks_inside geom bits (t + v) 0 (l - (n * B - off))"
proof -
  note t = on_track_mod [OF assms(2)]
  let ?last = "((t + r) * B + off + l - 1) div B"
  have i: "(?last div v + 1) * v \<le> unat (total_sectors geom)"
    using assms(1) by (simp add: tracks_inside_def Let_def v_def B_def)
  have "(t + r) * B div B \<le> ?last" using assms(3) by (intro div_le_mono) simp
  then have "t \<le> ?last" using B_range by simp
  then have "t div v \<le> ?last div v" by (rule div_le_mono)
  then have "(t div v + 1) * v \<le> (?last div v + 1) * v" by (intro mult_le_mono1) simp
  moreover have "t + v = (t div v + 1) * v"
    using t(7) div_mult_mod_eq [of t v] by (simp add: add_mult_distrib)
  ultimately show "t + v \<le> unat (total_sectors geom)" using i by linarith
  assume l: "n * B \<le> off + l" "n * B - off < l" "off < n * B"
  have "(t + v) * B + 0 + (l - (n * B - off)) - 1 = (t + r) * B + off + l - 1"
    using l t(9) by (simp add: add_mult_distrib)
  then show "tracks_inside geom bits (t + v) 0 (l - (n * B - off))"
    using i by (simp add: tracks_inside_def Let_def v_def B_def)
qed

lemma rawread_while_step:
  assumes "buffer_ready drive geom st" "errnum st = ERR_NONE" "on_track t r n"
    and "t + v \<le> unat (total_sectors geom)" "off < n * B" "0 < l" "off + l + B \<le> 2147483648"
    and "fetch_track env drive (int (t + r)) (int off) bits (int ((off + l + B - 1) div B)) (int v) st = Some (int p, st1)"
  defines "k \<equiv> min l (n * B - off)"
  shows "rawread_while env drive (int (t + r)) (int off) (int l) bits dst a st =
    rawread_while env drive (int (t + v)) 0 (int (l - k)) bits
      (write_at a (read_at p k (tbuf st1)) dst) (a + k) (call_hook (int (t + r)) (int off) (int k) st1)"
proof -
  note t = on_track_mod [OF assms(3)]
  have ss: "uint (sector_size geom) = 2 ^ bits" using sane by (simp add: geom_sane_def)
  have c: "check_drive env drive bits st = (True, bits, st)"
    using assms(1) by (simp add: check_drive_def buffer_ready_def)
  have g: "buf_geom st = geom" "cur_sector_size st = sector_size geom"
    using assms(1) by (simp_all add: buffer_ready_def)
  have slen: "c_int (drop_bit bits (c_ulong (int off + int l) + sector_size geom - 1)) = int ((off + l + B - 1) div B)"
    using slen_eq [OF ss bits_range(2), of off l] assms(6,7) by (simp add: B_def)
  have nB: "n * B \<le> 3584" using t(5) by (simp add: add_mult_distrib)
  have "s32 (s32 (int n * 2 ^ bits) - int off) = s32 (int (n * B - off))"
  proof -
    have "int n * 2 ^ bits = int (n * B)" by (simp add: B_def)
    moreover have "s32 (int (n * B)) = int (n * B)" using nB by (intro s32_nat) simp
    moreover have "int (n * B - off) = int (n * B) - int off"
      using assms(5) by (intro of_nat_diff) simp
    ultimately show ?thesis by (simp only:)
  qed
  also have "\<dots> = int (n * B - off)" using nB by (intro s32_nat) simp
  finally have size: "min (int l) (s32 (s32 (int n * 2 ^ bits) - int off)) = int k"
    by (simp add: k_def)
  have sec: "s32 (int (t + r) + int n) = int (t + v)"
  proof -
    have "int (t + r) + int n = int (t + v)" using t(9) by simp
    then show ?thesis using s32_nat [of "t + v"] assms(4) total_range by simp
  qed
  have range: "\<not> (int (t + r) < 0 \<or> uint (total_sectors geom) \<le> int (t + r))"
    using assms(4) t(6) unfolding uint_nat by linarith
  have kl: "int l - int k = int (l - k)" by (simp add: k_def of_nat_diff)
  have cp: "copy_out (tbuf st1) (int p) (int k) dst a = Some (write_at a (read_at p k (tbuf st1)) dst)"
    by (simp add: copy_out_def)
  have pos: "0 < int l \<and> errnum st = ERR_NONE" using assms(2,6) by simp
  show ?thesis
    apply (subst rawread_while.simps)
    apply (simp only: pos c g slen v_int range prod.case if_False if_True Let_def simp_thms assms(8)
        Option.bind.bind_lunit t(2) t(4) size sec kl cp call_hook_view nat_int)
    using v_pos by simp
qed

lemma sector_inside: "tracks_inside geom bits s off l \<Longrightarrow> 0 < l \<Longrightarrow> s < unat (total_sectors geom)"
proof -
  assume a: "tracks_inside geom bits s off l" "0 < l"
  obtain t r n where tr: "on_track t r n" "s = t + r" using on_track_ex by blast
  show "s < unat (total_sectors geom)"
    using tracks_inside_step(1) [OF a(1) [unfolded tr(2)] tr(1) a(2)] on_track_mod(6) [OF tr(1)]
    unfolding tr(2) by linarith
qed

lemma on_cached_track:
  assumes "cache_ok geom bits disk st" "buf_track st = int t" "t \<le> s" "int s < int t + vtrack geom bits"
  shows "\<exists>n. on_track t (s - t) n"
  using assms cache_ok_nat [OF assms(2)] unfolding v_int
  by (intro exI [of _ "v - (s - t)"]) (auto simp: on_track_def)

text \<open>The main induction: over the bytes still to be copied.\<close>

lemma rawread_while_ok:
  assumes "fetchable s st" "off < B" "0 < l" "off + l + B \<le> 2147483648" "tracks_inside geom bits s off l"
  shows "\<exists>st'. rawread_while env drive (int s) (int off) (int l) bits dst a st =
      Some (True, write_at a (read_at (s * B + off) l (disk (media st))) dst, st') \<and>
    same_view st st' \<and> buffer_ready drive geom st' \<and> cache_ok geom bits disk st'"
  using assms
proof (induction l arbitrary: s off st dst a rule: less_induct)
  case (less l)
  obtain t r n where tr: "on_track t r n" "s = t + r" using on_track_ex by blast
  note t = on_track_mod [OF tr(1)]
  have ready: "buffer_ready drive geom st" and ok: "errnum st = ERR_NONE"
    using less.prems(1) by (simp_all add: fetchable_def)
  have "1 * B \<le> n * B" using t(8) by (intro mult_le_mono1) simp
  then have off: "off < n * B" using less.prems(2) by linarith
  note inside = tracks_inside_step [OF less.prems(5) [unfolded tr(2)] tr(1) less.prems(3)]
  let ?slen = "int ((off + l + B - 1) div B)"
  let ?d = "disk (media st)"
  obtain p st1 where f: "fetch_track env drive (int (t + r)) (int off) bits ?slen (int v) st = Some (int p, st1)"
    and v1: "same_view st st1" "buffer_ready drive geom st1"
    and bytes: "\<And>k. off + k \<le> n * B \<Longrightarrow> read_at p k (tbuf st1) = read_at ((t + r) * B + off) k ?d"
    and c1: "cache_ok geom bits disk st1 \<or> buf_track st1 = int t \<and> int n < ?slen"
    using fetch_track_ok [OF less.prems(1) [unfolded tr(2)] tr(1) inside(1) off] by blast
  define k where "k = min l (n * B - off)"
  let ?st2 = "call_hook (int (t + r)) (int off) (int k) st1"
  let ?dst2 = "write_at a (read_at ((t + r) * B + off) k ?d) dst"
  have v2: "same_view st ?st2" using v1(1) same_view_trans call_hook_view(1) by blast
  have e: "rawread_while env drive (int s) (int off) (int l) bits dst a st =
      rawread_while env drive (int (t + v)) 0 (int (l - k)) bits
        (write_at a (read_at ((t + r) * B + off) k ?d) dst) (a + k) ?st2"
    using rawread_while_step [OF ready ok tr(1) inside(1) off less.prems(3,4) f, of dst a] bytes [of k] off
    by (simp add: k_def tr(2))
  show ?case
  proof (cases "l \<le> n * B - off")
    case True
    then have kl: "k = l" by (simp add: k_def)
    have "off + l \<le> n * B" using True off by linarith
    then have "off + l + B - 1 < (n + 1) * B" using B_range by (simp add: add_mult_distrib)
    then have "(off + l + B - 1) div B < n + 1" using B_range by (subst div_less_iff_less_mult) auto
    then have "cache_ok geom bits disk st1" using c1 by auto
    moreover have "rawread_while env drive (int (t + v)) 0 (int (l - k)) bits
        (write_at a (read_at ((t + r) * B + off) k ?d) dst) (a + k) ?st2 =
        Some (True, write_at a (read_at (s * B + off) l ?d) dst, ?st2)"
      using v2 ok by (subst rawread_while.simps) (simp add: kl tr(2) same_view_def)
    ultimately show ?thesis using e v1 v2 by (intro exI [of _ ?st2]) simp
  next
    case False
    then have k: "k = n * B - off" "k < l" "0 < k" using off by (simp_all add: k_def)
    have "media ?st2 = media st" "errnum ?st2 = ERR_NONE" using v2 ok by (simp_all add: same_view_def)
    then have "fetchable (t + v) ?st2"
      using less.prems(1) v1 c1 t(7) v_pos by (auto simp: fetchable_def mod_add_eq)
    moreover have "tracks_inside geom bits (t + v) 0 (l - k)"
      using inside(2) False off k by simp
    ultimately have "\<exists>st'. rawread_while env drive (int (t + v)) (int 0) (int (l - k)) bits ?dst2 (a + k) ?st2 =
        Some (True, write_at (a + k) (read_at ((t + v) * B + 0) (l - k) (disk (media ?st2))) ?dst2, st') \<and>
      same_view ?st2 st' \<and> buffer_ready drive geom st' \<and> cache_ok geom bits disk st'"
      using k(2,3) less.prems(3,4) B_range by (intro less.IH) (simp_all del: of_nat_add of_nat_diff)
    then obtain st' where st': "rawread_while env drive (int (t + v)) 0 (int (l - k)) bits ?dst2 (a + k) ?st2 =
        Some (True, write_at (a + k) (read_at ((t + v) * B + 0) (l - k) (disk (media ?st2))) ?dst2, st')"
      "same_view ?st2 st'" "buffer_ready drive geom st'" "cache_ok geom bits disk st'"
      by (auto simp del: of_nat_add of_nat_diff)
    have "(t + v) * B = (t + r) * B + off + k" using k off t(9) by (simp add: add_mult_distrib)
    then have "write_at (a + k) (read_at ((t + v) * B + 0) (l - k) (disk (media ?st2)))
        (write_at a (read_at ((t + r) * B + off) k ?d) dst) = write_at a (read_at (s * B + off) l ?d) dst"
      using write_at_append [of a "read_at ((t + r) * B + off) k ?d" "read_at ((t + v) * B) (l - k) ?d" dst]
        read_at_append [of "(t + r) * B + off" k "l - k" ?d] k \<open>media ?st2 = media st\<close>
      by (simp add: tr(2))
    moreover have "same_view st st'" by (rule same_view_trans [OF v2 st'(2)])
    ultimately show ?thesis using st'(1,3,4) unfolding e by (intro exI [of _ st']) simp
  qed
qed

lemma fetchable_readable: "buffer_ready drive geom st \<Longrightarrow> readable drive geom bits disk st \<Longrightarrow> fetchable s st"
  by (auto simp: readable_def fetchable_def buffer_ready_def)

lemma rawread_ready:
  assumes "readable drive geom bits disk st" "off < B" "0 < l" "off + l + B \<le> 2147483648" "tracks_inside geom bits s off l"
  shows "\<exists>st'. rawread env drive (int s) (int off) (int l) dst a st =
      Some (True, write_at a (read_at (s * B + off) l (disk (media st))) dst, st') \<and>
    same_view st st' \<and> readable drive geom bits disk st' \<and> buf_drive st' = drive"
proof -
  have ss: "uint (sector_size geom) = 2 ^ bits" using sane by (simp add: geom_sane_def)
  have lg: "log2 (sector_size geom) = bits" by (rule log2_power [OF ss bits_range(1)])
  let ?st = "st\<lparr>buf_geom := geom, buf_drive := drive, buf_track := - 1, cur_sector_size := sector_size geom\<rparr>"
  have fin: "same_view st st' \<Longrightarrow> buffer_ready drive geom st' \<Longrightarrow> cache_ok geom bits disk st' \<Longrightarrow> readable drive geom bits disk st'" for st'
    using assms(1) by (auto simp: readable_def same_view_def)
  have raw: "rawread env drive (int s) (int off) (int l) dst a st =
      rawread_while env drive (int s) (int off) (int l) (log2 (cur_sector_size st)) dst a st"
    using no_loop_drive assms(3) by (auto simp: rawread_def)
  show ?thesis
  proof (cases "buf_drive st = drive")
    case True
    then have "buffer_ready drive geom st" using assms(1) by (simp add: readable_def)
    moreover have "log2 (cur_sector_size st) = bits"
      using calculation lg by (simp add: buffer_ready_def)
    ultimately show ?thesis
      using rawread_while_ok [OF fetchable_readable [OF _ assms(1)] assms(2-5)] fin unfolding raw
      by (metis buffer_ready_def)
  next
    case False
    have "check_drive env drive b st = (True, bits, ?st)" for b
      using False lg by (simp add: check_drive_def probe)
    moreover have "check_drive env drive b ?st = (True, b, ?st)" for b
      by (simp add: check_drive_def)
    ultimately have e: "rawread_while env drive (int s) (int off) (int l) b dst a st =
        rawread_while env drive (int s) (int off) (int l) bits dst a ?st" for b
      using assms(1,3) by (subst (1 2) rawread_while.simps) (simp add: readable_def)
    have "fetchable s ?st"
      using assms(1) by (simp add: readable_def fetchable_def buffer_ready_def cache_ok_def)
    from rawread_while_ok [OF this assms(2-5), of dst a]
    obtain st' where "rawread_while env drive (int s) (int off) (int l) bits dst a ?st =
        Some (True, write_at a (read_at (s * B + off) l (disk (media st))) dst, st')"
      "same_view ?st st'" "buffer_ready drive geom st'" "cache_ok geom bits disk st'" by auto
    moreover have "same_view st st'" using calculation(2) by (simp add: same_view_def)
    ultimately show ?thesis using fin e unfolding raw by (auto simp: buffer_ready_def)
  qed
qed

lemma rawread_ok:
  assumes "readable drive geom bits disk st" "off < B" "0 < l" "off + l + B \<le> 2147483648" "tracks_inside geom bits s off l"
  shows "\<exists>st'. rawread env drive (int s) (int off) (int l) dst a st =
      Some (True, write_at a (read_at (s * B + off) l (disk (media st))) dst, st') \<and>
    same_view st st' \<and> readable drive geom bits disk st'"
  using rawread_ready [OF assms] by blast

end

lemma tracks_inside_mono:
  assumes "tracks_inside g bits s off l" "s * 2 ^ bits + off + l \<ge> s' * 2 ^ bits + off' + l'"
  shows "tracks_inside g bits s' off' l'"
proof -
  let ?v = "nat (vtrack g bits)"
  let ?a = "(s * 2 ^ bits + off + l - 1) div 2 ^ bits" and ?b = "(s' * 2 ^ bits + off' + l' - 1) div 2 ^ bits"
  have "?b \<le> ?a" using assms(2) by (intro div_le_mono) simp
  then have "?b div ?v \<le> ?a div ?v" by (rule div_le_mono)
  then have "(?b div ?v + 1) * ?v \<le> (?a div ?v + 1) * ?v" by (intro mult_le_mono1) simp
  then show ?thesis using assms(1) unfolding tracks_inside_def Let_def by (rule order_trans)
qed

section \<open>Reading inside the partition\<close>

text \<open>
  The check of \<open>devread\<close> adds offset and length as \<open>int\<close>: a sum above \<open>2 ^ 31\<close> wraps, and the end of the range is
  taken to be \<open>2 ^ 23\<close> sectors earlier than it is.
\<close>

definition checked_end :: "nat \<Rightarrow> nat \<Rightarrow> nat \<Rightarrow> nat" where
  "checked_end s off l =
     (if off + l \<le> 2147483648 then s + (off + l - 1) div 512 else (s + (off + l - 1) div 512 + 4286578688) mod 4294967296)"

lemma word_of_int_eqI: "a mod 4294967296 = b mod 4294967296 \<Longrightarrow> (word_of_int a :: u32) = word_of_int b"
  by (simp add: word_of_int_eq_iff take_bit_eq_mod)

lemma checked_end_ok:
  assumes "0 < l" "l < 2147483648" "off < 2147483648" "s < 2147483648"
  shows "unat (c_ulong (int s + drop_bit 9 (s32 (int off + int l - 1)))) = checked_end s off l"
proof -
  let ?e = "(off + l - 1) div 512"
  have q: "?e < 8388608" using assms by (simp add: less_mult_imp_div_less)
  have i: "int off + int l - 1 = int (off + l - 1)" using assms(1) by simp
  show ?thesis
  proof (cases "off + l \<le> 2147483648")
    case True
    then have "s32 (int off + int l - 1) = int (off + l - 1)" using assms(1) unfolding i by (intro s32_nat) simp
    then have "drop_bit 9 (s32 (int off + int l - 1)) = int ?e" by (simp add: drop_bit_eq_div zdiv_int)
    moreover have "s + ?e < 4294967296" using q assms(4) by linarith
    ultimately show ?thesis using True unat_c_ulong [of "s + ?e"] by (simp add: checked_end_def)
  next
    case False
    have "s32 (int off + int l - 1) = s32 (int (off + l - 1) - 4294967296)" unfolding i by (rule s32_cong) simp
    also have "\<dots> = int (off + l - 1) + - 8388608 * 512" using False assms by (subst s32_id) auto
    finally have "drop_bit 9 (s32 (int off + int l - 1)) = (int (off + l - 1) + - 8388608 * 512) div 512"
      by (simp only: drop_bit_eq_div) simp
    also have "\<dots> = int ?e - 8388608" by (subst div_mult_self1) (simp_all add: zdiv_int)
    finally have "drop_bit 9 (s32 (int off + int l - 1)) = int ?e - 8388608" .
    moreover have "c_ulong (int s + (int ?e - 8388608)) = c_ulong (int (s + ?e + 4286578688))"
      unfolding c_ulong_def using mod_add_self2 [of "int s + (int ?e - 8388608)" 4294967296]
      by (intro word_of_int_eqI) (simp add: algebra_simps)
    ultimately show ?thesis using False by (simp add: c_ulong_def unat_of_nat checked_end_def del: of_nat_add)
  qed
qed

lemma checked_end_inside:
  "0 < l \<Longrightarrow> off + l \<le> 2147483648 \<Longrightarrow> p \<le> checked_end s off l \<longleftrightarrow> p * 512 < s * 512 + off + l"
  unfolding checked_end_def by (auto simp: not_le) 

lemma devread_checked:
  assumes "0 < l" "l < 2147483648" "off < 2147483648" "s < 2147483648"
  shows "devread env (int s) (int off) (int l) dst a st =
    (if unat (part_length st) \<le> checked_end s off l
     then Some (False, dst, st\<lparr>errnum := ERR_OUTSIDE_PART\<rparr>)
     else rawread env (c_int (current_drive st)) (c_int (part_start st + of_nat (s + off div 512))) (int (off mod 512)) (int l) dst a st)"
proof -
  have "drop_bit 9 (int off) = int (off div 512)" by (simp add: drop_bit_eq_div zdiv_int)
  moreover have "int off AND 511 = int (off mod 512)" 
    using take_bit_eq_mask [of 9 "int off"] by (simp add: take_bit_eq_mod mask_eq_exp_minus_1 zmod_int)
  moreover have "c_ulong (s32 x) = c_ulong x" for x
    using s32_mod [of x] by (simp add: c_ulong_def word_of_int_eq_iff take_bit_eq_mod)
  ultimately show ?thesis
    using checked_end_ok [OF assms]
    by (simp add: devread_def word_le_nat_alt c_ulong_def Let_def)
qed

text \<open>
  A drive with sectors of 512 bytes, on which the partition is so far from the end that its last
  virtual track is complete.
\<close>

locale partition_reader = disk_reader bd drive geom 9 disk env for
  bd :: "int \<Rightarrow> int \<Rightarrow> geometry \<Rightarrow> int \<Rightarrow> int \<Rightarrow> int \<Rightarrow> mem \<Rightarrow> 'm \<Rightarrow> (int \<times> geometry \<times> mem \<times> 'm) option"
  and drive geom disk and env :: "'m disk_env"
begin

lemma part_ok_view: "part_ok drive geom disk st \<Longrightarrow> same_view st st' \<Longrightarrow> readable drive geom 9 disk st' \<Longrightarrow> part_ok drive geom disk st'"
  by (simp add: part_ok_def same_view_def)

lemma devread_ready:
  assumes "part_ok drive geom disk st" "0 < l" "s * 512 + off + l \<le> unat (part_length st) * 512" "off + l + 512 \<le> 2147483648"
  shows "\<exists>st'. devread env (int s) (int off) (int l) dst a st =
      Some (True, write_at a (read_at ((unat (part_start st) + s) * 512 + off) l (disk (media st))) dst, st') \<and>
    same_view st st' \<and> part_ok drive geom disk st' \<and> buf_drive st' = drive"
proof -
  let ?ps = "unat (part_start st)" and ?pl = "unat (part_length st)"
  let ?q = "off div 512" and ?o = "off mod 512"
  have inside: "tracks_inside geom 9 (?ps + s + ?q) ?o l"
  proof (rule tracks_inside_mono)
    show "tracks_inside geom 9 ?ps 0 (?pl * 512)" using assms(1) by (simp add: part_ok_def)
    have "(?ps + s + ?q) * 512 + ?o + l \<le> ?ps * 512 + 0 + ?pl * 512"
    proof -
      obtain q r where "?q = q" "?o = r" "q * 512 + r = off" using div_mult_mod_eq [of off 512] by blast
      then show ?thesis using assms(3) by (simp add: add_mult_distrib)
    qed
    then show "(?ps + s + ?q) * 2 ^ 9 + ?o + l \<le> ?ps * 2 ^ 9 + 0 + ?pl * 512" by simp
  qed
  from on_track_ex obtain t r n where tr: "on_track t r n" "?ps + s + ?q = t + r" by blast
  have bound: "?ps + s + ?q < 2147483648"
    using tracks_inside_step(1) [OF inside [unfolded tr(2)] tr(1) assms(2)] on_track_mod(6) [OF tr(1)]
      total_range unfolding tr(2) by linarith
  have q: "drop_bit 9 (int off) = int ?q" by (simp add: drop_bit_eq_div zdiv_int)
  have o: "int off AND (512 - 1) = int ?o"
    using take_bit_eq_mask [of 9 "int off"] by (simp add: mask_eq_exp_minus_1 take_bit_eq_mod zmod_int)
  have "s32 (int off + int l - 1) = int (off + l - 1)"
    using assms(2,4) s32_nat [of "off + l - 1"] by (simp add: of_nat_diff)
  then have e: "drop_bit 9 (s32 (int off + int l - 1)) = int ((off + l - 1) div 512)"
    by (simp add: drop_bit_eq_div zdiv_int)
  have "(s * 512 + (off + l - 1)) div 512 < ?pl"
    using assms(2,3) by (subst div_less_iff_less_mult) auto
  then have le: "s + (off + l - 1) div 512 < ?pl" by simp
  then have "unat (c_ulong (int (s + (off + l - 1) div 512))) = s + (off + l - 1) div 512"
    using unat_u32 [of "part_length st"] by (intro unat_c_ulong) simp
  then have outside: "\<not> part_length st \<le> c_ulong (int s + int ((off + l - 1) div 512))"
    using le by (simp add: word_le_nat_alt not_le del: of_nat_add flip: of_nat_add)
  have sec: "s32 (int s + int ?q) = int (s + ?q)"
    using bound s32_nat [of "s + ?q"] by simp
  have abs: "c_int (part_start st + c_ulong (int (s + ?q))) = int (?ps + s + ?q)"
  proof -
    have "part_start st + c_ulong (int (s + ?q)) = c_ulong (int (?ps + s + ?q))"
      by (simp add: c_ulong_def add.assoc)
    then show ?thesis using c_int_nat [OF bound] by (simp only:)
  qed
  have dv: "c_int (current_drive st) = drive" "readable drive geom 9 disk st" using assms(1) by (simp_all add: part_ok_def)
  have B: "B = 512" by (simp add: B_def)
  have "\<exists>st'. rawread env drive (int (?ps + s + ?q)) (int ?o) (int l) dst a st =
      Some (True, write_at a (read_at ((?ps + s + ?q) * B + ?o) l (disk (media st))) dst, st') \<and>
    same_view st st' \<and> readable drive geom 9 disk st' \<and> buf_drive st' = drive"
    using inside assms(2,4) by (intro rawread_ready dv) (simp_all add: B)
  moreover have "(?ps + s + ?q) * B + ?o = (?ps + s) * 512 + off"
    using div_mult_mod_eq [of off 512] by (simp add: B add_mult_distrib)
  moreover have "devread env (int s) (int off) (int l) dst a st =
      rawread env drive (int (?ps + s + ?q)) (int ?o) (int l) dst a st"
    unfolding devread_def e using outside by (simp only: q o sec abs dv Let_def) simp
  ultimately show ?thesis using part_ok_view [OF assms(1)] by auto
qed

lemma devread_ok:
  assumes "part_ok drive geom disk st" "0 < l" "s * 512 + off + l \<le> unat (part_length st) * 512" "off + l + 512 \<le> 2147483648"
  shows "\<exists>st'. devread env (int s) (int off) (int l) dst a st =
      Some (True, write_at a (read_at ((unat (part_start st) + s) * 512 + off) l (disk (media st))) dst, st') \<and>
    same_view st st' \<and> part_ok drive geom disk st'"
  using devread_ready [OF assms] by blast

end

section \<open>Writing a sector\<close>

locale disk_writer = partition_reader bd drive geom disk env + rw_block_device bd drive geom 9 disk for
  bd :: "int \<Rightarrow> int \<Rightarrow> geometry \<Rightarrow> int \<Rightarrow> int \<Rightarrow> int \<Rightarrow> mem \<Rightarrow> 'm \<Rightarrow> (int \<times> geometry \<times> mem \<times> 'm) option"
  and drive geom disk and env :: "'m disk_env"
begin

lemma B_512: "B = 512"
  by (simp add: B_def)

lemma int_pow: "nat (int k * 2 ^ 9) = k * 512"
  by simp

lemma physical_track:
  assumes "s < 2147483648" "- 2147483648 \<le> i" "i < 2147483648"
  shows "c_ulong (int s) - c_ulong (int s) mod w = c_ulong i \<longleftrightarrow> int (s - s mod unat w) = i"
proof -
  let ?x = "c_ulong (int s)"
  have u: "unat ?x = s" using assms(1) by (intro unat_c_ulong) simp
  have "unat (?x - ?x mod w) = s - s mod unat w"
    by (subst unat_sub) (simp_all add: u unat_mod word_le_nat_alt mod_less_eq_dividend)
  then have "?x - ?x mod w = c_ulong (int (s - s mod unat w))"
    using assms(1) unat_c_ulong [of "s - s mod unat w"] by (intro unsigned_word_eqI [where 'a = nat]) simp
  moreover have "c_ulong (int k) = c_ulong i \<longleftrightarrow> int k = i" if "k < 2147483648" for k
    using c_int_nat [OF that] c_int_c_ulong [OF assms(2,3)] by metis
  ultimately show ?thesis using assms(1) by (metis diff_le_self order_le_less_trans)
qed

text \<open>Sector 0 is first read, to find an EZ-Drive map; here it has none.\<close>

lemma rawwrite_eq:
  assumes "buf_geom st = geom" "no_ezd geom 9 (disk (media st))" "s < unat (total_sectors geom)"
    and "- 2147483648 \<le> buf_track st \<and> buf_track st < 2147483648"
  shows "\<exists>m' sc. rawwrite env drive (int s) src b st = Some (True,
      let st' = st\<lparr>scratch := sc, media := m'\<rparr> in
      if int (s - s mod unat (sectors geom)) = buf_track st then st'\<lparr>buf_track := - 1\<rparr> else st') \<and>
    disk m' = write_at (s * 512) (read_at b 512 src) (disk (media st))"
proof -
  have ns: "sectors geom \<noteq> 0" using sane by (auto simp: geom_sane_def)
  have s31: "s < 2147483648" using assms(3) total_range by simp
  define sc0 where "sc0 = (if s = 0 then write_at 0 (read_at 0 512 (disk (media st))) (scratch st) else scratch st)"
  have r0: "s = 0 \<Longrightarrow> bd BIOSDISK_READ drive geom 0 1 seg (scratch st) (media st) = Some (0, geom, sc0, media st)" for seg
  proof -
    assume "s = 0"
    then have "0 + 1 \<le> uint (total_sectors geom)" using assms(3) unfolding uint_nat by linarith
    moreover have "0 mod vtrack geom 9 + 1 \<le> vtrack geom 9" using v_int v_pos by simp
    ultimately show ?thesis
      using read_inside [of 0 1 seg "scratch st" "media st"] \<open>s = 0\<close> by (simp add: sc0_def)
  qed
  have e0: "s = 0 \<Longrightarrow> \<not> is_ezd sc0"
    using not_ezd_buffer [OF assms(2), of 0 1 "scratch st"] v_pos by (simp add: sc0_def B_512)
  have z: "(if int s = 0
      then do {
        (err, g, sc, m) \<leftarrow> env_biosdisk env BIOSDISK_READ drive (buf_geom st) 0 1
                            (drop_bit 4 (scratchaddr env)) (scratch st) (media st);
        let st = st\<lparr>buf_geom := g, scratch := sc, media := m\<rparr>;
        Some (if err \<noteq> 0 then (False, int s, st\<lparr>errnum := ERR_WRITE\<rparr>)
              else (True, if is_ezd (scratch st) then 1 else int s, st))
      }
      else Some (True, int s, st)) = Some (True, int s, st\<lparr>scratch := sc0\<rparr>)"
  proof (cases "s = 0")
    case True
    with r0 [OF True] e0 [OF True] assms(1) show ?thesis by (simp add: transfers)
  next
    case False
    then show ?thesis by (simp add: sc0_def)
  qed
  let ?sc = "write_at 0 (read_at b 512 src) sc0"
  obtain m' where w: "bd BIOSDISK_WRITE drive geom (int s) 1 (drop_bit 4 (scratchaddr env)) ?sc (media st) = Some (0, geom, ?sc, m')"
    "disk m' = write_at (s * 512) (read_at 0 512 ?sc) (disk (media st))"
  proof -
    have "int s < uint (total_sectors geom)" using assms(3) unfolding uint_nat by linarith
    from write_inside [OF _ this, of "drop_bit 4 (scratchaddr env)" ?sc "media st"] that show thesis
      unfolding int_pow by auto
  qed
  have "read_at 0 512 ?sc = read_at b 512 src"
    using read_write_same [of 0 "read_at b 512 src" sc0] by simp
  then have d: "disk m' = write_at (s * 512) (read_at b 512 src) (disk (media st))" using w(2) by simp
  have track: "c_ulong (int s) - c_ulong (int s) mod sectors geom = c_ulong (buf_track st)
      \<longleftrightarrow> int (s - s mod unat (sectors geom)) = buf_track st"
    by (rule physical_track) (use s31 assms(4) in auto)
  have gs: "st\<lparr>buf_geom := geom, scratch := x, media := y\<rparr> = st\<lparr>scratch := x, media := y\<rparr>" for x y
    using assms(1) by (cases st) simp
  have "rawwrite env drive (int s) src b st = Some (True,
      let st' = st\<lparr>scratch := ?sc, media := m'\<rparr> in
      if int (s - s mod unat (sectors geom)) = buf_track st then st'\<lparr>buf_track := - 1\<rparr> else st')"
    unfolding rawwrite_def z using w(1) ns assms(1) gs
    by (simp add: transfers Let_def track del: of_nat_diff)
  then show ?thesis using d by blast
qed

lemma cached_track_kept:
  assumes "buf_track st = int t" "cache_ok geom 9 disk st" "s - s mod v \<noteq> t" "length xs = 512"
    and "disk m' = write_at (s * 512) xs (disk (media st))"
  shows "cache_ok geom 9 disk (st\<lparr>scratch := sc, media := m'\<rparr>)"
proof -
  have t: "t mod v = 0" "t + v \<le> unat (total_sectors geom)"
    "read_at 0 (v * 512) (tbuf st) = read_at (t * 512) (v * 512) (disk (media st))"
    using assms(2) unfolding cache_ok_nat [OF assms(1)] B_512 by blast+
  have "s < t \<or> t + v \<le> s"
  proof (rule ccontr)
    assume c: "\<not> (s < t \<or> t + v \<le> s)"
    then obtain r where r: "s = t + r" "r < v" by (metis add_less_cancel_left le_Suc_ex not_less)
    have "(t + r) mod v = (t mod v + r) mod v" by (rule mod_add_left_eq [symmetric])
    then have "s mod v = r" using r t(1) by simp
    then show False using r assms(3) by simp
  qed
  then have "Suc s * 512 \<le> t * 512 \<or> (t + v) * 512 \<le> s * 512"
    by (metis Suc_leI mult_le_mono1)
  then have "read_at (t * 512) (v * 512) (disk m') = read_at (t * 512) (v * 512) (disk (media st))"
    unfolding assms(5) using assms(4) by (intro read_write_outside) (auto simp: add_mult_distrib)
  then show ?thesis
    using t assms(1) by (subst cache_ok_nat [of _ t]) (simp_all add: B_512)
qed

text \<open>
  When a whole track fits into the buffer, the tracks of \<open>rawwrite\<close> are those of \<open>rawread\<close>, and
  writing keeps the buffer coherent.
\<close>

lemma rawwrite_coherent:
  assumes "readable drive geom 9 disk st" "buf_drive st = drive" "s < unat (total_sectors geom)"
    and "- 2147483648 \<le> buf_track st \<and> buf_track st < 2147483648" "vtrack geom 9 = uint (sectors geom)"
    and "no_ezd geom 9 (write_at (s * 512) (read_at b 512 src) (disk (media st)))"
  shows "\<exists>st'. rawwrite env drive (int s) src b st = Some (True, st') \<and> readable drive geom 9 disk st' \<and>
    disk (media st') = write_at (s * 512) (read_at b 512 src) (disk (media st))"
proof -
  have g: "buf_geom st = geom" "no_ezd geom 9 (disk (media st))" "cache_ok geom 9 disk st" "errnum st = ERR_NONE"
    "buffer_ready drive geom st"
    using assms(1,2) by (simp_all add: readable_def buffer_ready_def)
  have v: "unat (sectors geom) = v" using assms(5) by (simp add: v_def)
  obtain m' sc where w: "rawwrite env drive (int s) src b st = Some (True,
      let st' = st\<lparr>scratch := sc, media := m'\<rparr> in
      if int (s - s mod v) = buf_track st then st'\<lparr>buf_track := - 1\<rparr> else st')"
    and d: "disk m' = write_at (s * 512) (read_at b 512 src) (disk (media st))"
    using rawwrite_eq [OF g(1,2) assms(3,4)] unfolding v by blast
  let ?st' = "let st' = st\<lparr>scratch := sc, media := m'\<rparr> in
      if int (s - s mod v) = buf_track st then st'\<lparr>buf_track := - 1\<rparr> else st'"
  have "cache_ok geom 9 disk ?st'"
  proof (cases "int (s - s mod v) = buf_track st \<or> buf_track st < 0")
    case True
    then show ?thesis by (auto simp: Let_def cache_ok_def)
  next
    case False
    then obtain t where t: "buf_track st = int t" by (metis not_less nonneg_eq_int)
    then have "s - s mod v \<noteq> t" using False by auto
    from cached_track_kept [OF t g(3) this _ d] False show ?thesis by (simp add: Let_def)
  qed
  moreover have "media ?st' = m'" "errnum ?st' = ERR_NONE" "buffer_ready drive geom ?st'"
    using g by (simp_all add: Let_def buffer_ready_def)
  ultimately show ?thesis
    using w d assms(6) by (intro exI [of _ ?st']) (simp add: readable_def)
qed

text \<open>Reading a sector of the cached track does not look at the drive.\<close>

lemma rawread_cached:
  assumes "buffer_ready drive geom st" "errnum st = ERR_NONE" "on_track t r n" "buf_track st = int t"
    and "t + v \<le> unat (total_sectors geom)"
  shows "\<exists>st'. rawread env drive (int (t + r)) 0 512 dst a st =
    Some (True, write_at a (read_at (r * 512) 512 (tbuf st)) dst, st') \<and> same_view st st'"
proof -
  have ss: "uint (sector_size geom) = 2 ^ 9" using sane by (simp add: geom_sane_def)
  have lg: "log2 (cur_sector_size st) = 9"
    using log2_power [OF ss] assms(1) by (simp add: buffer_ready_def)
  note t = on_track_mod [OF assms(3)]
  have n: "0 < n * B" "512 \<le> n * B" using t(8) by (simp_all add: B_512)
  let ?st = "call_hook (int (t + r)) 0 512 st"
  have f: "fetch_track env drive (int (t + r)) (int 0) 9 (int ((0 + 512 + B - 1) div B)) (int v) st =
      Some (int (r * B + 0), st)"
    by (rule fetch_hit [OF assms(3) assms(4) [symmetric]]) simp
  have "rawread_while env drive (int (t + r)) 0 512 9 dst a st =
      rawread_while env drive (int (t + v)) 0 0 9 (write_at a (read_at (r * 512) 512 (tbuf st)) dst) (a + 512) ?st"
    using rawread_while_step [OF assms(1,2,3,5) n(1) _ _ f, of dst a] n(2) by (simp add: B_512 min_def)
  also have "\<dots> = Some (True, write_at a (read_at (r * 512) 512 (tbuf st)) dst, ?st)"
    using assms(2) by (subst rawread_while.simps) (simp add: call_hook_def Let_def)
  finally show ?thesis
    using no_loop_drive by (auto simp: rawread_def lg)
qed

text \<open>
  With longer tracks than the buffer holds, writing a sector of the cached virtual track that is not
  the first of its physical track leaves the old bytes in the buffer.
\<close>

lemma rawwrite_stale:
  assumes "readable drive geom 9 disk st" "buf_drive st = drive" "on_track t r n" "buf_track st = int t"
    and "t + r - (t + r) mod unat (sectors geom) \<noteq> t"
  shows "\<exists>st'. rawwrite env drive (int (t + r)) src b st = Some (True, st') \<and>
    read_at ((t + r) * 512) 512 (disk (media st')) = read_at b 512 src \<and>
    (\<exists>st''. rawread env drive (int (t + r)) 0 512 dst a st' =
      Some (True, write_at a (read_at ((t + r) * 512) 512 (disk (media st))) dst, st''))"
proof -
  have g: "buf_geom st = geom" "no_ezd geom 9 (disk (media st))" "cache_ok geom 9 disk st" "errnum st = ERR_NONE"
    "buffer_ready drive geom st"
    using assms(1,2) by (simp_all add: readable_def buffer_ready_def)
  note t = on_track_mod [OF assms(3)]
  have inside: "t + v \<le> unat (total_sectors geom)"
    using g(3) cache_ok_nat [OF assms(4)] by simp
  have "t + r < unat (total_sectors geom)" using inside t(6) by linarith
  moreover have "- 2147483648 \<le> buf_track st \<and> buf_track st < 2147483648"
    using inside total_range assms(4) by simp
  moreover have ne: "int (t + r - (t + r) mod unat (sectors geom)) \<noteq> buf_track st"
    using assms(4,5) by (simp del: of_nat_diff of_nat_add)
  ultimately obtain m' sc where w: "rawwrite env drive (int (t + r)) src b st = Some (True, st\<lparr>scratch := sc, media := m'\<rparr>)"
    and d: "disk m' = write_at ((t + r) * 512) (read_at b 512 src) (disk (media st))"
    using rawwrite_eq [OF g(1,2), of "t + r" src b] unfolding Let_def if_not_P [OF ne] by blast
  have "read_at ((t + r) * 512) 512 (disk m') = read_at b 512 src"
    unfolding d using read_write_same [of "(t + r) * 512" "read_at b 512 src"] by simp
  moreover have "read_at (r * 512) 512 (tbuf st) = read_at ((t + r) * 512) 512 (disk (media st))"
    using cached_bytes [OF g(3) assms(3,4), of 0 512] t(8) by (simp add: B_512)
  moreover have "\<exists>st''. rawread env drive (int (t + r)) 0 512 dst a (st\<lparr>scratch := sc, media := m'\<rparr>) =
      Some (True, write_at a (read_at (r * 512) 512 (tbuf st)) dst, st'')"
    using rawread_cached [of "st\<lparr>scratch := sc, media := m'\<rparr>", OF _ _ assms(3) _ inside, of dst a] g assms(4)
    by (auto simp: buffer_ready_def)
  ultimately show ?thesis using w by auto
qed

end

section \<open>\<open>devread\<close> is the byte device of the file systems\<close>

definition part_content :: "('m \<Rightarrow> mem) \<Rightarrow> 'm disk_state \<Rightarrow> mem" where
  "part_content disk st = (\<lambda>i. disk (media st) (unat (part_start st) * 512 + i))"

definition part_size :: "'m disk_state \<Rightarrow> nat" where
  "part_size st = unat (part_length st) * 512"

lemma read_at_part_content:
  "read_at p l (part_content disk st) = read_at (unat (part_start st) * 512 + p) l (disk (media st))"
  by (rule nth_equalityI) (simp_all add: part_content_def add.assoc)

lemma part_view:
  "same_view st st' \<Longrightarrow> part_content disk st' = part_content disk st \<and> part_size st' = part_size st"
  by (simp add: same_view_def part_content_def part_size_def)

sublocale partition_reader \<subseteq> byte_device "devread env" "part_ok drive geom disk" "part_content disk" part_size
proof unfold_locales
  fix st :: "'m disk_state" and l sec off a :: nat and dst :: mem
  assume a: "part_ok drive geom disk st" "0 < l" "sec * 512 + off + l \<le> part_size st" "off + l + 512 \<le> 2147483648"
  from devread_ok [OF a(1,2) a(3) [unfolded part_size_def] a(4), of dst a]
  show "\<exists>s'. devread env (int sec) (int off) (int l) dst a st =
        Some (True, write_at a (read_at (sec * 512 + off) l (part_content disk st)) dst, s') \<and>
      part_ok drive geom disk s' \<and> part_content disk s' = part_content disk st \<and> part_size s' = part_size st"
    using part_view by (fastforce simp: read_at_part_content add_mult_distrib add.assoc)
qed

section \<open>The reader over the BIOS\<close>

lemma bios_partition:
  assumes "lba_drive fw drive g bits disk \<or> chs_drive fw drive g bits disk"
    and "\<And>g0. get_diskinfo fw drive g0 = (0, g)" "\<not> (0xC0 \<le> drive \<and> drive \<le> 0xC7)"
  shows "disk_reader (biosdisk fw) drive g bits disk (bios_env fw lr ba sa)"
    and "bits = 9 \<Longrightarrow> disk_writer (biosdisk fw) drive g disk (bios_env fw lr ba sa)"
    and "bits = 9 \<Longrightarrow> partition_reader (biosdisk fw) drive g disk (bios_env fw lr ba sa)"
proof -
  have rw: "rw_block_device (biosdisk fw) drive g bits disk" by (rule drive_rw [OF assms(1)])
  then have bd: "block_device (biosdisk fw) drive g bits disk" by (rule rw_block_device.axioms)
  show r: "disk_reader (biosdisk fw) drive g bits disk (bios_env fw lr ba sa)"
    using assms(2,3) by (intro disk_reader.intro bd disk_reader_axioms.intro) (simp_all add: bios_env_def)
  show p: "partition_reader (biosdisk fw) drive g disk (bios_env fw lr ba sa)" if "bits = 9"
    using r that by (simp add: partition_reader_def)
  show "disk_writer (biosdisk fw) drive g disk (bios_env fw lr ba sa)" if "bits = 9"
    using p [OF that] rw that by (simp add: disk_writer_def)
qed

text \<open>The hard disk image again, every byte of it the low byte of its sector number.\<close>

definition hd_env :: "mem disk_env" where
  "hd_env = bios_env (image_bios hd_image) (\<lambda>num sector byte_offset byte_len dst a st. Some (False, dst, st)) 0x5c200 0x5c000"

definition sector_image :: mem where
  "sector_image = (\<lambda>i. of_nat (i div 512))"

definition hd_state :: "mem disk_state" where
  "hd_state = \<lparr>errnum = ERR_NONE, buf_drive = - 1, buf_track = - 1, buf_geom = hd_geometry 0, cur_sector_size = 0,
     tbuf = \<lambda>_. 0, scratch = \<lambda>_. 0, media = sector_image, disk_read_func = False, hook_calls = [],
     current_drive = 128, current_partition = 0xFFFFFF, current_slice = 0, part_start = 63, part_length = 100,
     bsd_evil_hack = 0, cur_part_offset = 0, cur_part_addr = 0\<rparr>"

lemma hd_probe: "get_diskinfo (image_bios hd_image) 128 g0 = (0, hd_geometry 1)"
  by (subst get_diskinfo_extended [where drp = "\<lparr>dp_cylinders = 1024, dp_heads = 16, dp_sectors = 63, dp_total_sectors = 1032192\<rparr>"
        and c = 1024 and h = 16 and s = 63])
    (simp_all add: image_bios_def hd_image_def hd_geometry_def)

interpretation hd_reader: disk_reader "biosdisk (image_bios hd_image)" 128 "hd_geometry 1" 9 "\<lambda>m. m" hd_env
  unfolding hd_env_def using hd_lba.lba_drive_axioms by (intro bios_partition(1)) (simp_all add: hd_probe)

interpretation hd_writer: disk_writer "biosdisk (image_bios hd_image)" 128 "hd_geometry 1" "\<lambda>m. m" hd_env
  unfolding hd_env_def using hd_lba.lba_drive_axioms by (intro bios_partition(2) [where bits = 9]) (simp_all add: hd_probe)

lemma hd_no_ezd: "no_ezd (hd_geometry 1) 9 sector_image"
proof -
  have "uint (sector_image (s * 512 + i)) \<noteq> 85" if "s < 7" "i < 512" for s i
  proof -
    have "(s * 512 + i) div 512 = s" using that by simp
    then have "uint (sector_image (s * 512 + i)) = int s"
      using that by (simp add: sector_image_def unsigned_of_nat take_bit_nat_eq_self)
    then show ?thesis using that by simp
  qed
  then show ?thesis
    by (auto simp: no_ezd_def hd_vtrack is_ezd_def PC_SLICE_TYPE_def)
qed

lemma hd_part_ok: "part_ok 128 (hd_geometry 1) (\<lambda>m. m) hd_state"
  using hd_no_ezd by (simp add: part_ok_def readable_def hd_state_def tracks_inside_def hd_vtrack)
    (simp add: hd_geometry_def c_int_def)

lemma hd_readable: "readable 128 (hd_geometry 1) 9 (\<lambda>m. m) hd_state"
  using hd_part_ok by (simp add: part_ok_def)

text \<open>A small drive whose tracks fit into the buffer, without the extensions.\<close>

definition small_image :: image_drive where
  "small_image = \<lparr>id_drive = 128, id_cylinders = 100, id_heads = 2, id_sectors = 7, id_total = 0, id_bits = 9\<rparr>"

definition small_geometry :: geometry where
  "small_geometry = \<lparr>cylinders = 100, heads = 2, sectors = 7, total_sectors = 1400, sector_size = 512, flags = 0\<rparr>"

lemma small_sane: "geom_sane small_geometry 9"
  by (simp add: geom_sane_def small_geometry_def)

lemma small_vtrack: "vtrack small_geometry 9 = 7"
  by (simp add: vtrack_eq [OF small_sane]) (simp add: small_geometry_def)

lemma small_drive: "chs_drive (image_bios small_image) 128 small_geometry 9 (\<lambda>m. m)"
  using image_chs [of small_image]
  by unfold_locales (simp_all add: small_sane small_vtrack, simp_all add: small_geometry_def small_image_def)

lemma small_probe: "get_diskinfo (image_bios small_image) 128 g0 = (0, small_geometry)"
  by (simp add: get_diskinfo_def standard_info_def extended_info_def image_bios_def small_image_def chs_size_def
      small_geometry_def c_ulong_def)

lemma small_readable:
  "readable 128 small_geometry 9 (\<lambda>m. m) (hd_state\<lparr>buf_drive := 128, buf_geom := small_geometry, cur_sector_size := 512\<rparr>)"
  using hd_no_ezd by (simp add: readable_def hd_state_def buffer_ready_def cache_ok_def no_ezd_def hd_vtrack small_vtrack)
    (simp add: small_geometry_def)

section \<open>Properties\<close>





text \<open>C24: what the check of \<open>devread\<close> refuses, exactly, for a sector and an offset that are not negative and a positive
  length.  As long as offset and length add up to at most \<open>2 ^ 31\<close>, a
  range is refused with \<open>ERR_OUTSIDE_PART\<close>, nothing else changed and the drive not touched, if and only if it leaves the
  partition, and otherwise the sectors of the range are read.  Above that the \<open>int\<close> sum wraps: the last sector of the
  range is taken to be \<open>2 ^ 23\<close> sectors earlier than it is (modulo \<open>2 ^ 32\<close>, where 4286578688 is \<open>2 ^ 32 - 2 ^ 23\<close>), so
  that a range outside the partition can be accepted, and is then read.\<close>

theorem devread_stays_inside:
  assumes "0 < l" "l < 2147483648" "off < 2147483648" "s < 2147483648"
  shows "(off + l \<le> 2147483648 \<longrightarrow> devread env (int s) (int off) (int l) dst a st =
      (if unat (part_length st) * 512 < s * 512 + off + l then Some (False, dst, st\<lparr>errnum := ERR_OUTSIDE_PART\<rparr>)
       else rawread env (c_int (current_drive st)) (c_int (part_start st + of_nat (s + off div 512)))
         (int (off mod 512)) (int l) dst a st)) \<and>
    (2147483648 < off + l \<longrightarrow> devread env (int s) (int off) (int l) dst a st =
      (if unat (part_length st) \<le> (s + (off + l - 1) div 512 + 4286578688) mod 4294967296
       then Some (False, dst, st\<lparr>errnum := ERR_OUTSIDE_PART\<rparr>)
       else rawread env (c_int (current_drive st)) (c_int (part_start st + of_nat (s + off div 512)))
         (int (off mod 512)) (int l) dst a st))"
  unfolding devread_checked [OF assms] using checked_end_inside [OF assms(1)] by (auto simp: checked_end_def)

text \<open>A range of 100 bytes over the end of a partition of 100 sectors is refused; one of \<open>2 ^ 31 - 1\<close> bytes that begins 4097152
  sectors behind the end of a partition of a million sectors is read.\<close>

theorem devread_stays_inside_witness:
  "devread hd_env 99 500 100 (\<lambda>_. 0) 0 hd_state = Some (False, \<lambda>_. 0, hd_state\<lparr>errnum := ERR_OUTSIDE_PART\<rparr>) \<and>
   devread hd_env 3000000 0x40000000 0x7FFFFFFF (\<lambda>_. 0) 0 (hd_state\<lparr>part_length := 1000000\<rparr>) =
     rawread hd_env 128 5097215 0 0x7FFFFFFF (\<lambda>_. 0) 0 (hd_state\<lparr>part_length := 1000000\<rparr>)"
  using devread_stays_inside [where l = 100 and off = 500 and s = 99 and env = hd_env and dst = "\<lambda>_. 0" and a = 0 and st = hd_state]
    devread_stays_inside [where l = "0x7FFFFFFF" and off = "0x40000000" and s = 3000000 and env = hd_env and dst = "\<lambda>_. 0" and a = 0
      and st = "hd_state\<lparr>part_length := 1000000\<rparr>"]
  by (simp add: hd_state_def c_int_def s32_def)

text \<open>C25: on a drive whose tracks fit into the buffer, what \<open>rawwrite\<close> wrote is what \<open>rawread\<close> reads
  next, whatever the buffer held, and only the one sector of the drive has changed.\<close>

theorem rawwrite_rawread:
  assumes "lba_drive fw drive g 9 disk \<or> chs_drive fw drive g 9 disk"
    and "\<And>g0. get_diskinfo fw drive g0 = (0, g)" "\<not> (0xC0 \<le> drive \<and> drive \<le> 0xC7)"
    and "readable drive g 9 disk st" "buf_drive st = drive"
    and "- 2147483648 \<le> buf_track st \<and> buf_track st < 2147483648"
    and "vtrack g 9 = uint (sectors g)" "tracks_inside g 9 s 0 512"
    and "no_ezd g 9 (write_at (s * 512) (read_at b 512 src) (disk (media st)))"
  shows "\<exists>st'. rawwrite (bios_env fw lr ba sa) drive (int s) src b st = Some (True, st') \<and>
    disk (media st') = write_at (s * 512) (read_at b 512 src) (disk (media st)) \<and>
    (\<exists>st''. rawread (bios_env fw lr ba sa) drive (int s) 0 512 dst a st' =
      Some (True, write_at a (read_at b 512 src) dst, st''))"
proof -
  note w = bios_partition(2) [OF assms(1-3) refl, of lr ba sa]
  note r = bios_partition(1) [OF assms(1-3), of lr ba sa]
  have B: "disk_reader.B 9 = 512" by (simp add: disk_reader.B_def [OF r])
  have s: "s < unat (total_sectors g)"
    using disk_reader.sector_inside [OF r assms(8)] by simp
  obtain st' where st': "rawwrite (bios_env fw lr ba sa) drive (int s) src b st = Some (True, st')"
    "readable drive g 9 disk st'"
    and d: "disk (media st') = write_at (s * 512) (read_at b 512 src) (disk (media st))"
    using disk_writer.rawwrite_coherent [OF w assms(4,5) s assms(6,7,9)] by blast
  have "read_at (s * 512) 512 (disk (media st')) = read_at b 512 src"
    unfolding d using read_write_same [of "s * 512" "read_at b 512 src"] by simp
  then have "\<exists>st''. rawread (bios_env fw lr ba sa) drive (int s) 0 512 dst a st' =
      Some (True, write_at a (read_at b 512 src) dst, st'')"
    using disk_reader.rawread_ok [OF r st'(2), where off = 0 and l = 512 and s = s and dst = dst and a = a] assms(8)
    unfolding B by auto
  then show ?thesis using st' d by blast
qed

theorem rawwrite_rawread_witness:
  "let st = hd_state\<lparr>buf_drive := 128, buf_geom := small_geometry, cur_sector_size := 512\<rparr>;
       env = bios_env (image_bios small_image) (\<lambda>num sector byte_offset byte_len dst a st. Some (False, dst, st)) 0 0
   in \<exists>st'. rawwrite env 128 9 (\<lambda>_. 7) 0 st = Some (True, st') \<and>
     media st' = write_at (9 * 512) (read_at 0 512 (\<lambda>_. 7)) sector_image \<and>
     (\<exists>st''. rawread env 128 9 0 512 (\<lambda>_. 0) 0 st' = Some (True, write_at 0 (read_at 0 512 (\<lambda>_. 7)) (\<lambda>_. 0), st''))"
proof -
  have n: "no_ezd small_geometry 9 (write_at (9 * 512) (read_at 0 512 (\<lambda>_. 7)) sector_image)"
    unfolding no_ezd_def
  proof (intro allI impI)
    fix s :: nat
    assume s: "int s < vtrack small_geometry 9"
    then have "is_ezd (\<lambda>i. write_at (9 * 512) (read_at 0 512 (\<lambda>_. 7)) sector_image (s * 2 ^ 9 + i)) =
        is_ezd (\<lambda>i. sector_image (s * 2 ^ 9 + i))"
      by (intro is_ezd_cong write_at_outside) (simp add: small_vtrack)
    then show "\<not> is_ezd (\<lambda>i. write_at (9 * 512) (read_at 0 512 (\<lambda>_. 7)) sector_image (s * 2 ^ 9 + i))"
      using hd_no_ezd s by (simp add: no_ezd_def hd_vtrack small_vtrack)
  qed
  have t: "tracks_inside small_geometry 9 9 0 512"
    by (simp add: tracks_inside_def small_vtrack) (simp add: small_geometry_def)
  have v: "vtrack small_geometry 9 = uint (sectors small_geometry)"
    by (simp add: small_vtrack) (simp add: small_geometry_def)
  have m: "media (hd_state\<lparr>buf_drive := 128, buf_geom := small_geometry, cur_sector_size := 512\<rparr>) = sector_image"
    "buf_track (hd_state\<lparr>buf_drive := 128, buf_geom := small_geometry, cur_sector_size := 512\<rparr>) = - 1"
    by (simp_all add: hd_state_def)
  show ?thesis
    using rawwrite_rawread [OF disjI2 [OF small_drive] small_probe _ small_readable, of 9 0 "\<lambda>_. 7",
        where dst = "\<lambda>_. 0" and a = 0 and ba = 0 and sa = 0] n t v unfolding m Let_def by simp
qed

text \<open>C26: on a drive with longer tracks than the buffer holds, writing a sector of the buffered virtual
  track which does not lie on the first one of its physical track succeeds, and the next \<open>rawread\<close>
  of that sector delivers the bytes from before: \<open>rawwrite\<close> compares the first sector of the physical
  track with the virtual track that \<open>rawread\<close> buffers.\<close>

theorem rawwrite_leaves_stale_track:
  assumes "lba_drive fw drive g 9 disk \<or> chs_drive fw drive g 9 disk"
    and "\<And>g0. get_diskinfo fw drive g0 = (0, g)" "\<not> (0xC0 \<le> drive \<and> drive \<le> 0xC7)"
    and "readable drive g 9 disk st" "buf_drive st = drive" "buf_track st = int t"
    and "t \<le> s" "int s < int t + vtrack g 9" "s - s mod unat (sectors g) \<noteq> t"
  shows "\<exists>st'. rawwrite (bios_env fw lr ba sa) drive (int s) src b st = Some (True, st') \<and>
    read_at (s * 512) 512 (disk (media st')) = read_at b 512 src \<and>
    (\<exists>st''. rawread (bios_env fw lr ba sa) drive (int s) 0 512 dst a st' =
      Some (True, write_at a (read_at (s * 512) 512 (disk (media st))) dst, st''))"
proof -
  note w = bios_partition(2) [OF assms(1-3) refl, of lr ba sa]
  note r = bios_partition(1) [OF assms(1-3), of lr ba sa]
  obtain n where n: "disk_reader.on_track g 9 t (s - t) n"
    using disk_reader.on_cached_track [OF r] assms(4-8) by (metis readable_def)
  have "t + (s - t) = s" using assms(7) by simp
  then show ?thesis
    using disk_writer.rawwrite_stale [OF w assms(4,5) n assms(6), where src = src and b = b and dst = dst and a = a]
      assms(9) by simp
qed

theorem rawwrite_leaves_stale_track_witness:
  "let st = hd_state\<lparr>buf_drive := 128, buf_track := 7, buf_geom := hd_geometry 1, cur_sector_size := 512,
              tbuf := \<lambda>i. sector_image (3584 + i)\<rparr>
   in \<exists>st'. rawwrite hd_env 128 8 (\<lambda>_. 200) 0 st = Some (True, st') \<and>
     read_at 4096 512 (media st') = read_at 0 512 (\<lambda>_. 200) \<and>
     (\<exists>st''. rawread hd_env 128 8 0 512 (\<lambda>_. 0) 0 st' = Some (True, write_at 0 (read_at 4096 512 sector_image) (\<lambda>_. 0), st''))"
proof -
  let ?st = "hd_state\<lparr>buf_drive := 128, buf_track := 7, buf_geom := hd_geometry 1, cur_sector_size := 512,
      tbuf := \<lambda>i. sector_image (3584 + i)\<rparr>"
  have "read_at 0 3584 (\<lambda>i. sector_image (3584 + i)) = read_at 3584 3584 sector_image"
    by (rule nth_equalityI) simp_all
  then have r: "readable 128 (hd_geometry 1) 9 (\<lambda>m. m) ?st"
    using hd_no_ezd by (simp add: readable_def hd_state_def buffer_ready_def cache_ok_def hd_vtrack)
      (simp add: hd_geometry_def)
  have v: "media ?st = sector_image" "buf_drive ?st = 128" "buf_track ?st = int 7" by (simp_all add: hd_state_def)
  have g: "vtrack (hd_geometry 1) 9 = 7" "unat (sectors (hd_geometry 1)) = 63"
    by (simp_all add: hd_vtrack) (simp add: hd_geometry_def)
  show ?thesis
    using rawwrite_leaves_stale_track [OF disjI1 [OF hd_lba.lba_drive_axioms] hd_probe _ r v(2,3), where s = 8
        and src = "\<lambda>_. 200" and b = 0 and dst = "\<lambda>_. 0" and a = 0
        and lr = "\<lambda>num sector byte_offset byte_len dst a st. Some (False, dst, st)" and ba = "0x5c200" and sa = "0x5c000"]
    unfolding g v(1) Let_def hd_env_def by simp
qed

end
