(* ===== verification/Partition.thy ===== *)
theory Partition
  imports Dskaccess
begin

text \<open>
  \<open>loader/preldr/part.c\<close> with the tables of \<open>pc_slice.h\<close>: walking the PC slices of a drive, through
  the chain of extended tables and into BSD labels, and opening the partition that
  \<open>current_partition\<close> names.  The pointer arguments \<open>partition\<close>, \<open>type\<close>, \<open>start\<close> and \<open>len\<close> of the
  walk always point to the globals \<open>current_partition\<close>, \<open>current_slice\<close>, \<open>part_start\<close> and
  \<open>part_length\<close>; the others, and the sector buffer, are the record \<open>scan\<close>.
\<close>

section \<open>Partition tables\<close>

abbreviation (input) PC_SLICE_MAX :: int where "PC_SLICE_MAX \<equiv> 4"
abbreviation (input) PC_SLICE_TYPE_NONE :: int where "PC_SLICE_TYPE_NONE \<equiv> 0"
abbreviation (input) PC_SLICE_TYPE_FREEBSD :: int where "PC_SLICE_TYPE_FREEBSD \<equiv> 0xa5"
abbreviation (input) BSD_LABEL_SECTOR :: u32 where "BSD_LABEL_SECTOR \<equiv> 1"
abbreviation (input) DTYPE_SCSI :: int where "DTYPE_SCSI \<equiv> 4"
abbreviation (input) NETWORK_DRIVE :: u32 where "NETWORK_DRIVE \<equiv> 0x20"

definition PC_MBR_CHECK_SIG :: "mem \<Rightarrow> bool" where
  "PC_MBR_CHECK_SIG mbr \<longleftrightarrow> le16 mbr 510 = 0xaa55"

definition PC_SLICE_START :: "mem \<Rightarrow> nat \<Rightarrow> u32" where
  "PC_SLICE_START mbr part = le32 mbr (PC_SLICE_OFFSET + 8 + part * 16)"

definition PC_SLICE_LENGTH :: "mem \<Rightarrow> nat \<Rightarrow> u32" where
  "PC_SLICE_LENGTH mbr part = le32 mbr (PC_SLICE_OFFSET + 12 + part * 16)"

definition IS_PC_SLICE_TYPE_EXTENDED :: "int \<Rightarrow> bool" where
  "IS_PC_SLICE_TYPE_EXTENDED type \<longleftrightarrow> type = 5 \<or> type = 0xf \<or> type = 0x85"

definition IS_PC_SLICE_TYPE_BSD_WITH_FS :: "int \<Rightarrow> int \<Rightarrow> bool" where
  "IS_PC_SLICE_TYPE_BSD_WITH_FS type fs \<longleftrightarrow>
     type = (0xa5 OR push_bit 8 fs) \<or> type = (0xa6 OR push_bit 8 fs) \<or> type = (0xa9 OR push_bit 8 fs)"

definition IS_PC_SLICE_TYPE_BSD :: "int \<Rightarrow> bool" where
  "IS_PC_SLICE_TYPE_BSD type \<longleftrightarrow> IS_PC_SLICE_TYPE_BSD_WITH_FS type 0"

definition BSD_LABEL_CHECK_MAG :: "mem \<Rightarrow> bool" where
  "BSD_LABEL_CHECK_MAG l \<longleftrightarrow> le32 l 0 = 0x82564557"

definition BSD_LABEL_DTYPE :: "mem \<Rightarrow> int" where
  "BSD_LABEL_DTYPE l = le16 l 4"

definition BSD_LABEL_NPARTS :: "mem \<Rightarrow> int" where
  "BSD_LABEL_NPARTS l = le16 l 138"

definition BSD_PART_LENGTH :: "mem \<Rightarrow> nat \<Rightarrow> u32" where
  "BSD_PART_LENGTH l part = le32 l (148 + part * 16)"

definition BSD_PART_START :: "mem \<Rightarrow> nat \<Rightarrow> u32" where
  "BSD_PART_START l part = le32 l (148 + 4 + part * 16)"

definition BSD_PART_TYPE :: "mem \<Rightarrow> nat \<Rightarrow> int" where
  "BSD_PART_TYPE l part = uint (l (148 + 12 + part * 16))"

section \<open>Walking the tables\<close>

record scan =
  part_offset :: u32
  entry :: int
  ext_offset :: u32
  sect :: mem

text \<open>\<open>current_partition\<close> is \<open>0xssbbff\<close>: PC slice number and BSD partition number, 0xff for none.\<close>

definition next_bsd_partition ::
  "'m disk_env \<Rightarrow> u32 \<Rightarrow> u32 \<Rightarrow> scan \<Rightarrow> 'm disk_state \<Rightarrow> (bool \<times> scan \<times> 'm disk_state) option" where
  "next_bsd_partition env drive dest sc st =
     (let bsd_part_no = uint (drop_bit 8 (current_partition st AND 0xFF00)) in
      do {
        (ok, bsd_part_no, sc, st) \<leftarrow>
          (if bsd_part_no = 0xFF
           then if part_length st < BSD_LABEL_SECTOR + 1
                then Some (False, bsd_part_no, sc, st\<lparr>errnum := ERR_BAD_PART_TABLE\<rparr>)
                else do {
                  (ok, b, st) \<leftarrow> rawread env (c_int drive) (c_int (part_start st + BSD_LABEL_SECTOR)) 0 SECTOR_SIZE (sect sc) 0 st;
                  let sc = sc\<lparr>sect := b\<rparr>;
                  if \<not> ok then Some (False, bsd_part_no, sc, st)
                  else if \<not> BSD_LABEL_CHECK_MAG b
                  then Some (False, bsd_part_no, sc, st\<lparr>errnum := ERR_BAD_PART_TABLE\<rparr>)
                  else Some (True, - 1, sc, st)
                }
           else Some (True, bsd_part_no, sc, st));
        if \<not> ok then Some (False, sc, st)
        else case List.find (\<lambda>i. BSD_PART_TYPE (sect sc) i \<noteq> 0) [nat (bsd_part_no + 1)..<nat (BSD_LABEL_NPARTS (sect sc))] of
          None \<Rightarrow> Some (False, sc, st\<lparr>errnum := ERR_NO_PART\<rparr>)
        | Some i \<Rightarrow>
            let st = st\<lparr>current_slice := push_bit 8 (BSD_PART_TYPE (sect sc) i) OR (current_slice st AND 0xFF),
                        part_start := BSD_PART_START (sect sc) i,
                        part_length := BSD_PART_LENGTH (sect sc) i,
                        current_partition := (current_partition st AND 0xFF00FF) OR push_bit 8 (of_nat i)\<rparr>
            in Some (True, sc,
                 if drive AND 0x80 \<noteq> 0 \<and> BSD_LABEL_DTYPE (sect sc) = DTYPE_SCSI then st\<lparr>bsd_evil_hack := 4\<rparr> else st)
      })"

function next_pc_slice ::
  "'m disk_env \<Rightarrow> u32 \<Rightarrow> u32 \<Rightarrow> scan \<Rightarrow> 'm disk_state \<Rightarrow> (bool \<times> scan \<times> 'm disk_state) option" where
  "next_pc_slice env drive dest sc st =
     (let pc_slice_no = uint (drop_bit 16 (current_partition st AND 0xFF0000));
          (pc_slice_no, sc) =
            (if pc_slice_no = 0xFF then (- 1, sc\<lparr>part_offset := 0, ext_offset := 0, entry := - 1\<rparr>)
             else (pc_slice_no, sc))
      in do {
        (ok, b, st) \<leftarrow> rawread env (c_int drive) (c_int (part_offset sc)) 0 SECTOR_SIZE (sect sc) 0 st;
        let sc = sc\<lparr>sect := b\<rparr>;
        if \<not> ok then Some (False, sc, st)
        else if \<not> PC_MBR_CHECK_SIG b then Some (False, sc, st\<lparr>errnum := ERR_BAD_PART_TABLE\<rparr>)
        else
          let sc = sc\<lparr>entry := entry sc + 1\<rparr> in
          if entry sc = PC_SLICE_MAX
          then case List.find (\<lambda>i. IS_PC_SLICE_TYPE_EXTENDED (PC_SLICE_TYPE b i)) [0, 1, 2, 3] of
              None \<Rightarrow> Some (False, sc, st\<lparr>errnum := ERR_NO_PART\<rparr>)
            | Some i \<Rightarrow>
                let off = ext_offset sc + PC_SLICE_START b i;
                    sc = sc\<lparr>part_offset := off, ext_offset := (if ext_offset sc = 0 then off else ext_offset sc),
                            entry := - 1\<rparr>
                in next_pc_slice env drive dest sc st
          else
            let e = nat (entry sc);
                type = PC_SLICE_TYPE b e;
                n = (if pc_slice_no < PC_SLICE_MAX
                        \<or> \<not> IS_PC_SLICE_TYPE_EXTENDED type \<and> type \<noteq> PC_SLICE_TYPE_NONE
                     then pc_slice_no + 1 else pc_slice_no)
            in Some (True, sc,
                 st\<lparr>current_slice := type, part_start := part_offset sc + PC_SLICE_START b e,
                    part_length := PC_SLICE_LENGTH b e,
                    current_partition := push_bit 16 (word_of_int n) OR 0xFFFF\<rparr>)
      })"
  by pat_completeness auto
termination
  by (relation "measure (\<lambda>(env, drive, dest, sc, st). if entry sc = 3 then 1 else 0)") (auto split: if_splits)

declare next_pc_slice.simps [simp del]

definition next_partition ::
  "'m disk_env \<Rightarrow> u32 \<Rightarrow> u32 \<Rightarrow> scan \<Rightarrow> 'm disk_state \<Rightarrow> (bool \<times> scan \<times> 'm disk_state) option" where
  "next_partition env drive dest sc st =
     (if current_drive st = NETWORK_DRIVE then Some (False, sc, st)
      else if current_partition st \<noteq> 0xFFFFFF \<and> IS_PC_SLICE_TYPE_BSD (current_slice st AND 0xff)
              \<or> \<not> drive AND 0x80 \<noteq> 0
      then do {
        let st = (if current_slice st = PC_SLICE_TYPE_NONE then st\<lparr>current_slice := PC_SLICE_TYPE_FREEBSD\<rparr> else st);
        (ok, sc, st) \<leftarrow> next_bsd_partition env drive dest sc st;
        if ok then Some (True, sc, st)
        else if dest AND 0xFF00 \<noteq> 0xFF00
             \<and> (dest AND 0xFF0000 = 0xFF0000 \<or> dest AND 0xFF0000 = current_partition st AND 0xFF0000)
        then Some (False, sc, st)
        else next_pc_slice env drive dest sc (st\<lparr>errnum := ERR_NONE\<rparr>)
      }
      else next_pc_slice env drive dest sc st)"

text \<open>\<open>next\<close> also sets \<open>bsd_part\<close> and \<open>pc_slice\<close>, which are these functions of the state it leaves.\<close>

definition bsd_part :: "'m disk_state \<Rightarrow> u32" where
  "bsd_part st = drop_bit 8 (current_partition st) AND 0xFF"

definition pc_slice :: "'m disk_state \<Rightarrow> u32" where
  "pc_slice st = drop_bit 16 (current_partition st)"

definition next_slice :: "'m disk_env \<Rightarrow> u32 \<Rightarrow> scan \<Rightarrow> 'm disk_state \<Rightarrow> (bool \<times> scan \<times> 'm disk_state) option" where
  "next_slice env dest sc st = next_partition env (current_drive st) dest sc st"

section \<open>Opening a partition\<close>

text \<open>\<open>sane_partition\<close> of \<open>setdev.c\<close>; the result 0 comes with \<open>ERR_DEV_VALUES\<close>.\<close>

definition sane_partition :: "u32 \<Rightarrow> u32 \<Rightarrow> u32 \<Rightarrow> bool" where
  "sane_partition cdrom_drive drive part \<longleftrightarrow>
     drive = NETWORK_DRIVE \<or>
     part AND 0xFF000000 = 0 \<and>
     (drive AND 0xFFFFFF7F < 8 \<or> drive = cdrom_drive \<or> drive AND 0xC0 = 0xC0) \<and>
     part AND 0xFF = 0xFF \<and>
     (part AND 0xFF00 = 0xFF00 \<or> part AND 0xFF00 < 0x800) \<and>
     (drop_bit 16 part = 0xFF \<or> drive AND 0x80 \<noteq> 0)"

text \<open>\<open>mount\<close> is \<open>stage0_mount\<close>.\<close>

definition check_and_print_mount :: "('m disk_state \<Rightarrow> 'm disk_state option) \<Rightarrow> 'm disk_state \<Rightarrow> 'm disk_state option" where
  "check_and_print_mount mount st =
     do { st \<leftarrow> mount st; Some (if errnum st = ERR_FSYS_MOUNT then st\<lparr>errnum := ERR_NONE\<rparr> else st) }"

text \<open>The inner loop of \<open>real_open_partition\<close> over the partitions of a BSD slice (lines 374 to 392).\<close>

partial_function (option) bsd_loop ::
  "'m disk_env \<Rightarrow> ('m disk_state \<Rightarrow> 'm disk_state option) \<Rightarrow> u32 \<Rightarrow> scan \<Rightarrow> 'm disk_state
   \<Rightarrow> (scan \<times> 'm disk_state) option" where
  "bsd_loop env mount dest sc st =
     do {
       (ok, sc, st) \<leftarrow> next_slice env dest sc st;
       if \<not> ok \<or> bsd_part st = 0xFF then Some (sc, st)
       else do { st \<leftarrow> check_and_print_mount mount st; bsd_loop env mount dest sc st }
     }"

text \<open>
  The outer loop (lines 340 to 441).  \<open>again\<close> is false when the body is entered at \<open>loop_start\<close>.  The
  result is true for the \<open>return 1\<close> at the destination, false when the loop ends.
\<close>

partial_function (option) slice_loop ::
  "'m disk_env \<Rightarrow> ('m disk_state \<Rightarrow> 'm disk_state option) \<Rightarrow> u32 \<Rightarrow> bool \<Rightarrow> bool \<Rightarrow> u32 \<Rightarrow> bool \<Rightarrow> scan \<Rightarrow> 'm disk_state
   \<Rightarrow> (bool \<times> scan \<times> 'm disk_state) option" where
  "slice_loop env mount boot_part_table fl do_completion dest again sc st =
     do {
       (ok, sc, st) \<leftarrow> (if again then next_slice env dest sc st else Some (True, sc, st));
       if \<not> ok then Some (False, sc, st)
       else
         let st = st\<lparr>cur_part_offset := part_offset sc,
                     cur_part_addr := boot_part_table + c_ulong (push_bit 4 (entry sc))\<rparr>;
             dest_here = (\<lambda>st. \<not> fl \<and> (dest = current_partition st
                           \<or> drop_bit 16 dest = 0xFF \<and> drop_bit 8 dest AND 0xFF = bsd_part st))
         in if current_slice st = 0
            then slice_loop env mount boot_part_table fl do_completion dest True sc st
            else if fl \<and> \<not> IS_PC_SLICE_TYPE_EXTENDED (current_slice st) \<and> \<not> do_completion
            then if \<not> IS_PC_SLICE_TYPE_BSD (current_slice st)
                 then do {
                   st \<leftarrow> check_and_print_mount mount st;
                   let st = st\<lparr>errnum := ERR_NONE\<rparr>;
                   slice_loop env mount boot_part_table fl do_completion dest True sc st
                 }
                 else do {
                   (sc, st) \<leftarrow> bsd_loop env mount dest sc st;
                   if errnum st \<noteq> ERR_NONE then Some (False, sc, st\<lparr>errnum := ERR_NONE\<rparr>)
                   else slice_loop env mount boot_part_table fl do_completion dest False sc st
                 }
            else
              let st = st\<lparr>errnum := ERR_NONE\<rparr> in
              if dest_here st then Some (True, sc, st)
              else slice_loop env mount boot_part_table fl do_completion dest True sc st
     }"

text \<open>
  \<open>stack\<close> is what the local variables hold on entry: the code never reads it before the walk has
  set it.
\<close>

definition real_open_partition ::
  "'m disk_env \<Rightarrow> ('m disk_state \<Rightarrow> 'm disk_state option) \<Rightarrow> u32 \<Rightarrow> u32 \<Rightarrow> bool \<Rightarrow> scan \<Rightarrow> bool \<Rightarrow> 'm disk_state
   \<Rightarrow> (bool \<times> 'm disk_state) option" where
  "real_open_partition env mount boot_part_table cdrom_drive do_completion stack fl st =
     (let drive = current_drive st in
      if drive = NETWORK_DRIVE then Some (True, st)
      else if \<not> sane_partition cdrom_drive drive (current_partition st)
      then Some (False, st\<lparr>errnum := ERR_DEV_VALUES\<rparr>)
      else
        let dest = current_partition st;
            st = st\<lparr>bsd_evil_hack := 0, current_slice := 0, part_start := 0\<rparr>;
            (ok, st) =
              (if (0xC0 > drive \<or> drive > 0xC7) \<and> c_ulong (buf_drive st) \<noteq> drive
               then let (err, g) = env_diskinfo env (c_int drive) (buf_geom st) in
                    if err \<noteq> 0 then (False, st\<lparr>buf_geom := g, errnum := ERR_NO_DISK\<rparr>)
                    else (True, st\<lparr>buf_geom := g, buf_drive := c_int drive, cur_sector_size := sector_size g, buf_track := - 1\<rparr>)
               else (True, st))
        in if \<not> ok then Some (False, st)
           else
             let st = st\<lparr>part_length := total_sectors (buf_geom st)\<rparr> in
             if \<not> fl \<and> current_partition st = 0xFFFFFF then Some (True, st)
             else do {
               (found, sc, st) \<leftarrow> slice_loop env mount boot_part_table fl do_completion
                                  (if fl then 0xFFFFFF else dest) True stack (st\<lparr>current_partition := 0xFFFFFF\<rparr>);
               if found then Some (True, st)
               else if fl
               then let st = st\<lparr>errnum := ERR_NONE\<rparr> in
                    if \<not> current_drive st AND 0x80 \<noteq> 0
                    then do {
                      st \<leftarrow> check_and_print_mount mount
                             (st\<lparr>current_partition := 0xFFFFFF, current_slice := 0, part_start := 0,
                                part_length := total_sectors (buf_geom st)\<rparr>);
                      Some (True, st\<lparr>errnum := ERR_NONE\<rparr>)
                    }
                    else Some (True, st\<lparr>cur_part_addr := 0, cur_part_offset := 0, errnum := ERR_NONE\<rparr>)
               else Some (False, st)
             })"

definition open_partition ::
  "'m disk_env \<Rightarrow> ('m disk_state \<Rightarrow> 'm disk_state option) \<Rightarrow> u32 \<Rightarrow> u32 \<Rightarrow> bool \<Rightarrow> scan \<Rightarrow> 'm disk_state
   \<Rightarrow> (bool \<times> 'm disk_state) option" where
  "open_partition env mount boot_part_table cdrom_drive do_completion stack st =
     real_open_partition env mount boot_part_table cdrom_drive do_completion stack False st"

section \<open>The partition of the boot sector\<close>

text \<open>
  \<open>open_partition_hiddensecs\<close> looks the start of the booted partition, as the parameter block of
  its boot sector gives it, up in the tables.  \<open>pt_search\<close> is the loop over the four descriptors; the
  result is the descriptor at which it broke off, and the start of the last extended one it met.
\<close>

fun pt_search :: "mem \<Rightarrow> u32 \<Rightarrow> u32 \<Rightarrow> nat list \<Rightarrow> u32 \<Rightarrow> nat option \<times> u32" where
  "pt_search b start len [] offset = (None, offset)"
| "pt_search b start len (i # is) offset =
     (let id = PC_SLICE_TYPE b i;
          offset = (if id = 0x5 \<or> id = 0xf then PC_SLICE_START b i else offset)
      in if IS_PC_SLICE_TYPE_BSD id \<and> PC_SLICE_START b i \<le> start \<and>
            start + len \<le> PC_SLICE_START b i + PC_SLICE_LENGTH b i
         then (Some i, offset)
         else if PC_SLICE_START b i = start then (Some i, offset)
         else pt_search b start len is offset)"

partial_function (option) ebr_loop ::
  "'m disk_env \<Rightarrow> int \<Rightarrow> u32 \<Rightarrow> u32 \<Rightarrow> u32 \<Rightarrow> u32 \<Rightarrow> mem \<Rightarrow> 'm disk_state \<Rightarrow> (u32 \<times> mem \<times> 'm disk_state) option" where
  "ebr_loop env drive lba offset off n b st =
     do {
       (_, b, st) \<leftarrow> rawread env drive (c_int (offset + off)) 0 512 b 0 st;
       if offset + off < lba then ebr_loop env drive lba offset (PC_SLICE_START b 1) (n + 1) b st
       else Some (n + 1, b, st)
     }"

text \<open>The arguments \<open>hidden_secs\<close>, \<open>n_sect\<close> and \<open>n_sect_ext\<close> are those fields of the parameter block.\<close>

definition open_partition_hiddensecs ::
  "'m disk_env \<Rightarrow> u32 \<Rightarrow> u32 \<Rightarrow> u32 \<Rightarrow> u32 \<Rightarrow> mem \<Rightarrow> 'm disk_state \<Rightarrow> (bool \<times> 'm disk_state) option" where
  "open_partition_hiddensecs env boot_drive hidden_secs n_sect n_sect_ext stack st =
     (let st = st\<lparr>part_start := hidden_secs, part_length := (if n_sect = 0 then n_sect_ext else n_sect)\<rparr>;
          finish = (\<lambda>n st. st\<lparr>current_drive := boot_drive,
                             current_partition := 0xff OR push_bit 8 0xff OR push_bit 16 n\<rparr>)
      in if part_start st = 0 then Some (True, finish 0xff (st\<lparr>current_slice := 0\<rparr>))
         else do {
           (_, b, st) \<leftarrow> rawread env (c_int boot_drive) 0 0 512 stack 0 st;
           case pt_search b (part_start st) (part_length st) [0, 1, 2, 3] 0 of
             (Some i, offset) \<Rightarrow> Some (True, finish (of_nat i) (st\<lparr>current_slice := PC_SLICE_TYPE b i\<rparr>))
           | (None, offset) \<Rightarrow>
               do {
                 (n, b, st) \<leftarrow> ebr_loop env (c_int boot_drive) (part_start st) offset 0 2 b st;
                 Some (True, finish n (st\<lparr>current_slice := PC_SLICE_TYPE b 0\<rparr>))
               }
         })"

section \<open>The chain of tables on a drive\<close>

definition sector_at :: "mem \<Rightarrow> nat \<Rightarrow> mem" where
  "sector_at d s = (\<lambda>i. d (s * 512 + i))"

text \<open>
  \<open>offs\<close> lists the sectors of the tables: the first is sector 0, the second is where the first
  extended slice of sector 0 starts, and every other one is where the first extended slice of the
  table before starts, counted from the second.
\<close>

definition first_extended :: "mem \<Rightarrow> nat option" where
  "first_extended b = List.find (\<lambda>i. IS_PC_SLICE_TYPE_EXTENDED (PC_SLICE_TYPE b i)) [0, 1, 2, 3]"

definition ext_base :: "nat list \<Rightarrow> nat \<Rightarrow> u32" where
  "ext_base offs j = (if j = 0 then 0 else of_nat (offs ! 1))"

definition table_chain :: "geometry \<Rightarrow> mem \<Rightarrow> nat list \<Rightarrow> bool" where
  "table_chain g d offs \<longleftrightarrow> offs \<noteq> [] \<and> offs ! 0 = 0 \<and> 4 * length offs < 255 \<and>
     (\<forall>j<length offs. PC_MBR_CHECK_SIG (sector_at d (offs ! j)) \<and> tracks_inside g 9 (offs ! j) 0 512 \<and>
        (0 < j \<longrightarrow> 0 < offs ! j) \<and>
        (case first_extended (sector_at d (offs ! j)) of
           None \<Rightarrow> Suc j = length offs
         | Some i \<Rightarrow> Suc j < length offs \<and>
             of_nat (offs ! Suc j) = ext_base offs j + PC_SLICE_START (sector_at d (offs ! j)) i))"

text \<open>The \<open>i\<close>-th slice in the order of the walk, and its number.\<close>

definition slice_type :: "mem \<Rightarrow> nat list \<Rightarrow> nat \<Rightarrow> int" where
  "slice_type d offs i = PC_SLICE_TYPE (sector_at d (offs ! (i div 4))) (i mod 4)"

definition slice_start :: "mem \<Rightarrow> nat list \<Rightarrow> nat \<Rightarrow> u32" where
  "slice_start d offs i = of_nat (offs ! (i div 4)) + PC_SLICE_START (sector_at d (offs ! (i div 4))) (i mod 4)"

definition slice_length :: "mem \<Rightarrow> nat list \<Rightarrow> nat \<Rightarrow> u32" where
  "slice_length d offs i = PC_SLICE_LENGTH (sector_at d (offs ! (i div 4))) (i mod 4)"

text \<open>The primary slices are 0 to 3; the others count up from 4, empty and extended ones sharing the
  number of the slice before (the first slice of the first extended table is always 4).\<close>

fun slice_no :: "mem \<Rightarrow> nat list \<Rightarrow> nat \<Rightarrow> nat" where
  "slice_no d offs 0 = 0"
| "slice_no d offs (Suc i) =
     (if slice_no d offs i < 4 \<or> \<not> IS_PC_SLICE_TYPE_EXTENDED (slice_type d offs (Suc i)) \<and> slice_type d offs (Suc i) \<noteq> 0
      then Suc (slice_no d offs i) else slice_no d offs i)"

lemma slice_no_le: "slice_no d offs i \<le> i"
  by (induction i) auto

lemma slice_no_primary: "i \<le> 4 \<Longrightarrow> slice_no d offs i = i"
  by (induction i) auto

section \<open>The walk follows the chain\<close>

lemma sector_fields:
  assumes "\<And>i. i < 512 \<Longrightarrow> b i = b' i"
  shows "PC_MBR_CHECK_SIG b = PC_MBR_CHECK_SIG b'" "first_extended b = first_extended b'"
    and "e < 4 \<Longrightarrow> PC_SLICE_TYPE b e = PC_SLICE_TYPE b' e"
    and "e < 4 \<Longrightarrow> PC_SLICE_START b e = PC_SLICE_START b' e"
    and "e < 4 \<Longrightarrow> PC_SLICE_LENGTH b e = PC_SLICE_LENGTH b' e"
proof -
  show "PC_MBR_CHECK_SIG b = PC_MBR_CHECK_SIG b'"
    using assms by (simp add: PC_MBR_CHECK_SIG_def le16_def)
  show t: "e < 4 \<Longrightarrow> PC_SLICE_TYPE b e = PC_SLICE_TYPE b' e" for e
    using assms by (simp add: PC_SLICE_TYPE_def)
  show "first_extended b = first_extended b'"
    by (simp add: first_extended_def t)
  show "e < 4 \<Longrightarrow> PC_SLICE_START b e = PC_SLICE_START b' e"
    using assms unfolding PC_SLICE_START_def by (intro le32_cong) simp
  show "e < 4 \<Longrightarrow> PC_SLICE_LENGTH b e = PC_SLICE_LENGTH b' e"
    using assms unfolding PC_SLICE_LENGTH_def by (intro le32_cong) simp
qed

lemma pt_search_cong:
  "(\<And>k. k \<in> set is \<Longrightarrow> PC_SLICE_TYPE b k = PC_SLICE_TYPE b' k \<and> PC_SLICE_START b k = PC_SLICE_START b' k \<and>
     PC_SLICE_LENGTH b k = PC_SLICE_LENGTH b' k) \<Longrightarrow>
   pt_search b start len is offset = pt_search b' start len is offset"
  by (induction "is" arbitrary: offset) (simp_all add: Let_def)

lemma pt_search_finds:
  assumes "k < 4" "PC_SLICE_START b k = start"
    and "\<And>i. i < k \<Longrightarrow> PC_SLICE_START b i \<noteq> start \<and> \<not> IS_PC_SLICE_TYPE_BSD (PC_SLICE_TYPE b i)"
  shows "\<exists>off. pt_search b start len [0, 1, 2, 3] 0 = (Some k, off)"
proof -
  have "k = 0 \<or> k = 1 \<or> k = 2 \<or> k = 3" using assms(1) by auto
  then show ?thesis
    using assms(2) assms(3) [of 0] assms(3) [of 1] assms(3) [of 2]
    by (elim disjE) (auto simp: Let_def)
qed

lemma first_extended_less: "first_extended b = Some i \<Longrightarrow> i < 4"
  by (auto simp: first_extended_def split: if_splits)

text \<open>Packing and unpacking \<open>current_partition\<close>.\<close>

definition slice_id :: "nat \<Rightarrow> u32" where
  "slice_id n = push_bit 16 (of_nat n) OR 0xFFFF"

lemma masks: "(0xFFFF :: u32) = mask 16" "(0xFF0000 :: u32) = push_bit 16 (mask 8)" "(0xFF :: u32) = mask 8"
  by (simp_all add: mask_eq_exp_minus_1)

lemma slice_id_no:
  assumes "n < 256"
  shows "uint (drop_bit 16 (slice_id n AND 0xFF0000)) = int n"
proof -
  have "drop_bit 16 (slice_id n AND 0xFF0000) = take_bit 8 (of_nat n :: u32)"
    unfolding slice_id_def masks by (rule bit_word_eqI) (auto simp: bit_simps)
  also have "uint (\<dots>) = int n"
    using assms by (simp add: unsigned_take_bit_eq unsigned_of_nat take_bit_nat_eq_self take_bit_int_eq_self)
  finally show ?thesis .
qed

lemma slice_id_inj: "n < 256 \<Longrightarrow> m < 256 \<Longrightarrow> slice_id n = slice_id m \<longleftrightarrow> n = m"
  by (metis slice_id_no of_nat_eq_iff)

lemma slice_id_sane:
  assumes "n < 255"
  shows "slice_id n AND 0xFF000000 = 0" "slice_id n AND 0xFF = 0xFF" "slice_id n AND 0xFF00 = 0xFF00"
proof -
  have m: "(0xFF000000 :: u32) = push_bit 24 (mask 8)" "(0xFF00 :: u32) = push_bit 8 (mask 8)"
    by (simp_all add: mask_eq_exp_minus_1)
  have "\<not> bit (of_nat n :: u32) i" if "8 \<le> i" for i
  proof -
    have "take_bit 8 n = n" using assms by (simp add: take_bit_nat_eq_self)
    then have "\<not> bit n i" using that by (metis bit_take_bit_iff not_le)
    then show ?thesis by (simp add: bit_simps)
  qed
  then show "slice_id n AND 0xFF000000 = 0"
    unfolding slice_id_def masks(1) m by (intro bit_word_eqI) (auto simp: bit_simps)
  show "slice_id n AND 0xFF = 0xFF" "slice_id n AND 0xFF00 = 0xFF00"
    unfolding slice_id_def masks(1,3) m by (rule bit_word_eqI; auto simp: bit_simps)+
qed

lemma slice_id_255: "slice_id 255 = 0xFFFFFF"
  by (simp add: slice_id_def)

lemma c_int_of_nat: "n < 2147483648 \<Longrightarrow> c_int (of_nat n) = int n"
  using c_int_nat [of n] by (simp add: c_ulong_def)

text \<open>The state of the walk after it reported the \<open>i\<close>-th slice.\<close>

definition walk_at :: "mem \<Rightarrow> nat list \<Rightarrow> nat \<Rightarrow> scan \<Rightarrow> 'm disk_state \<Rightarrow> bool" where
  "walk_at d offs i sc st \<longleftrightarrow> i < 4 * length offs \<and>
     part_offset sc = of_nat (offs ! (i div 4)) \<and> ext_offset sc = ext_base offs (i div 4) \<and> entry sc = int (i mod 4) \<and>
     current_partition st = slice_id (slice_no d offs i) \<and> current_slice st = slice_type d offs i \<and>
     part_start st = slice_start d offs i \<and> part_length st = slice_length d offs i"

text \<open>The slice that carries a number: the first one in the walk that is not empty.\<close>

definition find_slice_from :: "nat \<Rightarrow> mem \<Rightarrow> nat list \<Rightarrow> nat \<Rightarrow> nat option" where
  "find_slice_from k d offs n =
     List.find (\<lambda>k. slice_type d offs k \<noteq> 0 \<and> slice_no d offs k = n) [k..<4 * length offs]"

definition no_bsd_slices :: "mem \<Rightarrow> nat list \<Rightarrow> bool" where
  "no_bsd_slices d offs \<longleftrightarrow> (\<forall>k<4 * length offs. \<not> IS_PC_SLICE_TYPE_BSD (slice_type d offs k))"

lemma find_slice_step:
  "k < 4 * length offs \<Longrightarrow> find_slice_from k d offs n =
     (if slice_type d offs k \<noteq> 0 \<and> slice_no d offs k = n then Some k else find_slice_from (Suc k) d offs n)"
  by (simp add: find_slice_from_def upt_conv_Cons)

lemma find_slice_end: "4 * length offs \<le> k \<Longrightarrow> find_slice_from k d offs n = None"
  by (simp add: find_slice_from_def)

lemma find_slice_less: "find_slice_from k d offs n = Some j \<Longrightarrow> j < 4 * length offs"
  by (auto simp: find_slice_from_def find_Some_iff)

lemma slice_type_byte: "slice_type d offs k AND 0xff = slice_type d offs k"
proof -
  have "uint w AND 255 = uint w" for w :: u8
    using take_bit_eq_mask [of 8 "uint w"] take_bit_int_eq_self [of "uint w" 8] uint_lt2p [of w]
    by (simp add: mask_eq_exp_minus_1)
  then show ?thesis by (simp add: slice_type_def PC_SLICE_TYPE_def)
qed

context partition_reader
begin

lemma read_sector:
  assumes "readable drive geom 9 disk st" "tracks_inside geom 9 s 0 512"
  shows "\<exists>b st'. rawread env drive (int s) 0 512 buf 0 st = Some (True, b, st') \<and>
    (\<forall>i<512. b i = sector_at (disk (media st)) s i) \<and> same_view st st' \<and> readable drive geom 9 disk st'"
proof -
  have B: "B = 512" by (simp add: B_def)
  obtain st' where "rawread env drive (int s) (int 0) (int 512) buf 0 st =
      Some (True, write_at 0 (read_at (s * B + 0) 512 (disk (media st))) buf, st')"
    "same_view st st'" "readable drive geom 9 disk st'"
    using rawread_ok [OF assms(1), of 0 512 s buf 0] assms(2) by (auto simp: B)
  moreover have "\<forall>i<512. write_at 0 (read_at (s * B + 0) 512 (disk (media st))) buf i = sector_at (disk (media st)) s i"
    by (simp add: write_at_inside sector_at_def B)
  ultimately show ?thesis by fastforce
qed

text \<open>One table is read; the entry behind the current one is reported.\<close>

lemma next_entry:
  assumes "readable drive geom 9 disk st" "c_int drv = drive" "tracks_inside geom 9 s 0 512"
    and "(if p = 0xFF then (- 1, sc\<lparr>part_offset := 0, ext_offset := 0, entry := - 1\<rparr>) else (p, sc)) = (p', sc')"
    and "p = uint (drop_bit 16 (current_partition st AND 0xFF0000))"
    and "part_offset sc' = of_nat s" "entry sc' + 1 = int e" "e < 4"
    and "PC_MBR_CHECK_SIG (sector_at (disk (media st)) s)"
  defines "t \<equiv> sector_at (disk (media st)) s"
  defines "n \<equiv> (if p' < 4 \<or> \<not> IS_PC_SLICE_TYPE_EXTENDED (PC_SLICE_TYPE t e) \<and> PC_SLICE_TYPE t e \<noteq> 0 then p' + 1 else p')"
  shows "\<exists>b st'. next_pc_slice env drv dest sc st = Some (True, sc'\<lparr>sect := b, entry := int e\<rparr>,
      st'\<lparr>current_slice := PC_SLICE_TYPE t e, part_start := of_nat s + PC_SLICE_START t e,
          part_length := PC_SLICE_LENGTH t e, current_partition := push_bit 16 (word_of_int n) OR 0xFFFF\<rparr>) \<and>
    same_view st st' \<and> readable drive geom 9 disk st'"
proof -
  obtain b st' where r: "rawread env drive (int s) 0 512 (sect sc') 0 st = Some (True, b, st')"
    "same_view st st'" "readable drive geom 9 disk st'" and b: "\<And>i. i < 512 \<Longrightarrow> b i = t i"
    using read_sector [OF assms(1,3), of "sect sc'"] unfolding t_def by blast
  have f: "PC_MBR_CHECK_SIG b = PC_MBR_CHECK_SIG t" "PC_SLICE_TYPE b e = PC_SLICE_TYPE t e"
    "PC_SLICE_START b e = PC_SLICE_START t e" "PC_SLICE_LENGTH b e = PC_SLICE_LENGTH t e"
    using sector_fields [of b t] b assms(8) by blast+
  have "s < 2147483648" using sector_inside [of s 0 512] assms(3) total_range by simp
  then have s: "c_int (of_nat s) = int s" by (rule c_int_of_nat)
  have ne: "entry sc' + 1 \<noteq> 4" "nat (entry sc' + 1) = e" using assms(7,8) by simp_all
  have "next_pc_slice env drv dest sc st = Some (True, sc'\<lparr>sect := b, entry := int e\<rparr>,
      st'\<lparr>current_slice := PC_SLICE_TYPE t e, part_start := of_nat s + PC_SLICE_START t e,
          part_length := PC_SLICE_LENGTH t e, current_partition := push_bit 16 (word_of_int n) OR 0xFFFF\<rparr>)"
    apply (subst next_pc_slice.simps)
    unfolding assms(5) [symmetric] Let_def assms(4)
    using r(1) assms(7,8,9) ne f
    by (simp add: assms(2,6) s t_def [symmetric] n_def Let_def)
  then show ?thesis using r(2,3) by blast
qed

text \<open>Behind the last entry of a table the walk goes on to the first extended slice in it.\<close>

lemma next_table:
  assumes "readable drive geom 9 disk st" "c_int drv = drive" "tracks_inside geom 9 s 0 512"
    and "uint (drop_bit 16 (current_partition st AND 0xFF0000)) \<noteq> 0xFF"
    and "part_offset sc = of_nat s" "entry sc = 3" "PC_MBR_CHECK_SIG (sector_at (disk (media st)) s)"
  defines "t \<equiv> sector_at (disk (media st)) s"
  shows "\<exists>b st'. same_view st st' \<and> readable drive geom 9 disk st' \<and>
    next_pc_slice env drv dest sc st =
      (case first_extended t of
         None \<Rightarrow> Some (False, sc\<lparr>sect := b, entry := 4\<rparr>, st'\<lparr>errnum := ERR_NO_PART\<rparr>)
       | Some k \<Rightarrow>
           let off = ext_offset sc + PC_SLICE_START t k in
           next_pc_slice env drv dest
             (sc\<lparr>sect := b, part_offset := off, ext_offset := (if ext_offset sc = 0 then off else ext_offset sc), entry := - 1\<rparr>) st')"
proof -
  obtain b st' where r: "rawread env drive (int s) 0 512 (sect sc) 0 st = Some (True, b, st')"
    "same_view st st'" "readable drive geom 9 disk st'" and b: "\<And>i. i < 512 \<Longrightarrow> b i = t i"
    using read_sector [OF assms(1,3), of "sect sc"] unfolding t_def by blast
  have f: "PC_MBR_CHECK_SIG b = PC_MBR_CHECK_SIG t" "first_extended b = first_extended t"
    "\<And>e. e < 4 \<Longrightarrow> PC_SLICE_START b e = PC_SLICE_START t e"
    using sector_fields [of b t] b by blast+
  have "s < 2147483648" using sector_inside [of s 0 512] assms(3) total_range by simp
  then have s: "c_int (of_nat s) = int s" by (rule c_int_of_nat)
  have "next_pc_slice env drv dest sc st =
      (case first_extended t of
         None \<Rightarrow> Some (False, sc\<lparr>sect := b, entry := 4\<rparr>, st'\<lparr>errnum := ERR_NO_PART\<rparr>)
       | Some k \<Rightarrow>
           let off = ext_offset sc + PC_SLICE_START t k in
           next_pc_slice env drv dest
             (sc\<lparr>sect := b, part_offset := off, ext_offset := (if ext_offset sc = 0 then off else ext_offset sc), entry := - 1\<rparr>) st')"
    apply (subst next_pc_slice.simps)
    unfolding first_extended_def [symmetric]
    using r(1) assms(4,7) f first_extended_less [of t]
    by (simp add: assms(2,5,6) s t_def [symmetric] Let_def split: option.split)
  then show ?thesis using r(2,3) by blast
qed

definition steady :: "'m disk_state \<Rightarrow> 'm disk_state \<Rightarrow> bool" where
  "steady st st' \<longleftrightarrow> readable drive geom 9 disk st' \<and> media st' = media st \<and> current_drive st' = current_drive st"

lemma readable_part [simp]:
  "readable drive geom 9 disk (st\<lparr>current_slice := a\<rparr>) = readable drive geom 9 disk st"
  "readable drive geom 9 disk (st\<lparr>part_start := b\<rparr>) = readable drive geom 9 disk st"
  "readable drive geom 9 disk (st\<lparr>part_length := b\<rparr>) = readable drive geom 9 disk st"
  "readable drive geom 9 disk (st\<lparr>current_partition := b\<rparr>) = readable drive geom 9 disk st"
  "readable drive geom 9 disk (st\<lparr>cur_part_offset := b\<rparr>) = readable drive geom 9 disk st"
  "readable drive geom 9 disk (st\<lparr>cur_part_addr := b\<rparr>) = readable drive geom 9 disk st"
  "readable drive geom 9 disk (st\<lparr>bsd_evil_hack := c\<rparr>) = readable drive geom 9 disk st"
  by (simp_all add: readable_def buffer_ready_def cache_ok_def)

lemma walk_number:
  assumes "i < 4 * length offs" "4 * length offs < 255"
  shows "uint (drop_bit 16 (slice_id (slice_no d offs i) AND 0xFF0000)) = int (slice_no d offs i)"
    and "int (slice_no d offs i) \<noteq> 255"
  using slice_id_no [of "slice_no d offs i"] slice_no_le [of d offs i] assms by auto

lemma entry_walk:
  assumes "readable drive geom 9 disk st" "c_int drv = drive" "table_chain geom (disk (media st)) offs"
    and "j < length offs" "e < 4" "i = 4 * j + e"
    and "(if p = 0xFF then (- 1, sc\<lparr>part_offset := 0, ext_offset := 0, entry := - 1\<rparr>) else (p, sc)) = (p', sc')"
    and "p = uint (drop_bit 16 (current_partition st AND 0xFF0000))"
    and "part_offset sc' = of_nat (offs ! j)" "ext_offset sc' = ext_base offs j" "entry sc' + 1 = int e"
    and "(if p' < 4 \<or> \<not> IS_PC_SLICE_TYPE_EXTENDED (slice_type (disk (media st)) offs i) \<and> slice_type (disk (media st)) offs i \<noteq> 0
          then p' + 1 else p') = int (slice_no (disk (media st)) offs i)"
  shows "\<exists>sc'' st'. next_pc_slice env drv dest sc st = Some (True, sc'', st') \<and>
    walk_at (disk (media st)) offs i sc'' st' \<and> steady st st'"
proof -
  let ?d = "disk (media st)" and ?t = "sector_at (disk (media st)) (offs ! j)"
  have c: "tracks_inside geom 9 (offs ! j) 0 512" "PC_MBR_CHECK_SIG ?t"
    using assms(3,4) by (auto simp: table_chain_def)
  have ij: "i div 4 = j" "i mod 4 = e" using assms(5,6) by simp_all
  have ty: "slice_type ?d offs i = PC_SLICE_TYPE ?t e" by (simp add: slice_type_def ij)
  note r = next_entry [OF assms(1,2) c(1) assms(7,8,9,11,5) c(2), of dest, unfolded assms(12) [unfolded ty]]
  then obtain b st' where "next_pc_slice env drv dest sc st = Some (True, sc'\<lparr>sect := b, entry := int e\<rparr>,
      st'\<lparr>current_slice := PC_SLICE_TYPE ?t e, part_start := of_nat (offs ! j) + PC_SLICE_START ?t e,
          part_length := PC_SLICE_LENGTH ?t e,
          current_partition := push_bit 16 (word_of_int (int (slice_no ?d offs i))) OR 0xFFFF\<rparr>)"
    and v: "same_view st st'" "readable drive geom 9 disk st'"
    by blast
  moreover have "walk_at ?d offs i (sc'\<lparr>sect := b, entry := int e\<rparr>)
      (st'\<lparr>current_slice := PC_SLICE_TYPE ?t e, part_start := of_nat (offs ! j) + PC_SLICE_START ?t e,
          part_length := PC_SLICE_LENGTH ?t e,
          current_partition := push_bit 16 (word_of_int (int (slice_no ?d offs i))) OR 0xFFFF\<rparr>)"
    using assms(4,5,6,9,10) by (simp add: walk_at_def ij slice_id_def slice_type_def slice_start_def slice_length_def)
  ultimately show ?thesis
    using v by (fastforce simp: steady_def same_view_def)
qed

lemma walk_first:
  assumes "readable drive geom 9 disk st" "c_int drv = drive" "table_chain geom (disk (media st)) offs"
    and "current_partition st = 0xFFFFFF"
  shows "\<exists>sc' st'. next_pc_slice env drv dest sc st = Some (True, sc', st') \<and>
    walk_at (disk (media st)) offs 0 sc' st' \<and> steady st st'"
proof (rule entry_walk [OF assms(1-3)])
  show "0 < length offs" using assms(3) by (simp add: table_chain_def)
  show "255 = uint (drop_bit 16 (current_partition st AND 0xFF0000))" using assms(4) by simp
  show "(if (255::int) = 0xFF then (- 1, sc\<lparr>part_offset := 0, ext_offset := 0, entry := - 1\<rparr>) else (255, sc)) =
      (- 1, sc\<lparr>part_offset := 0, ext_offset := 0, entry := - 1\<rparr>)" by simp
qed (use assms(3) in \<open>simp_all add: table_chain_def ext_base_def\<close>)

lemma chain_pos:
  assumes "table_chain geom d offs" "0 < j" "j < length offs"
  shows "of_nat (offs ! j) \<noteq> (0 :: u32)"
proof -
  have "0 < offs ! j" "tracks_inside geom 9 (offs ! j) 0 512"
    using assms by (auto simp: table_chain_def)
  then have "0 < offs ! j" "offs ! j < 2147483648"
    using sector_inside [of "offs ! j" 0 512] total_range by auto
  then show ?thesis using c_int_of_nat [of "offs ! j"] by (auto simp: c_int_def)
qed

lemma chain_link:
  assumes "table_chain geom d offs" "j < length offs"
  shows "Suc j < length offs \<Longrightarrow> \<exists>k. first_extended (sector_at d (offs ! j)) = Some k \<and>
      of_nat (offs ! Suc j) = ext_base offs j + PC_SLICE_START (sector_at d (offs ! j)) k"
    and "Suc j = length offs \<Longrightarrow> first_extended (sector_at d (offs ! j)) = None"
proof -
  have c: "case first_extended (sector_at d (offs ! j)) of
           None \<Rightarrow> Suc j = length offs
         | Some i \<Rightarrow> Suc j < length offs \<and>
             of_nat (offs ! Suc j) = ext_base offs j + PC_SLICE_START (sector_at d (offs ! j)) i"
    using assms by (simp add: table_chain_def)
  then show "Suc j < length offs \<Longrightarrow> \<exists>k. first_extended (sector_at d (offs ! j)) = Some k \<and>
      of_nat (offs ! Suc j) = ext_base offs j + PC_SLICE_START (sector_at d (offs ! j)) k"
    and "Suc j = length offs \<Longrightarrow> first_extended (sector_at d (offs ! j)) = None"
    by (simp_all split: option.splits)
qed

lemma slice_no_step:
  "(if int (slice_no d offs i) < 4 \<or>
      \<not> IS_PC_SLICE_TYPE_EXTENDED (slice_type d offs (Suc i)) \<and> slice_type d offs (Suc i) \<noteq> 0
    then int (slice_no d offs i) + 1 else int (slice_no d offs i)) = int (slice_no d offs (Suc i))"
  by simp

lemma walk_same_table:
  assumes "readable drive geom 9 disk st" "c_int drv = drive" "table_chain geom (disk (media st)) offs"
    and "walk_at (disk (media st)) offs i sc st" "i mod 4 \<noteq> 3"
  shows "\<exists>sc' st'. next_pc_slice env drv dest sc st = Some (True, sc', st') \<and>
    walk_at (disk (media st)) offs (Suc i) sc' st' \<and> steady st st'"
proof -
  have l: "4 * length offs < 255" using assms(3) by (simp add: table_chain_def)
  note w = assms(4) [unfolded walk_at_def]
  note no = walk_number [OF conjunct1 [OF w] l, of "disk (media st)"]
  show ?thesis
  proof (rule entry_walk [OF assms(1-3)])
    show "i div 4 < length offs" using w by (simp add: div_less_iff_less_mult mult.commute)
    show "Suc i = 4 * (i div 4) + Suc (i mod 4)" by simp
    show "Suc (i mod 4) < 4" using assms(5) by presburger
    show "(if int (slice_no (disk (media st)) offs i) = 0xFF
        then (- 1, sc\<lparr>part_offset := 0, ext_offset := 0, entry := - 1\<rparr>)
        else (int (slice_no (disk (media st)) offs i), sc)) = (int (slice_no (disk (media st)) offs i), sc)"
      using no(2) by simp
  qed (use w no slice_no_step in auto)
qed

lemma walk_table_end:
  assumes "readable drive geom 9 disk st" "c_int drv = drive" "table_chain geom (disk (media st)) offs"
    and "walk_at (disk (media st)) offs i sc st" "i mod 4 = 3"
  defines "t \<equiv> sector_at (disk (media st)) (offs ! (i div 4))"
  shows "\<exists>b st'. same_view st st' \<and> readable drive geom 9 disk st' \<and>
    next_pc_slice env drv dest sc st =
      (case first_extended t of
         None \<Rightarrow> Some (False, sc\<lparr>sect := b, entry := 4\<rparr>, st'\<lparr>errnum := ERR_NO_PART\<rparr>)
       | Some k \<Rightarrow>
           let off = ext_offset sc + PC_SLICE_START t k in
           next_pc_slice env drv dest
             (sc\<lparr>sect := b, part_offset := off, ext_offset := (if ext_offset sc = 0 then off else ext_offset sc), entry := - 1\<rparr>) st')"
  unfolding t_def
proof (rule next_table [OF assms(1,2)])
  have l: "4 * length offs < 255" using assms(3) by (simp add: table_chain_def)
  note w = assms(4) [unfolded walk_at_def]
  have j: "i div 4 < length offs" using w by (simp add: div_less_iff_less_mult mult.commute)
  then show "tracks_inside geom 9 (offs ! (i div 4)) 0 512"
    "PC_MBR_CHECK_SIG (sector_at (disk (media st)) (offs ! (i div 4)))"
    using assms(3) by (simp_all add: table_chain_def)
  show "uint (drop_bit 16 (current_partition st AND 0xFF0000)) \<noteq> 0xFF"
    using walk_number [OF conjunct1 [OF w] l, of "disk (media st)"] w by simp
  show "part_offset sc = of_nat (offs ! (i div 4))" "entry sc = 3" using w assms(5) by simp_all
qed

lemma walk_next_table:
  assumes "readable drive geom 9 disk st" "c_int drv = drive" "table_chain geom (disk (media st)) offs"
    and "walk_at (disk (media st)) offs i sc st" "i mod 4 = 3" "Suc i < 4 * length offs"
  shows "\<exists>sc' st'. next_pc_slice env drv dest sc st = Some (True, sc', st') \<and>
    walk_at (disk (media st)) offs (Suc i) sc' st' \<and> steady st st'"
proof -
  let ?d = "disk (media st)" and ?j = "i div 4"
  have l: "4 * length offs < 255" using assms(3) by (simp add: table_chain_def)
  note w = assms(4) [unfolded walk_at_def]
  note no = walk_number [OF conjunct1 [OF w] l, of ?d]
  have j: "Suc ?j < length offs" using assms(5,6) by presburger
  obtain k where k: "first_extended (sector_at ?d (offs ! ?j)) = Some k"
    "of_nat (offs ! Suc ?j) = ext_base offs ?j + PC_SLICE_START (sector_at ?d (offs ! ?j)) k"
    using chain_link(1) [OF assms(3) Suc_lessD [OF j] j] by blast
  let ?sc = "\<lambda>b. sc\<lparr>sect := b, part_offset := of_nat (offs ! Suc ?j), ext_offset := ext_base offs (Suc ?j), entry := - 1\<rparr>"
  have x: "(if ext_base offs ?j = 0 then of_nat (offs ! Suc ?j) else ext_base offs ?j) = ext_base offs (Suc ?j)"
    using chain_pos [OF assms(3), of 1] j by (auto simp: ext_base_def)
  have e: "ext_offset sc = ext_base offs ?j" using w by simp
  obtain b st1 where s1: "same_view st st1" "readable drive geom 9 disk st1"
    and t: "next_pc_slice env drv dest sc st = next_pc_slice env drv dest (?sc b) st1"
    using walk_table_end [OF assms(1-5), of dest]
    unfolding k(1) option.case Let_def e k(2) [symmetric] x by blast
  have v: "media st1 = media st" "current_partition st1 = current_partition st" "current_drive st1 = current_drive st"
    using s1(1) by (simp_all add: same_view_def)
  have "\<exists>sc' st'. next_pc_slice env drv dest (?sc b) st1 = Some (True, sc', st') \<and>
      walk_at (disk (media st1)) offs (Suc i) sc' st' \<and> steady st1 st'"
  proof (rule entry_walk [OF s1(2) assms(2)])
    show "table_chain geom (disk (media st1)) offs" using assms(3) v by simp
    show "Suc ?j < length offs" by (rule j)
    show "Suc i = 4 * Suc ?j + 0" using assms(5) by presburger
    show "(if int (slice_no ?d offs i) = 0xFF
        then (- 1, (?sc b)\<lparr>part_offset := 0, ext_offset := 0, entry := - 1\<rparr>)
        else (int (slice_no ?d offs i), ?sc b)) = (int (slice_no ?d offs i), ?sc b)"
      using no(2) by simp
  qed (use w no v slice_no_step in auto)
  then show ?thesis unfolding t using v by (auto simp: steady_def)
qed

lemma walk_next:
  assumes "readable drive geom 9 disk st" "c_int drv = drive" "table_chain geom (disk (media st)) offs"
    and "walk_at (disk (media st)) offs i sc st" "Suc i < 4 * length offs"
  shows "\<exists>sc' st'. next_pc_slice env drv dest sc st = Some (True, sc', st') \<and>
    walk_at (disk (media st)) offs (Suc i) sc' st' \<and> steady st st'"
  using walk_same_table [OF assms(1-4)] walk_next_table [OF assms(1-4) _ assms(5)] by blast

lemma walk_end:
  assumes "readable drive geom 9 disk st" "c_int drv = drive" "table_chain geom (disk (media st)) offs"
    and "walk_at (disk (media st)) offs i sc st" "Suc i = 4 * length offs"
  shows "\<exists>sc' st'. next_pc_slice env drv dest sc st = Some (False, sc', st'\<lparr>errnum := ERR_NO_PART\<rparr>) \<and> steady st st'"
proof -
  have i: "i mod 4 = 3" "Suc (i div 4) = length offs" using assms(5) by presburger+
  then show ?thesis
    using walk_table_end [OF assms(1-4) i(1), of dest] chain_link(2) [OF assms(3), of "i div 4"] i(2)
    by (fastforce simp: steady_def same_view_def)
qed

lemma next_slice_pc:
  assumes "current_drive st AND 0x80 \<noteq> 0"
    and "current_partition st = 0xFFFFFF \<or> \<not> IS_PC_SLICE_TYPE_BSD (current_slice st AND 0xff)"
  shows "next_slice env dest sc st = next_pc_slice env (current_drive st) dest sc st"
proof -
  have "current_drive st \<noteq> 0x20" using assms(1) by auto
  then show ?thesis using assms by (auto simp: next_slice_def next_partition_def)
qed

lemma slice_loop_body:
  assumes "next_slice env (slice_id n) sc st = Some (True, sc', st')" "walk_at d offs k sc' st'" "steady st st'"
    and "4 * length offs < 255" "n < 255"
  shows "\<exists>st''. walk_at d offs k sc' st'' \<and> steady st st'' \<and>
    slice_loop env mount bpt False dc (slice_id n) True sc st =
      (if slice_type d offs k \<noteq> 0 \<and> slice_no d offs k = n then Some (True, sc', st'')
       else slice_loop env mount bpt False dc (slice_id n) True sc' st'')"
proof -
  let ?st = "st'\<lparr>cur_part_offset := part_offset sc', cur_part_addr := bpt + c_ulong (push_bit 4 (entry sc'))\<rparr>"
  note w = assms(2) [unfolded walk_at_def]
  have k: "slice_no d offs k < 256" using slice_no_le [of d offs k] w assms(4) by linarith
  have e: "?st\<lparr>errnum := ERR_NONE\<rparr> = ?st"
    using assms(3) by (cases st') (simp add: steady_def readable_def)
  have dest: "slice_id n = current_partition ?st \<longleftrightarrow> slice_no d offs k = n"
    using w k slice_id_inj [of n "slice_no d offs k"] assms(5) by auto
  have "drop_bit 16 (slice_id n) \<noteq> 0xFF"
  proof -
    have "drop_bit 16 (slice_id n) = take_bit 16 (of_nat n)"
      unfolding slice_id_def masks by (rule bit_word_eqI) (auto simp: bit_simps)
    then have "unat (drop_bit 16 (slice_id n)) = n"
      using assms(5) by (simp add: unsigned_take_bit_eq unsigned_of_nat take_bit_nat_eq_self)
    then show ?thesis using assms(5) by auto
  qed
  then have "slice_loop env mount bpt False dc (slice_id n) True sc st =
      (if slice_type d offs k \<noteq> 0 \<and> slice_no d offs k = n then Some (True, sc', ?st)
       else slice_loop env mount bpt False dc (slice_id n) True sc' ?st)"
    using w dest e by (subst slice_loop.simps) (simp add: assms(1) Let_def)
  moreover have "walk_at d offs k sc' ?st" using assms(2) by (simp add: walk_at_def)
  moreover have "steady st ?st" using assms(3) by (simp add: steady_def)
  ultimately show ?thesis by blast
qed

text \<open>The search of \<open>real_open_partition\<close> is the search in the chain.\<close>

lemma slice_loop_finds:
  assumes "next_slice env (slice_id n) sc st = Some (True, sc', st')" "walk_at (disk (media st)) offs k sc' st'" "steady st st'"
    and "c_int (current_drive st) = drive" "current_drive st AND 0x80 \<noteq> 0"
    and "table_chain geom (disk (media st)) offs" "no_bsd_slices (disk (media st)) offs" "n < 255"
  shows "\<exists>sc'' st''. case find_slice_from k (disk (media st)) offs n of
      Some j \<Rightarrow> slice_loop env mount bpt False dc (slice_id n) True sc st = Some (True, sc'', st'') \<and>
        walk_at (disk (media st)) offs j sc'' st'' \<and> steady st st''
    | None \<Rightarrow> slice_loop env mount bpt False dc (slice_id n) True sc st = Some (False, sc'', st'') \<and> errnum st'' = ERR_NO_PART"
  using assms
proof (induction "4 * length offs - k" arbitrary: k sc st sc' st')
  case 0
  then show ?case by (auto simp: walk_at_def)
next
  case (Suc m)
  let ?d = "disk (media st)"
  have l: "4 * length offs < 255" using Suc.prems(6) by (simp add: table_chain_def)
  have k: "k < 4 * length offs" using Suc.prems(2) by (simp add: walk_at_def)
  obtain st1 where st1: "walk_at ?d offs k sc' st1" "steady st st1"
    and b: "slice_loop env mount bpt False dc (slice_id n) True sc st =
      (if slice_type ?d offs k \<noteq> 0 \<and> slice_no ?d offs k = n then Some (True, sc', st1)
       else slice_loop env mount bpt False dc (slice_id n) True sc' st1)"
    using slice_loop_body [OF Suc.prems(1-3) l Suc.prems(8)] by blast
  show ?case
  proof (cases "slice_type ?d offs k \<noteq> 0 \<and> slice_no ?d offs k = n")
    case True
    then show ?thesis using b st1 by (auto simp: find_slice_step [OF k])
  next
    case False
    have v: "media st1 = media st" "current_drive st1 = current_drive st" "readable drive geom 9 disk st1"
      using st1(2) by (simp_all add: steady_def)
    have "\<not> IS_PC_SLICE_TYPE_BSD (current_slice st1 AND 0xff)"
      using st1(1) Suc.prems(7) by (simp add: walk_at_def no_bsd_slices_def slice_type_byte)
    then have nx: "next_slice env (slice_id n) sc' st1 = next_pc_slice env (current_drive st1) (slice_id n) sc' st1"
      using Suc.prems(5) v by (intro next_slice_pc) simp_all
    have f: "find_slice_from k ?d offs n = find_slice_from (Suc k) ?d offs n"
      and e: "slice_loop env mount bpt False dc (slice_id n) True sc st =
        slice_loop env mount bpt False dc (slice_id n) True sc' st1"
      using False b by (simp_all only: find_slice_step [OF k] if_False)
    have c: "c_int (current_drive st1) = drive" "table_chain geom (disk (media st1)) offs"
      "walk_at (disk (media st1)) offs k sc' st1"
      using Suc.prems(4,6) v st1(1) by simp_all
    show ?thesis
    proof (cases "Suc k < 4 * length offs")
      case True
      obtain sc2 st2 where "next_slice env (slice_id n) sc' st1 = Some (True, sc2, st2)"
        "walk_at (disk (media st1)) offs (Suc k) sc2 st2" "steady st1 st2"
        using walk_next [OF v(3) c True, of "slice_id n"] unfolding nx by blast
      moreover have "m = 4 * length offs - Suc k" using Suc.hyps(2) by linarith
      moreover have t: "steady st1 = steady st" using v by (simp add: steady_def fun_eq_iff)
      ultimately show ?thesis
        using Suc.hyps(1) [of "Suc k" sc' st1 sc2 st2] Suc.prems(4-8) unfolding f e v(1,2) t by blast
    next
      case end': False
      then have "Suc k = 4 * length offs" using k by simp
      from walk_end [OF v(3) c this, of "slice_id n"] nx
      obtain sc2 st2 where "next_slice env (slice_id n) sc' st1 = Some (False, sc2, st2\<lparr>errnum := ERR_NO_PART\<rparr>)"
        by auto
      then have "slice_loop env mount bpt False dc (slice_id n) True sc' st1 =
          Some (False, sc2, st2\<lparr>errnum := ERR_NO_PART\<rparr>)"
        by (subst slice_loop.simps) simp
      then show ?thesis unfolding f e using end' by (simp add: find_slice_end)
    qed
  qed
qed

lemma open_partition_chain:
  assumes "readable drive geom 9 disk st" "drive \<in> {128..<136}" "current_drive st = word_of_int drive"
    and "- 2147483648 \<le> buf_drive st" "buf_drive st < 2147483648"
    and "table_chain geom (disk (media st)) offs" "no_bsd_slices (disk (media st)) offs"
    and "n < 255" "current_partition st = slice_id n"
  shows "\<exists>st'. case find_slice_from 0 (disk (media st)) offs n of
      Some k \<Rightarrow> open_partition env mount bpt cd dc stack st = Some (True, st') \<and>
        part_start st' = slice_start (disk (media st)) offs k \<and>
        part_length st' = slice_length (disk (media st)) offs k \<and>
        current_slice st' = slice_type (disk (media st)) offs k \<and>
        current_partition st' = slice_id n \<and> steady st st'
    | None \<Rightarrow> open_partition env mount bpt cd dc stack st = Some (False, st') \<and> errnum st' = ERR_NO_PART"
proof -
  let ?d = "disk (media st)"
  have "drive \<in> {128, 129, 130, 131, 132, 133, 134, 135}" using assms(2) by auto
  then have dr: "current_drive st \<noteq> 0x20" "current_drive st AND 0xFFFFFF7F < 8" "current_drive st AND 0x80 \<noteq> 0"
    "0xC0 > current_drive st" "c_int (current_drive st) = drive"
    unfolding assms(3) by (elim insertE emptyE; simp add: c_int_def)+
  have sane: "sane_partition cd (current_drive st) (slice_id n)"
    using dr slice_id_sane [OF assms(8)] by (simp add: sane_partition_def)
  have ne: "slice_id n \<noteq> 0xFFFFFF" using slice_id_inj [of n 255] assms(8) by (simp add: slice_id_255)
  let ?st1 = "st\<lparr>bsd_evil_hack := 0, current_slice := 0, part_start := 0\<rparr>"
  define st2 where "st2 = (if buf_drive st \<noteq> drive
    then ?st1\<lparr>buf_geom := geom, buf_drive := drive, cur_sector_size := sector_size geom, buf_track := - 1\<rparr> else ?st1)"
  have bd: "c_ulong (buf_drive st) = current_drive st \<longleftrightarrow> buf_drive st = drive"
  proof
    assume "c_ulong (buf_drive st) = current_drive st"
    then show "buf_drive st = drive" using dr(5) c_int_c_ulong [OF assms(4,5)] by simp
  qed (simp add: c_ulong_def assms(3))
  have s2: "readable drive geom 9 disk st2" "media st2 = media st" "current_drive st2 = current_drive st"
    "buf_geom st2 = geom"
    using assms(1) by (simp_all add: st2_def readable_def buffer_ready_def cache_ok_def)
  let ?st3 = "st2\<lparr>part_length := total_sectors geom, current_partition := 0xFFFFFF\<rparr>"
  have s3: "readable drive geom 9 disk ?st3" "media ?st3 = media st" "current_drive ?st3 = current_drive st"
    "current_partition ?st3 = 0xFFFFFF"
    using s2 by simp_all
  obtain sc4 st4 where f: "next_pc_slice env (current_drive ?st3) (slice_id n) stack ?st3 = Some (True, sc4, st4)"
    "walk_at (disk (media ?st3)) offs 0 sc4 st4" "steady ?st3 st4"
    using walk_first [OF s3(1), of "current_drive ?st3" offs "slice_id n" stack] dr(5) assms(6) s3 by auto
  have "next_slice env (slice_id n) stack ?st3 = Some (True, sc4, st4)"
    using f(1) next_slice_pc [of ?st3 "slice_id n" stack] dr(3) s3 by simp
  from slice_loop_finds [OF this f(2,3), where mount = mount and bpt = bpt and dc = dc] assms(6,7,8) dr(3,5) s3
  obtain sc5 st5 where l: "case find_slice_from 0 ?d offs n of
      Some j \<Rightarrow> slice_loop env mount bpt False dc (slice_id n) True stack ?st3 = Some (True, sc5, st5) \<and>
        walk_at ?d offs j sc5 st5 \<and> steady ?st3 st5
    | None \<Rightarrow> slice_loop env mount bpt False dc (slice_id n) True stack ?st3 = Some (False, sc5, st5) \<and> errnum st5 = ERR_NO_PART"
    unfolding s3(2) by auto
  have cp2: "current_partition st2 = slice_id n" "part_length st2 = part_length st"
    using assms(9) by (simp_all add: st2_def)
  have o: "open_partition env mount bpt cd dc stack st =
      do { (found, sc, st) \<leftarrow> slice_loop env mount bpt False dc (slice_id n) True stack ?st3;
           if found then Some (True, st) else Some (False, st) }"
    using dr ne sane bd cp2 s2(4) unfolding open_partition_def real_open_partition_def Let_def assms(9) if_False
    by (cases "buf_drive st = drive") (auto simp: probe st2_def)
  show ?thesis
  proof (cases "find_slice_from 0 ?d offs n")
    case None
    then show ?thesis using l o by auto
  next
    case (Some k)
    have "slice_no ?d offs k = n" using Some by (auto simp: find_slice_from_def find_Some_iff)
    then show ?thesis
      using l o Some s3 by (auto simp: walk_at_def steady_def)
  qed
qed

text \<open>The first partition of a BSD label.\<close>

lemma bsd_first:
  assumes "readable drive geom 9 disk st" "c_int drv = drive" "tracks_inside geom 9 (Suc s) 0 512"
    and "part_start st = of_nat s" "drop_bit 8 (current_partition st AND 0xFF00) = 0xFF" "2 \<le> part_length st"
  defines "l \<equiv> sector_at (disk (media st)) (Suc s)"
  assumes "BSD_LABEL_CHECK_MAG l" "BSD_LABEL_NPARTS l \<le> 22"
  shows "\<exists>sc' st'. case List.find (\<lambda>i. BSD_PART_TYPE l i \<noteq> 0) [0..<nat (BSD_LABEL_NPARTS l)] of
      None \<Rightarrow> next_bsd_partition env drv dest sc st = Some (False, sc', st') \<and> errnum st' = ERR_NO_PART
    | Some k \<Rightarrow> next_bsd_partition env drv dest sc st = Some (True, sc', st') \<and> steady st st' \<and>
        part_start st' = BSD_PART_START l k \<and> part_length st' = BSD_PART_LENGTH l k \<and>
        current_slice st' = push_bit 8 (BSD_PART_TYPE l k) OR (current_slice st AND 0xFF) \<and>
        current_partition st' = (current_partition st AND 0xFF00FF) OR push_bit 8 (of_nat k)"
proof -
  obtain b st1 where r: "rawread env drive (int (Suc s)) 0 512 (sect sc) 0 st = Some (True, b, st1)"
    "same_view st st1" "readable drive geom 9 disk st1" and b: "\<And>i. i < 512 \<Longrightarrow> b i = l i"
    using read_sector [OF assms(1,3), of "sect sc"] unfolding l_def by blast
  have "Suc s < 2147483648" using sector_inside [of "Suc s" 0 512] assms(3) total_range by simp
  then have s: "c_int (part_start st + 1) = int (Suc s)"
    using c_int_of_nat [of "Suc s"] by (simp add: assms(4) add.commute)
  have f: "BSD_LABEL_CHECK_MAG b" "BSD_LABEL_NPARTS b = BSD_LABEL_NPARTS l"
    using assms(8) b le32_cong [of b 0 l] by (simp_all add: BSD_LABEL_CHECK_MAG_def BSD_LABEL_NPARTS_def le16_def)
  have g: "BSD_PART_TYPE b k = BSD_PART_TYPE l k" "BSD_PART_START b k = BSD_PART_START l k"
    "BSD_PART_LENGTH b k = BSD_PART_LENGTH l k" if "k < nat (BSD_LABEL_NPARTS l)" for k
  proof -
    have k: "k < 22" using that assms(9) by linarith
    show "BSD_PART_TYPE b k = BSD_PART_TYPE l k" using b k by (simp add: BSD_PART_TYPE_def)
    show "BSD_PART_START b k = BSD_PART_START l k" "BSD_PART_LENGTH b k = BSD_PART_LENGTH l k"
      unfolding BSD_PART_START_def BSD_PART_LENGTH_def using b k by (intro le32_cong; simp)+
  qed
  let ?n = "[0..<nat (BSD_LABEL_NPARTS l)]"
  have find: "List.find (\<lambda>i. BSD_PART_TYPE b i \<noteq> 0) ?n = List.find (\<lambda>i. BSD_PART_TYPE l i \<noteq> 0) ?n"
    using g(1) by (intro find_cong) auto
  have v: "current_slice st1 = current_slice st" "current_partition st1 = current_partition st"
    "media st1 = media st" "current_drive st1 = current_drive st"
    using r(2) by (simp_all add: same_view_def)
  have len: "\<not> part_length st < 1 + 1" using assms(6) by (simp add: not_less)
  have bno: "uint (drop_bit 8 (current_partition st AND 0xFF00)) = 255" using assms(5) by simp
  have e: "next_bsd_partition env drv dest sc st =
      (case List.find (\<lambda>i. BSD_PART_TYPE l i \<noteq> 0) ?n of
        None \<Rightarrow> Some (False, sc\<lparr>sect := b\<rparr>, st1\<lparr>errnum := ERR_NO_PART\<rparr>)
      | Some i \<Rightarrow>
          let st = st1\<lparr>current_slice := push_bit 8 (BSD_PART_TYPE b i) OR (current_slice st1 AND 0xFF),
                      part_start := BSD_PART_START b i, part_length := BSD_PART_LENGTH b i,
                      current_partition := (current_partition st1 AND 0xFF00FF) OR push_bit 8 (of_nat i)\<rparr>
          in Some (True, sc\<lparr>sect := b\<rparr>,
               if drv AND 0x80 \<noteq> 0 \<and> BSD_LABEL_DTYPE b = 4 then st\<lparr>bsd_evil_hack := 4\<rparr> else st))"
    unfolding next_bsd_partition_def Let_def bno using r(1) len f
    by (simp add: assms(2) s find split: option.split)
  show ?thesis
  proof (cases "List.find (\<lambda>i. BSD_PART_TYPE l i \<noteq> 0) ?n")
    case None
    then show ?thesis unfolding e by simp
  next
    case (Some k)
    then have "k < nat (BSD_LABEL_NPARTS l)" by (auto simp: find_Some_iff)
    note g = g [OF this]
    show ?thesis unfolding e Some using r(3) v g by (auto simp: Let_def steady_def)
  qed
qed

text \<open>
  The search for the booted logical partition never ends when every table it meets lies before the
  partition and links to one of them.  A link of 0, which ends the chain, leads back to the first.
\<close>

lemma ebr_loop_hangs:
  assumes "\<And>x. x \<in> S \<Longrightarrow> offset + x < lba \<and> tracks_inside geom 9 (unat (offset + x)) 0 512 \<and>
      PC_SLICE_START (sector_at d (unat (offset + x))) 1 \<in> S"
  shows "off \<in> S \<Longrightarrow> readable drive geom 9 disk st \<Longrightarrow> disk (media st) = d \<Longrightarrow>
    ebr_loop env drive lba offset off n b st = None"
proof -
  let ?P = "\<lambda>e dr lb os off n b st y. e = env \<and> dr = drive \<and> lb = lba \<and> os = offset \<and> off \<in> S \<and>
    readable drive geom 9 disk st \<and> disk (media st) = d \<longrightarrow> False"
  have "ebr_loop env drive lba offset off n b st = Some y \<Longrightarrow> ?P env drive lba offset off n b st y" for off n b st y
  proof (rule ebr_loop.raw_induct [where P = ?P])
    fix f e dr lb os off n b and st :: "'m disk_state" and y
    assume ih: "\<And>e dr lb os off n b st y. f e dr lb os off n b st = Some y \<Longrightarrow> ?P e dr lb os off n b st y"
      and body: "do {
        (_, b, st) \<leftarrow> rawread e dr (c_int (os + off)) 0 512 b 0 st;
        if os + off < lb then f e dr lb os (PC_SLICE_START b 1) (n + 1) b st else Some (n + 1, b, st)
      } = Some y"
    show "?P e dr lb os off n b st y"
    proof
      assume a: "e = env \<and> dr = drive \<and> lb = lba \<and> os = offset \<and> off \<in> S \<and>
        readable drive geom 9 disk st \<and> disk (media st) = d"
      then have x: "offset + off < lba" "tracks_inside geom 9 (unat (offset + off)) 0 512"
        "PC_SLICE_START (sector_at d (unat (offset + off))) 1 \<in> S"
        using assms by blast+
      obtain b' st' where r: "rawread env drive (int (unat (offset + off))) 0 512 b 0 st = Some (True, b', st')"
        "same_view st st'" "readable drive geom 9 disk st'"
        and b': "\<And>i. i < 512 \<Longrightarrow> b' i = sector_at d (unat (offset + off)) i"
        using read_sector [of st, OF _ x(2), of b] a by blast
      have "unat (offset + off) < 2147483648"
        using sector_inside [OF x(2)] total_range by simp
      then have "c_int (offset + off) = int (unat (offset + off))"
        using c_int_of_nat [of "unat (offset + off)"] by simp
      then have "f env drive lba offset (PC_SLICE_START b' 1) (n + 1) b' st' = Some y"
        using body a r(1) x(1) by simp
      moreover have "PC_SLICE_START b' 1 \<in> S"
        using sector_fields(4) [of b' "sector_at d (unat (offset + off))" 1] b' x(3) by simp
      moreover have "disk (media st') = d" using r(2) a by (simp add: same_view_def)
      ultimately show False
        using ih [of env drive lba offset "PC_SLICE_START b' 1" "n + 1" b' st' y] r(3) by blast
    qed
  qed
  then show "off \<in> S \<Longrightarrow> readable drive geom 9 disk st \<Longrightarrow> disk (media st) = d \<Longrightarrow>
    ebr_loop env drive lba offset off n b st = None" by (metis not_Some_eq)
qed

lemma first_table:
  assumes "readable drive geom 9 disk st" "tracks_inside geom 9 0 0 512"
  shows "\<exists>b st'. rawread env drive 0 0 512 buf 0 st = Some (True, b, st') \<and> same_view st st' \<and>
    readable drive geom 9 disk st' \<and> pt_search b start len [0, 1, 2, 3] 0 = pt_search (sector_at (disk (media st)) 0) start len [0, 1, 2, 3] 0 \<and>
    (\<forall>k<4. PC_SLICE_TYPE b k = PC_SLICE_TYPE (sector_at (disk (media st)) 0) k)"
proof -
  obtain b st' where r: "rawread env drive (int 0) 0 512 buf 0 st = Some (True, b, st')" "same_view st st'"
    "readable drive geom 9 disk st'" and b: "\<And>i. i < 512 \<Longrightarrow> b i = sector_at (disk (media st)) 0 i"
    using read_sector [OF assms, of buf] by blast
  note f = sector_fields(3-5) [of b "sector_at (disk (media st)) 0"]
  have "pt_search b start len [0, 1, 2, 3] 0 = pt_search (sector_at (disk (media st)) 0) start len [0, 1, 2, 3] 0"
    using b f by (intro pt_search_cong) auto
  then show ?thesis using r f(1) b by (intro exI [of _ b] exI [of _ st']) simp
qed

lemma hiddensecs_primary:
  assumes "readable drive geom 9 disk st" "tracks_inside geom 9 0 0 512" "c_int boot_drive = drive" "hidden \<noteq> 0"
    and "len = (if n_sect = 0 then n_sect_ext else n_sect)"
    and "pt_search (sector_at (disk (media st)) 0) hidden len [0, 1, 2, 3] 0 = (Some k, off)" "k < 4"
  shows "\<exists>st'. open_partition_hiddensecs env boot_drive hidden n_sect n_sect_ext stack st = Some (True, st') \<and>
    readable drive geom 9 disk st' \<and> part_start st' = hidden \<and> part_length st' = len \<and> current_drive st' = boot_drive \<and>
    current_slice st' = PC_SLICE_TYPE (sector_at (disk (media st)) 0) k \<and>
    current_partition st' = 0xff OR push_bit 8 0xff OR push_bit 16 (of_nat k)"
proof -
  let ?st = "st\<lparr>part_start := hidden, part_length := len\<rparr>"
  have "readable drive geom 9 disk ?st" "media ?st = media st" using assms(1) by simp_all
  from first_table [OF this(1) assms(2), of stack hidden len] this(2)
  obtain b st' where r: "rawread env drive 0 0 512 stack 0 ?st = Some (True, b, st')" "same_view ?st st'"
    "readable drive geom 9 disk st'" "pt_search b hidden len [0, 1, 2, 3] 0 = (Some k, off)"
    "PC_SLICE_TYPE b k = PC_SLICE_TYPE (sector_at (disk (media st)) 0) k"
    using assms(6,7) by auto
  have c: "readable drive geom 9 disk (s\<lparr>current_drive := x\<rparr>) = readable drive geom 9 disk s" for s :: "'m disk_state" and x
    by (simp add: readable_def buffer_ready_def cache_ok_def)
  show ?thesis
    using r assms(3,4) unfolding open_partition_hiddensecs_def Let_def assms(5) [symmetric]
    by (simp add: same_view_def c del: pt_search.simps)
qed

lemma hiddensecs_hangs:
  assumes "readable drive geom 9 disk st" "tracks_inside geom 9 0 0 512" "c_int boot_drive = drive" "hidden \<noteq> 0"
    and "len = (if n_sect = 0 then n_sect_ext else n_sect)"
    and "pt_search (sector_at (disk (media st)) 0) hidden len [0, 1, 2, 3] 0 = (None, base)"
    and "0 \<in> S" "\<And>x. x \<in> S \<Longrightarrow> base + x < hidden \<and> tracks_inside geom 9 (unat (base + x)) 0 512 \<and>
      PC_SLICE_START (sector_at (disk (media st)) (unat (base + x))) 1 \<in> S"
  shows "open_partition_hiddensecs env boot_drive hidden n_sect n_sect_ext stack st = None"
proof -
  let ?st = "st\<lparr>part_start := hidden, part_length := len\<rparr>"
  have "readable drive geom 9 disk ?st" "media ?st = media st" using assms(1) by simp_all
  from first_table [OF this(1) assms(2), of stack hidden len] this(2)
  obtain b st' where r: "rawread env drive 0 0 512 stack 0 ?st = Some (True, b, st')" "same_view ?st st'"
    "readable drive geom 9 disk st'" "pt_search b hidden len [0, 1, 2, 3] 0 = (None, base)"
    using assms(6) by auto
  have "media st' = media st" "part_start st' = hidden" "part_length st' = len" using r(2) by (simp_all add: same_view_def)
  moreover have "ebr_loop env drive hidden base 0 2 b st' = None"
    using calculation(1) by (intro ebr_loop_hangs [OF assms(8,7) r(3)]) simp_all
  ultimately show ?thesis
    using r assms(3,4) unfolding open_partition_hiddensecs_def Let_def assms(5) [symmetric]
    by (simp del: pt_search.simps)
qed

end

section \<open>A partitioned image\<close>

text \<open>
  Two primary slices, the second an extended one at sector 2000 with two logical ones: tables at
  2000 and 3000.
\<close>

definition pt_entry :: "nat \<Rightarrow> nat \<Rightarrow> nat \<Rightarrow> u8 list" where
  "pt_entry type start len = [0, 0, 0, 0, of_nat type, 0, 0, 0] @
     map (\<lambda>i. of_nat (start div 256 ^ i)) [0, 1, 2, 3] @ map (\<lambda>i. of_nat (len div 256 ^ i)) [0, 1, 2, 3]"

definition pt_sector :: "u8 list \<Rightarrow> mem" where
  "pt_sector es = (\<lambda>i. if i = 510 then 0x55 else if i = 511 then 0xAA
     else if 446 \<le> i \<and> i < 446 + length es then es ! (i - 446) else 0)"

definition part_image :: mem where
  "part_image = (\<lambda>i.
     if i div 512 = 0 then pt_sector (pt_entry 0x83 63 1000 @ pt_entry 5 2000 5000) (i mod 512)
     else if i div 512 = 2000 then pt_sector (pt_entry 0x83 63 900 @ pt_entry 5 1000 2000) (i mod 512)
     else if i div 512 = 3000 then pt_sector (pt_entry 6 63 800) (i mod 512)
     else of_nat (i div 512))"

definition part_state :: "mem disk_state" where
  "part_state = hd_state\<lparr>media := part_image, current_partition := 0x5FFFF\<rparr>"

lemma part_sectors:
  "sector_at part_image 0 i = (if i < 512 then pt_sector (pt_entry 0x83 63 1000 @ pt_entry 5 2000 5000) i else part_image i)"
  "i < 512 \<Longrightarrow> sector_at part_image 2000 i = pt_sector (pt_entry 0x83 63 900 @ pt_entry 5 1000 2000) i"
  "i < 512 \<Longrightarrow> sector_at part_image 3000 i = pt_sector (pt_entry 6 63 800) i"
proof -
  show "sector_at part_image 0 i = (if i < 512 then pt_sector (pt_entry 0x83 63 1000 @ pt_entry 5 2000 5000) i else part_image i)"
    by (simp add: sector_at_def) (simp add: part_image_def)
  assume "i < 512"
  then have "(2000 * 512 + i) div 512 = 2000" "(2000 * 512 + i) mod 512 = i"
    "(3000 * 512 + i) div 512 = 3000" "(3000 * 512 + i) mod 512 = i"
    unfolding mod_mult_self3 div_mult_self3 [OF numeral_neq_zero] by simp_all
  then show "sector_at part_image 2000 i = pt_sector (pt_entry 0x83 63 900 @ pt_entry 5 1000 2000) i"
    "sector_at part_image 3000 i = pt_sector (pt_entry 6 63 800) i"
    unfolding sector_at_def part_image_def by simp_all
qed

lemma part_types:
  "PC_SLICE_TYPE (sector_at part_image 0) 0 = 0x83" "PC_SLICE_TYPE (sector_at part_image 0) 1 = 5"
  "PC_SLICE_TYPE (sector_at part_image 0) 2 = 0" "PC_SLICE_TYPE (sector_at part_image 0) 3 = 0"
  "PC_SLICE_TYPE (sector_at part_image 2000) 0 = 0x83" "PC_SLICE_TYPE (sector_at part_image 2000) 1 = 5"
  "PC_SLICE_TYPE (sector_at part_image 2000) 2 = 0" "PC_SLICE_TYPE (sector_at part_image 2000) 3 = 0"
  "PC_SLICE_TYPE (sector_at part_image 3000) 0 = 6" "PC_SLICE_TYPE (sector_at part_image 3000) 1 = 0"
  "PC_SLICE_TYPE (sector_at part_image 3000) 2 = 0" "PC_SLICE_TYPE (sector_at part_image 3000) 3 = 0"
  by (simp_all add: PC_SLICE_TYPE_def part_sectors pt_sector_def pt_entry_def)

lemma part_starts:
  "PC_SLICE_START (sector_at part_image 0) 0 = 63" "PC_SLICE_START (sector_at part_image 0) 1 = 2000"
  "PC_SLICE_START (sector_at part_image 0) 2 = 0" "PC_SLICE_START (sector_at part_image 0) 3 = 0"
  "PC_SLICE_START (sector_at part_image 2000) 1 = 1000" "PC_SLICE_START (sector_at part_image 3000) 0 = 63"
  "PC_SLICE_START (sector_at part_image 3000) 1 = 0" "PC_SLICE_LENGTH (sector_at part_image 3000) 0 = 800"
  by (simp_all add: PC_SLICE_START_def PC_SLICE_LENGTH_def le32_def le16_def part_sectors pt_sector_def pt_entry_def)

lemma part_signatures:
  "PC_MBR_CHECK_SIG (sector_at part_image 0)" "PC_MBR_CHECK_SIG (sector_at part_image 2000)"
  "PC_MBR_CHECK_SIG (sector_at part_image 3000)"
  by (simp_all add: PC_MBR_CHECK_SIG_def le16_def part_sectors pt_sector_def)

lemma hd_sector_inside: "s < 1032185 \<Longrightarrow> tracks_inside (hd_geometry 1) 9 s 0 512"
  by (simp add: tracks_inside_def hd_vtrack) (simp add: hd_geometry_def)

lemma part_chain: "table_chain (hd_geometry 1) part_image [0, 2000, 3000]"
proof -
  have this: "first_extended (sector_at part_image 0) = Some 1" "first_extended (sector_at part_image 2000) = Some 1"
    "first_extended (sector_at part_image 3000) = None"
    by (simp_all only: first_extended_def part_types IS_PC_SLICE_TYPE_EXTENDED_def List.find.simps) simp_all
  note facts = this part_signatures part_starts hd_sector_inside
  have all: "(\<forall>j<3. P j) \<longleftrightarrow> P 0 \<and> P 1 \<and> P (2::nat)" for P
    by (auto simp: numeral_eq_Suc less_Suc_eq)
  have l: "length [0, 2000, 3000 :: nat] = 3" by simp
  show ?thesis
    unfolding table_chain_def l all
    by (simp add: facts facts [unfolded One_nat_def] ext_base_def)
qed

lemma less_twelve: "k < 12 \<Longrightarrow> k \<in> {0, 1, 2, 3, 4, 5, 6, 7, 8, 9, 10, 11 :: nat}"
  unfolding insert_iff empty_iff by presburger

lemma part_slice_types:
  "k < 12 \<Longrightarrow> slice_type part_image [0, 2000, 3000] k = [0x83, 5, 0, 0, 0x83, 5, 0, 0, 6, 0, 0, 0] ! k"
proof -
  assume "k < 12"
  then have "k \<in> {0, 1, 2, 3, 4, 5, 6, 7, 8, 9, 10, 11}" by (rule less_twelve)
  then show ?thesis
    by (elim insertE emptyE; simp add: slice_type_def part_types part_types [unfolded One_nat_def])
qed

lemma part_no_bsd: "no_bsd_slices part_image [0, 2000, 3000]"
proof -
  have "\<not> IS_PC_SLICE_TYPE_BSD (slice_type part_image [0, 2000, 3000] k)" if "k < 12" for k
  proof -
    have "k \<in> {0, 1, 2, 3, 4, 5, 6, 7, 8, 9, 10, 11}" using that by (rule less_twelve)
    then show ?thesis
      by (elim insertE emptyE; simp add: part_slice_types IS_PC_SLICE_TYPE_BSD_def IS_PC_SLICE_TYPE_BSD_WITH_FS_def)
  qed
  then show ?thesis by (simp add: no_bsd_slices_def)
qed

lemma part_find: "find_slice_from 0 part_image [0, 2000, 3000] 5 = Some 8"
proof -
  let ?no = "slice_no part_image [0, 2000, 3000]"
  have p: "?no 0 = 0" "?no (Suc 0) = 1" "?no (Suc (Suc 0)) = 2" "?no 3 = 3" "?no 4 = 4"
    using slice_no_primary [of _ part_image "[0, 2000, 3000]"] by simp_all
  have "?no 5 = 4" "?no 6 = 4" "?no 7 = 4" "?no 8 = 5"
    using p slice_no.simps(2) [of part_image "[0, 2000, 3000]" 4] slice_no.simps(2) [of part_image "[0, 2000, 3000]" 5]
      slice_no.simps(2) [of part_image "[0, 2000, 3000]" 6] slice_no.simps(2) [of part_image "[0, 2000, 3000]" 7]
    by (simp_all add: part_slice_types IS_PC_SLICE_TYPE_EXTENDED_def del: slice_no.simps)
  then show ?thesis
    using p find_slice_step [of 0 "[0, 2000, 3000]" part_image 5] find_slice_step [of 1 "[0, 2000, 3000]" part_image 5]
      find_slice_step [of 2 "[0, 2000, 3000]" part_image 5] find_slice_step [of 3 "[0, 2000, 3000]" part_image 5]
      find_slice_step [of 4 "[0, 2000, 3000]" part_image 5] find_slice_step [of 5 "[0, 2000, 3000]" part_image 5]
      find_slice_step [of 6 "[0, 2000, 3000]" part_image 5] find_slice_step [of 7 "[0, 2000, 3000]" part_image 5]
      find_slice_step [of 8 "[0, 2000, 3000]" part_image 5]
    by (simp add: part_slice_types numeral_2_eq_2 [symmetric] del: slice_no.simps)
qed

lemma part_no_ezd: "no_ezd (hd_geometry 1) 9 part_image"
proof -
  have "\<not> is_ezd (\<lambda>i. part_image (s * 512 + i))" if "s < 7" for s
  proof (cases "s = 0")
    case True
    have "\<not> is_ezd (sector_at part_image 0)" by (simp add: is_ezd_def part_types part_types [unfolded One_nat_def])
    then show ?thesis using True by (simp add: sector_at_def)
  next
    case False
    have "uint (part_image (s * 512 + i)) \<noteq> 85" if "i < 512" for i
    proof -
      have "(s * 512 + i) div 512 = s" using that by simp
      then have "uint (part_image (s * 512 + i)) = int s"
        using \<open>s < 7\<close> False by (simp add: part_image_def unsigned_of_nat take_bit_nat_eq_self)
      then show ?thesis using \<open>s < 7\<close> by simp
    qed
    then show ?thesis by (simp add: is_ezd_def PC_SLICE_TYPE_def)
  qed
  then show ?thesis by (simp add: no_ezd_def hd_vtrack)
qed

lemma part_readable: "readable 128 (hd_geometry 1) 9 (\<lambda>m. m) part_state"
  using part_no_ezd by (simp add: readable_def part_state_def hd_state_def)

text \<open>An image with a BSD label in sector 101, its second partition in use.\<close>

definition bsd_image :: mem where
  "bsd_image = (\<lambda>i. if i div 512 = 101
     then let j = i mod 512 in
          if j < 4 then [0x57, 0x45, 0x56, 0x82] ! j else if j = 138 then 3
          else if j = 164 then 44 else if j = 165 then 1 else if j = 168 then 200 else if j = 176 then 7 else 0
     else of_nat (i div 512))"

definition bsd_state :: "mem disk_state" where
  "bsd_state = hd_state\<lparr>media := bsd_image, part_start := 100, part_length := 50, current_partition := 0x1FFFF\<rparr>"

lemma bsd_sector: "j < 512 \<Longrightarrow> sector_at bsd_image 101 j = (if j < 4 then [0x57, 0x45, 0x56, 0x82] ! j
    else if j = 138 then 3 else if j = 164 then 44 else if j = 165 then 1 else if j = 168 then 200 else if j = 176 then 7 else 0)"
proof -
  assume "j < 512"
  then have "(101 * 512 + j) div 512 = 101" "(101 * 512 + j) mod 512 = j"
    unfolding mod_mult_self3 div_mult_self3 [OF numeral_neq_zero] by simp_all
  then show ?thesis unfolding sector_at_def bsd_image_def Let_def by simp
qed

lemma bsd_fields:
  "BSD_LABEL_CHECK_MAG (sector_at bsd_image 101)" "BSD_LABEL_NPARTS (sector_at bsd_image 101) = 3"
  "BSD_PART_TYPE (sector_at bsd_image 101) 0 = 0" "BSD_PART_TYPE (sector_at bsd_image 101) (Suc 0) = 7"
  "BSD_PART_START (sector_at bsd_image 101) (Suc 0) = 200" "BSD_PART_LENGTH (sector_at bsd_image 101) (Suc 0) = 300"
  by (simp_all add: BSD_LABEL_CHECK_MAG_def BSD_LABEL_NPARTS_def BSD_PART_TYPE_def BSD_PART_START_def
      BSD_PART_LENGTH_def le32_def le16_def bsd_sector)

lemma bsd_readable: "readable 128 (hd_geometry 1) 9 (\<lambda>m. m) bsd_state"
proof -
  have "\<not> is_ezd (\<lambda>i. bsd_image (s * 512 + i))" if "s < 7" for s
  proof -
    have "uint (bsd_image (s * 512 + i)) \<noteq> 85" if "i < 512" for i
    proof -
      have "(s * 512 + i) div 512 = s" using that by simp
      then have "uint (bsd_image (s * 512 + i)) = int s"
        using \<open>s < 7\<close> by (simp add: bsd_image_def unsigned_of_nat take_bit_nat_eq_self)
      then show ?thesis using \<open>s < 7\<close> by simp
    qed
    then show ?thesis by (simp add: is_ezd_def PC_SLICE_TYPE_def)
  qed
  then show ?thesis by (simp add: readable_def bsd_state_def hd_state_def no_ezd_def hd_vtrack)
qed

lemma bios_part:
  assumes "lba_drive fw drive g 9 disk \<or> chs_drive fw drive g 9 disk"
    and "\<And>g0. get_diskinfo fw drive g0 = (0, g)" "drive \<in> {128..<136}"
  shows "partition_reader (biosdisk fw) drive g disk (bios_env fw lr ba sa)"
  by (rule bios_partition(3) [OF assms(1,2) _ refl]) (use assms(3) in auto)

section \<open>Properties\<close>



text \<open>C21: on a slice that starts at sector \<open>s\<close>, the first step into its BSD label reads the label behind
  the first sector and reports the first of its partitions that is in use, with the start, length and
  type of the label; a label without one gives \<open>ERR_NO_PART\<close>.\<close>

theorem next_bsd_partition_first:
  assumes "lba_drive fw drive g 9 disk \<or> chs_drive fw drive g 9 disk"
    and "\<And>g0. get_diskinfo fw drive g0 = (0, g)" "drive \<in> {128..<136}"
    and "readable drive g 9 disk st" "c_int drv = drive" "tracks_inside g 9 (Suc s) 0 512"
    and "part_start st = of_nat s" "drop_bit 8 (current_partition st AND 0xFF00) = 0xFF" "2 \<le> part_length st"
    and "l = sector_at (disk (media st)) (Suc s)" "BSD_LABEL_CHECK_MAG l" "BSD_LABEL_NPARTS l \<le> 22"
  shows "\<exists>sc' st'. case List.find (\<lambda>i. BSD_PART_TYPE l i \<noteq> 0) [0..<nat (BSD_LABEL_NPARTS l)] of
      None \<Rightarrow> next_bsd_partition (bios_env fw lr ba sa) drv dest sc st = Some (False, sc', st') \<and> errnum st' = ERR_NO_PART
    | Some k \<Rightarrow> next_bsd_partition (bios_env fw lr ba sa) drv dest sc st = Some (True, sc', st') \<and>
        part_start st' = BSD_PART_START l k \<and> part_length st' = BSD_PART_LENGTH l k \<and>
        current_slice st' = push_bit 8 (BSD_PART_TYPE l k) OR (current_slice st AND 0xFF) \<and>
        current_partition st' = (current_partition st AND 0xFF00FF) OR push_bit 8 (of_nat k)"
proof -
  note r = bios_part [OF assms(1-3), of lr ba sa]
  show ?thesis
    using partition_reader.bsd_first [OF r assms(4-9) assms(11-12) [unfolded assms(10)], of dest sc]
    unfolding assms(10) [symmetric] by (fastforce split: option.splits)
qed

theorem next_bsd_partition_first_witness:
  "\<exists>sc' st'. next_bsd_partition hd_env 128 0 \<lparr>part_offset = 0, entry = 0, ext_offset = 0, sect = \<lambda>_. 0\<rparr> bsd_state =
      Some (True, sc', st') \<and> part_start st' = 200 \<and> part_length st' = 300"
proof -
  have v: "media bsd_state = bsd_image" "part_start bsd_state = of_nat 100" "part_length bsd_state = 50"
    "current_partition bsd_state = 0x1FFFF"
    by (simp_all add: bsd_state_def)
  have f: "List.find (\<lambda>i. BSD_PART_TYPE (sector_at bsd_image (Suc 100)) i \<noteq> 0)
      [0..<nat (BSD_LABEL_NPARTS (sector_at bsd_image (Suc 100)))] = Some 1"
    by (simp add: bsd_fields upt_rec)
  show ?thesis
    using next_bsd_partition_first [OF disjI1 [OF hd_lba.lba_drive_axioms] hd_probe _ bsd_readable _ _ v(2) _ _ refl, where
        drv = 128 and dest = 0 and sc = "\<lparr>part_offset = 0, entry = 0, ext_offset = 0, sect = \<lambda>_. 0\<rparr>" and
        lr = "\<lambda>num sector byte_offset byte_len dst a st. Some (False, dst, st)" and ba = "0x5c200" and sa = "0x5c000"]
      hd_sector_inside [of "Suc 100"]
    unfolding v(1,3,4) f hd_env_def by (auto simp: bsd_fields c_int_def)
qed

text \<open>C22: \<open>open_partition_hiddensecs\<close> on a drive whose first table has a slice that starts at the hidden
  sectors of the boot sector, or a BSD slice around it, selects the first such slice, keeping the
  start and length of the boot sector.\<close>

theorem hiddensecs_finds_primary:
  assumes "lba_drive fw drive g 9 disk \<or> chs_drive fw drive g 9 disk"
    and "\<And>g0. get_diskinfo fw drive g0 = (0, g)" "drive \<in> {128..<136}"
    and "readable drive g 9 disk st" "tracks_inside g 9 0 0 512" "c_int boot_drive = drive" "hidden \<noteq> 0"
    and "len = (if n_sect = 0 then n_sect_ext else n_sect)" "t = sector_at (disk (media st)) 0"
    and "k < 4" "PC_SLICE_START t k = hidden"
    and "\<And>i. i < k \<Longrightarrow> PC_SLICE_START t i \<noteq> hidden \<and> \<not> IS_PC_SLICE_TYPE_BSD (PC_SLICE_TYPE t i)"
  shows "\<exists>st'. open_partition_hiddensecs (bios_env fw lr ba sa) boot_drive hidden n_sect n_sect_ext stack st = Some (True, st') \<and>
    part_start st' = hidden \<and> part_length st' = len \<and> current_drive st' = boot_drive \<and>
    current_slice st' = PC_SLICE_TYPE t k \<and> current_partition st' = slice_id k"
proof -
  note r = bios_part [OF assms(1-3), of lr ba sa]
  obtain off where p: "pt_search t hidden len [0, 1, 2, 3] 0 = (Some k, off)"
    using pt_search_finds [OF assms(10-12), of len] by blast
  have "0xff OR push_bit 8 0xff = (0xFFFF :: u32)" by simp
  then have "slice_id k = 0xff OR push_bit 8 0xff OR push_bit 16 (of_nat k)"
    unfolding slice_id_def or.assoc [symmetric] by (simp only: or.commute)
  then show ?thesis
    using partition_reader.hiddensecs_primary [OF r assms(4-8) p [unfolded assms(9)] assms(10), of stack] assms(9) by auto
qed

theorem hiddensecs_finds_primary_witness:
  "\<exists>st'. open_partition_hiddensecs hd_env 128 63 1000 0 (\<lambda>_. 0) part_state = Some (True, st') \<and>
    part_start st' = 63 \<and> part_length st' = 1000 \<and> current_drive st' = 128 \<and>
    current_slice st' = 0x83 \<and> current_partition st' = slice_id 0"
proof -
  have v: "media part_state = part_image" by (simp add: part_state_def)
  show ?thesis
    using hiddensecs_finds_primary [OF disjI1 [OF hd_lba.lba_drive_axioms] hd_probe _ part_readable _ _ _ refl refl, where
        boot_drive = 128 and hidden = 63 and n_sect = 1000 and k = 0 and stack = "\<lambda>_. 0" and
        lr = "\<lambda>num sector byte_offset byte_len dst a st. Some (False, dst, st)" and ba = "0x5c200" and sa = "0x5c000"]
    unfolding v hd_env_def by (auto simp: part_starts part_types hd_sector_inside c_int_def)
qed

text \<open>C23: when the booted partition lies behind every table of the chain (the last logical partition), the
  search of \<open>open_partition_hiddensecs\<close> never returns: the link 0 of the last table leads it back to
  the first one.  \<open>S\<close> holds the positions of the tables, relative to the first.\<close>

theorem hiddensecs_never_returns:
  assumes "lba_drive fw drive g 9 disk \<or> chs_drive fw drive g 9 disk"
    and "\<And>g0. get_diskinfo fw drive g0 = (0, g)" "drive \<in> {128..<136}"
    and "readable drive g 9 disk st" "tracks_inside g 9 0 0 512" "c_int boot_drive = drive" "hidden \<noteq> 0"
    and "len = (if n_sect = 0 then n_sect_ext else n_sect)"
    and "pt_search (sector_at (disk (media st)) 0) hidden len [0, 1, 2, 3] 0 = (None, base)"
    and "0 \<in> S" "\<And>x. x \<in> S \<Longrightarrow> base + x < hidden \<and> tracks_inside g 9 (unat (base + x)) 0 512 \<and>
      PC_SLICE_START (sector_at (disk (media st)) (unat (base + x))) 1 \<in> S"
  shows "open_partition_hiddensecs (bios_env fw lr ba sa) boot_drive hidden n_sect n_sect_ext stack st = None"
  by (rule partition_reader.hiddensecs_hangs [OF bios_part [OF assms(1-3)] assms(4-11)])

theorem hiddensecs_never_returns_witness:
  "open_partition_hiddensecs hd_env 128 3063 800 0 (\<lambda>_. 0) part_state = None"
proof -
  have v: "media part_state = part_image" by (simp add: part_state_def)
  have p: "pt_search (sector_at part_image 0) 3063 800 [0, 1, 2, 3] 0 = (None, 2000)"
    by (simp add: part_types part_starts part_types [unfolded One_nat_def] part_starts [unfolded One_nat_def]
        Let_def IS_PC_SLICE_TYPE_BSD_def IS_PC_SLICE_TYPE_BSD_WITH_FS_def)
  show ?thesis
    unfolding hd_env_def
    by (rule hiddensecs_never_returns [OF disjI1 [OF hd_lba.lba_drive_axioms] hd_probe _ part_readable, where S = "{0, 1000}"
        and base = 2000])
      (use p in \<open>auto simp: v hd_sector_inside part_starts part_starts [unfolded One_nat_def] c_int_def\<close>)
qed

end
