(* ===== verification/Globals.thy ===== *)
theory Globals
  imports Numbers Partition
begin

text \<open>
  The globals of the pre-loader (\<open>func.c\<close>, \<open>setdev.c\<close>, \<open>root.c\<close>, \<open>stage0_fs.c\<close>) as one record: the
  disk state of \<open>Dskaccess\<close>, the current and the saved device, the open file, and the configuration
  that the file layer reads.  \<open>fsys_buf\<close> is the memory at \<open>FSYS_BUF\<close>, \<open>boot_table\<close> that at
  \<open>BOOT_PART_TABLE\<close>.  What the pre-loader calls outside its own code is the record \<open>loader_env\<close>: the
  disk, the four entry points of the file system driver behind \<open>l1\<close>, the fields of the boot sector's
  parameter block and the loading of another driver.  \<open>drv\<close> holds the static variables of the driver
  that is loaded, \<open>console\<close> what was printed.  \<open>None\<close> is a fault or a call that does not
  return.
\<close>

section \<open>State\<close>

datatype part_choice = PART_UNSPECIFIED | PART_DISK | PART_CHOSEN

record 'm loader =
  dsk :: "'m disk_state"
  saved_drive :: u32
  saved_partition :: u32
  saved_slice :: int
  saved_fsys_type :: int
  fsys_type :: int
  boot_drive :: u32
  cdrom_drive :: u32
  incomplete :: bool
  disk_choice :: bool
  part_choice :: part_choice
  bootdev :: u32
  boot_part_addr :: u32
  boot_table :: mem
  filepos :: int
  filemax :: int
  fsmax :: int
  block_file :: bool
  fsys_buf :: mem
  disk_read_hook :: bool
  print_possibilities :: int
  do_completion :: bool
  num_fsys :: int
  fsys_list :: "u8 list list"
  install_filesys :: "u8 list"
  filetab_ptr :: bool
  unique :: int
  unique_string :: "u8 list"
  console :: "u8 list"
  drv :: "nat \<Rightarrow> int"

record 'm loader_env =
  ldisk :: "'m disk_env"
  fs_mount :: "'m loader \<Rightarrow> (bool \<times> 'm loader) option"
  fs_dir :: "u8 list \<Rightarrow> 'm loader \<Rightarrow> (bool \<times> 'm loader) option"
  fs_read :: "int \<Rightarrow> mem \<Rightarrow> nat \<Rightarrow> 'm loader \<Rightarrow> (int \<times> mem \<times> 'm loader) option"
  fs_close :: "'m loader \<Rightarrow> 'm loader option"
  boot_part_table :: u32
  bpb_hidden_secs :: u32
  bpb_n_sect :: u32
  bpb_n_sect_ext :: u32
  scan_stack :: scan
  load_boot_fsys :: "'m loader \<Rightarrow> 'm loader option"
  load_fsys :: "u8 list \<Rightarrow> 'm loader \<Rightarrow> (bool \<times> 'm loader) option"

abbreviation (input) GRUB_INVALID_DRIVE :: u32 where "GRUB_INVALID_DRIVE \<equiv> 0xFF"

section \<open>Access to the disk state\<close>

abbreviation err :: "'m loader \<Rightarrow> grub_error" where
  "err s \<equiv> errnum (dsk s)"

definition set_err :: "grub_error \<Rightarrow> 'm loader \<Rightarrow> 'm loader" where
  "set_err e s = s\<lparr>dsk := dsk s\<lparr>errnum := e\<rparr>\<rparr>"

definition set_drive :: "u32 \<Rightarrow> 'm loader \<Rightarrow> 'm loader" where
  "set_drive d s = s\<lparr>dsk := dsk s\<lparr>current_drive := d\<rparr>\<rparr>"

definition set_partition :: "u32 \<Rightarrow> 'm loader \<Rightarrow> 'm loader" where
  "set_partition p s = s\<lparr>dsk := dsk s\<lparr>current_partition := p\<rparr>\<rparr>"

definition set_slice :: "int \<Rightarrow> 'm loader \<Rightarrow> 'm loader" where
  "set_slice p s = s\<lparr>dsk := dsk s\<lparr>current_slice := p\<rparr>\<rparr>"

definition on_disk :: "('m disk_state \<Rightarrow> ('a \<times> 'm disk_state) option) \<Rightarrow> 'm loader \<Rightarrow> ('a \<times> 'm loader) option" where
  "on_disk f s = do { (r, d) \<leftarrow> f (dsk s); Some (r, s\<lparr>dsk := d\<rparr>) }"

named_theorems setters \<open>reading the record after one of its fields was set\<close>

lemmas set_defs = set_err_def set_drive_def set_partition_def set_slice_def

lemma dsk_set_err [simp, setters]:
  "errnum (dsk (set_err e s)) = e" "current_drive (dsk (set_err e s)) = current_drive (dsk s)"
  "current_partition (dsk (set_err e s)) = current_partition (dsk s)"
  "current_slice (dsk (set_err e s)) = current_slice (dsk s)"
  by (simp_all add: set_err_def)

lemma dsk_set_drive [simp, setters]:
  "errnum (dsk (set_drive d s)) = errnum (dsk s)" "current_drive (dsk (set_drive d s)) = d"
  "current_partition (dsk (set_drive d s)) = current_partition (dsk s)"
  by (simp_all add: set_drive_def)

lemma dsk_set_partition [simp, setters]:
  "errnum (dsk (set_partition p s)) = errnum (dsk s)"
  "current_drive (dsk (set_partition p s)) = current_drive (dsk s)"
  "current_partition (dsk (set_partition p s)) = p"
  by (simp_all add: set_partition_def)

lemma loader_set_simps [simp, setters]:
  "cdrom_drive (set_err e s) = cdrom_drive s" "cdrom_drive (set_drive d s) = cdrom_drive s"
  "cdrom_drive (set_partition p s) = cdrom_drive s" "saved_partition (set_err e s) = saved_partition s"
  "saved_partition (set_drive d s) = saved_partition s" "saved_partition (set_partition p s) = saved_partition s"
  "saved_drive (set_err e s) = saved_drive s" "saved_drive (set_drive d s) = saved_drive s"
  "saved_drive (set_partition p s) = saved_drive s" "part_choice (set_err e s) = part_choice s"
  "part_choice (set_drive d s) = part_choice s" "part_choice (set_partition p s) = part_choice s"
  by (simp_all add: set_defs)

section \<open>Completions\<close>

text \<open>\<open>print_a_completion\<close> of \<open>stage0_fs.c\<close>: print the name, or keep what all names so far have in common.\<close>

fun common_prefix :: "u8 list \<Rightarrow> u8 list \<Rightarrow> u8 list" where
  "common_prefix (c # u) (d # v) = (if c = d then c # common_prefix u v else [])"
| "common_prefix u v = []"

definition print_a_completion :: "u8 list \<Rightarrow> 'm loader \<Rightarrow> 'm loader" where
  "print_a_completion name s =
     (if name = bs ''.'' \<or> name = bs ''..'' then s
      else
        let s = (if do_completion s
                 then s\<lparr>unique_string := (if unique s = 0 then name else common_prefix (unique_string s) name)\<rparr>
                 else s\<lparr>console := console s @ ch CHR '' '' # name\<rparr>)
        in s\<lparr>unique := unique s + 1\<rparr>)"

section \<open>The start\<close>

text \<open>The globals before the first command, over a given disk state.\<close>

definition start_loader :: "'m disk_state \<Rightarrow> 'm loader" where
  "start_loader d = \<lparr>dsk = d, saved_drive = 0, saved_partition = 0, saved_slice = 0, saved_fsys_type = - 1,
     fsys_type = - 1, boot_drive = 0x80, cdrom_drive = GRUB_INVALID_DRIVE, incomplete = False, disk_choice = False,
     part_choice = PART_UNSPECIFIED, bootdev = 0, boot_part_addr = 0, boot_table = (\<lambda>_. 0), filepos = 0,
     filemax = 0, fsmax = 0, block_file = False, fsys_buf = (\<lambda>_. 0), disk_read_hook = False,
     print_possibilities = 0, do_completion = False, num_fsys = 0, fsys_list = [], install_filesys = [],
     filetab_ptr = False, unique = 0, unique_string = [], console = [], drv = (\<lambda>_. 0)\<rparr>"

text \<open>An environment over the hard disk image, whose driver knows no file.\<close>

definition hd_loader_env :: "mem loader_env" where
  "hd_loader_env = \<lparr>ldisk = hd_env, fs_mount = (\<lambda>s. Some (False, s)), fs_dir = (\<lambda>n s. Some (False, s)),
     fs_read = (\<lambda>n m a s. Some (0, m, s)), fs_close = Some, boot_part_table = 0x5d000, bpb_hidden_secs = 63,
     bpb_n_sect = 1000, bpb_n_sect_ext = 0,
     scan_stack = \<lparr>part_offset = 0, entry = 0, ext_offset = 0, sect = \<lambda>_. 0\<rparr>,
     load_boot_fsys = Some, load_fsys = (\<lambda>n s. Some (False, s))\<rparr>"

lemma hd_loader_disk: "ldisk hd_loader_env = bios_env (image_bios hd_image)
    (\<lambda>num sector byte_offset byte_len dst a st. Some (False, dst, st)) 0x5c200 0x5c000"
  by (simp add: hd_loader_env_def hd_env_def)

end
