(* ===== verification/Device.thy ===== *)
theory Device
  imports Globals "HOL-Library.Sublist"
begin

text \<open>
  Device names: \<open>set_device\<close> of \<open>loader/setdev.c\<close> reads a name such as \<open>(hd0,1,a)\<close> in front of a file
  name, \<open>print_root_device\<close> of \<open>func.c\<close> prints one, and \<open>mkroot\<close> of \<open>root.c\<close> makes a device the root.
\<close>

section \<open>Reading a device name\<close>

text \<open>
  \<open>set_device\<close> returns NULL (\<open>None\<close>) or the text behind the device.  When the name breaks off behind the
  drive letter it adds a \<open>d\<close> to the caller's string, for the completion: the middle component of the
  result is what was added.
\<close>

definition drive_letter :: "u8 \<Rightarrow> 'm loader \<Rightarrow> bool" where
  "drive_letter c s \<longleftrightarrow> c = ch CHR ''f'' \<or> c = ch CHR ''h'' \<or>
     (c = ch CHR ''c'' \<and> cdrom_drive s \<noteq> GRUB_INVALID_DRIVE) \<or> c = ch CHR ''l''"

text \<open>Lines 91 to 150: the drive.  \<open>Inl\<close> is an early return.\<close>

definition device_drive :: "u8 list \<Rightarrow> 'm loader \<Rightarrow> (u8 list \<times> u8 list) + (u8 list \<times> 'm loader)" where
  "device_drive dev s =
     (let c = cur dev in
      if drive_letter c s \<and> cur (tl dev) = 0 then Inl ([], bs ''d'')
      else if drive_letter c s \<and> cur (tl dev) = ch CHR ''d'' \<and> cur (tl (tl dev)) = 0 then Inl (tl (tl dev), [])
      else
        let (dev, s) =
          (if drive_letter c s
           then (tl (tl dev), if cur (tl dev) \<noteq> ch CHR ''d'' then set_err ERR_NUMBER_PARSING s else s)
           else (dev, s))
        in if c = ch CHR ''c'' \<and> cdrom_drive s \<noteq> GRUB_INVALID_DRIVE
           then Inr (dev, set_drive (cdrom_drive s) s)
           else
             let (dev, s) =
                   (case safe_parse_maxint dev of
                      None \<Rightarrow> (dev, s)
                    | Some (v, dev') \<Rightarrow> (dev', set_drive (c_ulong v) s));
                 s = s\<lparr>disk_choice := False\<rparr>
             in Inr (dev,
                  if c = ch CHR ''h'' then set_drive (current_drive (dsk s) + 0x80) s
                  else if c = ch CHR ''l'' then set_drive (current_drive (dsk s) + 0xC0) s
                  else s))"

definition bsd_letter :: "u8 \<Rightarrow> bool" where
  "bsd_letter c \<longleftrightarrow> ch CHR ''a'' \<le> c \<and> c \<le> ch CHR ''h''"

definition dec_digit :: "u8 \<Rightarrow> bool" where
  "dec_digit c \<longleftrightarrow> ch CHR ''0'' \<le> c \<and> c \<le> ch CHR ''9''"

text \<open>Lines 167 to 195: the partition behind the comma.  \<open>Inl\<close> is the return with \<open>ERR_DEV_FORMAT\<close>.\<close>

definition device_partition :: "u8 list \<Rightarrow> 'm loader \<Rightarrow> 'm loader + (u8 list \<times> 'm loader)" where
  "device_partition dev s =
     (if dec_digit (cur dev)
      then
        let s = set_partition 0 (s\<lparr>part_choice := PART_CHOSEN\<rparr>);
            parsed = (if current_drive (dsk s) AND 0x80 = 0 then None else safe_parse_maxint dev);
            s = (case parsed of None \<Rightarrow> s | Some (v, _) \<Rightarrow> set_partition (c_ulong v) s)
        in case parsed of
             None \<Rightarrow> Inl (set_err ERR_DEV_FORMAT s)
           | Some (v, dev) \<Rightarrow>
               if current_partition (dsk s) > 254 then Inl (set_err ERR_DEV_FORMAT s)
               else
                 let s = set_partition (push_bit 16 (current_partition (dsk s)) + 0xFFFF) s;
                     dev = (if cur dev = ch CHR '','' then tl dev else dev)
                 in if bsd_letter (cur dev)
                    then Inr (tl dev,
                      set_partition (push_bit 8 (ucast (cur dev - ch CHR ''a'')) OR (current_partition (dsk s) AND 0xFF00FF)) s)
                    else Inr (dev, s)
      else if bsd_letter (cur dev)
      then Inr (tl dev,
        set_partition (push_bit 8 (ucast (cur dev - ch CHR ''a'')) OR 0xFF00FF) (s\<lparr>part_choice := PART_CHOSEN\<rparr>))
      else Inr (dev, s))"

text \<open>Lines 152 to 207.  The result is the NULL return, or the pointer and \<open>result\<close>.\<close>

definition device_tail :: "u8 list \<Rightarrow> 'm loader \<Rightarrow> 'm loader + (bool \<times> u8 list \<times> 'm loader)" where
  "device_tail dev s =
     (if err s \<noteq> ERR_NONE then Inl s
      else if cur dev = ch CHR '')'' then Inr (True, dev, s\<lparr>part_choice := PART_CHOSEN\<rparr>)
      else if cur dev = ch CHR '',''
      then case device_partition (tl dev) (s\<lparr>disk_choice := False, part_choice := PART_DISK\<rparr>) of
          Inl s \<Rightarrow> Inl s
        | Inr (dev, s) \<Rightarrow>
            if cur dev = ch CHR '')''
            then Inr (True, dev,
              if part_choice s = PART_DISK
              then set_partition (saved_partition s) (s\<lparr>part_choice := PART_CHOSEN\<rparr>) else s)
            else Inr (False, dev, s)
      else Inr (False, dev, s))"

text \<open>Lines 210 to 222.\<close>

definition device_result :: "bool \<times> u8 list \<times> 'm loader \<Rightarrow> u8 list option \<times> u8 list \<times> 'm loader" where
  "device_result r =
     (case r of (result, dev, s) \<Rightarrow>
        if \<not> sane_partition (cdrom_drive s) (current_drive (dsk s)) (current_partition (dsk s))
        then (None, [], set_err ERR_DEV_VALUES s)
        else if result then (Some (tl dev), [], s)
        else (None, [], set_err ERR_DEV_FORMAT (if cur dev = 0 then s\<lparr>incomplete := True\<rparr> else s)))"

definition set_device :: "u8 list \<Rightarrow> 'm loader \<Rightarrow> u8 list option \<times> u8 list \<times> 'm loader" where
  "set_device dev s =
     (let s = set_partition 0xFFFFFF (set_drive (saved_drive s)
                (s\<lparr>incomplete := False, disk_choice := True, part_choice := PART_UNSPECIFIED\<rparr>))
      in if cur dev = ch CHR ''('' \<and> cur (tl dev) = 0 then (Some (tl dev), [], s)
         else if cur dev = ch CHR ''(''
         then
           let dev = tl dev;
               drive = (if cur dev \<noteq> ch CHR '','' \<and> cur dev \<noteq> ch CHR '')''
                        then device_drive dev s else Inr (dev, s))
           in case drive of
                Inl (rest, added) \<Rightarrow> (Some rest, added, s)
              | Inr (dev, s) \<Rightarrow>
                  (case device_tail dev s of Inl s \<Rightarrow> (None, [], s) | Inr r \<Rightarrow> device_result r)
         else device_result (False, dev, s))"

section \<open>Printing the root device\<close>

definition print_fsys_type :: "'m loader \<Rightarrow> u8 list option" where
  "print_fsys_type s =
     (if do_completion s then Some []
      else do {
        a \<leftarrow> grub_printf (bs '' Filesystem type '') [];
        b \<leftarrow> (if fsys_type s = - 1 then grub_printf (bs ''is %s, '') [Str (install_filesys s)]
              else if fsys_type s \<noteq> num_fsys s
              then if 0 \<le> fsys_type s \<and> fsys_type s < int (length (fsys_list s))
                   then grub_printf (bs ''is %s, '') [Str (fsys_list s ! nat (fsys_type s))] else None
              else grub_printf (bs ''unknown, '') []);
        c \<leftarrow> (if current_partition (dsk s) = 0xFFFFFF then grub_printf (bs ''using whole disk'' @ [10]) []
              else grub_printf (bs ''partition type 0x%x'' @ [10]) [Num (c_ulong (current_slice (dsk s) AND 0xFF))]);
        Some (a @ b @ c)
      })"

text \<open>The device itself, lines 125 to 149.\<close>

definition root_device_text :: "'m loader \<Rightarrow> u8 list option" where
  "root_device_text s =
     (if saved_drive s = NETWORK_DRIVE then grub_printf (bs '' (nd):'') []
      else if saved_drive s = cdrom_drive s then grub_printf (bs '' (cd):'') []
      else if saved_drive s AND 0x80 \<noteq> 0
      then do {
        a \<leftarrow> grub_printf (bs '' (hd%d'') [Num (saved_drive s - 0x80)];
        b \<leftarrow> (if saved_partition s AND 0xFF0000 \<noteq> 0xFF0000
              then grub_printf (bs '',%d'') [Num (drop_bit 16 (saved_partition s))] else Some []);
        c \<leftarrow> (if saved_partition s AND 0xFF00 \<noteq> 0xFF00
              then grub_printf (bs '',%c'') [Num ((drop_bit 8 (saved_partition s) AND 0xFF) + 97)] else Some []);
        d \<leftarrow> grub_printf (bs ''):'') [];
        Some (a @ b @ c @ d)
      }
      else grub_printf (bs '' (fd%d):'') [Num (saved_drive s)])"

definition print_root_device :: "'m loader \<Rightarrow> (u8 list \<times> 'm loader) option" where
  "print_root_device s =
     do {
       a \<leftarrow> root_device_text s;
       let s = set_slice (saved_slice s) (set_drive (saved_drive s) (set_partition (saved_partition s)
                 (s\<lparr>fsys_type := saved_fsys_type s\<rparr>)));
       b \<leftarrow> print_fsys_type s;
       Some (a @ b, s)
     }"

section \<open>The root device\<close>

text \<open>\<open>skip_to\<close> of \<open>cmdline.c\<close>.\<close>

fun skip_word :: "bool \<Rightarrow> u8 list \<Rightarrow> u8 list" where
  "skip_word after_equal [] = []"
| "skip_word after_equal (c # s) =
     (if c \<noteq> 0 \<and> c \<noteq> 32 \<and> c \<noteq> 9 \<and> \<not> (after_equal \<and> c = ch CHR ''='') then skip_word after_equal s else c # s)"

fun skip_blank :: "bool \<Rightarrow> u8 list \<Rightarrow> u8 list" where
  "skip_blank after_equal [] = []"
| "skip_blank after_equal (c # s) =
     (if c = 32 \<or> c = 9 \<or> after_equal \<and> c = ch CHR ''='' then skip_blank after_equal s else c # s)"

definition skip_to :: "bool \<Rightarrow> u8 list \<Rightarrow> u8 list" where
  "skip_to after_equal s = skip_blank after_equal (skip_word after_equal s)"

definition MAKEBOOTDEV :: "u32 \<Rightarrow> u32 \<Rightarrow> u32 \<Rightarrow> u32 \<Rightarrow> u32 \<Rightarrow> u32" where
  "MAKEBOOTDEV type adaptor controller unit part =
     type OR push_bit 24 adaptor OR push_bit 20 controller OR push_bit 16 unit OR push_bit 8 part OR 0xa0000000"

text \<open>\<open>PC_SLICE_FLAG\<close> counts from the start of a boot sector.\<close>

definition PC_SLICE_FLAG :: "nat \<Rightarrow> nat" where
  "PC_SLICE_FLAG part = PC_SLICE_OFFSET + part * 16"

text \<open>Lines 119 to 144: the table of the booted partition, with its entry made active, for the next loader.\<close>

definition copy_boot_table :: "'m loader_env \<Rightarrow> 'm loader \<Rightarrow> (bool \<times> 'm loader) option" where
  "copy_boot_table env s =
     (if saved_drive s AND 0x80 \<noteq> 0 \<and> cur_part_addr (dsk s) \<noteq> 0
      then do {
        (ok, b, d) \<leftarrow> rawread (ldisk env) (c_int (saved_drive s)) (c_int (cur_part_offset (dsk s))) 0 SECTOR_SIZE
                        (scratch (dsk s)) 0 (dsk s);
        let s = s\<lparr>dsk := d\<lparr>scratch := b\<rparr>\<rparr>;
        if ok
        then
          let t = write_at 0 (read_at 0x1BE 0x40 b) (boot_table s);
              t = t(PC_SLICE_FLAG 0 := 0, PC_SLICE_FLAG 1 := 0, PC_SLICE_FLAG 2 := 0, PC_SLICE_FLAG 3 := 0);
              t = t(unat (cur_part_addr (dsk s) - boot_part_table env) := 0x80)
          in Some (True, s\<lparr>boot_table := t, boot_part_addr := cur_part_addr (dsk s)\<rparr>)
        else Some (False, s)
      }
      else Some (True, s))"

definition set_bootdev :: "'m loader_env \<Rightarrow> int \<Rightarrow> 'm loader \<Rightarrow> (u32 \<times> 'm loader) option" where
  "set_bootdev env hdbias s =
     do {
       (ok, s) \<leftarrow> copy_boot_table env s;
       if \<not> ok then Some (0, s)
       else
         let i = (if saved_partition s = 0xFFFFFF then 1
                  else if drop_bit 16 (saved_partition s) = 0xFF then 0
                  else drop_bit 16 (saved_partition s) + 2);
             j = (if saved_drive s AND 0x80 \<noteq> 0 then c_ulong (bsd_evil_hack (dsk s)) else 2)
         in Some (MAKEBOOTDEV j (signed_drop_bit 4 i) (i AND 0xF) ((saved_drive s - c_ulong hdbias) AND 0x7F)
                    (drop_bit 8 (saved_partition s) AND 0xFF), s)
     }"

text \<open>
  \<open>real_mkroot\<close> with \<open>open_device2\<close> and \<open>open_partition\<close> as arguments.  The result is its return value and
  what it prints.
\<close>

definition real_mkroot ::
  "'m loader_env \<Rightarrow> ('m loader \<Rightarrow> (bool \<times> 'm loader) option) \<Rightarrow> ('m loader \<Rightarrow> (bool \<times> 'm loader) option)
   \<Rightarrow> u8 list \<Rightarrow> bool \<Rightarrow> 'm loader \<Rightarrow> (int \<times> u8 list \<times> 'm loader) option" where
  "real_mkroot env open_dev open_part arg attempt_mount s =
     (let s = set_err ERR_NONE s in
      if cur arg = 0
      then do { (out, s) \<leftarrow> print_root_device s; Some (0, out, s) }
      else case set_device arg s of
          (None, _, s) \<Rightarrow> Some (1, [], s)
        | (Some next, _, s) \<Rightarrow>
            do {
              (ok, s) \<leftarrow>
                (if attempt_mount then open_dev s
                 else do {
                   (ok, s) \<leftarrow> open_part s;
                   if ok then do { (_, s) \<leftarrow> set_bootdev env 0 s; Some (err s = ERR_NONE, s) }
                   else Some (True, s)
                 });
              if \<not> ok then Some (1, [], s)
              else
                let s = set_err ERR_NONE s;
                    s = s\<lparr>saved_partition := current_partition (dsk s), saved_drive := current_drive (dsk s),
                          saved_slice := current_slice (dsk s)\<rparr>;
                    s = (if current_drive (dsk s) = boot_drive s then s\<lparr>fsys_type := - 1\<rparr> else s);
                    s = s\<lparr>saved_fsys_type := fsys_type s\<rparr>
                in if \<not> attempt_mount then Some (0, [], s)
                   else
                     let hdbias = (case safe_parse_maxint (skip_to False next) of None \<Rightarrow> 0 | Some (v, _) \<Rightarrow> v) in
                     do {
                       (bd, s) \<leftarrow> set_bootdev env hdbias s;
                       let s = s\<lparr>bootdev := bd\<rparr>;
                       if err s \<noteq> ERR_NONE then Some (1, [], s)
                       else do { out \<leftarrow> print_fsys_type s; Some (0, out, s) }
                     }
            })"

definition mkroot ::
  "'m loader_env \<Rightarrow> ('m loader \<Rightarrow> (bool \<times> 'm loader) option) \<Rightarrow> ('m loader \<Rightarrow> (bool \<times> 'm loader) option)
   \<Rightarrow> u8 list \<Rightarrow> 'm loader \<Rightarrow> (int \<times> u8 list \<times> 'm loader) option" where
  "mkroot env open_dev open_part arg s = real_mkroot env open_dev open_part arg True s"



section \<open>The printed name is read back\<close>

lemma set_twice [simp, setters]:
  "set_drive d (set_drive d' s) = set_drive d s" "set_partition p (set_partition p' s) = set_partition p s"
  "set_err e (set_err e' s) = set_err e s"
  by (simp_all add: set_defs)

lemma hd_decimal:
  assumes "uint n \<le> MAXINT"
  shows "\<exists>d ds. convert_to_ascii (ch CHR ''d'') n = d # ds \<and> dec_digit d \<and> d \<noteq> 0"
proof -
  obtain d ds where ds: "num_digits 10 (unat n) = d # ds" by (cases "num_digits 10 (unat n)") auto
  then have "d < 10" using num_digits_less [of 10 d "unat n"] by simp
  then have "d \<in> {0,1,2,3,4,5,6,7,8,9}" by auto
  then have "dec_digit (digit_char d) \<and> digit_char d \<noteq> 0"
    by (elim insertE) (simp_all add: digit_char_def dec_digit_def)
  then show ?thesis
    using assms ds by (simp add: convert_to_ascii_eq)
qed

lemma parse_decimal:
  assumes "uint n \<le> MAXINT" "c \<in> {ch CHR '','', ch CHR '')''}"
  shows "safe_parse_maxint (convert_to_ascii (ch CHR ''d'') n @ c # rest) = Some (uint n, c # rest)"
  using assms(2) by (intro print_parse_decimal [OF assms(1)]) (auto simp: digit_of_def grub_tolower_def)

lemma device_drive_reads:
  assumes "uint n \<le> MAXINT" "c \<in> {ch CHR '','', ch CHR '')''}" "x \<in> {ch CHR ''f'', ch CHR ''h''}"
  shows "device_drive (x # ch CHR ''d'' # convert_to_ascii (ch CHR ''d'') n @ c # rest) s =
    Inr (c # rest, set_drive (if x = ch CHR ''h'' then n + 0x80 else n) (s\<lparr>disk_choice := False\<rparr>))"
proof -
  obtain d ds where d: "convert_to_ascii (ch CHR ''d'') n = d # ds" "d \<noteq> 0"
    using hd_decimal [OF assms(1)] by blast
  have "c_ulong (uint n) = n" by (simp add: c_ulong_def)
  then show ?thesis
    using d parse_decimal [OF assms(1,2), of rest] assms(3)
    by (auto simp: device_drive_def drive_letter_def Let_def set_drive_def)
qed


lemma bits_mask: "0xFF = (mask 8 :: u32)" "0xFFFF = (mask 16 :: u32)" "0xFF00 = (push_bit 8 (mask 8) :: u32)"
  "0xFF0000 = (push_bit 16 (mask 8) :: u32)" "0xFF000000 = (push_bit 24 (mask 8) :: u32)" 
  "0xFF00FF = (push_bit 16 (mask 8) OR mask 8 :: u32)" 
  by (simp_all add: mask_eq_exp_minus_1)

definition part_code :: "u32 \<Rightarrow> u32 \<Rightarrow> u32" where
  "part_code a b = push_bit 16 a OR push_bit 8 b OR 0xFF"

lemma byte_bits: "(w :: u32) \<le> 0xFF \<Longrightarrow> bit w n \<Longrightarrow> n < 8"
proof -
  assume "w \<le> 0xFF" "bit w n"
  then have "take_bit 8 (uint w) = uint w" by (simp add: word_le_def take_bit_int_eq_self)
  then have "uint (take_bit 8 w) = uint w" by (simp add: unsigned_take_bit_eq)
  then have "take_bit 8 w = w" by simp
  with \<open>bit w n\<close> show ?thesis by (metis bit_take_bit_iff)
qed

lemma part_code_fields:
  assumes "a \<le> 0xFF" "b \<le> 0xFF"
  shows "drop_bit 16 (part_code a b) = a" "drop_bit 8 (part_code a b) AND 0xFF = b"
    and "part_code a b AND 0xFF0000 = push_bit 16 a" "part_code a b AND 0xFF00 = push_bit 8 b"
    and "part_code a b AND 0xFF00FF = part_code a 0" "part_code a 0xFF = push_bit 16 a + 0xFFFF"
    and "push_bit 8 b OR part_code a 0 = part_code a b"
proof -
  have ab: "\<not> bit a (8 + n)" "\<not> bit b (8 + n)" for n
    using byte_bits [OF assms(1)] byte_bits [OF assms(2)] by force+
  note * = bits_mask part_code_def
  have a8: "bit a n \<Longrightarrow> n < 8" "bit b n \<Longrightarrow> n < 8" for n
    using byte_bits assms by auto
  show "drop_bit 16 (part_code a b) = a" 
    unfolding * by (rule bit_word_eqI) (auto simp: bit_simps dest: a8)
  show "drop_bit 8 (part_code a b) AND 0xFF = b"
    unfolding * by (rule bit_word_eqI) (auto simp: bit_simps dest: a8)
  show "part_code a b AND 0xFF0000 = push_bit 16 a"
    unfolding * by (rule bit_word_eqI) (auto simp: bit_simps dest: a8)
  show "part_code a b AND 0xFF00 = push_bit 8 b"
    unfolding * by (rule bit_word_eqI) (auto simp: bit_simps dest: a8)
  show "part_code a b AND 0xFF00FF = part_code a 0"
    unfolding * by (rule bit_word_eqI) (auto simp: bit_simps dest: a8)
  show "push_bit 8 b OR part_code a 0 = part_code a b"
    unfolding * by (rule bit_word_eqI) (auto simp: bit_simps dest: a8)
  have "push_bit 16 a AND mask 16 = (0::u32)"
    by (rule bit_word_eqI) (auto simp: bit_simps)
  then have "push_bit 16 a + mask 16 = push_bit 16 a OR (mask 16 :: u32)"
    by (rule disjunctive_add_eq_or)
  moreover have "push_bit 16 a OR (mask 16 :: u32) = part_code a (mask 8)"
    unfolding * by (rule bit_word_eqI) (auto simp: bit_simps)
  ultimately show "part_code a 0xFF = push_bit 16 a + 0xFFFF"
    by (simp add: bits_mask(1,2))
qed

lemma push_byte:
  assumes "(a :: u32) \<le> 0xFF" "k \<le> 24"
  shows "drop_bit k (push_bit k a) = a"
proof (rule bit_word_eqI)
  fix n show "bit (drop_bit k (push_bit k a)) n = bit a n"
    using byte_bits [OF assms(1), of n] assms(2) by (auto simp: bit_simps)
qed

lemma part_code_complete:
  assumes "p AND 0xFF000000 = 0" "p AND 0xFF = 0xFF"
  shows "p = part_code (drop_bit 16 p) (drop_bit 8 p AND 0xFF)" "drop_bit 16 p \<le> 0xFF" "drop_bit 8 p AND 0xFF \<le> 0xFF"
proof -
  have h: "bit p n \<Longrightarrow> n < 24" for n
  proof (rule ccontr)
    assume b: "bit p n" "\<not> n < 24"
    then have "n < 32" using bit_imp_le_length [of p n] by simp
    with b have "bit (p AND 0xFF000000) n" unfolding bits_mask by (auto simp: bit_simps)
    with assms(1) show False by simp
  qed
  have l: "n < 8 \<Longrightarrow> bit p n" for n
  proof -
    assume "n < 8"
    then have "bit (p AND 0xFF) n" unfolding assms(2) unfolding bits_mask by (simp add: bit_simps)
    then show ?thesis by (simp add: bit_simps)
  qed
  show "p = part_code (drop_bit 16 p) (drop_bit 8 p AND 0xFF)"
    unfolding part_code_def bits_mask
    by (rule bit_word_eqI, case_tac "n < 16") (auto simp: bit_simps l dest: h)
  have "drop_bit 16 p = drop_bit 16 p AND mask 8"
    by (rule bit_word_eqI) (auto simp: bit_simps dest: h)
  then show "drop_bit 16 p \<le> 0xFF"
    unfolding bits_mask by (metis word_and_le1)
  show "drop_bit 8 p AND 0xFF \<le> 0xFF" by (rule word_and_le1)
qed

lemma bsd_cases: "(b :: u32) AND 0xFF00 < 0x800 \<Longrightarrow> drop_bit 8 b AND 0xFF \<in> {0,1,2,3,4,5,6,7}"
proof -
  assume a: "b AND 0xFF00 < 0x800"
  have "drop_bit 8 b AND 0xFF = drop_bit 8 (b AND 0xFF00)"
    unfolding bits_mask by (rule bit_word_eqI) (auto simp: bit_simps)
  moreover have "unat (drop_bit 8 (b AND 0xFF00)) < 8"
    using a by (simp add: unat_drop_bit_eq drop_bit_eq_div word_less_nat_alt unat_div)
  ultimately have u: "unat (drop_bit 8 b AND 0xFF) \<in> {0,1,2,3,4,5,6,7}" by auto
  have "drop_bit 8 b AND 0xFF = word_of_nat (unat (drop_bit 8 b AND 0xFF))" by simp
  then show ?thesis using u by (elim insertE) auto
qed

definition part_text :: "u32 \<Rightarrow> u8 list" where
  "part_text p = (if p AND 0xFF0000 \<noteq> 0xFF0000 then ch CHR '','' # convert_to_ascii (ch CHR ''d'') (drop_bit 16 p) else []) @
     (if p AND 0xFF00 \<noteq> 0xFF00 then [ch CHR '','', ucast ((drop_bit 8 p AND 0xFF) + 97)] else [])"


lemma char_letter:
  assumes "b \<in> {0,1,2,3,4,5,6,7 :: u32}"
  shows "bsd_letter (ucast (b + 97))" "\<not> dec_digit (ucast (b + 97))" "ucast ((ucast (b + 97) :: u8) - ch CHR ''a'') = b"
    "(ucast (b + 97) :: u8) \<noteq> 0" "(ucast ((b + 97) AND 0xff) :: u8) = ucast (b + 97)"
  using assms by (auto simp: bsd_letter_def dec_digit_def)

lemma part_code_ff: "0xFFFFFF = part_code 0xFF 0xFF" "0xFF00FF = part_code 0xFF 0"
  by (simp_all add: part_code_def)

lemma device_partition_number:
  assumes "dec_digit (cur t)" "safe_parse_maxint t = Some (uint a, t')" "\<not> a > 254"
    and "current_drive (dsk s) AND 0x80 \<noteq> 0"
  shows "device_partition t s =
    (let dev = (if cur t' = ch CHR '','' then tl t' else t') in
     if bsd_letter (cur dev)
     then Inr (tl dev, set_partition (push_bit 8 (ucast (cur dev - ch CHR ''a'')) OR ((push_bit 16 a + 0xFFFF) AND 0xFF00FF))
                         (s\<lparr>part_choice := PART_CHOSEN\<rparr>))
     else Inr (dev, set_partition (push_bit 16 a + 0xFFFF) (s\<lparr>part_choice := PART_CHOSEN\<rparr>)))"
proof -
  have "c_ulong (uint a) = a" by (simp add: c_ulong_def)
  with assms show ?thesis
    by (simp add: device_partition_def Let_def set_partition_def)
qed

lemma device_partition_reads:
  assumes p: "a \<le> 0xFF" "b \<in> {0,1,2,3,4,5,6,7} \<or> b = 0xFF" "\<not> (a = 0xFF \<and> b = 0xFF)"
    and "current_drive (dsk s) AND 0x80 \<noteq> 0"
  shows "device_partition (tl (part_text (part_code a b)) @ ch CHR '')'' # rest) s =
    Inr (ch CHR '')'' # rest, set_partition (part_code a b) (s\<lparr>part_choice := PART_CHOSEN\<rparr>))"
proof -
  have b: "b \<le> 0xFF" using p(2) by auto
  note f = part_code_fields [OF p(1) b]
  have neq: "push_bit 16 a = 0xFF0000 \<longleftrightarrow> a = 0xFF" "push_bit 8 b = 0xFF00 \<longleftrightarrow> b = 0xFF"
    using push_byte [OF p(1), of 16] push_byte [OF b, of 8] by auto
  show ?thesis
  proof (cases "a = 0xFF")
    case True
    then show ?thesis using p char_letter [of b] f
      by (auto simp: part_text_def neq device_partition_def part_code_ff)
  next
    case False
    have "uint a \<le> MAXINT" using p(1) by (simp add: word_le_def)
    obtain d ds where d: "convert_to_ascii (ch CHR ''d'') a = d # ds" "dec_digit d"
      using hd_decimal [OF \<open>uint a \<le> MAXINT\<close>] by blast
    have "\<not> a > 254" using p(1) False by (auto simp: word_less_nat_alt word_le_nat_alt word_unat_eq_iff)
    have pt: "tl (part_text (part_code a b)) @ r = convert_to_ascii (ch CHR ''d'') a @
        (if b = 0xFF then [] else [ch CHR '','', ucast (b + 97)]) @ r" for r
      using False by (simp add: part_text_def f neq)
    have cur: "dec_digit (cur (tl (part_text (part_code a b)) @ r))" for r
      unfolding pt using d by simp
    have parse: "safe_parse_maxint (tl (part_text (part_code a b)) @ ch CHR '')'' # rest) =
        Some (uint a, (if b = 0xFF then [] else [ch CHR '','', ucast (b + 97)]) @ ch CHR '')'' # rest)"
      unfolding pt using parse_decimal [OF \<open>uint a \<le> MAXINT\<close>] by (cases "b = 0xFF") simp_all
    have z: "(push_bit 16 a + 0xFFFF) AND 0xFF00FF = part_code a 0"
      using part_code_fields(5) [where a = a and b = "0xFF"] p(1) f(6) by simp
    show ?thesis
      unfolding device_partition_number [OF cur parse \<open>\<not> a > 254\<close> assms(4)] Let_def z
      unfolding f(6) [symmetric]
      using p(2) char_letter [of b] f(7) by (cases "b = 0xFF") (simp_all add: bsd_letter_def)
  qed
qed


lemma device_tail_comma:
  assumes "device_partition t (s\<lparr>disk_choice := False, part_choice := PART_DISK\<rparr>) = Inr (ch CHR '')'' # r, s')"
    and "part_choice s' \<noteq> PART_DISK" "err s = ERR_NONE"
  shows "device_tail (ch CHR '','' # t) s = Inr (True, ch CHR '')'' # r, s')"
  using assms by (simp add: device_tail_def)

lemma device_tail_reads:
  assumes "p AND 0xFF000000 = 0" "p AND 0xFF = 0xFF" "p AND 0xFF00 = 0xFF00 \<or> p AND 0xFF00 < 0x800"
    and s: "current_drive (dsk s) AND 0x80 \<noteq> 0" "current_partition (dsk s) = 0xFFFFFF" "err s = ERR_NONE"
  shows "\<exists>s'. device_tail (part_text p @ ch CHR '')'' # rest) s = Inr (True, ch CHR '')'' # rest, s') \<and>
    err s' = ERR_NONE \<and> current_drive (dsk s') = current_drive (dsk s) \<and>
    current_partition (dsk s') = p \<and> cdrom_drive s' = cdrom_drive s"
proof -
  obtain a b where p: "p = part_code a b" and ab: "a \<le> 0xFF" "b \<le> 0xFF"
    using part_code_complete [OF assms(1,2)] by blast
  note f = part_code_fields [OF ab]
  have neq: "push_bit 16 a = 0xFF0000 \<longleftrightarrow> a = 0xFF" "push_bit 8 b = 0xFF00 \<longleftrightarrow> b = 0xFF"
    using push_byte [OF ab(1), of 16] push_byte [OF ab(2), of 8] by auto
  have b: "b \<in> {0,1,2,3,4,5,6,7} \<or> b = 0xFF"
    using bsd_cases [of p] assms(3) f(2,4) neq(2) unfolding p by auto
  show ?thesis
  proof (cases "a = 0xFF \<and> b = 0xFF")
    case True
    then have "p = 0xFFFFFF" using p by (simp add: part_code_ff)
    then show ?thesis using s by (simp add: device_tail_def part_text_def)
  next
    case False
    then have "part_text p = ch CHR '','' # tl (part_text p)"
      unfolding part_text_def p f(3,4) neq by auto
    then have e: "part_text p @ r = ch CHR '','' # tl (part_text p) @ r" for r by (metis append_Cons)
    have "device_partition (tl (part_text p) @ ch CHR '')'' # rest) (s\<lparr>disk_choice := False, part_choice := PART_DISK\<rparr>) =
        Inr (ch CHR '')'' # rest, set_partition p (s\<lparr>disk_choice := False, part_choice := PART_CHOSEN\<rparr>))"
      using device_partition_reads [OF ab(1) b False, of "s\<lparr>disk_choice := False, part_choice := PART_DISK\<rparr>" rest] s(1) p
      by simp
    then have "device_tail (part_text p @ ch CHR '')'' # rest) s =
      Inr (True, ch CHR '')'' # rest, set_partition p (s\<lparr>disk_choice := False, part_choice := PART_CHOSEN\<rparr>))"
      unfolding e by (rule device_tail_comma) (use s(3) in simp_all)
    then show ?thesis using s by simp
  qed
qed

lemma high_bit_drive:
  assumes "(d :: u32) AND 0x80 \<noteq> 0" "d < 0x100"
  shows "uint (d - 0x80) \<le> MAXINT"
proof -
  have "bit d 7" using assms(1) by (auto simp: bit_simps and_exp_eq_0_iff_not_bit [of d 7, simplified])
  then have "d AND 0x80 = 0x80" by (intro bit_word_eqI) (auto simp: bit_simps bit_exp_iff [of 7, simplified])
  then have "0x80 \<le> d" by (metis word_and_le1 and.commute)
  then have "uint (d - 0x80) = uint d - 0x80" by (simp add: uint_minus_simple_alt)
  then show ?thesis using assms(2) by (simp add: word_less_def)
qed

lemma root_text_hd:
  assumes "saved_drive s \<noteq> NETWORK_DRIVE" "saved_drive s \<noteq> cdrom_drive s" "saved_drive s AND 0x80 \<noteq> 0"
    and "saved_partition s AND 0xFF00 = 0xFF00 \<or> saved_partition s AND 0xFF00 < 0x800"
  shows "root_device_text s = Some (bs '' (hd'' @ convert_to_ascii (ch CHR ''d'') (saved_drive s - 0x80) @
    part_text (saved_partition s) @ bs ''):'')"
proof -
  have c: "saved_partition s AND 0xFF00 \<noteq> 0xFF00 \<Longrightarrow>
    (ucast (((drop_bit 8 (saved_partition s) AND 0xFF) + 97) AND 0xff) :: u8) = ucast ((drop_bit 8 (saved_partition s) AND 0xFF) + 97)"
    using bsd_cases [of "saved_partition s"] assms(4) char_letter(5) by blast
  show ?thesis
    using assms(1-3) c
    by (cases "saved_partition s AND 0xFF00 = 0xFF00"; cases "saved_partition s AND 0xFF0000 = 0xFF0000")
      (simp_all add: root_device_text_def part_text_def)
qed



section \<open>An accepted device is sane\<close>

lemma safe_parse_suffix: "safe_parse_maxint s = Some (v, t) \<Longrightarrow> suffix t s"
  by (auto simp: safe_parse_maxint_spec number_base_def Let_def split: if_splits
      intro: suffix_drop suffix_order.trans [OF suffix_drop] suffix_order.trans [OF suffix_tl] suffix_tl)

lemmas suffix_tls = suffix_tl suffix_order.trans [OF suffix_tl] suffix_order.refl

lemma device_drive_suffix: "device_drive dev s = Inr (d, s') \<Longrightarrow> suffix d dev \<and> cdrom_drive s' = cdrom_drive s"
  by (auto simp: device_drive_def Let_def split: if_splits option.splits
      dest!: safe_parse_suffix intro: suffix_tls suffix_order.trans [OF _ suffix_tl] suffix_order.trans [OF suffix_order.trans [OF _ suffix_tl] suffix_tl])

lemma device_partition_suffix: "device_partition dev s = Inr (d, s') \<Longrightarrow> suffix d dev"
  by (auto simp: device_partition_def Let_def split: if_splits option.splits
      dest!: safe_parse_suffix intro: suffix_tls suffix_order.trans [OF suffix_tl suffix_order.trans [OF suffix_tl]])

lemma device_tail_suffix:
  "device_tail dev s = Inr (r, d, s') \<Longrightarrow> suffix d dev \<and> (r \<longrightarrow> cur d = ch CHR '')'')"
  by (auto simp: device_tail_def split: if_splits sum.splits prod.splits
      dest!: device_partition_suffix intro: suffix_order.trans [OF _ suffix_tl])

lemma device_result_Some:
  "device_result (r, d, s) = (Some rest, added, s') \<Longrightarrow>
   r \<and> rest = tl d \<and> added = [] \<and> s' = s \<and> sane_partition (cdrom_drive s) (current_drive (dsk s)) (current_partition (dsk s))"
  by (auto simp: device_result_def split: if_splits)


section \<open>Properties\<close>

text \<open>C11: the name that \<open>print_root_device\<close> prints for the saved device is read back by \<open>set_device\<close>: it
  selects the same drive and, on a hard disk, the same partition, and stops at the colon behind the
  name.  (Of a floppy or a CD only the drive is printed, so the whole disk is selected.)\<close>

theorem device_name_roundtrip:
  assumes "sane_partition (cdrom_drive s) (saved_drive s) (saved_partition s)"
    and "saved_drive s < 0xFF" "saved_drive s \<noteq> NETWORK_DRIVE"
    and "cdrom_drive s0 = cdrom_drive s" "err s0 = ERR_NONE"
  shows "\<exists>t s1. root_device_text s = Some (ch CHR '' '' # t) \<and> set_device t s0 = (Some (bs '':''), [], s1) \<and>
    err s1 = ERR_NONE \<and> current_drive (dsk s1) = saved_drive s \<and>
    current_partition (dsk s1) =
      (if saved_drive s AND 0x80 \<noteq> 0 \<and> saved_drive s \<noteq> cdrom_drive s then saved_partition s else 0xFFFFFF)"
proof -
  let ?s = "set_partition 0xFFFFFF (set_drive (saved_drive s0)
                (s0\<lparr>incomplete := False, disk_choice := True, part_choice := PART_UNSPECIFIED\<rparr>))"
  consider "saved_drive s = cdrom_drive s" | "saved_drive s \<noteq> cdrom_drive s" "saved_drive s AND 0x80 \<noteq> 0"
    | "saved_drive s \<noteq> cdrom_drive s" "saved_drive s AND 0x80 = 0" by blast
  then show ?thesis
  proof cases
    case 1
    then have "set_device (bs ''(cd):'') s0 = device_result (True, bs ''):'', (set_drive (saved_drive s) ?s)\<lparr>part_choice := PART_CHOSEN\<rparr>)"
      using assms by (auto simp: set_device_def device_drive_def drive_letter_def device_tail_def Let_def)
    then show ?thesis
      using 1 assms by (auto simp: root_device_text_def device_result_def sane_partition_def)
  next
    case 2
    let ?n = "saved_drive s - 0x80" and ?p = "saved_partition s"
    have n: "uint ?n \<le> MAXINT"
      using 2 assms(2) by (intro high_bit_drive) (auto simp: word_less_nat_alt)
    have p: "?p AND 0xFF000000 = 0" "?p AND 0xFF = 0xFF" "?p AND 0xFF00 = 0xFF00 \<or> ?p AND 0xFF00 < 0x800"
      using assms(1,3) by (auto simp: sane_partition_def)
    let ?s1 = "set_drive (saved_drive s) (?s\<lparr>disk_choice := False\<rparr>)"
    obtain s' where s': "device_tail (part_text ?p @ ch CHR '')'' # bs '':'') ?s1 = Inr (True, ch CHR '')'' # bs '':'', s')"
      "err s' = ERR_NONE" "current_drive (dsk s') = saved_drive s" "current_partition (dsk s') = ?p"
      "cdrom_drive s' = cdrom_drive s0"
      using device_tail_reads [OF p, of ?s1 "bs '':''"] 2 assms(5) by auto
    obtain c r where c: "part_text ?p @ ch CHR '')'' # bs '':'' = c # r" "c \<in> {ch CHR '','', ch CHR '')''}"
      by (cases "part_text ?p @ ch CHR '')'' # bs '':''") (auto simp: part_text_def split: if_splits)
    have "device_drive (bs ''hd'' @ convert_to_ascii (ch CHR ''d'') ?n @ part_text ?p @ ch CHR '')'' # bs '':'') ?s =
      Inr (part_text ?p @ ch CHR '')'' # bs '':'', ?s1)"
      unfolding c(1) using device_drive_reads [OF n c(2), of "ch CHR ''h''" r ?s] by simp
    then have "set_device (bs ''(hd'' @ convert_to_ascii (ch CHR ''d'') ?n @ part_text ?p @ bs ''):'') s0 =
      device_result (True, ch CHR '')'' # bs '':'', s')"
      using s'(1) by (simp add: set_device_def)
    then show ?thesis
      using 2 s' assms root_text_hd [OF assms(3) 2 p(3)] by (auto simp: device_result_def)
  next
    case 3
    let ?n = "saved_drive s"
    have "?n AND 0xC0 \<noteq> 0xC0"
    proof
      assume "?n AND 0xC0 = 0xC0"
      moreover have "?n AND 0x80 = (?n AND 0xC0) AND 0x80" by (simp add: and.assoc)
      ultimately show False using 3 by simp
    qed
    then have "?n AND 0xFFFFFF7F < 8"
      using 3 assms(1,3) by (simp add: sane_partition_def)
    have n: "uint ?n \<le> MAXINT"
      using assms(2) by (simp add: word_less_def)
    let ?s1 = "set_drive ?n (?s\<lparr>disk_choice := False\<rparr>)"
    have "device_drive (bs ''fd'' @ convert_to_ascii (ch CHR ''d'') ?n @ bs ''):'') ?s = Inr (bs ''):'', ?s1)"
      using device_drive_reads [OF n, of "ch CHR '')''" "ch CHR ''f''" "bs '':''" ?s] by simp
    then have "set_device (bs ''(fd'' @ convert_to_ascii (ch CHR ''d'') ?n @ bs ''):'') s0 =
      device_result (True, bs ''):'', ?s1\<lparr>part_choice := PART_CHOSEN\<rparr>)"
      using assms(5) by (simp add: set_device_def device_tail_def)
    then show ?thesis
      using 3 assms \<open>?n AND 0xFFFFFF7F < 8\<close> by (auto simp: device_result_def root_device_text_def sane_partition_def)
  qed
qed

theorem device_name_roundtrip_witness:
  "let s = start_loader hd_state\<lparr>saved_drive := 0x81, saved_partition := 0x200FF\<rparr> in
   \<exists>t s1. root_device_text s = Some (ch CHR '' '' # t) \<and>
    set_device t (start_loader hd_state) = (Some (bs '':''), [], s1) \<and>
    err s1 = ERR_NONE \<and> current_drive (dsk s1) = 0x81 \<and> current_partition (dsk s1) = 0x200FF"
  using device_name_roundtrip [of "start_loader hd_state\<lparr>saved_drive := 0x81, saved_partition := 0x200FF\<rparr>"
      "start_loader hd_state"]
  by (simp add: start_loader_def hd_state_def sane_partition_def Let_def)

text \<open>C13: whatever text \<open>set_device\<close> accepts, unless it breaks off right behind the drive letters (for
  the completion), has the rest right behind a closing parenthesis, and the drive and partition it
  selects pass \<open>sane_partition\<close>.\<close>

theorem set_device_sane:
  assumes "set_device dev s = (Some rest, added, s')" "cstr dev"
  shows "dev = [ch CHR ''(''] \<or>
    (\<exists>x. drive_letter x s \<and> (dev = [ch CHR ''('', x] \<or> dev = [ch CHR ''('', x, ch CHR ''d''])) \<or>
    added = [] \<and> (\<exists>p. dev = p @ ch CHR '')'' # rest) \<and>
    sane_partition (cdrom_drive s') (current_drive (dsk s')) (current_partition (dsk s'))"
proof -
  have one: "cstr d \<Longrightarrow> cur d = 0 \<Longrightarrow> d = []" for d by (cases d) auto
  have c: "cur d = x \<Longrightarrow> x \<noteq> 0 \<Longrightarrow> d = x # tl d" for d x by (cases d) auto
  let ?s = "set_partition 0xFFFFFF (set_drive (saved_drive s)
                (s\<lparr>incomplete := False, disk_choice := True, part_choice := PART_UNSPECIFIED\<rparr>))"
  have dl: "drive_letter x ?s = drive_letter x s" for x by (simp add: drive_letter_def)
  show ?thesis
  proof (cases "cur dev = ch CHR ''(''")
    case False
    then have "device_result (False, dev, ?s) = (Some rest, added, s')"
      using assms(1) by (simp add: set_device_def)
    then show ?thesis by (auto dest: device_result_Some)
  next
    case True
    then obtain d where d: "dev = ch CHR ''('' # d" using c by fastforce
    have cd: "cstr d" using assms(2) d by simp
    consider "d = []" | r a where "d \<noteq> []" "device_drive d ?s = Inl (r, a)" |
      d' s1 r where "suffix d' d" "device_tail d' s1 = Inr r" "device_result r = (Some rest, added, s')"
    proof (cases "d = []")
      case False
      have nz: "cur d \<noteq> 0" using one [OF cd] False by blast
      let ?D = "if cur d \<noteq> ch CHR '','' \<and> cur d \<noteq> ch CHR '')'' then device_drive d ?s else Inr (d, ?s)"
      have eq: "(case ?D of Inl (r, a) \<Rightarrow> (Some r, a, ?s)
          | Inr (d', s1) \<Rightarrow> (case device_tail d' s1 of Inl s \<Rightarrow> (None, [], s) | Inr r \<Rightarrow> device_result r)) = (Some rest, added, s')"
        using assms(1) d nz by (simp add: set_device_def Let_def split del: if_split cong: if_cong)
      show ?thesis
      proof (cases ?D)
        case (Inl x)
        then show ?thesis using that(2) False by (cases x) (auto split: if_splits)
      next
        case (Inr x)
        obtain d' s1 where x: "x = (d', s1)" by fastforce
        have "suffix d' d" using Inr x by (auto split: if_splits dest: device_drive_suffix)
        then show ?thesis using eq Inr x that(3) [of d' s1] by (auto split: sum.splits)
      qed
    qed (use that(1) in blast)
    then show ?thesis
    proof cases
      case 1
      then show ?thesis using d by simp
    next
      case 2
      then obtain x xs where x: "d = x # xs" by (cases d) auto
      have "drive_letter x s \<and> (cur xs = 0 \<or> cur xs = ch CHR ''d'' \<and> cur (tl xs) = 0)"
        using 2(2) dl x by (auto simp: device_drive_def Let_def split: if_splits option.splits)
      moreover have "cstr xs" "cstr (tl xs)" using cd x by (cases xs; simp)+
      ultimately have "drive_letter x s \<and> (xs = [] \<or> xs = [ch CHR ''d''])"
        using one [of xs] one [of "tl xs"] c [of xs "ch CHR ''d''"] by auto
      then show ?thesis using d x by auto
    next
      case 3
      obtain res e s2 where r: "r = (res, e, s2)" by (cases r) auto
      have p: "res \<and> rest = tl e \<and> added = [] \<and> s' = s2 \<and>
        sane_partition (cdrom_drive s2) (current_drive (dsk s2)) (current_partition (dsk s2))"
        using 3(3) r device_result_Some by blast
      have "suffix e d' \<and> cur e = ch CHR '')''" using device_tail_suffix [of d' s1 res e s2] 3(2) p r by simp
      then have "suffix e dev \<and> e = ch CHR '')'' # rest"
        using 3(1) d p c [of e "ch CHR '')''"] by (auto intro: suffix_ConsI suffix_order.trans)
      then show ?thesis using p by (auto simp: suffix_def)
    qed
  qed
qed

theorem set_device_sane_witness:
  "case set_device (bs ''(hd1,a)/boot'') (start_loader hd_state) of (rest, added, s') \<Rightarrow>
     rest = Some (bs ''/boot'') \<and> added = [] \<and> (\<exists>p. bs ''(hd1,a)/boot'' = p @ ch CHR '')'' # bs ''/boot'') \<and>
     sane_partition (cdrom_drive s') (current_drive (dsk s')) (current_partition (dsk s'))"
proof -
  obtain s' where s: "set_device (bs ''(hd1,a)/boot'') (start_loader hd_state) = (Some (bs ''/boot''), [], s')"
    by (simp add: set_device_def Let_def device_drive_def drive_letter_def safe_parse_maxint_def digit_of_def
        grub_tolower_def device_tail_def device_partition_def dec_digit_def bsd_letter_def device_result_def
        sane_partition_def c_ulong_def start_loader_def hd_state_def)
  show ?thesis
    using set_device_sane [OF s] s by simp
qed

text \<open>C20: making a partition of a hard disk the root copies the table of its sector for the next loader and
  marks its entry active.  The other 63 bytes are those on the disk, the flags of the other entries
  included: what the code clears lies 446 bytes behind the table.\<close>

theorem copy_boot_table_flags:
  assumes "lba_drive fw drive g 9 disk \<or> chs_drive fw drive g 9 disk"
    and "\<And>g0. get_diskinfo fw drive g0 = (0, g)" "drive \<in> {128..<136}"
    and "ldisk env = bios_env fw lr ba sa" "readable drive g 9 disk (dsk s)" "saved_drive s = word_of_int drive"
    and "cur_part_offset (dsk s) = of_nat k" "tracks_inside g 9 k 0 512" "k < 2147483648"
    and "cur_part_addr (dsk s) = boot_part_table env + of_nat (16 * e)" "e < 4" "cur_part_addr (dsk s) \<noteq> 0"
  shows "\<exists>s'. copy_boot_table env s = Some (True, s') \<and> boot_part_addr s' = cur_part_addr (dsk s) \<and>
    (\<forall>i<64. boot_table s' i = (if i = 16 * e then 0x80 else sector_at (disk (media (dsk s))) k (0x1BE + i)))"
proof -
  note r = bios_part [OF assms(1-3), of lr ba sa]
  obtain b d where r: "rawread (bios_env fw lr ba sa) drive (int k) 0 512 (scratch (dsk s)) 0 (dsk s) = Some (True, b, d)"
    and b: "\<forall>i<512. b i = sector_at (disk (media (dsk s))) k i" and v: "same_view (dsk s) d"
    using partition_reader.read_sector [OF r assms(5,8)] by blast
  have d: "c_int (saved_drive s) = drive" "saved_drive s AND 0x80 \<noteq> 0"
  proof -
    have "drive \<in> {128, 129, 130, 131, 132, 133, 134, 135}" using assms(3) by auto
    then show "c_int (saved_drive s) = drive" "saved_drive s AND 0x80 \<noteq> 0"
      unfolding assms(6) by (elim insertE; simp add: c_int_def)+
  qed
  have k: "c_int (cur_part_offset (dsk s)) = int k"
    using c_int_nat [OF assms(9)] assms(7) by (simp add: c_ulong_def)
  have a: "cur_part_addr d = cur_part_addr (dsk s)" using v by (simp add: same_view_def)
  have e: "unat (cur_part_addr (dsk s) - boot_part_table env) = 16 * e"
  proof -
    have "e \<in> {0, 1, 2, 3}" using assms(11) by auto
    then show ?thesis unfolding assms(10) by (elim insertE) simp_all
  qed
  show ?thesis
    using r b d k a e assms(4,11,12)
    by (simp add: copy_boot_table_def PC_SLICE_FLAG_def write_at_def Let_def)
qed

theorem copy_boot_table_flags_witness:
  "let s = start_loader (part_state\<lparr>cur_part_offset := 0, cur_part_addr := 0x5d010\<rparr>)\<lparr>saved_drive := 0x80\<rparr> in
   \<exists>s'. copy_boot_table hd_loader_env s = Some (True, s') \<and> boot_part_addr s' = 0x5d010 \<and>
     (\<forall>i<64. boot_table s' i = (if i = 16 then 0x80 else sector_at part_image 0 (0x1BE + i)))"
proof -
  let ?s = "start_loader (part_state\<lparr>cur_part_offset := 0, cur_part_addr := 0x5d010\<rparr>)\<lparr>saved_drive := 0x80\<rparr>"
  have r: "readable 128 (hd_geometry 1) 9 (\<lambda>m. m) (dsk ?s)"
    using part_readable by (simp add: readable_def start_loader_def buffer_ready_def cache_ok_def)
  note l = hd_loader_disk
  have t: "tracks_inside (hd_geometry 1) 9 0 0 512" by (simp add: hd_sector_inside)
  have v: "saved_drive ?s = word_of_int 128" "cur_part_offset (dsk ?s) = word_of_nat 0" "media (dsk ?s) = part_image"
    "cur_part_addr (dsk ?s) = 0x5d010" "boot_part_table hd_loader_env = 0x5d000"
    by (simp_all add: start_loader_def part_state_def hd_loader_env_def)
  have a: "cur_part_addr (dsk ?s) = boot_part_table hd_loader_env + word_of_nat (16 * 1)" "cur_part_addr (dsk ?s) \<noteq> 0"
    unfolding v by simp_all
  show ?thesis
    using copy_boot_table_flags [OF disjI1 [OF hd_lba.lba_drive_axioms] hd_probe _ l r v(1,2) t _ a(1) _ a(2)]
    unfolding v Let_def by simp
qed

end
