(* ===== verification/Files.thy ===== *)
theory Files
  imports Device
begin

text \<open>
  The file layer of \<open>loader/preldr/func.c\<close>: mounting the current device (\<open>open_device\<close>, \<open>open_device2\<close>),
  opening a file or a block list (\<open>grub_open\<close>), reading it (\<open>grub_read\<close>), \<open>grub_seek\<close>, \<open>dir\<close> and
  \<open>grub_close\<close>.  A block list such as \<open>(hd0,1)10+5,20+3\<close> names sectors of the partition directly; the
  code keeps it as pairs of 32-bit numbers in the buffer of the file system, which is why a later
  file access has to mount again.  The build has no decompression.
\<close>

section \<open>Mounting\<close>

text \<open>\<open>open_partition\<close> never mounts, since it walks with the flags 0.\<close>

definition open_part :: "'m loader_env \<Rightarrow> 'm loader \<Rightarrow> (bool \<times> 'm loader) option" where
  "open_part env s = on_disk (open_partition (ldisk env) Some (boot_part_table env) (cdrom_drive s) (do_completion s)
     (scan_stack env)) s"

definition open_hidden :: "'m loader_env \<Rightarrow> 'm loader \<Rightarrow> (bool \<times> 'm loader) option" where
  "open_hidden env s = on_disk (open_partition_hiddensecs (ldisk env) (boot_drive s) (bpb_hidden_secs env)
     (bpb_n_sect env) (bpb_n_sect_ext env) (sect (scan_stack env))) s"

definition open_device :: "'m loader_env \<Rightarrow> 'm loader \<Rightarrow> (bool \<times> 'm loader) option" where
  "open_device env s =
     do {
       (ok, s) \<leftarrow>
         (if current_drive (dsk s) = boot_drive s \<and> current_partition (dsk s) = 0xFFFFFF \<and>
             boot_drive s \<noteq> cdrom_drive s \<and> boot_drive s \<ge> 0x80
          then do { (ok, s) \<leftarrow> open_hidden env s; if ok then fs_mount env s else Some (False, s) }
          else Some (False, s));
       (ok, s) \<leftarrow>
         (if ok then Some (True, s)
          else do { (ok, s) \<leftarrow> open_part env s; if ok then fs_mount env s else Some (False, s) });
       Some (ok \<and> err s = ERR_NONE, s)
     }"

text \<open>
  \<open>fsys_by_num\<close> builds the path of a driver in a buffer of 256 bytes: \<open>None\<close> is a number that is not in
  the list, or a path that does not fit.  \<open>preldr_path\<close> and \<open>fsd_dir\<close> are constants of \<open>stage0_fs.c\<close>.
\<close>

definition preldr_path :: "u8 list" where
  "preldr_path = ch CHR 0x5C # bs ''boot'' @ ch CHR 0x5C # bs ''loader'' @ [ch CHR 0x5C]"

definition fsd_dir :: "u8 list" where
  "fsd_dir = bs ''fsd'' @ [ch CHR 0x5C]"

definition fsys_by_num :: "int \<Rightarrow> 'm loader \<Rightarrow> u8 list option" where
  "fsys_by_num n s =
     (if 0 \<le> n \<and> n < int (length (fsys_list s))
      then let p = preldr_path @ fsd_dir @ fsys_list s ! nat n @ bs ''.mdl'' in
           if length p < 0x100 then Some p else None
      else None)"

text \<open>The loop of \<open>open_device2\<close> over the list of drivers, from number \<open>fst\<close> on.\<close>

function try_fsys :: "'m loader_env \<Rightarrow> u32 \<Rightarrow> u32 \<Rightarrow> int \<Rightarrow> int \<Rightarrow> 'm loader \<Rightarrow> (bool \<times> 'm loader) option" where
  "try_fsys env cd cp n num s =
     (if n < num
      then do {
        let s = s\<lparr>fsys_type := n\<rparr>;
        name \<leftarrow> fsys_by_num n s;
        (ok, s) \<leftarrow> load_fsys env name s;
        if \<not> ok then try_fsys env cd cp (n + 1) num s
        else do {
          (ok, s) \<leftarrow> open_device env (set_drive cd (set_partition cp s));
          if ok then Some (True, s) else try_fsys env cd cp (n + 1) num s
        }
      }
      else Some (False, set_err ERR_FSYS_MOUNT s))"
  by pat_completeness auto
termination
  by (relation "measure (\<lambda>(env, cd, cp, n, num, s). nat (num - n))") auto

declare try_fsys.simps [simp del]

text \<open>\<open>set_boot_fsys\<close> puts the driver of the boot drive back in place: loading and starting it is the
  argument \<open>load_boot_fsys\<close>.\<close>

definition set_boot_fsys :: "'m loader_env \<Rightarrow> 'm loader \<Rightarrow> 'm loader option" where
  "set_boot_fsys env s = load_boot_fsys env (s\<lparr>saved_fsys_type := fsys_type s, fsys_type := - 1\<rparr>)"

definition open_device2 :: "'m loader_env \<Rightarrow> 'm loader \<Rightarrow> (bool \<times> 'm loader) option" where
  "open_device2 env s =
     (let cd = current_drive (dsk s); cp = current_partition (dsk s) in
      do {
        (ok, s) \<leftarrow>
          (if filetab_ptr s then Some (False, s)
           else do {
             (ok, s) \<leftarrow> open_device env s;
             if ok then Some (True, s)
             else do { s \<leftarrow> set_boot_fsys env s; open_device env s }
           });
        if ok then Some (True, s) else try_fsys env cd cp 0 (num_fsys s) s
      })"

section \<open>Opening\<close>

text \<open>The choice of \<open>setup_part\<close>: a block list needs the partition only, a path the file system.\<close>

definition open_for :: "'m loader_env \<Rightarrow> u8 list \<Rightarrow> 'm loader \<Rightarrow> 'm loader option" where
  "open_for env filename s = map_option snd (if cur filename \<noteq> ch CHR ''/'' then open_part env s else open_device2 env s)"

definition setup_part :: "'m loader_env \<Rightarrow> u8 list \<Rightarrow> 'm loader \<Rightarrow> (u8 list option \<times> 'm loader) option" where
  "setup_part env filename s =
     do {
       (found, s) \<leftarrow>
         (if cur filename = ch CHR ''(''
          then case set_device filename s of
              (None, _, s) \<Rightarrow> Some (None, set_drive GRUB_INVALID_DRIVE s)
            | (Some rest, _, s) \<Rightarrow> do { s \<leftarrow> open_for env rest s; Some (Some rest, s) }
          else if saved_drive s \<noteq> current_drive (dsk s) \<or> saved_partition s \<noteq> current_partition (dsk s) \<or>
              (cur filename = ch CHR ''/'' \<and> fsys_type s = num_fsys s) \<or> buf_drive (dsk s) = - 1
          then do {
            let s = set_drive (saved_drive s) (set_partition (saved_partition s) (set_slice (saved_slice s)
                      (s\<lparr>fsys_type := saved_fsys_type s\<rparr>)));
            s \<leftarrow> open_for env filename s;
            Some (Some filename, s)
          }
          else Some (Some filename, s));
       case found of
         None \<Rightarrow> Some (None, s)
       | Some filename \<Rightarrow>
           if err s \<noteq> ERR_NONE \<and> (cur filename = ch CHR ''/'' \<or> err s \<noteq> ERR_FSYS_MOUNT) then Some (None, s)
           else
             let s = set_err ERR_NONE s in
             if \<not> sane_partition (cdrom_drive s) (current_drive (dsk s)) (current_partition (dsk s))
             then Some (None, set_err ERR_DEV_VALUES s)
             else Some (Some filename, s)
     }"

text \<open>
  The block list in the buffer: the position the list pointer stands for, the pointer itself, the
  number of the block in its run, and the runs from offset 12 on.  Addresses are kept as the code
  computes them, from \<open>FSYS_BUF\<close>; \<open>off\<close> is an offset from it.
\<close>

abbreviation (input) FSYS_BUF :: int where "FSYS_BUF \<equiv> 0x3e0000"

definition BLK_CUR_FILEPOS :: "'m loader \<Rightarrow> int" where
  "BLK_CUR_FILEPOS s = c_int (le32 (fsys_buf s) 0)"

definition BLK_CUR_BLKLIST :: "'m loader \<Rightarrow> int" where
  "BLK_CUR_BLKLIST s = c_int (le32 (fsys_buf s) 4)"

definition BLK_CUR_BLKNUM :: "'m loader \<Rightarrow> int" where
  "BLK_CUR_BLKNUM s = c_int (le32 (fsys_buf s) 8)"

definition BLK_BLKSTART :: "int \<Rightarrow> 'm loader \<Rightarrow> int" where
  "BLK_BLKSTART l s = c_int (le32 (fsys_buf s) (nat (l - FSYS_BUF)))"

definition BLK_BLKLENGTH :: "int \<Rightarrow> 'm loader \<Rightarrow> int" where
  "BLK_BLKLENGTH l s = c_int (le32 (fsys_buf s) (nat (l - FSYS_BUF) + 4))"

abbreviation (input) BLK_BLKLIST_START :: int where "BLK_BLKLIST_START \<equiv> FSYS_BUF + 12"
abbreviation (input) BLK_MAX_ADDR :: int where "BLK_MAX_ADDR \<equiv> FSYS_BUF + 0x7FF9"
abbreviation (input) BLK_BLKLIST_INC_VAL :: int where "BLK_BLKLIST_INC_VAL \<equiv> 8"

definition put_blk :: "nat \<Rightarrow> int \<Rightarrow> 'm loader \<Rightarrow> 'm loader" where
  "put_blk off v s = s\<lparr>fsys_buf := put32 off (c_ulong v) (fsys_buf s)\<rparr>"

definition blk_rewind :: "'m loader \<Rightarrow> 'm loader" where
  "blk_rewind s = put_blk 8 0 (put_blk 4 BLK_BLKLIST_START (put_blk 0 0 s))"

text \<open>The parser, lines 472 to 518: it returns the list pointer, the text pointer and the state.\<close>

definition blk_end :: "u8 list \<Rightarrow> bool" where
  "blk_end ptr \<longleftrightarrow> cur ptr = 0 \<or> cur ptr = ch CHR ''/'' \<or> grub_isspace (uint (cur ptr))"

function blk_parse :: "int \<Rightarrow> u8 list \<Rightarrow> 'm loader \<Rightarrow> int \<times> u8 list \<times> 'm loader" where
  "blk_parse list_addr ptr s =
     (if list_addr < BLK_MAX_ADDR
      then
        let (tmp, ptr) = (case safe_parse_maxint ptr of None \<Rightarrow> (0, ptr) | Some r \<Rightarrow> r);
            s = set_err ERR_NONE s
        in if cur ptr \<noteq> ch CHR ''+''
           then (list_addr, ptr,
                 if \<not> blk_end ptr \<or> tmp = 0 \<or> tmp > filemax s then set_err ERR_BAD_FILENAME s else s\<lparr>filemax := tmp\<rparr>)
           else
             let s = put_blk (nat (list_addr - FSYS_BUF)) tmp (s\<lparr>fsys_type := num_fsys s\<rparr>);
                 ptr = tl ptr;
                 parsed = safe_parse_maxint ptr;
                 (tmp, ptr) = (case parsed of None \<Rightarrow> (tmp, ptr) | Some r \<Rightarrow> r)
             in if parsed = None \<or> tmp = 0 \<or> (\<not> blk_end ptr \<and> cur ptr \<noteq> ch CHR '','')
                then (list_addr, ptr, set_err ERR_BAD_FILENAME s)
                else
                  let s = put_blk (nat (list_addr - FSYS_BUF) + 4) tmp s;
                      s = s\<lparr>filemax := s32 (filemax s + s32 (tmp * SECTOR_SIZE))\<rparr>;
                      list_addr = list_addr + BLK_BLKLIST_INC_VAL
                  in if cur ptr \<noteq> ch CHR '','' then (list_addr, ptr, s) else blk_parse list_addr (tl ptr) s
      else (list_addr, ptr, s))"
  by pat_completeness auto
termination
  by (relation "measure (\<lambda>(l, ptr, s). nat (BLK_MAX_ADDR - l))") auto

declare blk_parse.simps [simp del]

definition grub_open :: "'m loader_env \<Rightarrow> u8 list \<Rightarrow> 'm loader \<Rightarrow> (bool \<times> 'm loader) option" where
  "grub_open env filename s =
     do {
       (found, s) \<leftarrow> setup_part env filename ((set_err ERR_NONE s)\<lparr>filepos := 0\<rparr>);
       case found of
         None \<Rightarrow> Some (False, s)
       | Some filename \<Rightarrow>
           let s = s\<lparr>block_file := False, fsmax := MAXINT\<rparr>;
               (list_addr, ptr, s) =
                 (if cur filename \<noteq> ch CHR ''/'' then blk_parse BLK_BLKLIST_START filename (s\<lparr>filemax := 0\<rparr>)
                  else (BLK_MAX_ADDR, filename, s))
           in if list_addr < BLK_MAX_ADDR \<and> ptr \<noteq> filename \<and> err s = ERR_NONE
              then Some (True, blk_rewind (s\<lparr>block_file := True\<rparr>))
              else
                let s = (if err s = ERR_NONE \<and> fsys_type s = num_fsys s then set_err ERR_FSYS_MOUNT s else s);
                    s = s\<lparr>print_possibilities := 0\<rparr>
                in if err s = ERR_NONE then fs_dir env filename s else Some (False, s)
     }"

section \<open>Reading\<close>

text \<open>The list pointer runs up to the file position, lines 624 to 640.\<close>

definition blk_advance1 :: "'m loader \<Rightarrow> 'm loader" where
  "blk_advance1 s =
     (if filepos s - (BLK_CUR_FILEPOS s AND NOT (SECTOR_SIZE - 1)) \<ge> SECTOR_SIZE
      then
        let s = put_blk 8 (s32 (BLK_CUR_BLKNUM s + 1)) (put_blk 0 (s32 (BLK_CUR_FILEPOS s + SECTOR_SIZE)) s) in
        if BLK_CUR_BLKNUM s \<ge> BLK_BLKLENGTH (BLK_CUR_BLKLIST s) s
        then put_blk 8 0 (put_blk 4 (BLK_CUR_BLKLIST s + BLK_BLKLIST_INC_VAL) s)
        else s
      else put_blk 0 (filepos s) s)"

partial_function (option) blk_advance :: "'m loader \<Rightarrow> 'm loader option" where
  "blk_advance s = (if filepos s > BLK_CUR_FILEPOS s then blk_advance (blk_advance1 s) else Some s)"

text \<open>The loop over the pieces, lines 613 to 665; \<open>dr\<close> is \<open>devread\<close>.  A piece of negative size would move
  the destination backwards: \<open>None\<close>.\<close>

partial_function (option) blk_read ::
  "(int \<Rightarrow> int \<Rightarrow> int \<Rightarrow> mem \<Rightarrow> nat \<Rightarrow> 'm disk_state \<Rightarrow> (bool \<times> mem \<times> 'm disk_state) option) \<Rightarrow>
   int \<Rightarrow> int \<Rightarrow> mem \<Rightarrow> nat \<Rightarrow> 'm loader \<Rightarrow> (int \<times> mem \<times> 'm loader) option" where
  "blk_read dr len ret buf a s =
     (if len \<noteq> 0 \<and> err s = ERR_NONE
      then do {
        let s = (if filepos s < BLK_CUR_FILEPOS s then blk_rewind s else s);
        s \<leftarrow> blk_advance s;
        let off = filepos s AND (SECTOR_SIZE - 1);
        let l = BLK_CUR_BLKLIST s;
        let sz = s32 ((BLK_BLKLENGTH l s - BLK_CUR_BLKNUM s) * SECTOR_SIZE - off);
        let sz = (if sz > len then len else sz);
        (_, buf, d) \<leftarrow> if sz < 0 then None else dr (s32 (BLK_BLKSTART l s + BLK_CUR_BLKNUM s)) off sz buf a
                         ((dsk s)\<lparr>disk_read_func := disk_read_hook s\<rparr>);
        let s = s\<lparr>dsk := d\<lparr>disk_read_func := False\<rparr>, filepos := s32 (filepos s + sz)\<rparr>;
        blk_read dr (len - sz) (ret + sz) buf (a + nat sz) s
      }
      else Some (if err s \<noteq> ERR_NONE then 0 else ret, buf, s))"

definition grub_read :: "'m loader_env \<Rightarrow> int \<Rightarrow> mem \<Rightarrow> nat \<Rightarrow> 'm loader \<Rightarrow> (int \<times> mem \<times> 'm loader) option" where
  "grub_read env len buf a s =
     (let s = (if filepos s < 0 \<or> filepos s > filemax s then s\<lparr>filepos := filemax s\<rparr> else s);
          len = (if len < 0 \<or> len > s32 (filemax s - filepos s) then s32 (filemax s - filepos s) else len)
      in if s32 (filepos s + len) > fsmax s then Some (0, buf, set_err ERR_FILELENGTH s)
         else if block_file s then blk_read (devread (ldisk env)) len 0 buf a s
         else if fsys_type s = num_fsys s then Some (0, buf, set_err ERR_FSYS_MOUNT s)
         else fs_read env len buf a s)"

definition grub_seek :: "int \<Rightarrow> 'm loader \<Rightarrow> int \<times> 'm loader" where
  "grub_seek offset s = (if offset > filemax s \<or> offset < 0 then (- 1, s) else (offset, s\<lparr>filepos := offset\<rparr>))"

definition dir :: "'m loader_env \<Rightarrow> u8 list \<Rightarrow> 'm loader \<Rightarrow> (bool \<times> 'm loader) option" where
  "dir env dirname s =
     do {
       (found, s) \<leftarrow> setup_part env dirname s;
       case found of
         None \<Rightarrow> Some (False, s)
       | Some dirname \<Rightarrow>
           let s = (if cur dirname \<noteq> ch CHR ''/'' then set_err ERR_BAD_FILENAME s else s);
               s = (if fsys_type s = num_fsys s then set_err ERR_FSYS_MOUNT s else s)
           in if err s \<noteq> ERR_NONE then Some (False, s)
              else fs_dir env dirname (s\<lparr>print_possibilities := 1\<rparr>)
     }"

definition grub_close :: "'m loader_env \<Rightarrow> 'm loader \<Rightarrow> 'm loader option" where
  "grub_close env s = (if block_file s then Some s else fs_close env s)"

section \<open>How mounting ends\<close>

lemma open_device_True:
  "open_device env s = Some (True, s') \<Longrightarrow> err s' = ERR_NONE \<and> (\<exists>s0. fs_mount env s0 = Some (True, s'))"
  by (auto simp: open_device_def split: if_splits bind_splits prod.splits)

lemma try_fsys_outcome:
  "try_fsys env cd cp n num s = Some (ok, s') \<Longrightarrow>
   (ok \<longrightarrow> err s' = ERR_NONE \<and> (\<exists>s0. fs_mount env s0 = Some (True, s'))) \<and> (\<not> ok \<longrightarrow> err s' = ERR_FSYS_MOUNT)"
proof (induction env cd cp n num s rule: try_fsys.induct)
  case (1 env cd cp n num s)
  show ?case
  proof (cases "n < num")
    case False
    with 1(3) show ?thesis by (subst (asm) try_fsys.simps) auto
  next
    case True
    then obtain name l s1 where n: "fsys_by_num n (s\<lparr>fsys_type := n\<rparr>) = Some name"
      "load_fsys env name (s\<lparr>fsys_type := n\<rparr>) = Some (l, s1)"
      using 1(3) by (subst (asm) try_fsys.simps) (auto simp: Let_def split: bind_splits)
    show ?thesis
    proof (cases l)
      case False
      then have "try_fsys env cd cp (n + 1) num s1 = Some (ok, s')"
        using 1(3) True n by (subst (asm) try_fsys.simps) (simp add: Let_def)
      then show ?thesis using 1(1) [OF True refl n(1,2) refl] False by blast
    next
      case True': True
      obtain o2 s2 where o: "open_device env (set_drive cd (set_partition cp s1)) = Some (o2, s2)"
        using 1(3) True True' n by (subst (asm) try_fsys.simps) (auto simp: Let_def split: bind_splits)
      show ?thesis
      proof (cases o2)
        case True
        then have "s' = s2 \<and> ok" using 1(3) \<open>n < num\<close> True' n o by (subst (asm) try_fsys.simps) (simp add: Let_def)
        then show ?thesis using open_device_True [of env _ s2] o True by auto
      next
        case False
        then have "try_fsys env cd cp (n + 1) num s2 = Some (ok, s')"
          using 1(3) \<open>n < num\<close> True' n o by (subst (asm) try_fsys.simps) (simp add: Let_def)
        then show ?thesis using 1(2) [OF \<open>n < num\<close> refl n(1,2) refl] True' o False by blast
      qed
    qed
  qed
qed

section \<open>Properties\<close>

text \<open>C14: \<open>open_device2\<close> returns 1 only in the state that a driver's mount has accepted, with no error
  pending; whenever it gives up, after the current driver, the boot driver and every driver of the
  list, the error is \<open>ERR_FSYS_MOUNT\<close>.\<close>

theorem open_device2_outcome:
  assumes "open_device2 env s = Some (ok, s')"
  shows "(ok \<longrightarrow> err s' = ERR_NONE \<and> (\<exists>s0. fs_mount env s0 = Some (True, s'))) \<and>
    (\<not> ok \<longrightarrow> err s' = ERR_FSYS_MOUNT)"
proof -
  obtain o1 s1 where f: "(if filetab_ptr s then Some (False, s)
      else do {
        (ok, s) \<leftarrow> open_device env s;
        if ok then Some (True, s) else do { s \<leftarrow> set_boot_fsys env s; open_device env s }
      }) = Some (o1, s1)"
    using assms by (auto simp: open_device2_def Let_def split: bind_splits)
  show ?thesis
  proof (cases o1)
    case True
    then have "ok \<and> s' = s1" using assms f by (simp add: open_device2_def Let_def)
    moreover have "err s1 = ERR_NONE \<and> (\<exists>s0. fs_mount env s0 = Some (True, s1))"
      using f True by (auto split: if_splits bind_splits prod.splits dest: open_device_True)
    ultimately show ?thesis by simp
  next
    case False
    then have "try_fsys env (current_drive (dsk s)) (current_partition (dsk s)) 0 (num_fsys s1) s1 = Some (ok, s')"
      using assms f by (simp add: open_device2_def Let_def)
    then show ?thesis by (rule try_fsys_outcome)
  qed
qed

theorem open_device2_outcome_witness:
  "\<exists>s'. open_device2 (hd_loader_env\<lparr>fs_mount := \<lambda>s. Some (True, s), load_fsys := \<lambda>n s. Some (True, s)\<rparr>)
      ((set_drive NETWORK_DRIVE (start_loader hd_state))\<lparr>filetab_ptr := True, num_fsys := 1, fsys_list := [bs ''ext2fs'']\<rparr>) =
        Some (True, s') \<and> err s' = ERR_NONE"
proof -
  let ?env = "hd_loader_env\<lparr>fs_mount := \<lambda>s. Some (True, s), load_fsys := \<lambda>n s. Some (True, s)\<rparr>"
  let ?s = "(set_drive NETWORK_DRIVE (start_loader hd_state))\<lparr>filetab_ptr := True, num_fsys := 1, fsys_list := [bs ''ext2fs'']\<rparr>"
  obtain s' where s': "open_device2 ?env ?s = Some (True, s')"
    by (simp add: open_device2_def try_fsys.simps fsys_by_num_def preldr_path_def fsd_dir_def Let_def hd_loader_env_def
        open_device_def open_part_def open_partition_def real_open_partition_def on_disk_def set_drive_def
        set_partition_def start_loader_def hd_state_def)
  then show ?thesis using open_device2_outcome [OF s'] by blast
qed

end
