(* ===== verification/BlockFiles.thy ===== *)
theory BlockFiles
  imports Files
begin

text \<open>
  Block lists: what \<open>grub_open\<close>, \<open>grub_seek\<close> and \<open>grub_read\<close> of \<open>Files\<close> do with a name such as
  \<open>10+5,20+3\<close>.  A list of runs is the specification; the lemmas relate it to the text, to the numbers in
  the buffer and to the list pointer.  The device is any \<open>file_device\<close>: the law of \<open>byte_device\<close> and two
  facts about errors and the hook.
\<close>

section \<open>Block lists as lists of runs\<close>

text \<open>A run is a first sector and a number of sectors.  The file is what its sectors hold, in order.\<close>

definition run_sectors :: "(nat \<times> nat) list \<Rightarrow> nat list" where
  "run_sectors bl = concat (map (\<lambda>(s, n). [s..<s + n]) bl)"

definition blk_content :: "mem \<Rightarrow> (nat \<times> nat) list \<Rightarrow> mem" where
  "blk_content d bl = (\<lambda>p. d (run_sectors bl ! (p div 512) * 512 + p mod 512))"

definition blk_total :: "(nat \<times> nat) list \<Rightarrow> nat" where
  "blk_total bl = sum_list (map snd bl)"

text \<open>The runs fit into the buffer, into the device and into an \<open>int\<close>; none is empty.\<close>

definition runs_ok :: "nat \<Rightarrow> (nat \<times> nat) list \<Rightarrow> bool" where
  "runs_ok dsize bl \<longleftrightarrow> 8 * length bl + 12 < 0x7FF9 \<and> (blk_total bl + 2) * 512 \<le> 2147483648 \<and>
     (\<forall>(s, n)\<in>set bl. 0 < n \<and> (s + n) * 512 \<le> dsize \<and> s + n \<le> 2147483648)"

definition blocks_stored :: "(nat \<times> nat) list \<Rightarrow> mem \<Rightarrow> bool" where
  "blocks_stored bl m \<longleftrightarrow> (\<forall>i<length bl. le32 m (12 + 8 * i) = of_nat (fst (bl ! i)) \<and>
     le32 m (16 + 8 * i) = of_nat (snd (bl ! i)))"

text \<open>Block \<open>k\<close> of run \<open>i\<close> is block \<open>q\<close> of the file; the end of the file counts as a block behind the last run.\<close>

definition run_at :: "(nat \<times> nat) list \<Rightarrow> nat \<Rightarrow> nat \<Rightarrow> nat \<Rightarrow> bool" where
  "run_at bl i k q \<longleftrightarrow> q = blk_total (take i bl) + k \<and>
     (i < length bl \<and> k < snd (bl ! i) \<or> i = length bl \<and> k = 0)"

definition cursor :: "(nat \<times> nat) list \<Rightarrow> nat \<Rightarrow> nat \<Rightarrow> nat \<Rightarrow> 'm loader \<Rightarrow> bool" where
  "cursor bl p i k s \<longleftrightarrow> blocks_stored bl (fsys_buf s) \<and> BLK_CUR_FILEPOS s = int p \<and>
     BLK_CUR_BLKLIST s = BLK_BLKLIST_START + 8 * int i \<and> BLK_CUR_BLKNUM s = int k \<and> run_at bl i k (p div 512)"

lemma run_sectors_length: "length (run_sectors bl) = blk_total bl"
  by (induction bl) (auto simp: run_sectors_def blk_total_def)

lemma run_sectors_nth:
  assumes "i < length bl" "k < snd (bl ! i)"
  shows "run_sectors bl ! (blk_total (take i bl) + k) = fst (bl ! i) + k"
  using assms
proof (induction bl arbitrary: i)
  case Nil
  then show ?case by simp
next
  case (Cons b bl)
  show ?case
  proof (cases i)
    case 0
    then show ?thesis using Cons.prems by (cases b) (simp add: run_sectors_def blk_total_def nth_append)
  next
    case (Suc j)
    then show ?thesis using Cons by (cases b) (simp add: run_sectors_def blk_total_def nth_append add.assoc)
  qed
qed

lemma blk_total_take: "i < length bl \<Longrightarrow> blk_total (take (Suc i) bl) = blk_total (take i bl) + snd (bl ! i)"
  by (simp add: blk_total_def take_Suc_conv_app_nth)

lemma blk_total_le: "blk_total (take i bl) \<le> blk_total bl"
proof -
  have "blk_total bl = blk_total (take i bl) + blk_total (drop i bl)"
    unfolding blk_total_def by (metis append_take_drop_id map_append sum_list_append)
  then show ?thesis by simp
qed

lemma run_at_le: "run_at bl i k q \<Longrightarrow> q \<le> blk_total bl"
proof -
  assume r: "run_at bl i k q"
  show "q \<le> blk_total bl"
  proof (cases "i < length bl")
    case True
    then show ?thesis using r blk_total_take [OF True] blk_total_le [of "Suc i" bl] by (auto simp: run_at_def)
  next
    case False
    then show ?thesis using r by (auto simp: run_at_def)
  qed
qed

lemma run_at_inside: "run_at bl i k q \<Longrightarrow> q < blk_total bl \<Longrightarrow> i < length bl \<and> k < snd (bl ! i)"
  by (auto simp: run_at_def)

lemma run_at_next:
  assumes "run_at bl i k q" "q < blk_total bl" "\<forall>(s, n)\<in>set bl. 0 < n"
  shows "if Suc k \<ge> snd (bl ! i) then run_at bl (Suc i) 0 (Suc q) else run_at bl i (Suc k) (Suc q)"
proof -
  have i: "i < length bl" "k < snd (bl ! i)" using run_at_inside [OF assms(1,2)] by simp_all
  have "Suc i < length bl \<Longrightarrow> 0 < snd (bl ! Suc i)"
    using assms(3) nth_mem [of "Suc i" bl] by (cases "bl ! Suc i") fastforce
  then show ?thesis
    using assms(1) i blk_total_take [OF i(1)] by (auto simp: run_at_def)
qed

section \<open>The list pointer\<close>

lemma BLK_put [simp]:
  "BLK_CUR_FILEPOS (put_blk 0 v s) = c_int (c_ulong v)" "BLK_CUR_BLKLIST (put_blk 0 v s) = BLK_CUR_BLKLIST s"
  "BLK_CUR_BLKNUM (put_blk 0 v s) = BLK_CUR_BLKNUM s"
  "BLK_CUR_FILEPOS (put_blk 4 v s) = BLK_CUR_FILEPOS s" "BLK_CUR_BLKLIST (put_blk 4 v s) = c_int (c_ulong v)"
  "BLK_CUR_BLKNUM (put_blk 4 v s) = BLK_CUR_BLKNUM s"
  "BLK_CUR_FILEPOS (put_blk 8 v s) = BLK_CUR_FILEPOS s" "BLK_CUR_BLKLIST (put_blk 8 v s) = BLK_CUR_BLKLIST s"
  "BLK_CUR_BLKNUM (put_blk 8 v s) = c_int (c_ulong v)"
  by (simp_all add: BLK_CUR_FILEPOS_def BLK_CUR_BLKLIST_def BLK_CUR_BLKNUM_def put_blk_def mem_simps)

lemma put_blk_other [simp]:
  "filepos (put_blk o' v s) = filepos s" "filemax (put_blk o' v s) = filemax s" "dsk (put_blk o' v s) = dsk s"
  "disk_read_hook (put_blk o' v s) = disk_read_hook s" "fsmax (put_blk o' v s) = fsmax s"
  "block_file (put_blk o' v s) = block_file s"
  by (simp_all add: put_blk_def)

lemma stored_put: "o' + 4 \<le> 12 \<Longrightarrow> blocks_stored bl (fsys_buf (put_blk o' v s)) = blocks_stored bl (fsys_buf s)"
  by (simp add: blocks_stored_def put_blk_def mem_simps)

lemma BLK_stored:
  assumes "blocks_stored bl (fsys_buf s)" "i < length bl" "runs_ok dsize bl"
  shows "BLK_BLKSTART (BLK_BLKLIST_START + 8 * int i) s = int (fst (bl ! i))"
    and "BLK_BLKLENGTH (BLK_BLKLIST_START + 8 * int i) s = int (snd (bl ! i))"
proof -
  have n: "nat (12 + 8 * int i) = 12 + 8 * i" by simp
  have "bl ! i \<in> set bl" using assms(2) by simp
  then have f: "fst (bl ! i) < 2147483648" using assms(3) by (fastforce simp: runs_ok_def split_beta)
  have "snd (bl ! i) \<le> blk_total bl"
    using blk_total_take [OF assms(2)] blk_total_le [of "Suc i" bl] by simp
  then have g: "snd (bl ! i) < 2147483648" using assms(3) by (simp add: runs_ok_def)
  show "BLK_BLKSTART (BLK_BLKLIST_START + 8 * int i) s = int (fst (bl ! i))"
    using assms(1,2) c_int_nat [OF f] by (simp add: BLK_BLKSTART_def blocks_stored_def n c_ulong_def)
  show "BLK_BLKLENGTH (BLK_BLKLIST_START + 8 * int i) s = int (snd (bl ! i))"
    using assms(1,2) c_int_nat [OF g] by (simp add: BLK_BLKLENGTH_def blocks_stored_def n c_ulong_def add.commute)
qed

text \<open>What the list pointer does not touch.\<close>

definition same_file :: "'m loader \<Rightarrow> 'm loader \<Rightarrow> bool" where
  "same_file s s' \<longleftrightarrow> dsk s' = dsk s \<and> filepos s' = filepos s \<and> filemax s' = filemax s \<and> fsmax s' = fsmax s \<and>
     block_file s' = block_file s \<and> disk_read_hook s' = disk_read_hook s"

lemma same_file_put [simp]: "same_file s (put_blk o' v s') = same_file s s'" "same_file s s"
  by (simp_all add: same_file_def)

lemma same_file_trans: "same_file s s' \<Longrightarrow> same_file s' s'' \<Longrightarrow> same_file s s''"
  by (simp add: same_file_def)

lemma rewind_cursor:
  assumes "blocks_stored bl (fsys_buf s)" "\<forall>(s, n)\<in>set bl. 0 < n"
  shows "cursor bl 0 0 0 (blk_rewind s)" "same_file s (blk_rewind s)"
proof -
  have "run_at bl 0 0 0"
    using assms(2) by (cases bl) (auto simp: run_at_def blk_total_def)
  then show "cursor bl 0 0 0 (blk_rewind s)" "same_file s (blk_rewind s)"
    using assms(1) by (simp_all add: cursor_def blk_rewind_def stored_put c_int_nat [of 0, simplified])
qed

lemma and_511: "int p AND 511 = int (p mod 512)"
proof -
  have "int p AND 511 = take_bit 9 (int p)" by (simp add: take_bit_eq_mask mask_eq_exp_minus_1)
  then show ?thesis by (simp add: take_bit_eq_mod zmod_int)
qed

lemma and_split: "(a AND NOT b) + (a AND b) = (a :: int)"
proof -
  have "(a AND NOT b) + (a AND b) = (a AND NOT b) OR (a AND b)"
    by (rule disjunctive_add_eq_or) (rule bit_eqI, auto simp: bit_simps)
  also have "\<dots> = a" by (rule bit_eqI) (auto simp: bit_simps)
  finally show ?thesis .
qed

lemma and_not_511: "int p AND - 512 = int (512 * (p div 512))"
proof -
  have "(int p AND - 512) + int (p mod 512) = int p"
    using and_split [of "int p" 511] by (simp add: and_511)
  moreover have "int p = int (512 * (p div 512)) + int (p mod 512)"
    by (metis mult_div_mod_eq of_nat_add)
  ultimately show ?thesis by linarith
qed

lemma advance1_cursor:
  assumes c: "cursor bl p i k s" and ok: "runs_ok dsize bl"
    and f: "filepos s = int f" "p < f" "f < blk_total bl * 512"
  shows "\<exists>p' i' k'. cursor bl p' i' k' (blk_advance1 s) \<and> p < p' \<and> p' div 512 \<le> f div 512 \<and>
    same_file s (blk_advance1 s)"
proof -
  have q: "p div 512 < blk_total bl" using f(2,3) by (simp add: less_mult_imp_div_less)
  note r = run_at_inside [OF _ q]
  have i: "i < length bl" "k < snd (bl ! i)" and ra: "run_at bl i k (p div 512)"
    using c r unfolding cursor_def by blast+
  have pos: "\<forall>(s, n)\<in>set bl. 0 < n" and t: "(blk_total bl + 2) * 512 \<le> 2147483648" and l: "8 * length bl + 12 < 0x7FF9"
    using ok by (auto simp: runs_ok_def)
  have len: "BLK_BLKLENGTH (BLK_CUR_BLKLIST s) s = int (snd (bl ! i))" 
    using BLK_stored(2) [OF _ i(1) ok, of s] c by (simp add: cursor_def)
  have len': "BLK_BLKLENGTH l (put_blk o' v s) = BLK_BLKLENGTH l s" if "o' + 4 \<le> 12" "12 \<le> nat (l - FSYS_BUF)" for o' v l s
    using that by (simp add: BLK_BLKLENGTH_def put_blk_def mem_simps)
  have cur: "filepos s - (BLK_CUR_FILEPOS s AND NOT (SECTOR_SIZE - 1)) = int f - int (512 * (p div 512))"
    using c f by (simp add: cursor_def and_not_511)
  show ?thesis
  proof (cases "512 * (p div 512) + 512 \<le> f")
    case False
    then have "blk_advance1 s = put_blk 0 (int f) s"
      unfolding blk_advance1_def cur by (simp add: f)
    moreover have "f div 512 = p div 512" 
      using False f(2) div_times_less_eq_dividend [of p 512] by (intro div_nat_eqI) (unfold mult_Suc_right, linarith+)
    ultimately show ?thesis
      using c f t by (intro exI [of _ f] exI [of _ i] exI [of _ k]) (simp add: cursor_def stored_put c_int_nat)
  next
    case True
    then have fp: "p div 512 + 1 \<le> f div 512" by (simp add: less_eq_div_iff_mult_less_eq)
    have "k \<le> p div 512" using ra by (simp add: run_at_def)
    then have small: "p + 512 < 2147483648" "k + 1 < 2147483648" "i < 100000"
      using f t l i(1) q by simp_all
    let ?s = "put_blk 8 (int (k + 1)) (put_blk 0 (int (p + 512)) s)"
    have L: "BLK_BLKLENGTH (BLK_CUR_BLKLIST ?s) ?s = int (snd (bl ! i))"
    proof -
      have n: "12 \<le> nat (4063244 + 8 * int i - FSYS_BUF)" by simp
      show ?thesis using len c by (simp add: cursor_def len' [OF _ n])
    qed
    have N: "s32 (BLK_CUR_BLKNUM s + 1) = int (k + 1)" "s32 (BLK_CUR_FILEPOS s + SECTOR_SIZE) = int (p + 512)"
      "BLK_CUR_BLKNUM ?s = int (k + 1)" "BLK_CUR_BLKLIST ?s + BLK_BLKLIST_INC_VAL = BLK_BLKLIST_START + 8 * int (Suc i)"
      using c small by (simp_all add: cursor_def s32_id c_int_nat [of "k + 1"])
    have "filepos s - (BLK_CUR_FILEPOS s AND NOT (SECTOR_SIZE - 1)) \<ge> SECTOR_SIZE"
      unfolding cur using True by linarith
    then have step: "blk_advance1 s = (if Suc k \<ge> snd (bl ! i)
        then put_blk 8 0 (put_blk 4 (BLK_BLKLIST_START + 8 * int (Suc i)) ?s) else ?s)"
      unfolding blk_advance1_def Let_def N(1,2) L N(3,4) by simp
    have nx: "if Suc k \<ge> snd (bl ! i) then run_at bl (Suc i) 0 ((p + 512) div 512) else run_at bl i (Suc k) ((p + 512) div 512)"
    proof -
      have "(p + 512) div 512 = Suc (p div 512)" by (simp add: div_add_self2)
      then show ?thesis using run_at_next [OF ra q pos] by (simp only:)
    qed
    show ?thesis
      using c nx fp small unfolding step
      by (intro exI [of _ "p + 512"] exI [of _ "if Suc k \<ge> snd (bl ! i) then Suc i else i"]
          exI [of _ "if Suc k \<ge> snd (bl ! i) then 0 else Suc k"])
        (auto simp: cursor_def stored_put c_int_nat [of "p + 512"] c_int_nat [of "Suc k"] c_int_nat [of 0, simplified] c_int_c_ulong)
  qed
qed

lemma advance_cursor:
  assumes "cursor bl p i k s" "runs_ok dsize bl" "filepos s = int f" "p div 512 \<le> f div 512" "f < blk_total bl * 512"
  shows "\<exists>p' i' k' s'. blk_advance s = Some s' \<and> cursor bl p' i' k' s' \<and> p' div 512 = f div 512 \<and> same_file s s'"
  using assms
proof (induction "f - p" arbitrary: p i k s rule: less_induct)
  case less
  note c = less.prems(1)
  show ?case
  proof (cases "p < f")
    case False
    then have "f div 512 \<le> p div 512" by (simp add: div_le_mono)
    then have "p div 512 = f div 512" using less.prems(4) by simp
    moreover have "blk_advance s = Some s"
      using False c less.prems(3) by (subst blk_advance.simps) (simp add: cursor_def)
    ultimately show ?thesis using c same_file_put(2) [of s] by blast
  next
    case True
    obtain p' i' k' where n: "cursor bl p' i' k' (blk_advance1 s)" "p < p'" "p' div 512 \<le> f div 512"
      "same_file s (blk_advance1 s)"
      using advance1_cursor [OF c less.prems(2,3) True less.prems(5)] by blast
    then have f: "filepos (blk_advance1 s) = int f" using less.prems(3) by (simp add: same_file_def)
    have "blk_advance s = blk_advance (blk_advance1 s)"
      using True c less.prems(3) by (subst blk_advance.simps) (simp add: cursor_def)
    then show ?thesis
      using less.hyps [OF _ n(1) less.prems(2) f n(3) less.prems(5)] n(2,4) True same_file_trans [OF n(4)] by fastforce
  qed
qed

section \<open>The file that a block list names\<close>

lemma blk_read_step:
  assumes "len \<noteq> 0" "err s = ERR_NONE"
    and "blk_advance (if filepos s < BLK_CUR_FILEPOS s then blk_rewind s else s) = Some s1"
    and "filepos s1 AND (SECTOR_SIZE - 1) = off"
    and "(if s32 ((BLK_BLKLENGTH (BLK_CUR_BLKLIST s1) s1 - BLK_CUR_BLKNUM s1) * SECTOR_SIZE - off) > len then len
          else s32 ((BLK_BLKLENGTH (BLK_CUR_BLKLIST s1) s1 - BLK_CUR_BLKNUM s1) * SECTOR_SIZE - off)) = sz"
    and "0 \<le> sz" "s32 (BLK_BLKSTART (BLK_CUR_BLKLIST s1) s1 + BLK_CUR_BLKNUM s1) = sec"
    and "dr sec off sz buf a ((dsk s1)\<lparr>disk_read_func := disk_read_hook s1\<rparr>) = Some (r, buf', d)"
  shows "blk_read dr len ret buf a s = blk_read dr (len - sz) (ret + sz) buf' (a + nat sz)
    (s1\<lparr>dsk := d\<lparr>disk_read_func := False\<rparr>, filepos := s32 (filepos s1 + sz)\<rparr>)"
proof -
  have "\<not> sz < 0" using assms(6) by simp
  then show ?thesis
    using assms(1,2) by (subst blk_read.simps) (simp only: Let_def assms(3-5,7,8) bind.bind_lunit prod.case if_False simp_thms if_True)
qed

text \<open>What the block list needs of the device: the law of \<open>byte_device\<close>, no error pending, and that the
  hook changes nothing.\<close>

locale file_device = byte_device dr dev_ok content dev_size
  for dr :: "int \<Rightarrow> int \<Rightarrow> int \<Rightarrow> mem \<Rightarrow> nat \<Rightarrow> 'm disk_state \<Rightarrow> (bool \<times> mem \<times> 'm disk_state) option"
    and dev_ok :: "'m disk_state \<Rightarrow> bool"
    and content :: "'m disk_state \<Rightarrow> mem"
    and dev_size :: "'m disk_state \<Rightarrow> nat" +
  assumes dev_no_error: "dev_ok d \<Longrightarrow> errnum d = ERR_NONE"
    and dev_hook: "dev_ok (d\<lparr>disk_read_func := h\<rparr>) = dev_ok d" "content (d\<lparr>disk_read_func := h\<rparr>) = content d"
      "dev_size (d\<lparr>disk_read_func := h\<rparr>) = dev_size d"
begin

definition blk_open :: "(nat \<times> nat) list \<Rightarrow> 'm loader \<Rightarrow> bool" where
  "blk_open bl s \<longleftrightarrow> dev_ok (dsk s) \<and> runs_ok (dev_size (dsk s)) bl \<and> (\<exists>p i k. cursor bl p i k s)"

lemma read_run:
  assumes "i < length bl" "run_at bl i k (f div 512)" "n + f mod 512 \<le> (snd (bl ! i) - k) * 512" "k < snd (bl ! i)"
  shows "read_at ((fst (bl ! i) + k) * 512 + f mod 512) n d = read_at f n (blk_content d bl)"
proof (rule nth_equalityI)
  fix j assume "j < length (read_at ((fst (bl ! i) + k) * 512 + f mod 512) n d)"
  then have j: "j < n" by simp
  define r q where rq: "r = f mod 512" "q = f div 512"
  have e: "f + j = (r + j) + q * 512" unfolding rq using div_mult_mod_eq [of f 512] by linarith
  have m: "(f + j) div 512 = q + (r + j) div 512" "(f + j) mod 512 = (r + j) mod 512"
    unfolding e by simp_all
  have "r + j < (snd (bl ! i) - k) * 512" using assms(3) j by (simp add: rq)
  then have "(r + j) div 512 < snd (bl ! i) - k" by (simp add: less_mult_imp_div_less)
  then have lt: "k + (r + j) div 512 < snd (bl ! i)" using assms(4) by simp
  have "run_sectors bl ! ((f + j) div 512) = fst (bl ! i) + (k + (r + j) div 512)"
    using run_sectors_nth [OF assms(1) lt] assms(2) m(1) by (simp add: run_at_def add.assoc rq(2))
  moreover have "(fst (bl ! i) + (k + (r + j) div 512)) * 512 + (r + j) mod 512 = (fst (bl ! i) + k) * 512 + r + j"
    using div_mult_mod_eq [of "r + j" 512] unfolding add_mult_distrib by linarith
  ultimately have "blk_content d bl (f + j) = d ((fst (bl ! i) + k) * 512 + r + j)"
    unfolding blk_content_def m(2) by (simp add: ac_simps)
  then show "read_at ((fst (bl ! i) + k) * 512 + f mod 512) n d ! j = read_at f n (blk_content d bl) ! j"
    using j by (simp add: rq)
qed simp

text \<open>One turn of the loop reads to the end of the run, or as much as is wanted.\<close>

lemma blk_read_ok:
  assumes "blk_open bl s" "filepos s = int f" "f + n \<le> blk_total bl * 512"
  shows "\<exists>s'. blk_read dr (int n) ret buf a s =
      Some (ret + int n, write_at a (read_at f n (blk_content (content (dsk s)) bl)) buf, s') \<and>
    blk_open bl s' \<and> filepos s' = int (f + n) \<and> content (dsk s') = content (dsk s) \<and>
    filemax s' = filemax s \<and> fsmax s' = fsmax s \<and> block_file s' = block_file s"
  using assms
proof (induction n arbitrary: f ret buf a s rule: less_induct)
  case (less n)
  have ok: "dev_ok (dsk s)" and rs: "runs_ok (dev_size (dsk s)) bl" using less.prems(1) by (simp_all add: blk_open_def)
  have err: "err s = ERR_NONE" by (rule dev_no_error [OF ok])
  show ?case
  proof (cases "n = 0")
    case True
    then show ?thesis
      using less.prems err by (subst blk_read.simps) auto
  next
    case False
    then have fl: "f < blk_total bl * 512" using less.prems(3) by simp
    let ?s0 = "if filepos s < BLK_CUR_FILEPOS s then blk_rewind s else s"
    have pos: "\<forall>(s, n)\<in>set bl. 0 < n" and tot: "(blk_total bl + 2) * 512 \<le> 2147483648"
      using rs by (auto simp: runs_ok_def)
    obtain p i k where c: "cursor bl p i k s" using less.prems(1) by (auto simp: blk_open_def)
    then have st: "blocks_stored bl (fsys_buf s)" by (simp add: cursor_def)
    have "\<exists>p i k. cursor bl p i k ?s0 \<and> p \<le> f"
    proof (cases "filepos s < BLK_CUR_FILEPOS s")
      case True
      then show ?thesis using rewind_cursor(1) [OF st pos] by auto
    next
      case False
      then show ?thesis using c less.prems(2) by (auto simp: cursor_def)
    qed
    then obtain p i0 k0 where c0: "cursor bl p i0 k0 ?s0" "p \<le> f" by blast
    have sf0: "same_file s ?s0" using rewind_cursor(2) [OF st pos] by simp
    obtain p' i k s1 where s1: "blk_advance ?s0 = Some s1" "cursor bl p' i k s1" "p' div 512 = f div 512" "same_file ?s0 s1"
      using advance_cursor [OF c0(1) rs, of f] c0(2) fl less.prems(2) sf0 by (auto simp: same_file_def div_le_mono)
    have sf: "same_file s s1" by (rule same_file_trans [OF sf0 s1(4)])
    have q: "f div 512 < blk_total bl" using fl by (simp add: less_mult_imp_div_less)
    have ra: "run_at bl i k (f div 512)" using s1(2,3) by (simp add: cursor_def)
    note ik = run_at_inside [OF ra q]
    define L where "L = (snd (bl ! i) - k) * 512 - f mod 512"
    define m where "m = min n L"
    have mem: "bl ! i \<in> set bl" using ik by simp
    then have run: "(fst (bl ! i) + snd (bl ! i)) * 512 \<le> dev_size (dsk s)" "fst (bl ! i) + snd (bl ! i) \<le> 2147483648"
      using rs by (auto simp: runs_ok_def split_beta)
    have si: "snd (bl ! i) \<le> blk_total bl"
      using blk_total_take [OF conjunct1 [OF ik]] blk_total_le [of "Suc i" bl] by simp
    have sm: "f mod 512 < (snd (bl ! i) - k) * 512" "(snd (bl ! i) - k) * 512 \<le> blk_total bl * 512"
      using ik si by (auto intro: less_le_trans [of _ "1 * 512"] mult_le_mono1)
    have m: "0 < m" "m \<le> n" "m + f mod 512 \<le> (snd (bl ! i) - k) * 512"
      using False sm by (auto simp: m_def L_def)
    let ?c = "content (dsk s)" and ?d = "(dsk s1)\<lparr>disk_read_func := disk_read_hook s1\<rparr>"
    have d: "dev_ok ?d" "content ?d = ?c" "dev_size ?d = dev_size (dsk s)"
      using sf ok by (simp_all add: dev_hook same_file_def)
    have "(fst (bl ! i) + k) * 512 + f mod 512 + m \<le> (fst (bl ! i) + snd (bl ! i)) * 512"
      using m(3) conjunct2 [OF ik] by (simp add: diff_mult_distrib)
    then obtain d' where d': "dr (int (fst (bl ! i) + k)) (int (f mod 512)) (int m) buf a ?d =
        Some (True, write_at a (read_at f m (blk_content ?c bl)) buf, d')"
      "dev_ok d'" "content d' = ?c" "dev_size d' = dev_size (dsk s)"
      using dev_read [OF d(1) m(1), of "fst (bl ! i) + k" "f mod 512" buf a] run(1) m sm tot less.prems(3)
        read_run [OF conjunct1 [OF ik] ra m(3) conjunct2 [OF ik], of ?c]
      unfolding d(2,3) by auto
    let ?s2 = "s1\<lparr>dsk := d'\<lparr>disk_read_func := False\<rparr>, filepos := int (f + m)\<rparr>"
    have num: "BLK_CUR_BLKLIST s1 = BLK_BLKLIST_START + 8 * int i" "BLK_CUR_BLKNUM s1 = int k"
      "BLK_BLKLENGTH (BLK_CUR_BLKLIST s1) s1 = int (snd (bl ! i))" "BLK_BLKSTART (BLK_CUR_BLKLIST s1) s1 = int (fst (bl ! i))"
      using s1(2) BLK_stored [OF _ conjunct1 [OF ik] rs, of s1] by (simp_all add: cursor_def)
    have f1: "filepos s1 = int f" using sf less.prems(2) by (simp add: same_file_def)
    have piece: "(if s32 ((int (snd (bl ! i)) - int k) * SECTOR_SIZE - int (f mod 512)) > int n then int n
        else s32 ((int (snd (bl ! i)) - int k) * SECTOR_SIZE - int (f mod 512))) = int m"
    proof -
      have e: "(int (snd (bl ! i)) - int k) * SECTOR_SIZE - int (f mod 512) = int L"
        using sm conjunct2 [OF ik] by (simp add: L_def of_nat_diff)
      have "s32 (int L) = int L" using sm tot by (intro s32_nat) (simp add: L_def)
      then show ?thesis unfolding e by (simp add: m_def)
    qed
    have sec: "s32 (int (fst (bl ! i)) + int k) = int (fst (bl ! i) + k)" "s32 (int f + int m) = int (f + m)"
      using run(2) ik s32_nat [of "fst (bl ! i) + k"] s32_nat [of "f + m"] less.prems(3) m(2) tot by simp_all
    have "blk_read dr (int n) ret buf a s =
      blk_read dr (int (n - m)) (ret + int m) (write_at a (read_at f m (blk_content ?c bl)) buf) (a + m) ?s2"
      using False err m blk_read_step [where dr = dr and len = "int n" and off = "int (f mod 512)" and sz = "int m"
          and sec = "int (fst (bl ! i) + k)" and d = d' and s = s and buf = buf and a = a and ret = ret,
          OF _ _ s1(1) _ _ _ _ d'(1)] piece sec
      unfolding num(2-4) f1 by (simp add: and_511 of_nat_diff)
    moreover have o: "blk_open bl ?s2"
      using d'(2,4) rs s1(2) dev_hook
      by (auto simp: blk_open_def cursor_def BLK_CUR_FILEPOS_def BLK_CUR_BLKLIST_def BLK_CUR_BLKNUM_def)
    moreover have "filepos ?s2 = int (f + m)" "(f + m) + (n - m) \<le> blk_total bl * 512" "n - m < n"
      using less.prems(3) m by simp_all
    moreover have "content (dsk ?s2) = ?c" "filemax ?s2 = filemax s" "fsmax ?s2 = fsmax s" "block_file ?s2 = block_file s"
      using d'(3) dev_hook sf by (simp_all add: same_file_def)
    moreover have "write_at (a + m) (read_at (f + m) (n - m) (blk_content ?c bl)) (write_at a (read_at f m (blk_content ?c bl)) buf) =
        write_at a (read_at f n (blk_content ?c bl)) buf"
      using write_at_append [of a "read_at f m (blk_content ?c bl)"] read_at_append [of f m "n - m" "blk_content ?c bl"] m
      by simp
    ultimately show ?thesis
      using less.IH [of "n - m" ?s2 "f + m" "ret + int m" "write_at a (read_at f m (blk_content ?c bl)) buf" "a + m"] m
      by (simp add: of_nat_diff)
  qed
qed

text \<open>\<open>grub_read\<close> clamps the position and the length to the file.\<close>

lemma grub_read_blocks:
  fixes len :: int
  assumes "blk_open bl s" "block_file s" "filemax s = int F" "F \<le> blk_total bl * 512" "fsmax s = MAXINT"
    and "devread (ldisk env) = dr"
  defines "f \<equiv> (if filepos s < 0 \<or> filepos s > int F then F else nat (filepos s))"
  defines "n \<equiv> (if len < 0 \<or> len > int (F - f) then F - f else nat len)"
  shows "\<exists>s'. grub_read env len buf a s =
      Some (int n, write_at a (read_at f n (blk_content (content (dsk s)) bl)) buf, s') \<and>
    blk_open bl s' \<and> filepos s' = int (f + n) \<and> content (dsk s') = content (dsk s) \<and>
    filemax s' = filemax s \<and> fsmax s' = fsmax s \<and> block_file s' = block_file s"
proof -
  have fF: "f \<le> F" "f + n \<le> F" by (auto simp: f_def n_def)
  have F: "(blk_total bl + 2) * 512 \<le> 2147483648" using assms(1) by (simp add: blk_open_def runs_ok_def)
  let ?s = "s\<lparr>filepos := int f\<rparr>"
  have s: "(if filepos s < 0 \<or> filepos s > filemax s then s\<lparr>filepos := filemax s\<rparr> else s) = ?s"
    using assms(3) by (auto simp: f_def)
  have l: "s32 (filemax ?s - filepos ?s) = int (F - f)"
    using fF F assms(3,4) s32_nat [of "F - f"] by (simp add: of_nat_diff)
  have n: "(if len < 0 \<or> len > int (F - f) then int (F - f) else len) = int n"
    by (simp add: n_def)
  have "s32 (int f + int n) \<le> MAXINT" using s32_range(2) [of "int f + int n"] by linarith
  then have g: "grub_read env len buf a s = blk_read dr (int n) 0 buf a ?s"
    using assms(2,5,6) unfolding grub_read_def s Let_def l n by (simp add: Let_def)
  have "blk_open bl ?s"
    using assms(1) by (simp add: blk_open_def cursor_def BLK_CUR_FILEPOS_def BLK_CUR_BLKLIST_def BLK_CUR_BLKNUM_def)
  then show ?thesis
    unfolding g using blk_read_ok [of bl ?s f n 0 buf a] fF assms(4) by auto
qed

end

sublocale partition_reader \<subseteq> file_device "devread env" "part_ok drive geom disk" "part_content disk" part_size
  by unfold_locales (auto simp: part_ok_def readable_def part_content_def part_size_def buffer_ready_def cache_ok_def)

context partition_reader
begin

lemma partition_file: "file_device (devread env) (part_ok drive geom disk) (part_content disk) part_size"
  by unfold_locales

text \<open>Reading keeps the device selected and its buffer in use.\<close>

definition selected :: "u32 \<Rightarrow> 'm disk_state \<Rightarrow> bool" where
  "selected cp st \<longleftrightarrow> part_ok drive geom disk st \<and> current_partition st = cp \<and> buf_drive st = drive"

lemma selected_file: "file_device (devread env) (selected cp) (part_content disk) part_size"
proof unfold_locales
  fix st :: "'m disk_state" and l sec off a :: nat and dst :: mem
  assume a: "selected cp st" "0 < l" "sec * 512 + off + l \<le> part_size st" "off + l + 512 \<le> 2147483648"
  have p: "part_ok drive geom disk st" using a(1) by (simp add: selected_def)
  obtain s' where s': "devread env (int sec) (int off) (int l) dst a st =
      Some (True, write_at a (read_at ((unat (part_start st) + sec) * 512 + off) l (disk (media st))) dst, s')"
    "same_view st s'" "part_ok drive geom disk s'" "buf_drive s' = drive"
    using devread_ready [OF p a(2) a(3) [unfolded part_size_def] a(4), of dst a] by blast
  have "current_partition s' = cp" using a(1) s'(2) by (simp add: selected_def same_view_def)
  then show "\<exists>s'. devread env (int sec) (int off) (int l) dst a st =
        Some (True, write_at a (read_at (sec * 512 + off) l (part_content disk st)) dst, s') \<and>
      selected cp s' \<and> part_content disk s' = part_content disk st \<and> part_size s' = part_size st"
    using s' part_view [OF s'(2)] by (simp add: selected_def read_at_part_content add_mult_distrib add.assoc)
qed (auto simp: selected_def part_ok_def readable_def part_content_def part_size_def buffer_ready_def cache_ok_def)

end

section \<open>Opening a block list\<close>

definition decimal :: "nat \<Rightarrow> u8 list" where
  "decimal n = convert_to_ascii (ch CHR ''d'') (of_nat n)"

fun blk_text :: "(nat \<times> nat) list \<Rightarrow> u8 list" where
  "blk_text [] = []"
| "blk_text [(s, n)] = decimal s @ ch CHR ''+'' # decimal n"
| "blk_text ((s, n) # b # bl) = decimal s @ ch CHR ''+'' # decimal n @ ch CHR '','' # blk_text (b # bl)"

lemma parse_number:
  assumes "n < 2147483648" "digit_of 10 (cur rest) = None" "grub_tolower (uint (cur rest)) \<noteq> 120"
  shows "safe_parse_maxint (decimal n @ rest) = Some (int n, rest)"
proof -
  have u: "uint (of_nat n :: u32) = int n" using assms(1) by (simp add: uint_nat unat_of_nat)
  show ?thesis
    using print_parse_decimal [of "of_nat n" rest] assms unfolding decimal_def u by simp
qed

lemma decimal_head: "n < 2147483648 \<Longrightarrow> \<exists>d ds. decimal n = d # ds \<and> dec_digit d \<and> d \<noteq> 0"
proof -
  assume "n < 2147483648"
  then have u: "uint (of_nat n :: u32) \<le> MAXINT" by (simp add: uint_nat unat_of_nat)
  show ?thesis unfolding decimal_def by (rule hd_decimal [OF u])
qed

lemma number_end: "digit_of 10 c = None \<and> grub_tolower (uint c) \<noteq> 120"
  if "c \<in> {ch CHR '','', ch CHR ''+'', ch CHR ''/'', 0, 32, 9, 10, 13}"
  using that by (auto simp: digit_of_def grub_tolower_def)

lemma blk_end_cases: "blk_end rest \<Longrightarrow> cur rest \<in> {ch CHR '','', ch CHR ''+'', ch CHR ''/'', 0, 32, 9, 10, 13}"
proof -
  assume a: "blk_end rest"
  have w: "uint c = x \<Longrightarrow> c = word_of_int x" for c :: u8 and x by auto
  show ?thesis
    using a by (auto simp: blk_end_def grub_isspace_def dest!: w)
qed

lemma put_blk_set [simp]: 
  "err (put_blk o' v s) = err s" "num_fsys (put_blk o' v s) = num_fsys s" "fsys_type (put_blk o' v s) = fsys_type s"
  by (simp_all add: put_blk_def)

text \<open>Parsing one run, and what it leaves.\<close>

lemma blk_parse_run:
  assumes "s0 < 2147483648" "0 < n" "n < 2147483648" "l < BLK_MAX_ADDR" "cur t = ch CHR '','' \<or> blk_end t"
  shows "blk_parse l (decimal s0 @ ch CHR ''+'' # decimal n @ t) s =
    (let s' = put_blk (nat (l - FSYS_BUF) + 4) (int n) (put_blk (nat (l - FSYS_BUF)) (int s0) ((set_err ERR_NONE s)\<lparr>fsys_type := num_fsys s\<rparr>));
         s' = s'\<lparr>filemax := s32 (filemax s + s32 (int n * SECTOR_SIZE))\<rparr>
     in if cur t = ch CHR '','' then blk_parse (l + 8) (tl t) s' else (l + 8, t, s'))"
proof -
  have t: "digit_of 10 (cur t) = None" "grub_tolower (uint (cur t)) \<noteq> 120"
    using number_end [of "cur t"] blk_end_cases [of t] assms(5) by auto
  have p: "safe_parse_maxint (decimal s0 @ ch CHR ''+'' # decimal n @ t) = Some (int s0, ch CHR ''+'' # decimal n @ t)"
    using assms(1) number_end [of "ch CHR ''+''"] by (intro parse_number) simp_all
  show ?thesis
    using assms(2,4,5) parse_number [OF assms(3) t] p
    by (subst blk_parse.simps) (auto simp: Let_def set_err_def put_blk_def)
qed

definition run_stored :: "nat \<Rightarrow> nat \<times> nat \<Rightarrow> mem \<Rightarrow> bool" where
  "run_stored j r m \<longleftrightarrow> le32 m (12 + 8 * j) = of_nat (fst r) \<and> le32 m (16 + 8 * j) = of_nat (snd r)"

lemma run_stored_keep: "(\<And>a. a < 20 + 8 * j \<Longrightarrow> m' a = m a) \<Longrightarrow> run_stored j r m' = run_stored j r m"
  by (simp add: run_stored_def le32_def le16_def)

text \<open>The state that parsing \<open>bl\<close> into the entries from \<open>j\<close> on leaves.\<close>

definition parsed :: "nat \<Rightarrow> (nat \<times> nat) list \<Rightarrow> 'm loader \<Rightarrow> 'm loader \<Rightarrow> bool" where
  "parsed j bl s s' \<longleftrightarrow> dsk s' = (dsk s)\<lparr>errnum := ERR_NONE\<rparr> \<and> filemax s' = filemax s + int (blk_total bl * 512) \<and>
     fsys_type s' = num_fsys s \<and> num_fsys s' = num_fsys s \<and> filepos s' = filepos s \<and> fsmax s' = fsmax s \<and>
     cdrom_drive s' = cdrom_drive s \<and>
     (\<forall>i<length bl. run_stored (j + i) (bl ! i) (fsys_buf s')) \<and> (\<forall>a<12 + 8 * j. fsys_buf s' a = fsys_buf s a)"

lemma parsed_one:
  assumes "snd r < 2147483648" 
  shows "parsed j [r] s ((put_blk (12 + 8 * j + 4) (int (snd r)) (put_blk (12 + 8 * j) (int (fst r))
      ((set_err ERR_NONE s)\<lparr>fsys_type := num_fsys s\<rparr>)))\<lparr>filemax := filemax s + int (snd r * 512)\<rparr>)"
  by (simp add: parsed_def run_stored_def put_blk_def mem_simps set_err_def blk_total_def c_ulong_def add.commute)

lemma parsed_Cons:
  assumes "parsed j [r] s s1" "parsed (Suc j) bl s1 s2"
  shows "parsed j (r # bl) s s2"
proof -
  have k: "run_stored j r (fsys_buf s2) = run_stored j r (fsys_buf s1)"
    using assms(2) by (intro run_stored_keep) (simp add: parsed_def)
  have "run_stored (j + i) ((r # bl) ! i) (fsys_buf s2)" if "i < length (r # bl)" for i
    using that assms k by (cases i) (auto simp: parsed_def)
  then show ?thesis
    using assms unfolding parsed_def by (auto simp: blk_total_def add_mult_distrib)
qed

lemma parse_last:
  assumes "cur rest \<noteq> ch CHR '',''" "blk_end rest" "s0 < 2147483648" "0 < n" "8 * j + 20 < 0x7FF9"
    and "filemax s = int F" "F + n * 512 < 2147483648"
  shows "blk_parse (BLK_BLKLIST_START + 8 * int j) (blk_text [(s0, n)] @ rest) s =
      (BLK_BLKLIST_START + 8 * int (Suc j), rest, (put_blk (12 + 8 * j + 4) (int n) (put_blk (12 + 8 * j) (int s0)
      ((set_err ERR_NONE s)\<lparr>fsys_type := num_fsys s\<rparr>)))\<lparr>filemax := filemax s + int (n * 512)\<rparr>)"
proof -
  have a: "nat (BLK_BLKLIST_START + 8 * int j - FSYS_BUF) = 12 + 8 * j" by simp
  have b: "s32 (filemax s + s32 (int n * SECTOR_SIZE)) = filemax s + int (n * 512)"
    using assms(6,7) s32_nat [of "n * 512"] s32_nat [of "F + n * 512"] by simp
  have c: "BLK_BLKLIST_START + 8 * int j < BLK_MAX_ADDR" "n < 2147483648" using assms(5,7) by simp_all
  show ?thesis
    unfolding blk_text.simps append.simps append_assoc
      blk_parse_run [OF assms(3,4) c(2,1) disjI2 [OF assms(2)]] a b Let_def
    using assms(1) by simp
qed

lemma parse_next:
  assumes "s0 < 2147483648" "0 < n" "8 * j + 20 < 0x7FF9" "filemax s = int F" "F + n * 512 < 2147483648"
  shows "blk_parse (BLK_BLKLIST_START + 8 * int j) (blk_text ((s0, n) # b # bl) @ rest) s =
      blk_parse (BLK_BLKLIST_START + 8 * int (Suc j)) (blk_text (b # bl) @ rest)
        ((put_blk (12 + 8 * j + 4) (int n) (put_blk (12 + 8 * j) (int s0)
           ((set_err ERR_NONE s)\<lparr>fsys_type := num_fsys s\<rparr>)))\<lparr>filemax := filemax s + int (n * 512)\<rparr>)"
proof -
  have a: "nat (BLK_BLKLIST_START + 8 * int j - FSYS_BUF) = 12 + 8 * j" by simp
  have b: "s32 (filemax s + s32 (int n * SECTOR_SIZE)) = filemax s + int (n * 512)"
    using assms(4,5) s32_nat [of "n * 512"] s32_nat [of "F + n * 512"] by simp
  have c: "BLK_BLKLIST_START + 8 * int j < BLK_MAX_ADDR" "n < 2147483648" using assms(3,5) by simp_all
  have d: "cur (ch CHR '','' # t) = ch CHR '','' \<or> blk_end (ch CHR '','' # t)" for t by simp
  have e: "BLK_BLKLIST_START + 8 * int j + 8 = BLK_BLKLIST_START + 8 * int (Suc j)" by simp
  show ?thesis
    unfolding blk_text.simps append.simps append_assoc
      blk_parse_run [OF assms(1,2) c(2,1) d] a b Let_def e
    by simp
qed

lemma blk_parse_text:
  assumes "bl \<noteq> []" "blk_end rest" "\<forall>(s, n)\<in>set bl. s < 2147483648 \<and> 0 < n \<and> n < 2147483648"
    and "8 * (j + length bl) + 12 < 0x7FF9" "filemax s = int F" "F + blk_total bl * 512 < 2147483648"
  shows "\<exists>s'. blk_parse (BLK_BLKLIST_START + 8 * int j) (blk_text bl @ rest) s =
      (BLK_BLKLIST_START + 8 * int (j + length bl), rest, s') \<and> parsed j bl s s'"
  using assms
proof (induction bl arbitrary: j s F rule: blk_text.induct)
  case 1
  then show ?case by simp
next
  case (2 s0 n)
  have "cur rest \<noteq> ch CHR '',''" using 2(2) by (auto simp: blk_end_def grub_isspace_def)
  then have "blk_parse (BLK_BLKLIST_START + 8 * int j) (blk_text [(s0, n)] @ rest) s =
      (BLK_BLKLIST_START + 8 * int (Suc j), rest, (put_blk (12 + 8 * j + 4) (int n) (put_blk (12 + 8 * j) (int s0)
      ((set_err ERR_NONE s)\<lparr>fsys_type := num_fsys s\<rparr>)))\<lparr>filemax := filemax s + int (n * 512)\<rparr>)"
    using 2 by (intro parse_last) (simp_all add: blk_total_def)
  then show ?case using parsed_one [of "(s0, n)" j s] 2(3) by simp
next
  case (3 s0 n b bl)
  let ?s1 = "(put_blk (12 + 8 * j + 4) (int n) (put_blk (12 + 8 * j) (int s0)
      ((set_err ERR_NONE s)\<lparr>fsys_type := num_fsys s\<rparr>)))\<lparr>filemax := filemax s + int (n * 512)\<rparr>"
  have t: "blk_total ((s0, n) # b # bl) = n + blk_total (b # bl)" by (simp add: blk_total_def)
  have F: "F + n * 512 < 2147483648" "F + n * 512 + blk_total (b # bl) * 512 < 2147483648"
    using 3(7) unfolding t by (simp_all add: add_mult_distrib)
  have "blk_parse (BLK_BLKLIST_START + 8 * int j) (blk_text ((s0, n) # b # bl) @ rest) s =
      blk_parse (BLK_BLKLIST_START + 8 * int (Suc j)) (blk_text (b # bl) @ rest) ?s1"
    using 3(4,5,6) F(1) by (intro parse_next) simp_all
  moreover obtain s' where "blk_parse (BLK_BLKLIST_START + 8 * int (Suc j)) (blk_text (b # bl) @ rest) ?s1 =
      (BLK_BLKLIST_START + 8 * int (Suc j + length (b # bl)), rest, s')" "parsed (Suc j) (b # bl) ?s1 s'"
    using "3.IH" [of "Suc j" ?s1 "F + n * 512"] 3(3-6) F(2) by auto
  ultimately show ?case
    using parsed_Cons [OF _ \<open>parsed (Suc j) (b # bl) ?s1 s'\<close>, of "(s0, n)"] parsed_one [of "(s0, n)" j s] 3(4) by simp
qed

lemma blk_text_head:
  "bl \<noteq> [] \<Longrightarrow> \<forall>(s, n)\<in>set bl. s < 2147483648 \<Longrightarrow> dec_digit (cur (blk_text bl @ rest)) \<and> blk_text bl \<noteq> []"
proof (cases bl rule: blk_text.cases)
  case (2 s n)
  assume "\<forall>(s, n)\<in>set bl. s < 2147483648"
  then show ?thesis using decimal_head [of s] 2 by auto
next
  case (3 s n b bl')
  assume "\<forall>(s, n)\<in>set bl. s < 2147483648"
  then show ?thesis using decimal_head [of s] 3 by auto
qed simp

lemma parsed_open:
  assumes "parsed 0 bl s s'" "\<forall>(s, n)\<in>set bl. 0 < n"
  shows "cursor bl 0 0 0 (blk_rewind (s'\<lparr>block_file := True\<rparr>))"
  using assms by (intro rewind_cursor) (simp_all add: parsed_def blocks_stored_def run_stored_def)

lemma grub_open_blocks:
  assumes "setup_part env name ((set_err ERR_NONE s)\<lparr>filepos := 0\<rparr>) = Some (Some (blk_text bl @ rest), s1)"
    and "bl \<noteq> []" "blk_end rest" "runs_ok dsize bl"
  shows "\<exists>s'. grub_open env name s = Some (True, s') \<and> cursor bl 0 0 0 s' \<and> block_file s' \<and>
    filemax s' = int (blk_total bl * 512) \<and> fsmax s' = MAXINT \<and> filepos s' = filepos s1 \<and>
    dsk s' = (dsk s1)\<lparr>errnum := ERR_NONE\<rparr> \<and> fsys_type s' = num_fsys s'"
proof -
  have p: "\<forall>(s, n)\<in>set bl. s < 2147483648 \<and> 0 < n \<and> n < 2147483648" "\<forall>(s, n)\<in>set bl. 0 < n" "\<forall>(s, n)\<in>set bl. s < 2147483648"
    and t: "blk_total bl * 512 < 2147483648" "8 * length bl + 12 < 0x7FF9"
  proof -
    have "snd r \<le> blk_total bl" if "r \<in> set bl" for r
      unfolding blk_total_def using that by (intro member_le_sum_list) auto
    then show "\<forall>(s, n)\<in>set bl. s < 2147483648 \<and> 0 < n \<and> n < 2147483648" "\<forall>(s, n)\<in>set bl. 0 < n"
      "\<forall>(s, n)\<in>set bl. s < 2147483648" "blk_total bl * 512 < 2147483648" "8 * length bl + 12 < 0x7FF9"
      using assms(4) by (fastforce simp: runs_ok_def)+
  qed
  have h: "cur (blk_text bl @ rest) \<noteq> ch CHR ''/''" "rest \<noteq> blk_text bl @ rest"
    using blk_text_head [OF assms(2) p(3), of rest] by (auto simp: dec_digit_def)
  let ?s = "s1\<lparr>block_file := False, fsmax := MAXINT, filemax := 0\<rparr>"
  obtain s' where s': "blk_parse (BLK_BLKLIST_START + 8 * int 0) (blk_text bl @ rest) ?s =
      (BLK_BLKLIST_START + 8 * int (0 + length bl), rest, s')" "parsed 0 bl ?s s'"
    using blk_parse_text [OF assms(2,3) p(1), of 0 ?s 0] t by auto
  have "grub_open env name s = Some (True, blk_rewind (s'\<lparr>block_file := True\<rparr>))"
    using assms(1) h s' t by (simp add: grub_open_def parsed_def)
  then show ?thesis
    using parsed_open [OF s'(2) p(2)] s'(2) by (auto simp: parsed_def blk_rewind_def)
qed

lemma setup_part_current:
  assumes "cur name \<noteq> ch CHR ''(''" "cur name \<noteq> ch CHR ''/''" "saved_drive s = current_drive (dsk s)"
    and "saved_partition s = current_partition (dsk s)" "buf_drive (dsk s) \<noteq> - 1" "err s = ERR_NONE"
    and "sane_partition (cdrom_drive s) (current_drive (dsk s)) (current_partition (dsk s))"
  shows "setup_part env name s = Some (Some name, s)"
  using assms by (simp add: setup_part_def set_err_def)

section \<open>Sessions on an open file\<close>

text \<open>One call of a client on the open file.\<close>

inductive file_op :: "'m loader_env \<Rightarrow> 'm loader \<Rightarrow> 'm loader \<Rightarrow> bool" for env where
  seek: "grub_seek pos s = (r, s') \<Longrightarrow> file_op env s s'"
| read: "grub_read env len buf a s = Some (n, buf', s') \<Longrightarrow> file_op env s s'"

context file_device
begin

text \<open>The invariant of an open block list over a device with the contents \<open>d\<close>.\<close>

definition blk_session :: "mem \<Rightarrow> (nat \<times> nat) list \<Rightarrow> 'm loader \<Rightarrow> bool" where
  "blk_session d bl s \<longleftrightarrow> blk_open bl s \<and> content (dsk s) = d \<and> block_file s \<and> fsmax s = MAXINT \<and>
     filemax s = int (blk_total bl * 512) \<and> 0 \<le> filepos s \<and> filepos s \<le> filemax s"

lemma session_read:
  assumes "blk_session d bl s" "devread (ldisk env) = dr"
  shows "\<exists>s'. grub_read env len buf a s =
      (let n = (if len < 0 \<or> len > filemax s - filepos s then filemax s - filepos s else len) in
       Some (n, write_at a (read_at (nat (filepos s)) (nat n) (blk_content d bl)) buf, s')) \<and> blk_session d bl s'"
proof -
  have s: "blk_open bl s" "block_file s" "filemax s = int (blk_total bl * 512)" "fsmax s = MAXINT" "content (dsk s) = d"
    using assms(1) by (simp_all add: blk_session_def)
  obtain f where f: "filepos s = int f" "f \<le> blk_total bl * 512"
    using assms(1) nonneg_eq_int [of "filepos s"] by (auto simp: blk_session_def)
  define n where "n = (if len < 0 \<or> len > int (blk_total bl * 512 - f) then blk_total bl * 512 - f else nat len)"
  have n: "int n = (if len < 0 \<or> len > filemax s - filepos s then filemax s - filepos s else len)"
    using f s(3) by (auto simp: n_def of_nat_diff)
  have nf: "nat (int n) = n" "nat (filepos s) = f" "f + n \<le> blk_total bl * 512"
    using f by (auto simp: n_def)
  have "\<not> (filepos s < 0 \<or> filepos s > int (blk_total bl * 512))" using f by auto
  from grub_read_blocks [OF s(1-3) order_refl s(4) assms(2), where len = len and buf = buf and a = a]
  obtain s' where s': "grub_read env len buf a s = Some (int n, write_at a (read_at f n (blk_content d bl)) buf, s')"
    "blk_open bl s'" "filepos s' = int (f + n)" "content (dsk s') = d" "filemax s' = filemax s"
    "fsmax s' = fsmax s" "block_file s' = block_file s"
    unfolding s(5) if_not_P [OF \<open>\<not> (_ \<or> _)\<close>] nf(2) n_def [symmetric] by blast
  then show ?thesis
    unfolding n [symmetric] Let_def nf(1,2) using s nf(3) by (auto simp: blk_session_def)
qed

lemma session_step:
  assumes "file_op env s s'" "blk_session d bl s" "devread (ldisk env) = dr"
  shows "blk_session d bl s'"
  using assms(1)
proof (cases rule: file_op.cases)
  case (seek pos r)
  then have "s' = s \<or> (0 \<le> pos \<and> pos \<le> filemax s \<and> s' = s\<lparr>filepos := pos\<rparr>)"
    by (auto simp: grub_seek_def split: if_splits)
  then show ?thesis
    using assms(2) by (auto simp: blk_session_def blk_open_def cursor_def BLK_CUR_FILEPOS_def BLK_CUR_BLKLIST_def BLK_CUR_BLKNUM_def)
next
  case (read len buf a n buf')
  then show ?thesis using session_read [OF assms(2,3), of len buf a] by (auto simp: Let_def)
qed

lemma session_steps: "(file_op env)\<^sup>*\<^sup>* s s' \<Longrightarrow> blk_session d bl s \<Longrightarrow> devread (ldisk env) = dr \<Longrightarrow> blk_session d bl s'"
  by (induction rule: rtranclp_induct) (auto intro: session_step)

end

section \<open>Properties\<close>

text \<open>C2: opening the text of a block list makes its sectors, in order, one file: after any sequence of
  seeks and reads the position is inside the file, and the next read delivers the bytes of the
  partition from there on, as many as were asked for and the file has.\<close>

theorem block_list_session:
  assumes "lba_drive fw drive g 9 disk \<or> chs_drive fw drive g 9 disk"
    and "\<And>g0. get_diskinfo fw drive g0 = (0, g)" "drive \<in> {128..<136}" "ldisk env = bios_env fw lr ba sa"
    and "part_ok drive g disk (dsk s)" "buf_drive (dsk s) \<noteq> - 1"
    and "saved_drive s = current_drive (dsk s)" "saved_partition s = current_partition (dsk s)"
    and "sane_partition (cdrom_drive s) (current_drive (dsk s)) (current_partition (dsk s))"
    and "bl \<noteq> []" "runs_ok (part_size (dsk s)) bl" "blk_end rest"
  shows "\<exists>s1. grub_open env (blk_text bl @ rest) s = Some (True, s1) \<and>
    (\<forall>s2. (file_op env)\<^sup>*\<^sup>* s1 s2 \<longrightarrow>
      0 \<le> filepos s2 \<and> filepos s2 \<le> filemax s2 \<and> filemax s2 = int (blk_total bl * 512) \<and>
      (\<forall>len buf a. \<exists>s3. grub_read env len buf a s2 =
        (let n = (if len < 0 \<or> len > filemax s2 - filepos s2 then filemax s2 - filepos s2 else len) in
         Some (n, write_at a (read_at (nat (filepos s2)) (nat n) (blk_content (part_content disk (dsk s)) bl)) buf, s3))))"
proof -
  note r = bios_part [OF assms(1-3), of lr ba sa]
  note f = partition_reader.partition_file [OF r]
  let ?n = "blk_text bl @ rest" and ?s = "(set_err ERR_NONE s)\<lparr>filepos := 0\<rparr>"
  let ?inv = "file_device.blk_session (part_ok drive g disk) (part_content disk) part_size (part_content disk (dsk s)) bl"
  have h: "cur ?n \<noteq> ch CHR ''(''" "cur ?n \<noteq> ch CHR ''/''"
    using blk_text_head [OF assms(10), of rest] assms(11) by (fastforce simp: runs_ok_def dec_digit_def)+
  have e: "err s = ERR_NONE" using assms(5) by (simp add: part_ok_def readable_def)
  then have s: "set_err ERR_NONE s = s" by (simp add: set_err_def)
  have "setup_part env ?n ?s = Some (Some ?n, ?s)"
    using h assms(6-9) e by (intro setup_part_current) (simp_all add: s)
  then obtain s1 where s1: "grub_open env ?n s = Some (True, s1)" "cursor bl 0 0 0 s1" "block_file s1"
    "filemax s1 = int (blk_total bl * 512)" "fsmax s1 = MAXINT" "dsk s1 = dsk s" "filepos s1 = 0"
    using grub_open_blocks [of env ?n s bl rest ?s, OF _ assms(10,12,11)] e by (auto simp: s)
  then have i: "?inv s1"
    using assms(5,11) by (auto simp: file_device.blk_session_def [OF f] file_device.blk_open_def [OF f])
  have d: "devread (ldisk env) = devread (bios_env fw lr ba sa)" using assms(4) by simp
  have inv: "?inv s2" if "(file_op env)\<^sup>*\<^sup>* s1 s2" for s2
    by (rule file_device.session_steps [OF f that i d])
  have "\<exists>s3. grub_read env len buf a s2 =
        (let n = (if len < 0 \<or> len > filemax s2 - filepos s2 then filemax s2 - filepos s2 else len) in
         Some (n, write_at a (read_at (nat (filepos s2)) (nat n) (blk_content (part_content disk (dsk s)) bl)) buf, s3))"
    if "(file_op env)\<^sup>*\<^sup>* s1 s2" for s2 len buf a
    using file_device.session_read [OF f inv [OF that] d, of len buf a] by (auto simp: Let_def)
  moreover have "0 \<le> filepos s2 \<and> filepos s2 \<le> filemax s2 \<and> filemax s2 = int (blk_total bl * 512)"
    if "(file_op env)\<^sup>*\<^sup>* s1 s2" for s2
    using inv [OF that] by (simp add: file_device.blk_session_def [OF f])
  ultimately show ?thesis using s1(1) by blast
qed

theorem block_list_session_witness:
  "let s = start_loader (hd_state\<lparr>buf_drive := 0\<rparr>)\<lparr>saved_drive := 128, saved_partition := 0xFFFFFF\<rparr> in
   \<exists>s1 s2. grub_open hd_loader_env (bs ''2+3,10+1'') s = Some (True, s1) \<and>
     grub_read hd_loader_env 600 (\<lambda>_. 0) 0 (snd (grub_seek 1200 s1)) =
       Some (600, write_at 0 (read_at 1200 600 (blk_content (part_content (\<lambda>m. m) hd_state) [(2, 3), (10, 1)])) (\<lambda>_. 0), s2)"
proof -
  let ?s = "start_loader (hd_state\<lparr>buf_drive := 0\<rparr>)\<lparr>saved_drive := 128, saved_partition := 0xFFFFFF\<rparr>"
  have p: "part_ok 128 (hd_geometry 1) (\<lambda>m. m) (dsk ?s)"
    using hd_part_ok by (simp add: part_ok_def readable_def start_loader_def)
  note l = hd_loader_disk
  have t: "blk_text [(2, 3), (10, 1)] @ [] = bs ''2+3,10+1''"
    by (simp add: decimal_def convert_to_ascii_def Let_def conv_digits.simps reorder.simps digit_char_def)
  have v: "runs_ok (part_size (dsk ?s)) [(2, 3), (10, 1)]" "blk_end []" "buf_drive (dsk ?s) \<noteq> - 1"
    "saved_drive ?s = current_drive (dsk ?s)" "saved_partition ?s = current_partition (dsk ?s)"
    "sane_partition (cdrom_drive ?s) (current_drive (dsk ?s)) (current_partition (dsk ?s))"
    by (simp_all add: runs_ok_def blk_total_def part_size_def start_loader_def hd_state_def blk_end_def sane_partition_def)
  have c: "part_content (\<lambda>m. m) (dsk ?s) = part_content (\<lambda>m. m) hd_state"
    by (simp add: part_content_def start_loader_def)
  let ?Q = "\<lambda>s2. 0 \<le> filepos s2 \<and> filepos s2 \<le> filemax s2 \<and> filemax s2 = int (blk_total [(2, 3), (10, 1)] * 512) \<and>
      (\<forall>len buf a. \<exists>s3. grub_read hd_loader_env len buf a s2 =
        (let n = (if len < 0 \<or> len > filemax s2 - filepos s2 then filemax s2 - filepos s2 else len) in
         Some (n, write_at a (read_at (nat (filepos s2)) (nat n)
           (blk_content (part_content (\<lambda>m. m) hd_state) [(2, 3), (10, 1)])) buf, s3)))"
  obtain s1 where s1: "grub_open hd_loader_env (bs ''2+3,10+1'') ?s = Some (True, s1)"
    and ops: "\<And>s2. (file_op hd_loader_env)\<^sup>*\<^sup>* s1 s2 \<Longrightarrow> ?Q s2"
    using block_list_session [OF disjI1 [OF hd_lba.lba_drive_axioms] hd_probe _ l p v(3-6) _ v(1,2)]
    unfolding t c by auto
  have "filemax s1 = 2048" using ops [of s1] by (simp add: blk_total_def)
  then have k: "grub_seek 1200 s1 = (1200, s1\<lparr>filepos := 1200\<rparr>)" by (simp add: grub_seek_def)
  have "?Q (s1\<lparr>filepos := 1200\<rparr>)"
    using ops file_op.seek [OF k] by blast
  then obtain s3 where "grub_read hd_loader_env 600 (\<lambda>_. 0) 0 (s1\<lparr>filepos := 1200\<rparr>) =
      Some (600, write_at 0 (read_at 1200 600 (blk_content (part_content (\<lambda>m. m) hd_state) [(2, 3), (10, 1)])) (\<lambda>_. 0), s3)"
    using \<open>filemax s1 = 2048\<close> by (fastforce simp: Let_def dest: spec [of _ 600])
  then show ?thesis using s1 by (auto simp: k Let_def)
qed

end
