(* ===== verification/Minix.thy ===== *)
theory Minix
  imports BlockFiles
begin

text \<open>
  The Minix file system driver, \<open>loader/filesys/fsys_minix.c\<close>.  Its buffers lie in \<open>FSYS_BUF\<close>: the super
  block at 0, the inode (and first the block it comes from) at 1024, a block of zone numbers at 1056
  and a block of a directory or of zone numbers at 2080.  The three static variables are entries of
  \<open>drv\<close>.  Device, \<open>grub_read\<close> and the printing of completions are reached through the environment as
  through the pointers of \<open>lip1_t\<close>.
\<close>

section \<open>Layout\<close>

abbreviation (input) SUPERBLOCK :: nat where "SUPERBLOCK \<equiv> 0"
abbreviation (input) INODE :: nat where "INODE \<equiv> 1024"
abbreviation (input) DATABLOCK1 :: nat where "DATABLOCK1 \<equiv> 1056"
abbreviation (input) DATABLOCK2 :: nat where "DATABLOCK2 \<equiv> 2080"
abbreviation (input) BLOCK_SIZE :: int where "BLOCK_SIZE \<equiv> 1024"
abbreviation (input) MINIX_ROOT_INO :: int where "MINIX_ROOT_INO \<equiv> 1"

text \<open>Fields of \<open>struct minix_super_block\<close>, \<open>struct minix_inode\<close> and \<open>struct minix_dir_entry\<close>.\<close>

definition s_imap_blocks :: "mem \<Rightarrow> int" where "s_imap_blocks m = le16 m (SUPERBLOCK + 4)"
definition s_zmap_blocks :: "mem \<Rightarrow> int" where "s_zmap_blocks m = le16 m (SUPERBLOCK + 6)"
definition s_magic :: "mem \<Rightarrow> int" where "s_magic m = le16 m (SUPERBLOCK + 16)"

definition i_mode :: "mem \<Rightarrow> int" where "i_mode m = le16 m INODE"
definition i_size :: "mem \<Rightarrow> u32" where "i_size m = le32 m (INODE + 4)"
definition i_zone :: "mem \<Rightarrow> nat \<Rightarrow> int" where "i_zone m i = le16 m (INODE + 14 + 2 * i)"

definition d_inode :: "mem \<Rightarrow> nat \<Rightarrow> int" where "d_inode m dp = le16 m dp"
definition d_name :: "mem \<Rightarrow> nat \<Rightarrow> nat \<Rightarrow> u8 list" where
  "d_name m dp n = takeWhile (\<lambda>c. c \<noteq> 0) (read_at (dp + 2) n m)"

text \<open>\<open>S_ISLNK\<close>, \<open>S_ISREG\<close> and \<open>S_ISDIR\<close> of \<open>linux/stat.h\<close>, restated in the file.\<close>

definition S_ISLNK :: "int \<Rightarrow> bool" where "S_ISLNK m \<longleftrightarrow> m AND 0xF000 = 0xA000"
definition S_ISREG :: "int \<Rightarrow> bool" where "S_ISREG m \<longleftrightarrow> m AND 0xF000 = 0x8000"
definition S_ISDIR :: "int \<Rightarrow> bool" where "S_ISDIR m \<longleftrightarrow> m AND 0xF000 = 0x4000"

text \<open>The static variables.\<close>

definition mapblock1 :: "'m loader \<Rightarrow> int" where "mapblock1 s = drv s 0"
definition mapblock2 :: "'m loader \<Rightarrow> int" where "mapblock2 s = drv s 1"
definition namelen :: "'m loader \<Rightarrow> int" where "namelen s = drv s 2"

definition set_drv :: "nat \<Rightarrow> int \<Rightarrow> 'm loader \<Rightarrow> 'm loader" where
  "set_drv k v s = s\<lparr>drv := (drv s)(k := v)\<rparr>"

section \<open>Mounting\<close>

text \<open>A read into the file system buffer.\<close>

definition devread_buf :: "'m loader_env \<Rightarrow> int \<Rightarrow> int \<Rightarrow> int \<Rightarrow> nat \<Rightarrow> 'm loader \<Rightarrow> (bool \<times> 'm loader) option" where
  "devread_buf env sector off len a s =
     do {
       (ok, m, d) \<leftarrow> devread (ldisk env) sector off len (fsys_buf s) a (dsk s);
       Some (ok, s\<lparr>fsys_buf := m, dsk := d\<rparr>)
     }"

definition minix_mount :: "'m loader_env \<Rightarrow> 'm loader \<Rightarrow> (bool \<times> 'm loader) option" where
  "minix_mount env s =
     (if part_length (dsk s) < 2 then Some (False, s)
      else do {
        (ok, s) \<leftarrow> devread_buf env 2 0 24 SUPERBLOCK s;
        Some (if \<not> ok then (False, s)
              else if s_magic (fsys_buf s) = 0x137F then (True, set_drv 2 14 s)
              else if s_magic (fsys_buf s) = 0x138F then (True, set_drv 2 30 s)
              else (False, s))
      })"

section \<open>Blocks\<close>

definition minix_rdfsb :: "'m loader_env \<Rightarrow> int \<Rightarrow> nat \<Rightarrow> 'm loader \<Rightarrow> (bool \<times> 'm loader) option" where
  "minix_rdfsb env fsblock buffer s = devread_buf env (s32 (fsblock * 2)) 0 BLOCK_SIZE buffer s"

text \<open>A block of zone numbers, through the buffer \<open>a\<close> that holds it already when \<open>cached\<close>.\<close>

definition zone_block :: "'m loader_env \<Rightarrow> int \<Rightarrow> bool \<Rightarrow> nat \<Rightarrow> 'm loader \<Rightarrow> (bool \<times> 'm loader) option" where
  "zone_block env i cached a s =
     do {
       (ok, s) \<leftarrow> (if i = 0 then Some (False, s) else if cached then Some (True, s) else minix_rdfsb env i a s);
       Some (ok, if ok then s else set_err ERR_FSYS_CORRUPT s)
     }"

text \<open>The result \<open>- 1\<close> comes with \<open>ERR_FSYS_CORRUPT\<close>.  A negative block would read before the zone numbers.\<close>

definition minix_block_map :: "'m loader_env \<Rightarrow> int \<Rightarrow> 'm loader \<Rightarrow> (int \<times> 'm loader) option" where
  "minix_block_map env logical_block s =
     (if logical_block < 0 then None
      else if logical_block < 7 then Some (i_zone (fsys_buf s) (nat logical_block), s)
      else if logical_block - 7 < 512
      then do {
        (ok, s) \<leftarrow> zone_block env (i_zone (fsys_buf s) 7) (mapblock1 s = 1) DATABLOCK1 s;
        if \<not> ok then Some (- 1, s)
        else let s = set_drv 0 1 s in
             Some (le16 (fsys_buf s) (DATABLOCK1 + 2 * nat (logical_block - 7)), s)
      }
      else
        let lb = logical_block - 7 - 512 in
        do {
          (ok, s) \<leftarrow> zone_block env (i_zone (fsys_buf s) 8) (mapblock1 s = 2) DATABLOCK1 s;
          if \<not> ok then Some (- 1, s)
          else do {
            let s = set_drv 0 2 s;
            let i = le16 (fsys_buf s) (DATABLOCK1 + 2 * nat (drop_bit 9 lb));
            (ok, s) \<leftarrow> zone_block env i (mapblock2 s = i) DATABLOCK2 s;
            if \<not> ok then Some (- 1, s)
            else let s = set_drv 1 i s in
                 Some (le16 (fsys_buf s) (DATABLOCK2 + 2 * nat (lb AND 511)), s)
          }
        })"

section \<open>Reading\<close>

partial_function (option) minix_read_loop ::
  "'m loader_env \<Rightarrow> int \<Rightarrow> int \<Rightarrow> mem \<Rightarrow> nat \<Rightarrow> 'm loader \<Rightarrow> (int \<times> mem \<times> 'm loader) option" where
  "minix_read_loop env len ret buf a s =
     (if \<not> len > 0 then Some (ret, buf, s)
      else do {
        let offset = filepos s AND (BLOCK_SIZE - 1);
        (zone, s) \<leftarrow> minix_block_map env (drop_bit 10 (filepos s)) s;
        if zone < 0 then Some (ret, buf, s)
        else do {
          let sz = (if BLOCK_SIZE - offset > len then len else BLOCK_SIZE - offset);
          (_, buf, d) \<leftarrow> devread (ldisk env) (s32 (zone * 2)) offset sz buf a
                           ((dsk s)\<lparr>disk_read_func := disk_read_hook s\<rparr>);
          let s = s\<lparr>dsk := d\<lparr>disk_read_func := False\<rparr>, filepos := s32 (filepos s + sz)\<rparr>;
          minix_read_loop env (len - sz) (ret + sz) buf (a + nat sz) s
        }
      })"

definition minix_read :: "'m loader_env \<Rightarrow> int \<Rightarrow> mem \<Rightarrow> nat \<Rightarrow> 'm loader \<Rightarrow> (int \<times> mem \<times> 'm loader) option" where
  "minix_read env len buf a s =
     do { (ret, buf, s) \<leftarrow> minix_read_loop env len 0 buf a s; Some (if err s \<noteq> ERR_NONE then 0 else ret, buf, s) }"

section \<open>Looking up a name\<close>

text \<open>Get an inode to its fixed place and forget the zone blocks (the start of the outer loop).\<close>

definition minix_get_inode :: "'m loader_env \<Rightarrow> int \<Rightarrow> 'm loader \<Rightarrow> (bool \<times> 'm loader) option" where
  "minix_get_inode env ino s =
     do {
       let blk = 2 + s_imap_blocks (fsys_buf s) + s_zmap_blocks (fsys_buf s) + (ino - 1) div 32;
       (ok, s) \<leftarrow> minix_rdfsb env blk INODE s;
       if \<not> ok then Some (False, s)
       else
         let s = set_drv 0 (- 1) (set_drv 1 (- 1) s);
             raw = INODE + 32 * nat ((ino - 1) mod 32)
         in Some (True, s\<lparr>fsys_buf := write_at INODE (read_at raw 32 (fsys_buf s)) (fsys_buf s)\<rparr>)
     }"

definition name_end :: "u8 \<Rightarrow> bool" where
  "name_end c \<longleftrightarrow> c = 0 \<or> grub_isspace (sint c)"

text \<open>
  The inner loop over the entries of the directory in \<open>INODE\<close>; \<open>word\<close> is the name looked for, \<open>c\<close> the
  character behind it, \<open>str_chk\<close> the last comparison.  \<open>Inl\<close> is a return of \<open>minix_dir\<close>, \<open>Inr\<close> the inode
  of the entry found.  The byte behind an entry's name is saved and restored around its use, so the
  buffer does not change; so is the byte behind the word, except that after printing completions the
  caller's string stays cut there (the model returns no string).
\<close>

partial_function (option) minix_scan ::
  "'m loader_env \<Rightarrow> u8 list \<Rightarrow> u8 \<Rightarrow> int \<Rightarrow> int \<Rightarrow> 'm loader \<Rightarrow> ((bool + int) \<times> 'm loader) option" where
  "minix_scan env word c loc str_chk s =
     (if c_ulong loc \<ge> i_size (fsys_buf s)
      then Some (if print_possibilities s < 0 then (Inl True, s)
                 else (Inl False, set_err ERR_FILE_NOT_FOUND s))
      else do {
        (zone, s) \<leftarrow> minix_block_map env (drop_bit 10 loc) s;
        let s = set_drv 1 (- 1) s;
        (ok, s) \<leftarrow> (if zone < 0 then Some (False, s) else minix_rdfsb env zone DATABLOCK2 s);
        if \<not> ok then Some (Inl False, set_err ERR_FSYS_CORRUPT s)
        else
          let dp = DATABLOCK2 + nat (loc AND (BLOCK_SIZE - 1));
              ino = d_inode (fsys_buf s) dp;
              name = d_name (fsys_buf s) dp (nat (namelen s));
              str_chk = (if ino \<noteq> 0 then str_prefix word name else str_chk);
              s = (if ino \<noteq> 0 \<and> print_possibilities s \<noteq> 0 \<and> c \<noteq> ch CHR ''/'' \<and> (word = [] \<or> str_chk \<le> 0)
                   then print_a_completion name
                          (if print_possibilities s > 0 then s\<lparr>print_possibilities := - print_possibilities s\<rparr> else s)
                   else s)
          in if ino = 0 \<or> str_chk \<noteq> 0 \<or> (print_possibilities s \<noteq> 0 \<and> c \<noteq> ch CHR ''/'')
             then minix_scan env word c (loc + 2 + namelen s) str_chk s
             else Some (Inr ino, s)
      })"

text \<open>
  A symbolic link: its text, with the rest of the name behind it, becomes the name.  \<open>lb\<close> is \<open>linkbuf\<close>.
  \<open>None\<close> inside is the return with 0.
\<close>

definition minix_link ::
  "(int \<Rightarrow> mem \<Rightarrow> nat \<Rightarrow> 'm loader \<Rightarrow> (int \<times> mem \<times> 'm loader) option) \<Rightarrow> u8 list \<Rightarrow> mem \<Rightarrow> 'm loader
   \<Rightarrow> ((u8 list \<times> mem) option \<times> 'm loader) option" where
  "minix_link gread dirname lb s =
     (let name = takeWhile (\<lambda>c. \<not> name_end c) dirname;
          s = s\<lparr>filemax := c_int (i_size (fsys_buf s))\<rparr>
      in if c_ulong (filemax s + int (length name)) > 1022
         then Some (None, set_err ERR_FILELENGTH s)
         else do {
           let e = nat (filemax s) + length name;
           (n, lb, s) \<leftarrow> (if filemax s < 0 then None
                          else gread (filemax s) ((write_at (nat (filemax s)) name lb)(e := 0)) 0 s);
           let s = s\<lparr>filepos := 0\<rparr>;
           if n = 0 then Some (None, s)
           else Some (Some (takeWhile (\<lambda>c. c \<noteq> 0) (read_at 0 1024 lb), lb), s)
         })"

partial_function (option) minix_walk ::
  "'m loader_env \<Rightarrow> (int \<Rightarrow> mem \<Rightarrow> nat \<Rightarrow> 'm loader \<Rightarrow> (int \<times> mem \<times> 'm loader) option) \<Rightarrow>
   int \<Rightarrow> int \<Rightarrow> nat \<Rightarrow> u8 list \<Rightarrow> mem \<Rightarrow> 'm loader \<Rightarrow> (bool \<times> 'm loader) option" where
  "minix_walk env gread ino updir links dirname lb s =
     do {
       (ok, s) \<leftarrow> minix_get_inode env ino s;
       if \<not> ok then Some (False, s)
       else if S_ISLNK (i_mode (fsys_buf s))
       then if links + 1 > 5 then Some (False, set_err ERR_SYMLINK_LOOP s)
            else do {
              (r, s) \<leftarrow> minix_link gread dirname lb s;
              case r of
                None \<Rightarrow> Some (False, s)
              | Some (dirname, lb) \<Rightarrow>
                  if cur dirname = ch CHR ''/''
                  then minix_walk env gread MINIX_ROOT_INO MINIX_ROOT_INO (links + 1) dirname lb s
                  else minix_walk env gread updir updir (links + 1) dirname lb s
            }
       else if name_end (cur dirname)
       then Some (if \<not> S_ISREG (i_mode (fsys_buf s)) then (False, set_err ERR_BAD_FILETYPE s)
                  else (True, s\<lparr>filemax := c_int (i_size (fsys_buf s))\<rparr>))
       else
         let dirname = dropWhile (\<lambda>c. c = ch CHR ''/'') dirname in
         if i_size (fsys_buf s) = 0 \<or> \<not> S_ISDIR (i_mode (fsys_buf s))
         then Some (False, set_err ERR_BAD_FILETYPE s)
         else do {
           let word = takeWhile (\<lambda>c. \<not> name_end c \<and> c \<noteq> ch CHR ''/'') dirname;
           let rest = dropWhile (\<lambda>c. \<not> name_end c \<and> c \<noteq> ch CHR ''/'') dirname;
           (r, s) \<leftarrow> minix_scan env word (cur rest) 0 0 s;
           case r of
             Inl ok \<Rightarrow> Some (ok, s)
           | Inr ino' \<Rightarrow> minix_walk env gread ino' ino links rest lb s
         }
     }"

definition minix_dir ::
  "'m loader_env \<Rightarrow> (int \<Rightarrow> mem \<Rightarrow> nat \<Rightarrow> 'm loader \<Rightarrow> (int \<times> mem \<times> 'm loader) option) \<Rightarrow> mem \<Rightarrow>
   u8 list \<Rightarrow> 'm loader \<Rightarrow> (bool \<times> 'm loader) option" where
  "minix_dir env gread lb dirname s = minix_walk env gread MINIX_ROOT_INO MINIX_ROOT_INO 0 dirname lb s"

text \<open>The environment of the file layer with this driver loaded: \<open>init\<close> of \<open>fsys.c\<close> sets these entry points
  and no \<open>close\<close>, and \<open>pgrub_read\<close> comes back to \<open>grub_read\<close>.\<close>

definition minix_env :: "mem \<Rightarrow> 'm loader_env \<Rightarrow> 'm loader_env" where
  "minix_env lb env = env\<lparr>fs_mount := minix_mount env, fs_read := minix_read env, fs_close := Some,
     fs_dir := minix_dir env (grub_read (env\<lparr>fs_read := minix_read env\<rparr>)) lb\<rparr>"

end
