(* ===== verification/MinixFiles.thy ===== *)
theory MinixFiles
  imports Minix
begin

text \<open>
  The Minix driver, reading: a zone map as the specification, the contract of \<open>minix_block_map\<close> with its
  two cached blocks, and the contract of \<open>minix_read\<close>, both over any \<open>file_device\<close>.
\<close>

section \<open>A file on the disk\<close>

text \<open>Zone numbers of the inode at \<open>INODE\<close> of \<open>m\<close>, and in the zone blocks of the partition \<open>d\<close>.\<close>

definition inode_zone :: "mem \<Rightarrow> nat \<Rightarrow> nat" where
  "inode_zone m i = nat (i_zone m i)"

definition zone_in :: "mem \<Rightarrow> nat \<Rightarrow> nat \<Rightarrow> nat" where
  "zone_in d b j = nat (le16 d (b * 1024 + 2 * j))"

text \<open>
  The zone of block \<open>lb\<close> of the file: seven direct zones, 512 through zone 7 and 512 times 512 through
  zone 8.  \<open>None\<close> is a missing block of zone numbers.
\<close>

definition file_zone :: "mem \<Rightarrow> mem \<Rightarrow> nat \<Rightarrow> nat option" where
  "file_zone d m lb =
     (if lb < 7 then Some (inode_zone m lb)
      else if lb < 519 then (if inode_zone m 7 = 0 then None else Some (zone_in d (inode_zone m 7) (lb - 7)))
      else if inode_zone m 8 = 0 then None
      else let i = zone_in d (inode_zone m 8) ((lb - 519) div 512) in
           if i = 0 then None else Some (zone_in d i ((lb - 519) mod 512)))"

definition zone_inside :: "nat \<Rightarrow> nat \<Rightarrow> bool" where
  "zone_inside sz z \<longleftrightarrow> (z + 1) * 1024 \<le> sz"

text \<open>The block exists, and it and the blocks of zone numbers on the way to it are inside the partition.\<close>

definition block_ok :: "nat \<Rightarrow> mem \<Rightarrow> mem \<Rightarrow> nat \<Rightarrow> bool" where
  "block_ok sz d m lb \<longleftrightarrow> lb < 519 + 262144 \<and>
     (case file_zone d m lb of None \<Rightarrow> False | Some z \<Rightarrow> zone_inside sz z) \<and>
     (7 \<le> lb \<and> lb < 519 \<longrightarrow> zone_inside sz (inode_zone m 7)) \<and>
     (519 \<le> lb \<longrightarrow> zone_inside sz (inode_zone m 8) \<and>
        zone_inside sz (zone_in d (inode_zone m 8) ((lb - 519) div 512)))"

definition minix_file :: "mem \<Rightarrow> mem \<Rightarrow> mem" where
  "minix_file d m = (\<lambda>p. d (the (file_zone d m (p div 1024)) * 1024 + p mod 1024))"

text \<open>The two buffers hold the blocks that the static variables say.\<close>

definition zone_cache :: "mem \<Rightarrow> 'm loader \<Rightarrow> bool" where
  "zone_cache d s \<longleftrightarrow>
     (mapblock1 s = 1 \<longrightarrow> read_at DATABLOCK1 1024 (fsys_buf s) = read_at (inode_zone (fsys_buf s) 7 * 1024) 1024 d) \<and>
     (mapblock1 s = 2 \<longrightarrow> read_at DATABLOCK1 1024 (fsys_buf s) = read_at (inode_zone (fsys_buf s) 8 * 1024) 1024 d) \<and>
     (0 < mapblock2 s \<longrightarrow> read_at DATABLOCK2 1024 (fsys_buf s) = read_at (nat (mapblock2 s) * 1024) 1024 d)"

definition same_names :: "'m loader \<Rightarrow> 'm loader \<Rightarrow> bool" where
  "same_names s s' \<longleftrightarrow> (\<forall>a<1056. fsys_buf s' a = fsys_buf s a) \<and> filepos s' = filepos s \<and> filemax s' = filemax s \<and>
     fsmax s' = fsmax s \<and> print_possibilities s' = print_possibilities s \<and> namelen s' = namelen s \<and>
     disk_read_hook s' = disk_read_hook s \<and> fsys_type s' = fsys_type s \<and> num_fsys s' = num_fsys s \<and>
     block_file s' = block_file s \<and> saved_drive s' = saved_drive s \<and> saved_partition s' = saved_partition s \<and>
     cdrom_drive s' = cdrom_drive s \<and> filetab_ptr s' = filetab_ptr s"

lemma same_names_refl [simp]: "same_names s s"
  by (simp add: same_names_def)

lemma same_names_trans: "same_names s s' \<Longrightarrow> same_names s' s'' \<Longrightarrow> same_names s s''"
  by (simp add: same_names_def)

text \<open>What a lookup leaves alone: the super block and the settings.\<close>

definition same_super :: "'m loader \<Rightarrow> 'm loader \<Rightarrow> bool" where
  "same_super s s' \<longleftrightarrow> read_at 0 24 (fsys_buf s') = read_at 0 24 (fsys_buf s) \<and> filepos s' = filepos s \<and>
     fsmax s' = fsmax s \<and> print_possibilities s' = print_possibilities s \<and> namelen s' = namelen s \<and>
     disk_read_hook s' = disk_read_hook s \<and> fsys_type s' = fsys_type s \<and> num_fsys s' = num_fsys s \<and>
     block_file s' = block_file s \<and> saved_drive s' = saved_drive s \<and> saved_partition s' = saved_partition s \<and>
     cdrom_drive s' = cdrom_drive s \<and> filetab_ptr s' = filetab_ptr s"

lemma same_super_trans: "same_super s s' \<Longrightarrow> same_super s' s'' \<Longrightarrow> same_super s s''"
  by (simp add: same_super_def)

lemma same_names_super: "same_names s s' \<Longrightarrow> same_super s s'"
  by (auto simp: same_names_def same_super_def intro: read_at_cong)

lemma same_super_simps [simp]:
  "same_super s s" "same_super s (set_err e s') = same_super s s'"
  "same_super s (s'\<lparr>filemax := n\<rparr>) = same_super s s'"
  by (simp_all add: same_super_def set_err_def namelen_def)

lemma i_zone_nat: "i_zone m i = int (inode_zone m i)"
  using le16_range(1) [of m] by (simp add: inode_zone_def i_zone_def)

definition same_inode :: "mem \<Rightarrow> mem \<Rightarrow> bool" where
  "same_inode m m' \<longleftrightarrow> (\<forall>a\<in>{1024..<1056}. m a = m' a)"

lemma same_names_inode: "same_names s s' \<Longrightarrow> same_inode (fsys_buf s') (fsys_buf s)"
  by (simp add: same_names_def same_inode_def)

lemma inode_zone_cong: "i < 9 \<Longrightarrow> same_inode m m' \<Longrightarrow> inode_zone m i = inode_zone m' i"
  by (simp add: inode_zone_def i_zone_def le16_def same_inode_def)

lemma le16_read_at:
  assumes "read_at a n m = read_at b n d" "i + 1 < n"
  shows "le16 m (a + i) = le16 d (b + i)"
proof -
  have "m (a + j) = d (b + j)" if "j < n" for j
    using arg_cong [OF assms(1), of "\<lambda>xs. xs ! j"] that by simp
  from this [of i] this [of "i + 1"] show ?thesis using assms(2) by (simp add: le16_def)
qed

lemma le32_read_at:
  assumes "read_at a n m = read_at b n d" "i + 3 < n"
  shows "le32 m (a + i) = le32 d (b + i)"
proof -
  have "m (a + j) = d (b + j)" if "j < n" for j
    using arg_cong [OF assms(1), of "\<lambda>xs. xs ! j"] that by simp
  from this [of i] this [of "i + 1"] this [of "i + 2"] this [of "i + 3"] show ?thesis
    using assms(2) by (simp add: le32_def le16_def add.assoc numeral_3_eq_3 numeral_2_eq_2)
qed

lemma file_zone_cong: "same_inode m m' \<Longrightarrow> file_zone d m lb = file_zone d m' lb"
  using inode_zone_cong [of _ m m'] by (simp add: file_zone_def)

lemma block_ok_cong: "same_inode m m' \<Longrightarrow> block_ok sz d m lb = block_ok sz d m' lb"
  using inode_zone_cong [of 7 m m'] inode_zone_cong [of 8 m m'] file_zone_cong [of m m'] by (simp add: block_ok_def)

lemma minix_file_cong: "same_inode m m' \<Longrightarrow> minix_file d m = minix_file d m'"
  using file_zone_cong [of m m'] by (simp add: minix_file_def)

text \<open>The blocks of the \<open>n\<close> bytes from \<open>f\<close>.\<close>

definition blocks_ok :: "nat \<Rightarrow> mem \<Rightarrow> mem \<Rightarrow> nat \<Rightarrow> nat \<Rightarrow> bool" where
  "blocks_ok sz d m f n \<longleftrightarrow> (\<forall>lb\<in>{f div 1024..<(f + n + 1023) div 1024}. block_ok sz d m lb)"

lemma blocks_ok_first:
  assumes "blocks_ok sz d m f n" "0 < n"
  shows "block_ok sz d m (f div 1024)" "f + n \<le> 262663 * 1024"
proof -
  have less_mult_of_div_less: "x < y * 1024" if "x div 1024 < y" for x y :: nat
    using that by (simp add: div_less_iff_less_mult)
  have "f div 1024 < (f + n + 1023) div 1024" using assms(2) by (simp add: div_less_iff_less_mult less_eq_div_iff_mult_less_eq Suc_le_eq [symmetric])
  then have i: "f div 1024 \<in> {f div 1024..<(f + n + 1023) div 1024}"
    "(f + n + 1023) div 1024 - 1 \<in> {f div 1024..<(f + n + 1023) div 1024}" by auto
  show "block_ok sz d m (f div 1024)" using assms(1) i(1) unfolding blocks_ok_def by blast
  have "block_ok sz d m ((f + n + 1023) div 1024 - 1)" using assms(1) i(2) unfolding blocks_ok_def by blast
  then have "(f + n + 1023) div 1024 - 1 < 262663" unfolding block_ok_def by linarith
  then have "(f + n + 1023) div 1024 \<le> 262663" by linarith
  then have "f + n + 1023 < 262664 * 1024" using less_mult_of_div_less [of "f + n + 1023" 262664] by simp
  then show "f + n \<le> 262663 * 1024" by simp
qed

lemma blocks_ok_rest:
  "blocks_ok sz d m f n \<Longrightarrow> k \<le> n \<Longrightarrow> blocks_ok sz d m (f + k) (n - k)"
  unfolding blocks_ok_def by (auto dest: order_trans [OF div_le_mono [of f "f + k" 1024], rotated])

lemma blocks_ok_mono:
  assumes "blocks_ok sz d m f n" "f \<le> p" "p + k \<le> f + n" shows "blocks_ok sz d m p k"
proof -
  have "f div 1024 \<le> p div 1024" "(p + k + 1023) div 1024 \<le> (f + n + 1023) div 1024"
    using assms(2,3) by (simp_all add: div_le_mono)
  then show ?thesis using assms(1) unfolding blocks_ok_def by auto
qed

lemma read_zone:
  assumes "file_zone d m (f div 1024) = Some z" "n + f mod 1024 \<le> 1024"
  shows "read_at (z * 1024 + f mod 1024) n d = read_at f n (minix_file d m)"
proof (rule nth_equalityI)
  fix j assume "j < length (read_at (z * 1024 + f mod 1024) n d)"
  then have j: "j < n" by simp
  define r q where rq: "r = f mod 1024" "q = f div 1024"
  have f: "f + j = (r + j) + q * 1024" unfolding rq by simp
  have "r + j < 1024" using j assms(2) by (simp add: rq)
  then have "(f + j) div 1024 = q" "(f + j) mod 1024 = r + j" unfolding f div_mult_self1 mod_mult_self1 by simp_all
  then show "read_at (z * 1024 + f mod 1024) n d ! j = read_at f n (minix_file d m) ! j"
    using j assms(1) by (simp add: minix_file_def rq add.assoc)
qed simp

lemma zone_range: "inode_zone m i < 65536" "zone_in d b j < 65536"
  using le16_range(2) [of m "1024 + 14 + 2 * i"] le16_range(2) [of d "b * 1024 + 2 * j"]
  by (simp_all add: inode_zone_def i_zone_def zone_in_def nat_less_iff le16_range)

lemma set_drv_simps [simp]:
  "fsys_buf (set_drv k v s) = fsys_buf s" "dsk (set_drv k v s) = dsk s" "drv (set_drv k v s) = (drv s)(k := v)"
  "filepos (set_drv k v s) = filepos s" "filemax (set_drv k v s) = filemax s" "fsmax (set_drv k v s) = fsmax s"
  "print_possibilities (set_drv k v s) = print_possibilities s" "disk_read_hook (set_drv k v s) = disk_read_hook s"
  "fsys_type (set_drv k v s) = fsys_type s" "num_fsys (set_drv k v s) = num_fsys s" "block_file (set_drv k v s) = block_file s"
  "saved_drive (set_drv k v s) = saved_drive s" "saved_partition (set_drv k v s) = saved_partition s"
  "cdrom_drive (set_drv k v s) = cdrom_drive s" "filetab_ptr (set_drv k v s) = filetab_ptr s"
  by (simp_all add: set_drv_def)

lemma same_names_drv [simp]: "k \<noteq> 2 \<Longrightarrow> same_names s (set_drv k v s') = same_names s s'"
  by (simp add: same_names_def namelen_def)

lemma and_1023: "int n AND 1023 = int (n mod 1024)"
  using take_bit_eq_mask [of 10 "int n"] by (simp add: take_bit_eq_mod mask_eq_exp_minus_1 zmod_int)

section \<open>The driver over a device\<close>

locale fs_device = file_device dr dev_ok content dev_size
  for dr :: "int \<Rightarrow> int \<Rightarrow> int \<Rightarrow> mem \<Rightarrow> nat \<Rightarrow> 'm disk_state \<Rightarrow> (bool \<times> mem \<times> 'm disk_state) option"
    and dev_ok :: "'m disk_state \<Rightarrow> bool"
    and content :: "'m disk_state \<Rightarrow> mem"
    and dev_size :: "'m disk_state \<Rightarrow> nat" +
  fixes env :: "'m loader_env"
  assumes env_devread: "devread (ldisk env) = dr"
begin

text \<open>The device is still fit for use and has the same contents.\<close>

definition same_dev :: "'m loader \<Rightarrow> 'm loader \<Rightarrow> bool" where
  "same_dev s s' \<longleftrightarrow> dev_ok (dsk s') \<and> content (dsk s') = content (dsk s) \<and> dev_size (dsk s') = dev_size (dsk s)"

lemma same_dev_trans: "same_dev s s' \<Longrightarrow> same_dev s' s'' \<Longrightarrow> same_dev s s''"
  by (simp add: same_dev_def)

lemma same_dev_refl: "dev_ok (dsk s) \<Longrightarrow> same_dev s s"
  by (simp add: same_dev_def)

lemma same_dev_cong: "dsk s' = dsk s'' \<Longrightarrow> same_dev s s' = same_dev s s''"
  by (simp add: same_dev_def)

lemma read_buf_ok:
  assumes "dev_ok (dsk s)" "0 < l" "sec * 512 + off + l \<le> dev_size (dsk s)" "off + l + 512 \<le> 2147483648"
  shows "\<exists>d. devread_buf env (int sec) (int off) (int l) a s =
      Some (True, s\<lparr>fsys_buf := write_at a (read_at (sec * 512 + off) l (content (dsk s))) (fsys_buf s), dsk := d\<rparr>) \<and>
    dev_ok d \<and> content d = content (dsk s) \<and> dev_size d = dev_size (dsk s)"
  using dev_read [OF assms, of "fsys_buf s" a] by (auto simp: devread_buf_def env_devread)

lemma rdfsb_ok:
  assumes "dev_ok (dsk s)" "zone_inside (dev_size (dsk s)) z" "z < 1000000"
  shows "\<exists>s'. minix_rdfsb env (int z) a s = Some (True, s') \<and> same_dev s s' \<and>
    fsys_buf s' = write_at a (read_at (z * 1024) 1024 (content (dsk s))) (fsys_buf s) \<and> drv s' = drv s \<and>
    (1056 \<le> a \<longrightarrow> same_names s s') \<and> (1024 \<le> a \<longrightarrow> same_super s s')"
proof -
  have e: "z * 2 * 512 + 0 = z * 1024" by simp
  have "s32 (int z * 2) = int (z * 2)" using s32_nat [of "z * 2"] assms(3) by simp
  moreover obtain d where "devread_buf env (int (z * 2)) (int 0) (int 1024) a s =
      Some (True, s\<lparr>fsys_buf := write_at a (read_at (z * 1024) 1024 (content (dsk s))) (fsys_buf s), dsk := d\<rparr>)"
    "dev_ok d" "content d = content (dsk s)" "dev_size d = dev_size (dsk s)"
    using read_buf_ok [OF assms(1), of 1024 "z * 2" 0 a] assms(2) unfolding e by (auto simp: zone_inside_def)
  ultimately show ?thesis
    by (simp add: minix_rdfsb_def same_dev_def same_names_def same_super_def namelen_def mem_simps)
qed

text \<open>What a transfer to the buffer at \<open>a\<close> leaves alone.\<close>

definition buf_frame :: "nat \<Rightarrow> 'm loader \<Rightarrow> 'm loader \<Rightarrow> bool" where
  "buf_frame a s s' \<longleftrightarrow> drv s' = drv s \<and>
     (\<forall>b n. b + n \<le> a \<or> a + 1024 \<le> b \<longrightarrow> read_at b n (fsys_buf s') = read_at b n (fsys_buf s))"

lemma zone_block_ok:
  assumes "dev_ok (dsk s)" "i \<noteq> 0" "zone_inside (dev_size (dsk s)) i" "i < 65536" "1056 \<le> a"
    and "c \<Longrightarrow> read_at a 1024 (fsys_buf s) = read_at (i * 1024) 1024 (content (dsk s))"
  shows "\<exists>s'. zone_block env (int i) c a s = Some (True, s') \<and> same_dev s s' \<and> same_names s s' \<and> buf_frame a s s' \<and>
    read_at a 1024 (fsys_buf s') = read_at (i * 1024) 1024 (content (dsk s))"
proof (cases c)
  case True
  then have "zone_block env (int i) c a s = Some (True, s)" using assms(2) by (simp add: zone_block_def)
  then show ?thesis using assms(1,6) True by (auto simp: same_dev_refl buf_frame_def)
next
  case False
  obtain s' where s': "minix_rdfsb env (int i) a s = Some (True, s')" "same_dev s s'"
    "fsys_buf s' = write_at a (read_at (i * 1024) 1024 (content (dsk s))) (fsys_buf s)" "drv s' = drv s" "same_names s s'"
    using rdfsb_ok [OF assms(1,3), of a] assms(4,5) by auto
  have "read_at a 1024 (fsys_buf s') = read_at (i * 1024) 1024 (content (dsk s))"
    using read_write_same [of a "read_at (i * 1024) 1024 (content (dsk s))" "fsys_buf s"] s'(3) by simp
  moreover have "buf_frame a s s'"
    using s'(3,4) by (auto simp: buf_frame_def read_write_outside)
  moreover have "zone_block env (int i) c a s = Some (True, s')"
    using s'(1) False assms(2) by (simp add: zone_block_def)
  ultimately show ?thesis using s'(2,5) by blast
qed

lemma block_map_ok:
  assumes dev: "dev_ok (dsk s)" and cache: "zone_cache (content (dsk s)) s"
    and ok: "block_ok (dev_size (dsk s)) (content (dsk s)) (fsys_buf s) lb"
  shows "\<exists>s'. minix_block_map env (int lb) s = Some (int (the (file_zone (content (dsk s)) (fsys_buf s) lb)), s') \<and>
    same_dev s s' \<and> same_names s s' \<and> zone_cache (content (dsk s)) s'"
proof -
  let ?d = "content (dsk s)" and ?m = "fsys_buf s"
  consider "lb < 7" | "7 \<le> lb" "lb < 519" | "519 \<le> lb" by linarith
  then show ?thesis
  proof cases
    case 1
    then have "minix_block_map env (int lb) s = Some (int (the (file_zone ?d ?m lb)), s)"
      by (simp add: minix_block_map_def file_zone_def i_zone_nat)
    then show ?thesis using dev cache same_dev_refl same_names_refl by blast
  next
    case 2
    then have z: "inode_zone ?m 7 \<noteq> 0" "zone_inside (dev_size (dsk s)) (inode_zone ?m 7)"
      using ok by (auto simp: block_ok_def file_zone_def split: if_splits)
    obtain s' where s': "zone_block env (int (inode_zone ?m 7)) (mapblock1 s = 1) DATABLOCK1 s = Some (True, s')"
      "same_dev s s'" "same_names s s'" "buf_frame DATABLOCK1 s s'"
      "read_at DATABLOCK1 1024 (fsys_buf s') = read_at (inode_zone ?m 7 * 1024) 1024 ?d"
      using zone_block_ok [OF dev z(1,2) zone_range(1) order_refl, of "mapblock1 s = 1"] cache by (auto simp: zone_cache_def)
    have e: "le16 (fsys_buf s') (DATABLOCK1 + 2 * (lb - 7)) = int (zone_in ?d (inode_zone ?m 7) (lb - 7))"
      using le16_read_at [OF s'(5), of "2 * (lb - 7)"] 2 le16_range by (simp add: zone_in_def)
    have c: "\<not> int lb < 0" "\<not> int lb < 7" "int lb - 7 < 512" "nat (int lb - 7) = lb - 7"
      using 2 by auto
    have "minix_block_map env (int lb) s = Some (int (zone_in ?d (inode_zone ?m 7) (lb - 7)), set_drv 0 1 s')"
      unfolding minix_block_map_def i_zone_nat
      by (simp only: c if_False if_True s'(1) bind.bind_lunit prod.case Let_def not_True_eq_False set_drv_simps e)
    moreover have "file_zone ?d ?m lb = Some (zone_in ?d (inode_zone ?m 7) (lb - 7))"
      using 2 z(1) by (simp add: file_zone_def)
    moreover have "zone_cache ?d (set_drv 0 1 s')"
      using cache s'(3,4,5) inode_zone_cong [OF _ same_names_inode [OF s'(3)]]
      by (simp add: zone_cache_def mapblock1_def mapblock2_def buf_frame_def same_names_def)
    ultimately show ?thesis using s'(2,3) by (auto simp: same_dev_def)
  next
    case 3
    define lo where "lo = lb - 519"
    let ?z = "inode_zone ?m 8" and ?i = "zone_in ?d (inode_zone ?m 8) (lo div 512)"
    have lb: "lb = lo + 519" "lo < 262144" using 3 ok unfolding lo_def block_ok_def by linarith+
    have z: "?z \<noteq> 0" "?i \<noteq> 0" "zone_inside (dev_size (dsk s)) ?z" "zone_inside (dev_size (dsk s)) ?i"
      using ok 3 by (auto simp: block_ok_def file_zone_def lo_def Let_def split: if_splits)
    obtain s1 where s1: "zone_block env (int ?z) (mapblock1 s = 2) DATABLOCK1 s = Some (True, s1)"
      "same_dev s s1" "same_names s s1" "buf_frame DATABLOCK1 s s1"
      "read_at DATABLOCK1 1024 (fsys_buf s1) = read_at (?z * 1024) 1024 ?d"
      using zone_block_ok [OF dev z(1,3) zone_range(1) order_refl, of "mapblock1 s = 2"] cache by (auto simp: zone_cache_def)
    have q: "lo div 512 < 512" using lb(2) by (simp add: div_less_iff_less_mult)
    have e1: "le16 (fsys_buf s1) (DATABLOCK1 + 2 * (lo div 512)) = int ?i"
      using le16_read_at [OF s1(5), of "2 * (lo div 512)"] q le16_range by (simp add: zone_in_def)
    let ?s = "set_drv 0 2 s1"
    have dev1: "dev_ok (dsk ?s)" "content (dsk ?s) = ?d" "dev_size (dsk ?s) = dev_size (dsk s)"
      using s1(2) by (simp_all add: same_dev_def)
    have m2: "mapblock2 ?s = mapblock2 s" using s1(4) by (simp add: mapblock2_def buf_frame_def)
    have c1: "read_at DATABLOCK2 1024 (fsys_buf ?s) = read_at (?i * 1024) 1024 (content (dsk ?s))"
      if "mapblock2 ?s = int ?i"
      using cache s1(4) that z(2) unfolding zone_cache_def buf_frame_def dev1(2) m2 by simp
    obtain s2 where s2: "zone_block env (int ?i) (mapblock2 ?s = int ?i) DATABLOCK2 ?s = Some (True, s2)"
      "same_dev ?s s2" "same_names ?s s2" "buf_frame DATABLOCK2 ?s s2"
      "read_at DATABLOCK2 1024 (fsys_buf s2) = read_at (?i * 1024) 1024 ?d"
      using zone_block_ok [OF dev1(1) z(2), of DATABLOCK2 "mapblock2 ?s = int ?i"] z(4) zone_range(2) c1 unfolding dev1 by auto
    have e2: "le16 (fsys_buf s2) (DATABLOCK2 + 2 * (lo mod 512)) = int (zone_in ?d ?i (lo mod 512))"
      using le16_read_at [OF s2(5), of "2 * (lo mod 512)"] le16_range by (simp add: zone_in_def)
    have c: "\<not> int lb < 0" "\<not> int lb < 7" "\<not> int lb - 7 < 512" "int lb - 7 - 512 = int lo"
      "nat (drop_bit 9 (int lo)) = lo div 512" "nat (int lo AND 511) = lo mod 512"
      using lb(1) by (simp_all add: drop_bit_eq_div nat_div_distrib and_511)
    have "minix_block_map env (int lb) s = Some (int (zone_in ?d ?i (lo mod 512)), set_drv 1 (int ?i) s2)"
      unfolding minix_block_map_def i_zone_nat
      by (simp only: c if_False if_True s1(1) bind.bind_lunit prod.case Let_def not_True_eq_False set_drv_simps e1 s2(1) e2)
    moreover have "file_zone ?d ?m lb = Some (zone_in ?d ?i (lo mod 512))"
      using 3 z(1,2) by (simp add: file_zone_def lo_def)
    moreover have "zone_cache ?d (set_drv 1 (int ?i) s2)"
      using s1(3,5) s2(3,4,5) inode_zone_cong [OF _ same_names_inode [OF s1(3)]] inode_zone_cong [OF _ same_names_inode [OF s2(3)]]
      by (simp add: zone_cache_def mapblock1_def mapblock2_def buf_frame_def)
    moreover have "same_names s (set_drv 1 (int ?i) s2)"
      using s1(3) s2(3) by (simp add: same_names_def namelen_def)
    moreover have "same_dev s (set_drv 1 (int ?i) s2)"
      using s1(2) s2(2) by (simp add: same_dev_def)
    ultimately show ?thesis by auto
  qed
qed

lemma read_loop_ok:
  assumes "dev_ok (dsk s)" "zone_cache (content (dsk s)) s" "filepos s = int f"
    and "blocks_ok (dev_size (dsk s)) (content (dsk s)) (fsys_buf s) f n"
  shows "\<exists>s'. minix_read_loop env (int n) ret buf a s =
      Some (ret + int n, write_at a (read_at f n (minix_file (content (dsk s)) (fsys_buf s))) buf, s') \<and>
    same_dev s s' \<and> zone_cache (content (dsk s)) s' \<and> same_names (s\<lparr>filepos := int (f + n)\<rparr>) s'"
  using assms
proof (induction n arbitrary: f ret buf a s rule: less_induct)
  case (less n)
  let ?c = "content (dsk s)" and ?m = "fsys_buf s"
  show ?case
  proof (cases "n = 0")
    case True
    then show ?thesis
      using less.prems by (subst minix_read_loop.simps) (auto simp: same_dev_refl same_names_def namelen_def)
  next
    case False
    define o' where "o' = f mod 1024"
    define m where "m = min n (1024 - o')"
    have o': "o' < 1024" by (simp add: o'_def)
    have m: "0 < m" "m \<le> n" "m + o' \<le> 1024" using False o' by (auto simp: m_def)
    have bk: "block_ok (dev_size (dsk s)) ?c ?m (f div 1024)" "f + n \<le> 262663 * 1024"
      using blocks_ok_first [OF less.prems(4)] False by simp_all
    then obtain z where z: "file_zone ?c ?m (f div 1024) = Some z" "zone_inside (dev_size (dsk s)) z"
      by (auto simp: block_ok_def split: option.splits)
    obtain s1 where s1: "minix_block_map env (int (f div 1024)) s = Some (int z, s1)"
      "same_dev s s1" "same_names s s1" "zone_cache ?c s1"
      using block_map_ok [OF less.prems(1,2) bk(1)] z(1) by auto
    have z16: "z < 65536" using z(1) zone_range by (auto simp: file_zone_def Let_def split: if_splits)
    let ?d = "(dsk s1)\<lparr>disk_read_func := disk_read_hook s1\<rparr>"
    have d: "dev_ok ?d" "content ?d = ?c" "dev_size ?d = dev_size (dsk s)"
      using s1(2) by (simp_all add: dev_hook same_dev_def)
    obtain d' where d': "dr (int (z * 2)) (int o') (int m) buf a ?d =
        Some (True, write_at a (read_at f m (minix_file ?c ?m)) buf, d')"
      "dev_ok d'" "content d' = ?c" "dev_size d' = dev_size (dsk s)"
      using dev_read [OF d(1) m(1), of "z * 2" o' buf a] z(2) m read_zone [OF z(1), of m]
      unfolding d(2,3) by (auto simp: zone_inside_def o'_def mult.assoc)
    let ?s2 = "s1\<lparr>dsk := d'\<lparr>disk_read_func := False\<rparr>, filepos := int (f + m)\<rparr>"
    have f1: "filepos s1 = int f" using s1(3) less.prems(3) by (simp add: same_names_def)
    have num: "filepos s AND (BLOCK_SIZE - 1) = int o'" "drop_bit 10 (filepos s) = int (f div 1024)"
      "(if BLOCK_SIZE - int o' > int n then int n else BLOCK_SIZE - int o') = int m"
      "s32 (int z * 2) = int (z * 2)" "s32 (filepos s1 + int m) = int (f + m)" "int n > 0" "\<not> int z < 0" "nat (int m) = m"
      "int n - int m = int (n - m)"
      using o' less.prems(3) False s32_nat [of "z * 2"] s32_nat [of "f + m"] bk(2) m z16 f1
      by (auto simp: o'_def m_def and_1023 drop_bit_eq_div zdiv_int of_nat_diff)
    have step: "minix_read_loop env (int n) ret buf a s =
      minix_read_loop env (int (n - m)) (ret + int m) (write_at a (read_at f m (minix_file ?c ?m)) buf) (a + m) ?s2"
      by (subst minix_read_loop.simps)
        (simp only: num Let_def s1(1) bind.bind_lunit prod.case env_devread d'(1) not_True_eq_False simp_thms if_False if_True)
    have b2: "same_inode (fsys_buf ?s2) ?m" using same_names_inode [OF s1(3)] by simp
    have p: "dev_ok (dsk ?s2)" "content (dsk ?s2) = ?c" "dev_size (dsk ?s2) = dev_size (dsk s)" 
      "zone_cache ?c ?s2" "filepos ?s2 = int (f + m)" "n - m < n"
      using d'(2-4) dev_hook s1(4) m False by (simp_all add: zone_cache_def mapblock1_def mapblock2_def)
    have q: "blocks_ok (dev_size (dsk s)) ?c (fsys_buf ?s2) (f + m) (n - m)"
      using blocks_ok_rest [OF less.prems(4) m(2)] block_ok_cong [OF b2] by (simp add: blocks_ok_def)
    obtain s' where s': "minix_read_loop env (int (n - m)) (ret + int m)
        (write_at a (read_at f m (minix_file ?c ?m)) buf) (a + m) ?s2 =
      Some (ret + int m + int (n - m), write_at (a + m) (read_at (f + m) (n - m) (minix_file ?c (fsys_buf ?s2)))
        (write_at a (read_at f m (minix_file ?c ?m)) buf), s')"
      "same_dev ?s2 s'" "zone_cache ?c s'" "same_names (?s2\<lparr>filepos := int (f + m + (n - m))\<rparr>) s'"
      using less.IH [OF p(6), of ?s2 "f + m" "ret + int m" "write_at a (read_at f m (minix_file ?c ?m)) buf" "a + m"]
      unfolding p(2,3) using p(1,4,5) q by blast
    have w: "write_at (a + m) (read_at (f + m) (n - m) (minix_file ?c (fsys_buf ?s2)))
        (write_at a (read_at f m (minix_file ?c ?m)) buf) = write_at a (read_at f n (minix_file ?c ?m)) buf"
      using write_at_append [of a "read_at f m (minix_file ?c ?m)"] read_at_append [of f m "n - m" "minix_file ?c ?m"] m
      unfolding minix_file_cong [OF b2] by simp
    have "ret + int m + int (n - m) = ret + int n" "f + m + (n - m) = f + n" using m by simp_all
    then show ?thesis
      using step s' p(2,3) s1(3) unfolding w by (auto simp: same_dev_def same_names_def namelen_def)
  qed
qed

text \<open>The contract of \<open>fs_read\<close> for this driver.\<close>

lemma minix_read_ok:
  assumes "dev_ok (dsk s)" "zone_cache (content (dsk s)) s" "filepos s = int f"
    and "blocks_ok (dev_size (dsk s)) (content (dsk s)) (fsys_buf s) f n"
  shows "\<exists>s'. minix_read env (int n) buf a s =
      Some (int n, write_at a (read_at f n (minix_file (content (dsk s)) (fsys_buf s))) buf, s') \<and>
    same_dev s s' \<and> zone_cache (content (dsk s)) s' \<and> same_names (s\<lparr>filepos := int (f + n)\<rparr>) s'"
proof -
  obtain s' where s': "minix_read_loop env (int n) 0 buf a s =
      Some (int n, write_at a (read_at f n (minix_file (content (dsk s)) (fsys_buf s))) buf, s')"
    "same_dev s s'" "zone_cache (content (dsk s)) s'" "same_names (s\<lparr>filepos := int (f + n)\<rparr>) s'"
    using read_loop_ok [OF assms, of 0 buf a] by auto
  moreover have "err s' = ERR_NONE" using dev_no_error s'(2) by (simp add: same_dev_def)
  ultimately show ?thesis by (simp add: minix_read_def)
qed

end

end
