(* ===== verification/MinixDirs.thy ===== *)
theory MinixDirs
  imports MinixFiles
begin

text \<open>
  The Minix driver, names: directories as lists of entries and paths as lists of names are the
  specification of \<open>minix_dir\<close>; the lemmas give the contract of each of its loops over a \<open>file_device\<close>, for
  a lookup (\<open>print_possibilities\<close> zero) that meets no symbolic link.
\<close>

section \<open>Directories and paths\<close>

text \<open>Entry \<open>k\<close> of the directory with bytes \<open>f\<close> and entries of \<open>e\<close> bytes: its inode and its name.\<close>

definition dir_entry :: "mem \<Rightarrow> nat \<Rightarrow> nat \<Rightarrow> nat \<times> u8 list" where
  "dir_entry f e k = (nat (le16 f (k * e)), takeWhile (\<lambda>c. c \<noteq> 0) (read_at (k * e + 2) (e - 2) f))"

definition dir_count :: "nat \<Rightarrow> nat \<Rightarrow> nat" where
  "dir_count sz e = (sz + e - 1) div e"

definition dir_find :: "mem \<Rightarrow> nat \<Rightarrow> nat \<Rightarrow> u8 list \<Rightarrow> (nat \<times> u8 list) option" where
  "dir_find f sz e w = find (\<lambda>(i, n). i \<noteq> 0 \<and> n = w) (map (dir_entry f e) [0..<dir_count sz e])"

text \<open>Where inode \<open>ino\<close> lies, and the inode as the driver has it in its buffer.\<close>

definition inode_pos :: "mem \<Rightarrow> nat \<Rightarrow> nat" where
  "inode_pos d ino = (2 + nat (le16 d 1028) + nat (le16 d 1030) + (ino - 1) div 32) * 1024 + 32 * ((ino - 1) mod 32)"

definition inode_of :: "mem \<Rightarrow> nat \<Rightarrow> mem" where
  "inode_of d ino = (\<lambda>a. d (inode_pos d ino + (a - INODE)))"

definition inode_size :: "mem \<Rightarrow> nat" where
  "inode_size m = unat (i_size m)"

definition entry_size :: "mem \<Rightarrow> nat" where
  "entry_size d = (if le16 d 1040 = 0x137F then 16 else 32)"

text \<open>The inode that a path leads to from inode \<open>ino\<close>, or the error.\<close>

fun resolve :: "mem \<Rightarrow> nat \<Rightarrow> u8 list list \<Rightarrow> grub_error + nat" where
  "resolve d ino [] = (if S_ISREG (i_mode (inode_of d ino)) then Inr ino else Inl ERR_BAD_FILETYPE)"
| "resolve d ino (w # ws) =
     (let m = inode_of d ino in
      if i_size m = 0 \<or> \<not> S_ISDIR (i_mode m) then Inl ERR_BAD_FILETYPE
      else case dir_find (minix_file d m) (inode_size m) (entry_size d) w of
             None \<Rightarrow> Inl ERR_FILE_NOT_FOUND
           | Some (i, _) \<Rightarrow> resolve d i ws)"

text \<open>The inodes and directories on the way are inside the partition of \<open>sz\<close> bytes, and no inode is a link.\<close>

fun path_ok :: "nat \<Rightarrow> mem \<Rightarrow> nat \<Rightarrow> u8 list list \<Rightarrow> bool" where
  "path_ok sz d ino ws \<longleftrightarrow>
     (let m = inode_of d ino in
      zone_inside sz (inode_pos d ino div 1024) \<and> \<not> S_ISLNK (i_mode m) \<and>
      (case ws of
         [] \<Rightarrow> True
       | w # ws \<Rightarrow> i_size m = 0 \<or> \<not> S_ISDIR (i_mode m) \<or> (blocks_ok sz d m 0 (inode_size m) \<and>
           (case dir_find (minix_file d m) (inode_size m) (entry_size d) w of None \<Rightarrow> True | Some (i, _) \<Rightarrow> path_ok sz d i ws))))"

declare path_ok.simps [simp del]

definition path_text :: "u8 list list \<Rightarrow> u8 list" where
  "path_text ws = concat (map (\<lambda>w. ch CHR ''/'' # w) ws)"

definition path_words :: "u8 list list \<Rightarrow> bool" where
  "path_words ws \<longleftrightarrow> (\<forall>w\<in>set ws. w \<noteq> [] \<and> (\<forall>c\<in>set w. c \<noteq> ch CHR ''/'' \<and> \<not> name_end c))"

text \<open>What follows a path: its end or a space.\<close>

definition path_end :: "u8 list \<Rightarrow> bool" where
  "path_end r \<longleftrightarrow> r = [] \<or> grub_isspace (sint (cur r))"

lemma le16_nat: "int (nat (le16 m a)) = le16 m a"
  using le16_range(1) [of m a] by simp

lemma read_at_sub:
  assumes "read_at a n m = read_at b n d" "i + k \<le> n"
  shows "read_at (a + i) k m = read_at (b + i) k d"
proof -
  have "take k (drop i (read_at a n m)) = take k (drop i (read_at b n d))" by (simp add: assms(1))
  then show ?thesis using assms(2) by (simp add: take_read_at drop_read_at min_def split: if_splits)
qed

lemma entry_inside: "e \<in> {16, 32} \<Longrightarrow> k * e mod 1024 + e \<le> 1024" for k e :: nat
proof -
  have "k * 16 mod 1024 = 16 * (k mod 64)" "k * 32 mod 1024 = 32 * (k mod 32)"
    using mult_mod_right [of 16 k 64] mult_mod_right [of 32 k 32] by (simp_all add: mult.commute)
  moreover have "k mod 64 < 64" "k mod 32 < 32" by simp_all
  ultimately show "e \<in> {16, 32} \<Longrightarrow> k * e mod 1024 + e \<le> 1024" by auto
qed

lemma dir_count_iff: "0 < e \<Longrightarrow> k < dir_count sz e \<longleftrightarrow> k * e < sz"
  unfolding dir_count_def by (simp add: less_eq_div_iff_mult_less_eq Suc_le_eq [symmetric]) arith

lemma size_le_loc: "x < 4294967296 \<Longrightarrow> i_size m \<le> c_ulong (int x) \<longleftrightarrow> inode_size m \<le> x"
  by (simp add: c_ulong_def inode_size_def word_le_nat_alt unat_of_nat)

lemma file_zone_range: "file_zone d m lb = Some z \<Longrightarrow> z < 65536"
  using zone_range by (auto simp: file_zone_def Let_def split: if_splits)

lemma inode_size_cong: "same_inode m m' \<Longrightarrow> inode_size m = inode_size m'"
  by (simp add: inode_size_def i_size_def le32_def le16_def same_inode_def)

lemma super_field:
  "read_at 0 24 m = read_at 1024 24 d \<Longrightarrow> i + 1 < 24 \<Longrightarrow> le16 m i = le16 d (1024 + i)"
  using le16_read_at [of 0 24 m 1024 d i] by simp

lemma split_word:
  "\<forall>c\<in>set w. P c \<Longrightarrow> r = [] \<or> \<not> P (cur r) \<Longrightarrow> takeWhile P (w @ r) = w \<and> dropWhile P (w @ r) = r"
  by (induction w) (cases r, auto)

lemma inode_fields_cong: "same_inode m m' \<Longrightarrow> i_mode m = i_mode m' \<and> i_size m = i_size m'"
  by (simp add: i_mode_def i_size_def le32_def le16_def same_inode_def)

lemma blocks_ok_cong: "same_inode m m' \<Longrightarrow> blocks_ok sz d m f n = blocks_ok sz d m' f n"
  using block_ok_cong [of m m'] by (simp add: blocks_ok_def)

lemma dir_find_range:
  assumes "dir_find f sz e w = Some (i, n)" shows "0 < i" "i < 65536"
proof -
  have "\<exists>k. (i, n) = dir_entry f e k \<and> i \<noteq> 0"
    using assms unfolding dir_find_def find_Some_iff by clarsimp (metis)
  then obtain k where "(i, n) = dir_entry f e k" "i \<noteq> 0" by blast
  then show "0 < i" "i < 65536" using le16_range(2) [of f "k * e"] by (simp_all add: dir_entry_def nat_less_iff le16_range(1))
qed

section \<open>The lookup over a device\<close>

context fs_device
begin

lemma scan_ok:
  assumes "dev_ok (dsk s)" "zone_cache (content (dsk s)) s" "print_possibilities s = 0" "namelen s = int e - 2" "e \<in> {16, 32}"
    and "blocks_ok (dev_size (dsk s)) (content (dsk s)) (fsys_buf s) 0 (inode_size (fsys_buf s))"
    and "k \<le> dir_count (inode_size (fsys_buf s)) e" 
  shows "\<exists>s'. minix_scan env w c (int (k * e)) chk s =
      Some (case find (\<lambda>(i, n). i \<noteq> 0 \<and> n = w)
                   (map (dir_entry (minix_file (content (dsk s)) (fsys_buf s)) e) [k..<dir_count (inode_size (fsys_buf s)) e]) of
              None \<Rightarrow> (Inl False, set_err ERR_FILE_NOT_FOUND s') | Some (i, _) \<Rightarrow> (Inr (int i), s')) \<and>
    same_dev s s' \<and> same_names s s'"
  using assms
proof (induction "dir_count (inode_size (fsys_buf s)) e - k" arbitrary: k chk s)
  case 0
  let ?sz = "inode_size (fsys_buf s)"
  have k: "k = dir_count ?sz e" using 0 by simp
  have "?sz \<le> k * e" using dir_count_iff [of e k ?sz] 0 by auto
  moreover have "k * e < 4294967296"
  proof (cases "?sz = 0")
    case True
    then show ?thesis using k 0(6) by (auto simp: dir_count_def)
  next
    case False
    have "k * e \<le> ?sz + e - 1" unfolding k dir_count_def by (rule div_times_less_eq_dividend)
    then show ?thesis using blocks_ok_first(2) [OF 0(7)] False 0(6) by auto
  qed
  ultimately have "minix_scan env w c (int (k * e)) chk s = Some (Inl False, set_err ERR_FILE_NOT_FOUND s)"
    using 0(4) by (subst minix_scan.simps) (simp add: size_le_loc del: of_nat_mult)
  then show ?case using 0(2) same_dev_refl [of s] by (auto simp: k)
next
  case (Suc x)
  let ?d = "content (dsk s)" and ?m = "fsys_buf s" and ?l = "k * e"
  let ?sz = "inode_size ?m" and ?f = "minix_file (content (dsk s)) (fsys_buf s)"
  have e: "0 < e" "2 \<le> e" using Suc.prems(5) by auto
  have k1: "k < dir_count ?sz e" using Suc.hyps(2) by simp
  then have k: "k < dir_count ?sz e" "?l < ?sz" using dir_count_iff [OF e(1), of k ?sz] by simp_all
  then have sz: "?sz \<le> 262663 * 1024" using blocks_ok_first(2) [OF Suc.prems(6)] by simp
  have bk: "block_ok (dev_size (dsk s)) ?d ?m (?l div 1024)"
    using blocks_ok_first(1) [OF blocks_ok_rest [OF Suc.prems(6), of ?l]] k(2) by simp
  then obtain z where z: "file_zone ?d ?m (?l div 1024) = Some z" "zone_inside (dev_size (dsk s)) z"
    by (auto simp: block_ok_def split: option.splits)
  have z16: "z < 65536" by (rule file_zone_range [OF z(1)])
  obtain s1 where s1: "minix_block_map env (int (?l div 1024)) s = Some (int z, s1)"
    "same_dev s s1" "same_names s s1" "zone_cache ?d s1"
    using block_map_ok [OF Suc.prems(1,2) bk] z(1) by auto
  let ?s1 = "set_drv 1 (- 1) s1"
  have dev1: "dev_ok (dsk ?s1)" "content (dsk ?s1) = ?d" "dev_size (dsk ?s1) = dev_size (dsk s)"
    using s1(2) by (simp_all add: same_dev_def)
  obtain s2 where s2: "minix_rdfsb env (int z) DATABLOCK2 ?s1 = Some (True, s2)" "same_dev ?s1 s2"
    "fsys_buf s2 = write_at DATABLOCK2 (read_at (z * 1024) 1024 ?d) (fsys_buf s1)" "drv s2 = drv ?s1" "same_names ?s1 s2"
    using rdfsb_ok [OF dev1(1), of z DATABLOCK2] z(2) z16 unfolding dev1 by auto
  have names: "same_names s s2" using s1(3) s2(5) by (simp add: same_names_def namelen_def)
  have m2: "same_inode (fsys_buf s2) ?m" by (rule same_names_inode [OF names])
  have dev2: "dev_ok (dsk s2)" "content (dsk s2) = ?d" "dev_size (dsk s2) = dev_size (dsk s)"
    using s1(2) s2(2) by (simp_all add: same_dev_def)
  have "read_at DATABLOCK1 1024 (fsys_buf s2) = read_at DATABLOCK1 1024 (fsys_buf s1)"
    unfolding s2(3) by (rule read_write_outside) simp
  then have cache2: "zone_cache ?d s2"
    using s1(4) inode_zone_cong [OF _ same_names_inode [OF s2(5)]] s2(4)
    by (simp add: zone_cache_def mapblock1_def mapblock2_def)
  have "read_at DATABLOCK2 1024 (fsys_buf s2) = read_at (z * 1024) 1024 ?d"
    using read_write_same [of DATABLOCK2 "read_at (z * 1024) 1024 ?d"] by (simp add: s2(3))
  from read_at_sub [OF this, of "?l mod 1024" e]
  have entry: "read_at (DATABLOCK2 + ?l mod 1024) e (fsys_buf s2) = read_at ?l e ?f"
    using read_zone [OF z(1), of e] entry_inside [OF Suc.prems(5), of k] by (simp add: add.commute)
  have ino: "d_inode (fsys_buf s2) (DATABLOCK2 + ?l mod 1024) = int (fst (dir_entry ?f e k))"
    using le16_read_at [OF entry, of 0] e Suc.prems(5) by (auto simp: d_inode_def dir_entry_def le16_range(1))
  have nl: "namelen s2 = int e - 2" "print_possibilities s2 = 0"
    using names Suc.prems by (simp_all add: same_names_def)
  have nm: "d_name (fsys_buf s2) (DATABLOCK2 + ?l mod 1024) (nat (int e - 2)) = snd (dir_entry ?f e k)"
    using read_at_sub [OF entry, of 2 "e - 2"] e by (simp add: d_name_def dir_entry_def nat_diff_distrib)
  define n where "n = snd (dir_entry ?f e k)"
  define i where "i = fst (dir_entry ?f e k)"
  have in_entry: "dir_entry ?f e k = (i, n)" by (simp add: n_def i_def)
  have loc: "\<not> i_size ?m \<le> c_ulong (int ?l)" "drop_bit 10 (int ?l) = int (?l div 1024)"
      "int ?l AND (BLOCK_SIZE - 1) = int (?l mod 1024)" "int ?l + 2 + (int e - 2) = int (Suc k * e)"
    using size_le_loc [of ?l] sz k(2) and_1023 [of ?l] by (auto simp: drop_bit_eq_div zdiv_int)
  have step: "minix_scan env w c (int ?l) chk s =
    (if i \<noteq> 0 \<and> n = w then Some (Inr (int i), s2)
     else minix_scan env w c (int (Suc k * e)) (if i \<noteq> 0 then str_prefix w n else chk) s2)"
  proof -
    have "minix_scan env w c (int ?l) chk s =
      (let str_chk = (if int i \<noteq> 0 then str_prefix w n else chk) in
       if int i = 0 \<or> str_chk \<noteq> 0 then minix_scan env w c (int (Suc k * e)) str_chk s2 else Some (Inr (int i), s2))"
      by (subst minix_scan.simps)
        (simp only: loc s1(1) bind.bind_lunit prod.case Let_def if_False if_True s2(1) not_True_eq_False nat_int ino nm nl
          n_def [symmetric] i_def [symmetric] HOL.simp_thms of_nat_less_0_iff)
    then show ?thesis by (auto simp: str_prefix_iff Let_def simp del: of_nat_mult of_nat_Suc mult_Suc)
  qed
  have upt: "[k..<dir_count ?sz e] = k # [Suc k..<dir_count ?sz e]" using k(1) by (rule upt_conv_Cons)
  have same_m: "inode_size (fsys_buf s2) = ?sz" "minix_file ?d (fsys_buf s2) = ?f"
    using inode_size_cong [OF m2] minix_file_cong [OF m2] by simp_all
  show ?case
  proof (cases "i \<noteq> 0 \<and> n = w")
    case True
    then show ?thesis
      using step names s1(2) s2(2) upt by (auto simp: in_entry same_dev_def simp del: of_nat_mult)
  next
    case False
    have x: "x = dir_count ?sz e - Suc k" using Suc.hyps(2) by simp
    have q: "blocks_ok (dev_size (dsk s)) ?d (fsys_buf s2) 0 ?sz"
      using Suc.prems(6) block_ok_cong [OF m2] by (simp add: blocks_ok_def)
    obtain s' where s': "minix_scan env w c (int (Suc k * e)) (if i \<noteq> 0 then str_prefix w n else chk) s2 =
      Some (case find (\<lambda>(i, n). i \<noteq> 0 \<and> n = w) (map (dir_entry ?f e) [Suc k..<dir_count ?sz e]) of
              None \<Rightarrow> (Inl False, set_err ERR_FILE_NOT_FOUND s') | Some (i, _) \<Rightarrow> (Inr (int i), s'))"
      "same_dev s2 s'" "same_names s2 s'"
      using Suc.hyps(1) [of s2 "Suc k" "if i \<noteq> 0 then str_prefix w n else chk"] x dev2(1) cache2 nl Suc.prems(5) q Suc_leI [OF k1]
      unfolding same_m dev2 by blast
    show ?thesis
      using step False s' names s1(2) s2(2) upt same_names_trans [OF names s'(3)]
      by (intro exI [of _ s']) (auto simp: in_entry same_dev_def simp del: of_nat_mult mult_Suc of_nat_Suc)
  qed
qed


lemma get_inode_ok:
  assumes "dev_ok (dsk s)" "read_at 0 24 (fsys_buf s) = read_at 1024 24 (content (dsk s))"
    and "zone_inside (dev_size (dsk s)) (inode_pos (content (dsk s)) ino div 1024)" "0 < ino" "ino < 65536"
  shows "\<exists>s'. minix_get_inode env (int ino) s = Some (True, s') \<and> same_dev s s' \<and> zone_cache (content (dsk s)) s' \<and>
    same_inode (fsys_buf s') (inode_of (content (dsk s)) ino) \<and> same_super s s'"
proof -
  let ?d = "content (dsk s)"
  define b where "b = 2 + nat (le16 ?d 1028) + nat (le16 ?d 1030) + (ino - 1) div 32"
  define r where "r = (ino - 1) mod 32"
  have pos: "inode_pos ?d ino = 32 * r + b * 1024" by (simp add: inode_pos_def b_def r_def)
  have r: "32 * r < 1024" "32 * r + 32 \<le> 1024" unfolding r_def by simp_all
  then have b: "inode_pos ?d ino div 1024 = b" unfolding pos by simp
  have "(ino - 1) div 32 \<le> ino - 1" by (rule div_le_dividend)
  moreover have "nat (le16 ?d 1028) < 65536" "nat (le16 ?d 1030) < 65536"
    using le16_range(2) by (simp_all add: nat_less_iff le16_range(1))
  ultimately have small: "b < 1000000" using assms(5) unfolding b_def by linarith
  have blk: "2 + s_imap_blocks (fsys_buf s) + s_zmap_blocks (fsys_buf s) + (int ino - 1) div 32 = int b"
    using super_field [OF assms(2), of 4] super_field [OF assms(2), of 6] assms(4)
    by (simp add: s_imap_blocks_def s_zmap_blocks_def b_def le16_range(1) zdiv_int of_nat_diff)
  have slot: "nat ((int ino - 1) mod 32) = r" using assms(4) by (simp add: r_def nat_mod_distrib nat_diff_distrib)
  obtain s1 where s1: "minix_rdfsb env (int b) INODE s = Some (True, s1)" "same_dev s s1"
    "fsys_buf s1 = write_at INODE (read_at (b * 1024) 1024 ?d) (fsys_buf s)" "drv s1 = drv s" "same_super s s1"
    using rdfsb_ok [OF assms(1), of b INODE] assms(3) small unfolding b by auto
  let ?s = "set_drv 0 (- 1) (set_drv 1 (- 1) s1)"
  let ?s' = "?s\<lparr>fsys_buf := write_at INODE (read_at (INODE + 32 * r) 32 (fsys_buf ?s)) (fsys_buf ?s)\<rparr>"
  have run: "minix_get_inode env (int ino) s = Some (True, ?s')"
    unfolding minix_get_inode_def Let_def blk s1(1) by (simp add: slot)
  have "read_at (INODE + 32 * r) 32 (fsys_buf s1) = read_at (b * 1024 + 32 * r) 32 ?d"
    using read_at_sub [of INODE 1024 "fsys_buf s1" "b * 1024" ?d "32 * r" 32] r(2)
      read_write_same [of INODE "read_at (b * 1024) 1024 ?d"] by (simp add: s1(3))
  then have "same_inode (fsys_buf ?s') (inode_of ?d ino)"
    using r by (auto simp: same_inode_def inode_of_def pos write_at_inside add.commute)
  moreover have "read_at 0 24 (fsys_buf ?s') = read_at 0 24 (fsys_buf s1)"
    using read_write_outside [of 0 24 INODE "read_at (INODE + 32 * r) 32 (fsys_buf s1)"] by simp
  then have "same_super s ?s'" using s1(5) by (simp add: same_super_def namelen_def set_drv_def)
  moreover have "zone_cache ?d ?s'" "same_dev s ?s'"
    using s1(2) by (simp_all add: zone_cache_def mapblock1_def mapblock2_def set_drv_def same_dev_def)
  ultimately show ?thesis using run by blast
qed


text \<open>The state from which a path is followed.\<close>

definition at_super :: "'m loader \<Rightarrow> bool" where
  "at_super s \<longleftrightarrow> dev_ok (dsk s) \<and> read_at 0 24 (fsys_buf s) = read_at 1024 24 (content (dsk s)) \<and>
     print_possibilities s = 0 \<and> namelen s = int (entry_size (content (dsk s))) - 2"

text \<open>The state after a path has been followed to the file \<open>ino\<close>.\<close>

definition at_file :: "nat \<Rightarrow> 'm loader \<Rightarrow> bool" where
  "at_file ino s \<longleftrightarrow> zone_cache (content (dsk s)) s \<and> same_inode (fsys_buf s) (inode_of (content (dsk s)) ino) \<and>
     filemax s = c_int (i_size (inode_of (content (dsk s)) ino))"

lemma at_super_step: "at_super s \<Longrightarrow> same_dev s s' \<Longrightarrow> same_super s s' \<Longrightarrow> at_super s'"
  by (simp add: at_super_def same_dev_def same_super_def)

lemma walk_ok:
  assumes "at_super s" "path_ok (dev_size (dsk s)) (content (dsk s)) ino ws" "path_words ws" "name_end (cur rest)"
    and "0 < ino" "ino < 65536"
  shows "\<exists>s'. minix_walk env gread (int ino) updir links (path_text ws @ rest) lb s =
      Some (case resolve (content (dsk s)) ino ws of Inl e \<Rightarrow> (False, set_err e s') | Inr i \<Rightarrow> (True, s')) \<and>
    same_dev s s' \<and> same_super s s' \<and> (\<forall>i. resolve (content (dsk s)) ino ws = Inr i \<longrightarrow> at_file i s')"
  using assms
proof (induction ws arbitrary: ino updir s)
  case Nil
  let ?d = "content (dsk s)"
  have p: "zone_inside (dev_size (dsk s)) (inode_pos ?d ino div 1024)" "\<not> S_ISLNK (i_mode (inode_of ?d ino))"
    using Nil.prems(2) by (simp_all add: path_ok.simps Let_def)
  obtain s1 where s1: "minix_get_inode env (int ino) s = Some (True, s1)" "same_dev s s1" "zone_cache ?d s1"
    "same_inode (fsys_buf s1) (inode_of ?d ino)" "same_super s s1"
    using get_inode_ok [OF _ _ p(1) Nil.prems(5,6)] Nil.prems(1) by (auto simp: at_super_def)
  note m = inode_fields_cong [OF s1(4)]
  have "minix_walk env gread (int ino) updir links (path_text [] @ rest) lb s =
    Some (case resolve ?d ino [] of Inl e \<Rightarrow> (False, set_err e s1)
          | Inr i \<Rightarrow> (True, s1\<lparr>filemax := c_int (i_size (inode_of ?d ino))\<rparr>))"
    using p(2) Nil.prems(4) by (subst minix_walk.simps) (simp add: s1(1) m path_text_def)
  then show ?case
    using s1 by (cases "S_ISREG (i_mode (inode_of ?d ino))")
      (fastforce simp: same_dev_def at_file_def zone_cache_def mapblock1_def mapblock2_def)+
next
  case (Cons w ws)
  let ?d = "content (dsk s)" and ?m = "inode_of (content (dsk s)) ino"
  have p: "zone_inside (dev_size (dsk s)) (inode_pos ?d ino div 1024)" "\<not> S_ISLNK (i_mode ?m)"
    using Cons.prems(2) by (simp_all add: path_ok.simps [of _ _ _ "w # ws"] Let_def)
  obtain s1 where s1: "minix_get_inode env (int ino) s = Some (True, s1)" "same_dev s s1" "zone_cache ?d s1"
    "same_inode (fsys_buf s1) ?m" "same_super s s1"
    using get_inode_ok [OF _ _ p(1) Cons.prems(5,6)] Cons.prems(1) by (auto simp: at_super_def)
  note m = inode_fields_cong [OF s1(4)]
  have slash: "\<not> name_end (ch CHR ''/'')" by (simp add: name_end_def grub_isspace_def)
  have w: "w \<noteq> []" "\<forall>c\<in>set w. c \<noteq> ch CHR ''/'' \<and> \<not> name_end c" and ws: "path_words ws"
    using Cons.prems(3) by (simp_all add: path_words_def)
  let ?rest = "path_text ws @ rest"
  have stop: "?rest = [] \<or> name_end (cur ?rest) \<or> cur ?rest = ch CHR ''/''"
    using Cons.prems(4) by (cases ws) (simp_all add: path_text_def)
  have pt: "path_text (w # ws) @ rest = ch CHR ''/'' # w @ ?rest" by (simp add: path_text_def)
  have wd: "takeWhile (\<lambda>c. \<not> name_end c \<and> c \<noteq> ch CHR ''/'') (w @ ?rest) = w"
    "dropWhile (\<lambda>c. \<not> name_end c \<and> c \<noteq> ch CHR ''/'') (w @ ?rest) = ?rest"
    "dropWhile (\<lambda>c. c = ch CHR ''/'') (ch CHR ''/'' # w @ ?rest) = w @ ?rest"
    using split_word [of w "\<lambda>c. \<not> name_end c \<and> c \<noteq> ch CHR ''/''" ?rest]
      split_word [of "[ch CHR ''/'']" "\<lambda>c. c = ch CHR ''/''" "w @ ?rest"] w stop by (cases w; simp)+
  show ?case
  proof (cases "i_size ?m = 0 \<or> \<not> S_ISDIR (i_mode ?m)")
    case True
    then have "minix_walk env gread (int ino) updir links (path_text (w # ws) @ rest) lb s =
        Some (False, set_err ERR_BAD_FILETYPE s1)"
      using p(2) slash by (subst minix_walk.simps) (auto simp: s1(1) m pt Let_def)
    moreover have "resolve ?d ino (w # ws) = Inl ERR_BAD_FILETYPE" using True by (simp add: Let_def)
    ultimately show ?thesis using s1(2,5) by auto
  next
    case False
    let ?find = "dir_find (minix_file ?d ?m) (inode_size ?m) (entry_size ?d) w"
    have bo: "blocks_ok (dev_size (dsk s)) ?d ?m 0 (inode_size ?m)"
      and nxt: "case ?find of None \<Rightarrow> True | Some (i, _) \<Rightarrow> path_ok (dev_size (dsk s)) ?d i ws"
      using Cons.prems(2) False by (simp_all add: path_ok.simps [of _ _ _ "w # ws"] Let_def)
    have e: "entry_size ?d \<in> {16, 32}" by (simp add: entry_size_def)
    have sc: "dev_ok (dsk s1)" "content (dsk s1) = ?d" "dev_size (dsk s1) = dev_size (dsk s)"
      "print_possibilities s1 = 0" "namelen s1 = int (entry_size ?d) - 2"
      using s1(2,5) Cons.prems(1) by (simp_all add: same_dev_def same_super_def at_super_def)
    obtain s2 where s2: "minix_scan env w (cur ?rest) 0 0 s1 =
        Some (case ?find of None \<Rightarrow> (Inl False, set_err ERR_FILE_NOT_FOUND s2) | Some (i, _) \<Rightarrow> (Inr (int i), s2))"
      "same_dev s1 s2" "same_names s1 s2"
      using scan_ok [OF sc(1) _ sc(4,5) e, of 0 w "cur ?rest" 0] s1(3) bo
        blocks_ok_cong [OF s1(4)] inode_size_cong [OF s1(4)] minix_file_cong [OF s1(4)]
      unfolding sc dir_find_def by auto
    have sd2: "same_dev s s2" "same_super s s2"
      by (rule same_dev_trans [OF s1(2) s2(2)], rule same_super_trans [OF s1(5) same_names_super [OF s2(3)]])
    have walk: "minix_walk env gread (int ino) updir links (path_text (w # ws) @ rest) lb s =
      do { (r, s) \<leftarrow> minix_scan env w (cur ?rest) 0 0 s1;
           case r of Inl ok \<Rightarrow> Some (ok, s) | Inr ino' \<Rightarrow> minix_walk env gread ino' (int ino) links ?rest lb s }"
      using p(2) slash False
      by (subst minix_walk.simps) (simp only: s1(1) m pt Let_def bind.bind_lunit prod.case not_True_eq_False if_False if_True
        cur_simps wd de_Morgan_disj not_not simp_thms)
    show ?thesis
    proof (cases ?find)
      case None
      then show ?thesis using walk sd2 False by (auto simp: s2(1) Let_def)
    next
      case (Some r)
      then obtain i n where r: "?find = Some (i, n)" by (cases r) simp
      have i: "0 < i" "i < 65536" by (rule dir_find_range [OF r])+
      have at2: "at_super s2" by (rule at_super_step [OF Cons.prems(1) sd2])
      have d2: "content (dsk s2) = ?d" "dev_size (dsk s2) = dev_size (dsk s)" using sd2(1) by (simp_all add: same_dev_def)
      obtain s' where s': "minix_walk env gread (int i) (int ino) links ?rest lb s2 =
          Some (case resolve ?d i ws of Inl e \<Rightarrow> (False, set_err e s') | Inr i \<Rightarrow> (True, s'))"
        "same_dev s2 s'" "same_super s2 s'" "\<forall>j. resolve ?d i ws = Inr j \<longrightarrow> at_file j s'"
        using Cons.IH [OF at2 _ ws Cons.prems(4) i] nxt r unfolding d2 by auto
      have "resolve ?d ino (w # ws) = resolve ?d i ws" using r False by (simp add: Let_def)
      then show ?thesis
        using walk r s'(1,4) same_dev_trans [OF sd2(1) s'(2)] same_super_trans [OF sd2(2) s'(3)]
        by (intro exI [of _ s']) (simp add: s2(1) del: resolve.simps)
    qed
  qed
qed


text \<open>Mounting: the super block comes to the buffer, and its magic number gives the length of names.\<close>

lemma mount_ok:
  assumes "dev_ok (dsk s)" "1024 + 24 \<le> dev_size (dsk s)" "\<not> part_length (dsk s) < 2" "print_possibilities s = 0"
    and "le16 (content (dsk s)) 1040 \<in> {0x137F, 0x138F}"
  shows "\<exists>s'. minix_mount env s = Some (True, s') \<and> same_dev s s' \<and> at_super s'"
proof -
  have e: "2 * 512 + 0 = (1024 :: nat)" by simp
  obtain d where d: "devread_buf env 2 0 24 SUPERBLOCK s =
      Some (True, s\<lparr>fsys_buf := write_at 0 (read_at 1024 24 (content (dsk s))) (fsys_buf s), dsk := d\<rparr>)"
    "dev_ok d" "content d = content (dsk s)" "dev_size d = dev_size (dsk s)"
    using read_buf_ok [OF assms(1), of 24 2 0 0] assms(2) unfolding e by auto
  let ?m = "write_at 0 (read_at 1024 24 (content (dsk s))) (fsys_buf s)"
  have m: "read_at 0 24 ?m = read_at 1024 24 (content (dsk s))"
    using read_write_same [of 0 "read_at 1024 24 (content (dsk s))"] by simp
  have "s_magic ?m = le16 (content (dsk s)) 1040"
    using super_field [OF m, of 16] by (simp add: s_magic_def)
  then show ?thesis
    using assms(3,4,5) d m
    by (auto simp: minix_mount_def same_dev_def at_super_def entry_size_def namelen_def set_drv_def)
qed

end

text \<open>The interface holds for a partition on a drive behind the BIOS.\<close>

lemma partition_fs:
  assumes "partition_reader bd drive geom disk E" "ldisk env = E"
  shows "fs_device (devread E) (part_ok drive geom disk) (part_content disk) part_size env"
  using partition_reader.partition_file [OF assms(1)] assms(2) by (simp add: fs_device_def fs_device_axioms_def)

interpretation hd_minix: fs_device "devread hd_env" "part_ok 128 (hd_geometry 1) (\<lambda>m. m)" "part_content (\<lambda>m. m)" part_size
  hd_loader_env
  unfolding hd_env_def
  by (rule partition_fs [OF bios_part [OF disjI1 [OF hd_lba.lba_drive_axioms] hd_probe]]) (simp_all add: hd_loader_env_def hd_env_def)

section \<open>Properties\<close>

text \<open>C8: on a Minix partition a path is looked up from the root and the reads that follow deliver the file
  it names; a path that leads to no file is refused with the error of the first step that fails.  A hole
  (zone 0) reads as block 0 of the partition.\<close>

theorem minix_lookup_and_read:
  assumes "lba_drive fw drive g 9 disk \<or> chs_drive fw drive g 9 disk"
    and "\<And>g0. get_diskinfo fw drive g0 = (0, g)" "drive \<in> {128..<136}" "ldisk env = bios_env fw lr ba sa"
    and "part_ok drive g disk (dsk s)" "1048 \<le> part_size (dsk s)" "print_possibilities s = 0"
    and "le16 (part_content disk (dsk s)) 1040 \<in> {0x137F, 0x138F}"
    and "path_ok (part_size (dsk s)) (part_content disk (dsk s)) 1 ws" "path_words ws" "name_end (cur rest)"
  shows "\<exists>s1 s2. minix_mount env s = Some (True, s1) \<and>
    (case resolve (part_content disk (dsk s)) 1 ws of
       Inl e \<Rightarrow> minix_dir env gread lb (path_text ws @ rest) s1 = Some (False, s2) \<and> err s2 = e
     | Inr ino \<Rightarrow>
         let m = inode_of (part_content disk (dsk s)) ino in
         minix_dir env gread lb (path_text ws @ rest) s1 = Some (True, s2) \<and> filemax s2 = c_int (i_size m) \<and>
         (\<forall>f n buf a. blocks_ok (part_size (dsk s)) (part_content disk (dsk s)) m f n \<longrightarrow>
           (\<exists>s3. minix_read env (int n) buf a (s2\<lparr>filepos := int f\<rparr>) =
             Some (int n, write_at a (read_at f n (minix_file (part_content disk (dsk s)) m)) buf, s3))))"
proof -
  let ?d = "part_content disk (dsk s)" and ?sz = "part_size (dsk s)"
  note f = partition_fs [OF bios_part [OF assms(1-3)] assms(4)]
  have len: "\<not> part_length (dsk s) < 2" using assms(6) by (simp add: part_size_def word_less_nat_alt)
  obtain s1 where s1: "minix_mount env s = Some (True, s1)" "fs_device.same_dev (part_ok drive g disk) (part_content disk) part_size s s1"
    "fs_device.at_super (part_ok drive g disk) (part_content disk) s1"
    using fs_device.mount_ok [OF f assms(5) _ len assms(7,8)] assms(6) by auto
  have d1: "part_content disk (dsk s1) = ?d" "part_size (dsk s1) = ?sz"
    using s1(2) by (simp_all add: fs_device.same_dev_def [OF f])
  obtain s2 where s2: "minix_walk env gread (int 1) 1 0 (path_text ws @ rest) lb s1 =
      Some (case resolve ?d 1 ws of Inl e \<Rightarrow> (False, set_err e s2) | Inr i \<Rightarrow> (True, s2))"
    "fs_device.same_dev (part_ok drive g disk) (part_content disk) part_size s1 s2"
    "\<forall>i. resolve ?d 1 ws = Inr i \<longrightarrow> fs_device.at_file (part_content disk) i s2"
    using fs_device.walk_ok [OF f s1(3), of 1 ws rest gread 1 0 lb] assms(9-11) unfolding d1 by auto
  have d2: "part_ok drive g disk (dsk s2)" "part_content disk (dsk s2) = ?d" "part_size (dsk s2) = ?sz"
    using s2(2) d1 by (simp_all add: fs_device.same_dev_def [OF f])
  show ?thesis
  proof (cases "resolve ?d 1 ws")
    case (Inl e)
    then show ?thesis using s1(1) s2(1) by (auto simp: minix_dir_def intro: exI [of _ "set_err e s2"])
  next
    case (Inr ino)
    let ?m = "inode_of ?d ino"
    have at: "zone_cache ?d s2" "same_inode (fsys_buf s2) ?m" "filemax s2 = c_int (i_size ?m)"
      using s2(3) Inr d2(2) by (simp_all add: fs_device.at_file_def [OF f])
    have "\<exists>s3. minix_read env (int n) buf a (s2\<lparr>filepos := int p\<rparr>) =
        Some (int n, write_at a (read_at p n (minix_file ?d ?m)) buf, s3)"
      if "blocks_ok ?sz ?d ?m p n" for p n buf a
      using fs_device.minix_read_ok [OF f, of "s2\<lparr>filepos := int p\<rparr>" p n buf a] that at d2
        blocks_ok_cong [OF at(2)] minix_file_cong [OF at(2)]
      by (auto simp: zone_cache_def mapblock1_def mapblock2_def)
    then show ?thesis using s1(1) s2(1) at(3) Inr by (auto simp: minix_dir_def Let_def)
  qed
qed

text \<open>A partition of 100 sectors behind the first track with a directory of two entries and a file.\<close>

definition minix_part :: mem where
  "minix_part = (\<lambda>i. case map_of
     [(1028, 1), (1030, 1), (1040, 0x7F), (1041, 0x13), (4097, 0x40), (4100, 32), (4110, 6), (4129, 0x80), (4132, 17),
      (4142, 7), (6144, 1), (6146, 46), (6160, 2), (6162, 97), (7168, 91), (7169, 103), (7170, 108), (7171, 111), (7172, 98), (7173, 97), (7174, 108), (7175, 93), (7176, 10), (7177, 114), (7178, 111), (7179, 111), (7180, 116), (7181, 61), (7182, 111), (7183, 110), (7184, 10)] i of None \<Rightarrow> 0 | Some b \<Rightarrow> b)"

definition minix_disk :: mem where
  "minix_disk = (\<lambda>i. if i < 32256 then 0 else minix_part (i - 32256))"

definition minix_state :: "mem loader" where
  "minix_state = start_loader (hd_state\<lparr>media := minix_disk\<rparr>)"

lemma minix_part_ok: "part_ok 128 (hd_geometry 1) (\<lambda>m. m) (dsk minix_state)"
proof -
  have "no_ezd (hd_geometry 1) 9 minix_disk"
    by (auto simp: no_ezd_def hd_vtrack is_ezd_def PC_SLICE_TYPE_def minix_disk_def)
  then show ?thesis
    using hd_part_ok by (simp add: part_ok_def readable_def minix_state_def start_loader_def hd_state_def)
qed

lemma minix_content: "part_content (\<lambda>m. m) (dsk minix_state) = minix_part"
  "part_size (dsk minix_state) = 51200"
  by (simp_all add: part_content_def part_size_def minix_disk_def minix_state_def start_loader_def hd_state_def)

lemma minix_inodes:
  "inode_pos minix_part (Suc 0) = 4096" "inode_pos minix_part 2 = 4128"
  "entry_size minix_part = 16"
  by (simp_all add: inode_pos_def entry_size_def le16_def minix_part_def)

lemma minix_root:
  defines "m \<equiv> inode_of minix_part (Suc 0)"
  shows "i_mode m = 0x4000" "i_size m = 32" "inode_size m = 32" "inode_zone m 0 = 6"
  using minix_inodes(1) unfolding m_def
  by (simp_all add: inode_of_def i_mode_def i_size_def inode_size_def inode_zone_def i_zone_def le16_def le32_def minix_part_def)

lemma minix_a:
  defines "m \<equiv> inode_of minix_part 2"
  shows "i_mode m = 0x8000" "i_size m = 17" "inode_size m = 17" "inode_zone m 0 = 7"
  using minix_inodes(2) unfolding m_def
  by (simp_all add: inode_of_def i_mode_def i_size_def inode_size_def inode_zone_def i_zone_def le16_def le32_def minix_part_def)

lemma minix_find:
  "dir_find (minix_file minix_part (inode_of minix_part (Suc 0))) 32 16 [97] = Some (2, [97])"
proof -
  let ?f = "minix_file minix_part (inode_of minix_part (Suc 0))"
  have f: "?f p = minix_part (6144 + p)" if "p < 1024" for p
    using that minix_root(4) by (simp add: minix_file_def file_zone_def)
  have u: "[0..<dir_count 32 16] = [0, 1]" by (simp add: dir_count_def upt_rec)
  have r: "read_at 2 14 ?f = read_at 6146 14 minix_part" "read_at 18 14 ?f = read_at 6162 14 minix_part"
    by (rule nth_equalityI; simp add: f)+
  have "dir_entry ?f 16 0 = (1, [46])" "dir_entry ?f 16 1 = (2, [97])"
    using r by (simp_all add: dir_entry_def le16_def f)
      (simp_all add: minix_part_def read_at_def upt_rec)
  then show ?thesis by (simp add: dir_find_def u)
qed

lemma minix_path:
  "resolve minix_part (Suc 0) [[97]] = Inr 2" "path_ok 51200 minix_part (Suc 0) [[97]]"
  "file_zone minix_part (inode_of minix_part 2) 0 = Some 7" "path_words [[97]]"
proof -
  have z: "file_zone minix_part (inode_of minix_part (Suc 0)) 0 = Some 6"
    by (simp add: file_zone_def minix_root)
  have b: "blocks_ok 51200 minix_part (inode_of minix_part (Suc 0)) 0 32"
    by (simp add: blocks_ok_def block_ok_def z zone_inside_def)
  show "resolve minix_part (Suc 0) [[97]] = Inr 2"
    using minix_find by (simp add: minix_root minix_a minix_inodes S_ISDIR_def S_ISREG_def)
  show "path_ok 51200 minix_part (Suc 0) [[97]]"
    using minix_find b by (simp add: path_ok.simps Let_def minix_root minix_a minix_inodes S_ISDIR_def S_ISLNK_def zone_inside_def)
  show "file_zone minix_part (inode_of minix_part 2) 0 = Some 7" by (simp add: file_zone_def minix_a)
  show "path_words [[97]]" by (simp add: path_words_def name_end_def grub_isspace_def)
qed

theorem minix_lookup_and_read_witness:
  "\<exists>s1 s2 s3. minix_mount hd_loader_env minix_state = Some (True, s1) \<and>
     minix_dir hd_loader_env (\<lambda>_ _ _ _. None) (\<lambda>_. 0) (bs ''/a'') s1 = Some (True, s2) \<and>
     minix_read hd_loader_env 7 (\<lambda>_. 0) 0 (s2\<lparr>filepos := 9\<rparr>) = Some (7, write_at 0 (bs ''root=on'') (\<lambda>_. 0), s3)"
proof -
  note l = hd_loader_disk
  have t: "path_text [[97]] @ [] = bs ''/a''" by (simp add: path_text_def)
  have r: "resolve minix_part 1 [[97]] = Inr 2" using minix_path(1) by simp
  have p: "path_ok 51200 minix_part 1 [[97]]" using minix_path(2) by simp
  have b: "blocks_ok 51200 minix_part (inode_of minix_part 2) 9 7"
    by (simp add: blocks_ok_def block_ok_def minix_path(3) zone_inside_def)
  have v: "print_possibilities minix_state = 0" "le16 minix_part 1040 \<in> {0x137F, 0x138F}"
    by (simp_all add: minix_state_def start_loader_def le16_def minix_part_def)
  have c: "read_at 9 7 (minix_file minix_part (inode_of minix_part 2)) = bs ''root=on''"
    by (simp add: read_at_def upt_rec minix_file_def minix_path(3)) (simp add: minix_part_def)
  show ?thesis
    using minix_lookup_and_read [OF disjI1 [OF hd_lba.lba_drive_axioms] hd_probe _ l minix_part_ok, where ws = "[[97]]" and rest = "[]"
        and gread = "\<lambda>_ _ _ _. None" and lb = "\<lambda>_. 0"] p v minix_path(4) b c
    unfolding minix_content t r by (fastforce simp: Let_def name_end_def)
qed

end
