(* ===== verification/Config.thy ===== *)
theory Config
  imports Device
begin

text \<open>
  The parser of configuration files, \<open>loader/cfgparse.c\<close>.  It is compiled into the pre-loader and into
  the loader, so the file routines \<open>u_open\<close>, \<open>u_seek\<close>, \<open>u_read\<close> and \<open>u_close\<close> and the handler behind
  \<open>process_cfg_line\<close> are arguments here.  The buffer \<open>buf\<close> is memory from address 0, what follows it
  included; the static strings \<open>s\<close> and \<open>str\<close> are lists up to \<open>s_pos\<close> and \<open>str_pos\<close>.  \<open>panic\<close> halts the
  machine and is \<open>None\<close>, as is a store outside a buffer.
\<close>

section \<open>Words and lines\<close>

abbreviation (input) BUFSIZE :: nat where "BUFSIZE \<equiv> 0x400"

definition blank :: "u8 \<Rightarrow> bool" where
  "blank c \<longleftrightarrow> grub_isspace (uint c)"

text \<open>The rest of the string from the end of its first word.\<close>

definition wordend :: "u8 list \<Rightarrow> u8 list" where
  "wordend s = dropWhile (\<lambda>c. \<not> blank c) s"

fun abbrev :: "u8 list \<Rightarrow> u8 list \<Rightarrow> nat \<Rightarrow> bool" where
  "abbrev s1 s2 0 = True"
| "abbrev s1 s2 (Suc n) = (if cur s1 = 0 \<or> cur s2 = 0 \<or> cur s1 \<noteq> cur s2 then False else abbrev (tl s1) (tl s2) n)"

text \<open>
  \<open>strip\<close>: \<open>before\<close> are the bytes in front of the string, nearest first, down to the one in front of its
  buffer.  The first loop clears blanks from the end; when nothing is left of the string it goes on in
  front of it.
\<close>

fun strip_before :: "u8 list \<Rightarrow> u8 list option" where
  "strip_before [] = None"
| "strip_before (c # cs) = (if blank c then map_option (Cons 0) (strip_before cs) else Some (c # cs))"

definition strip :: "u8 list \<Rightarrow> u8 list \<Rightarrow> (u8 list \<times> u8 list) option" where
  "strip before p =
     (let q = rev (dropWhile blank (rev p)) in
      do {
        before \<leftarrow> (if q = [] then strip_before before else Some before);
        Some (rev (takeWhile blank q) @ before, dropWhile blank q)
      })"

text \<open>Cutting a string at a character, as the users of \<open>grub_index\<close> do.\<close>

definition cut_at :: "u8 \<Rightarrow> u8 list \<Rightarrow> u8 list" where
  "cut_at c s = takeWhile (\<lambda>x. x \<noteq> c) s"

definition trim :: "u8 list \<Rightarrow> u8 list" where
  "trim s = cut_at 10 (cut_at 13 s)"

text \<open>The line from \<open>p\<close> in \<open>buf\<close>, of which \<open>n\<close> bytes are filled, and the position behind it.\<close>

function line_stop :: "mem \<Rightarrow> nat \<Rightarrow> nat \<Rightarrow> nat" where
  "line_stop buf q n = (if buf q \<noteq> 13 \<and> buf q \<noteq> 10 \<and> buf q \<noteq> 0 \<and> q < n then line_stop buf (q + 1) n else q)"
  by pat_completeness auto
termination
  by (relation "measure (\<lambda>(buf, q, n). n - q)") auto

declare line_stop.simps [simp del]

definition getline :: "mem \<Rightarrow> nat \<Rightarrow> nat \<Rightarrow> (u8 list \<times> nat) option" where
  "getline buf p n =
     (let q = line_stop buf p n;
          q = (if buf q = 13 then q + 1 else q);
          q = (if buf q = 10 then q + 1 else q)
      in if q - p \<ge> BUFSIZE then None else Some (read_at p (q - p) buf, q))"

section \<open>The lines of a chunk\<close>

record cfg_bufs =
  cbuf :: mem
  part_line :: "u8 list"
  part_str :: "u8 list"

text \<open>
  The inner loop of \<open>process_cfg\<close> over the \<open>rd\<close> bytes of a chunk; \<open>fb\<close> is the byte in front of \<open>s\<close>.  The
  first component of the result is the handler's verdict.  A line of which nothing is left has \<open>line[-1]\<close>
  as its last character.
\<close>

partial_function (option) cfg_lines ::
  "u8 \<Rightarrow> (u8 list \<Rightarrow> 'c \<Rightarrow> (bool \<times> 'c) option) \<Rightarrow> nat \<Rightarrow> nat \<Rightarrow> bool \<Rightarrow> cfg_bufs \<Rightarrow> 'c \<Rightarrow> (bool \<times> cfg_bufs \<times> 'c) option" where
  "cfg_lines fb fn rd p f b c =
     (if \<not> (cbuf b p \<noteq> 0 \<and> f) then Some (True, b, c)
      else do {
        (line, p) \<leftarrow> getline (cbuf b) p rd;
        if length (part_line b) + length line \<ge> BUFSIZE then None
        else do {
          let s = part_line b @ line;
          let f = (p < rd);
          let g = (f \<or> cbuf b (rd - 1) = 10);
          if \<not> g then cfg_lines fb fn rd p f (b\<lparr>part_line := s\<rparr>) c
          else do {
            (before, line) \<leftarrow> strip [fb] (trim s);
            let line = cut_at (ch CHR '';'') line;
            let line = cut_at (ch CHR ''#'') line;
            (before, line) \<leftarrow> strip before line;
            let e = (if line = [] then hd before else last line);
            if e = ch CHR ''^'' \<or> e = ch CHR ''&''
            then if line = [] \<or> length (part_str b) + (length line - 1) \<ge> BUFSIZE then None
                 else cfg_lines fb fn rd p f (b\<lparr>part_line := [], part_str := part_str b @ butlast line\<rparr>) c
            else if length (part_str b) + length line \<ge> BUFSIZE then None
            else do {
              (ok, c) \<leftarrow> fn (part_str b @ line) c;
              let b = b\<lparr>part_line := [], part_str := []\<rparr>;
              if ok then cfg_lines fb fn rd p f b c else Some (False, b, c)
            }
          }
        }
      })"

section \<open>The file\<close>

record 'f file_ops =
  f_open :: "u8 list \<Rightarrow> 'f \<Rightarrow> (int \<times> int \<times> 'f) option"
  f_seek :: "int \<Rightarrow> 'f \<Rightarrow> (int \<times> 'f) option"
  f_read :: "int \<Rightarrow> mem \<Rightarrow> nat \<Rightarrow> 'f \<Rightarrow> (int \<times> mem \<times> 'f) option"
  f_close :: "'f \<Rightarrow> 'f option"

partial_function (option) cfg_chunks ::
  "'f file_ops \<Rightarrow> u8 \<Rightarrow> (u8 list \<Rightarrow> 'c \<Rightarrow> (bool \<times> 'c) option) \<Rightarrow> u8 list \<Rightarrow> u32 \<Rightarrow> int \<Rightarrow> 'f \<Rightarrow> cfg_bufs \<Rightarrow> 'c
   \<Rightarrow> (int \<times> 'f \<times> cfg_bufs \<times> 'c) option" where
  "cfg_chunks ops fb fn cfg sz bytes_read f b c =
     (if sz = 0 then Some (1, f, b, c)
      else do {
        (r, _, f) \<leftarrow> f_open ops cfg f;
        if r \<noteq> 0 then Some (0, f, b, c)
        else do {
          (_, f) \<leftarrow> f_seek ops bytes_read f;
          (rd, m, f) \<leftarrow> f_read ops (int BUFSIZE) (cbuf b) 0 f;
          let b = b\<lparr>cbuf := m\<rparr>;
          if rd = 0 then Some (0, f, b, c)
          else do {
            f \<leftarrow> f_close ops f;
            (ok, b, c) \<leftarrow> cfg_lines fb fn (nat rd) 0 True b c;
            if ok then cfg_chunks ops fb fn cfg (sz - c_ulong rd) (s32 (bytes_read + rd)) f b c
            else Some (- 1, f, b, c)
          }
        }
      })"

definition process_cfg ::
  "'f file_ops \<Rightarrow> u8 \<Rightarrow> (u8 list \<Rightarrow> 'c \<Rightarrow> (bool \<times> 'c) option) \<Rightarrow> u8 list \<Rightarrow> 'f \<Rightarrow> cfg_bufs \<Rightarrow> 'c
   \<Rightarrow> (int \<times> 'f \<times> cfg_bufs \<times> 'c) option" where
  "process_cfg ops fb fn cfg f b c =
     do {
       (r, size, f) \<leftarrow> f_open ops cfg f;
       if r \<noteq> 0 then Some (0, f, b, c)
       else do { f \<leftarrow> f_close ops f; cfg_chunks ops fb fn cfg (c_ulong size) 0 f b c }
     }"

end
