(* ===== verification/ConfigLines.thy ===== *)
theory ConfigLines
  imports Config
begin

text \<open>
  What the configuration parser does with a file: the specification is the list of its lines, each cut at
  a comment, stripped, and joined with the next one when it ends in a continuation sign.  Between the two
  stands a machine that takes the file byte by byte, which makes the borders of the chunks disappear.
\<close>

section \<open>The logical lines of a file\<close>

definition strip_blanks :: "u8 list \<Rightarrow> u8 list" where
  "strip_blanks s = rev (dropWhile blank (rev (dropWhile blank s)))"

definition clean :: "u8 list \<Rightarrow> u8 list" where
  "clean l = strip_blanks (takeWhile (\<lambda>c. c \<noteq> ch CHR '';'' \<and> c \<noteq> ch CHR ''#'') l)"

definition continued :: "u8 list \<Rightarrow> bool" where
  "continued l \<longleftrightarrow> l \<noteq> [] \<and> (last l = ch CHR ''^'' \<or> last l = ch CHR ''&'')"

text \<open>
  The handler gets the logical lines in order; its refusal gives -1.  \<open>acc\<close> is the part of the current
  logical line that is already there.  A line or logical line that does not fit stops the machine.
\<close>

fun config_run :: "(u8 list \<Rightarrow> 'c \<Rightarrow> (bool \<times> 'c) option) \<Rightarrow> u8 list \<Rightarrow> (u8 list \<times> bool) list \<Rightarrow> 'c \<Rightarrow> (int \<times> 'c) option" where
  "config_run fn acc [] c = Some (1, c)"
| "config_run fn acc ((l, cr) # ls) c =
     (let k = clean l in
      if length l + (if cr then 2 else 1) \<ge> BUFSIZE then None
      else if continued k
      then if length acc + (length k - 1) \<ge> BUFSIZE then None else config_run fn (acc @ butlast k) ls c
      else if length acc + length k \<ge> BUFSIZE then None
      else do { (ok, c) \<leftarrow> fn (acc @ k) c; if ok then config_run fn [] ls c else Some (- 1, c) })"

text \<open>
  When everything fits, the machine is a fold of the handler over the list of logical lines.
\<close>

fun logical_lines :: "u8 list \<Rightarrow> (u8 list \<times> bool) list \<Rightarrow> u8 list list" where
  "logical_lines acc [] = []"
| "logical_lines acc ((l, cr) # ls) =
     (let k = clean l in
      if continued k then logical_lines (acc @ butlast k) ls else (acc @ k) # logical_lines [] ls)"

fun lines_fit :: "u8 list \<Rightarrow> (u8 list \<times> bool) list \<Rightarrow> bool" where
  "lines_fit acc [] \<longleftrightarrow> True"
| "lines_fit acc ((l, cr) # ls) \<longleftrightarrow>
     (let k = clean l in
      length l + (if cr then 2 else 1) < BUFSIZE \<and>
      (if continued k then length acc + (length k - 1) < BUFSIZE \<and> lines_fit (acc @ butlast k) ls
       else length acc + length k < BUFSIZE \<and> lines_fit [] ls))"

fun handle_all :: "(u8 list \<Rightarrow> 'c \<Rightarrow> (bool \<times> 'c) option) \<Rightarrow> u8 list list \<Rightarrow> 'c \<Rightarrow> (int \<times> 'c) option" where
  "handle_all fn [] c = Some (1, c)"
| "handle_all fn (l # ls) c = do { (ok, c) \<leftarrow> fn l c; if ok then handle_all fn ls c else Some (- 1, c) }"

lemma config_run_fit: "lines_fit acc ls \<Longrightarrow> config_run fn acc ls c = handle_all fn (logical_lines acc ls) c"
  by (induction fn acc ls c rule: config_run.induct) (auto simp: Let_def split: if_splits Option.bind_split)

text \<open>The bytes of the file: each line with its end, CR LF or LF.\<close>

definition file_bytes :: "(u8 list \<times> bool) list \<Rightarrow> u8 list" where
  "file_bytes ls = concat (map (\<lambda>(l, cr). l @ (if cr then [13, 10] else [10])) ls)"

definition text_lines :: "(u8 list \<times> bool) list \<Rightarrow> bool" where
  "text_lines ls \<longleftrightarrow> (\<forall>(l, cr)\<in>set ls. 0 \<notin> set l \<and> 10 \<notin> set l \<and> 13 \<notin> set l)"

section \<open>Stripping twice\<close>

lemma blank_iff: "blank c \<longleftrightarrow> c \<in> {32, 9, 13, 10}"
proof -
  have w: "uint c = n \<Longrightarrow> c = of_int n" for n by auto
  show ?thesis by (auto simp: blank_def grub_isspace_def dest!: w)
qed

lemma strip_before_ok: "cs \<noteq> [] \<Longrightarrow> \<not> blank (last cs) \<Longrightarrow>
    \<exists>ds. strip_before cs = Some ds \<and> ds \<noteq> [] \<and> last ds = last cs \<and> (hd ds = 0 \<or> hd ds = hd cs \<and> \<not> blank (hd cs))"
proof (induction cs rule: list_nonempty_induct)
  case (single x)
  then show ?case by simp
next
  case (cons x xs)
  then show ?case by (cases "blank x") auto
qed

text \<open>A string is blanks around a core.\<close>

lemma blanks_around:
  assumes "\<forall>x\<in>set a. blank x" "\<forall>x\<in>set b. blank x" "m \<noteq> [] \<Longrightarrow> \<not> blank (hd m) \<and> \<not> blank (last m)"
  shows "strip_blanks (a @ m @ b) = m" "dropWhile blank (rev (dropWhile blank (rev (a @ m @ b)))) = m"
proof -
  have e: "\<forall>x\<in>set ys. blank x \<Longrightarrow> dropWhile blank (ys @ xs) = dropWhile blank xs" for xs ys by (induction ys) auto
  have d1: "m \<noteq> [] \<Longrightarrow> dropWhile blank (m @ xs) = m @ xs" for xs using assms(3) by (cases m) auto
  have d2: "m \<noteq> [] \<Longrightarrow> dropWhile blank (rev m @ xs) = rev m @ xs" for xs
    using assms(3) by (cases m rule: rev_cases) auto
  have ab: "dropWhile blank (a @ b) = []" "dropWhile blank (rev b @ rev a) = []"
    unfolding dropWhile_eq_Nil_conv using assms(1,2) by auto
  show "strip_blanks (a @ m @ b) = m" "dropWhile blank (rev (dropWhile blank (rev (a @ m @ b)))) = m"
  proof -
    have r: "\<forall>x\<in>set (rev a). blank x" "\<forall>x\<in>set (rev b). blank x" using assms(1,2) by simp_all
    show "strip_blanks (a @ m @ b) = m"
    proof (cases "m = []")
      case True
      then show ?thesis using ab(1) by (simp only: strip_blanks_def append_Nil rev.simps dropWhile.simps)
    next
      case False
      then show ?thesis
        using d1 [OF False, of b] d2 [OF False, of "[]"] by (simp only: strip_blanks_def e [OF assms(1)] rev_append e [OF r(2)] append_Nil2 rev_rev_ident)
    qed
    show "dropWhile blank (rev (dropWhile blank (rev (a @ m @ b)))) = m"
    proof (cases "m = []")
      case True
      then show ?thesis using ab(2) by (simp only: rev_append append_Nil rev.simps dropWhile.simps append_Nil2)
    next
      case False
      then show ?thesis
        using d2 [OF False, of "rev a"] d1 [OF False, of "[]"]
        by (simp only: rev_append append_assoc e [OF r(2)] rev_rev_ident e [OF assms(1)] append_Nil2)
    qed
  qed
qed

lemma strip_core: "\<exists>a b. s = a @ strip_blanks s @ b \<and> (\<forall>x\<in>set a. blank x) \<and> (\<forall>x\<in>set b. blank x) \<and>
    (strip_blanks s \<noteq> [] \<longrightarrow> \<not> blank (hd (strip_blanks s)) \<and> \<not> blank (last (strip_blanks s)))"
proof (intro exI conjI)
  let ?d = "dropWhile blank s"
  have "?d = strip_blanks s @ rev (takeWhile blank (rev ?d))"
    unfolding strip_blanks_def by (metis rev_append rev_rev_ident takeWhile_dropWhile_id)
  then show s: "s = takeWhile blank s @ strip_blanks s @ rev (takeWhile blank (rev ?d))"
    by (metis takeWhile_dropWhile_id)
  show "\<forall>x\<in>set (takeWhile blank s). blank x" "\<forall>x\<in>set (rev (takeWhile blank (rev ?d))). blank x"
    by (auto dest: set_takeWhileD)
  show "strip_blanks s \<noteq> [] \<longrightarrow> \<not> blank (hd (strip_blanks s)) \<and> \<not> blank (last (strip_blanks s))"
  proof
    assume ne: "strip_blanks s \<noteq> []"
    then have d: "dropWhile blank (rev ?d) \<noteq> []" by (simp only: strip_blanks_def rev_is_Nil_conv not_False_eq_True)
    then have d': "?d \<noteq> []" by (metis dropWhile.simps(1) rev.simps(1))
    have "hd (strip_blanks s) = hd ?d" using ne by (subst \<open>?d = _ @ _\<close>) simp
    moreover have "last (strip_blanks s) = hd (dropWhile blank (rev ?d))" by (simp add: strip_blanks_def last_rev)
    ultimately show "\<not> blank (hd (strip_blanks s)) \<and> \<not> blank (last (strip_blanks s))"
      using hd_dropWhile [OF d'] hd_dropWhile [OF d] by simp
  qed
qed

definition no_comment :: "u8 \<Rightarrow> bool" where
  "no_comment c \<longleftrightarrow> c \<noteq> ch CHR '';'' \<and> c \<noteq> ch CHR ''#''"

lemma clean_alt: "clean l = strip_blanks (takeWhile no_comment l)"
  by (simp add: clean_def no_comment_def [abs_def])

lemma cut_comment: "cut_at (ch CHR ''#'') (cut_at (ch CHR '';'') s) = takeWhile no_comment s"
  by (induction s) (auto simp: cut_at_def no_comment_def)

lemma clean_strip: "strip_blanks (takeWhile no_comment (strip_blanks s)) = clean s"
proof -
  obtain a b m where ab: "s = a @ m @ b" "\<forall>x\<in>set a. blank x" "\<forall>x\<in>set b. blank x" and m: "strip_blanks s = m"
    using strip_core [of s] by blast
  have no: "blank x \<Longrightarrow> no_comment x" for x by (auto simp: blank_iff no_comment_def)
  have "takeWhile no_comment s = a @ takeWhile no_comment m @ (if \<forall>x\<in>set m. no_comment x then b else [])"
  proof -
    have t: "takeWhile no_comment a = a" "takeWhile no_comment b = b" "\<forall>x\<in>set a. no_comment x"
      using ab(2,3) no by (simp_all add: takeWhile_eq_all_conv)
    show ?thesis
    proof (cases "\<forall>x\<in>set m. no_comment x")
      case True
      then have "takeWhile no_comment m = m" by (simp add: takeWhile_eq_all_conv)
      then show ?thesis using t True unfolding ab(1) by (simp add: takeWhile_append del: takeWhile_eq_all_conv)
    next
      case False
      then show ?thesis using t unfolding ab(1) by (auto simp: takeWhile_append simp del: takeWhile_eq_all_conv)
    qed
  qed
  moreover have "strip_blanks (a @ x @ (if t then b else [])) = strip_blanks x" for x t
  proof -
    obtain a' b' k where x: "x = a' @ k @ b'" "strip_blanks x = k" "\<forall>x\<in>set a'. blank x" "\<forall>x\<in>set b'. blank x"
      "k \<noteq> [] \<longrightarrow> \<not> blank (hd k) \<and> \<not> blank (last k)"
      using strip_core [of x] by blast
    have e: "a @ x @ (if t then b else []) = (a @ a') @ k @ (b' @ (if t then b else []))" using x(1) by simp
    show ?thesis
      unfolding e x(2) by (rule blanks_around(1)) (use ab(2,3) x(3-5) in auto)
  qed
  ultimately show ?thesis by (simp add: clean_alt m)
qed

lemma strip_ok:
  assumes "before \<noteq> []" "\<not> blank (last before)"
  shows "\<exists>b. strip before p = Some (b, strip_blanks p) \<and> b \<noteq> [] \<and> last b = last before \<and>
    (hd b = hd before \<or> blank (hd b) \<or> hd b = 0)"
proof -
  let ?q = "rev (dropWhile blank (rev p))"
  obtain a b where "p = a @ strip_blanks p @ b" "\<forall>x\<in>set a. blank x" "\<forall>x\<in>set b. blank x"
    "strip_blanks p \<noteq> [] \<longrightarrow> \<not> blank (hd (strip_blanks p)) \<and> \<not> blank (last (strip_blanks p))"
    using strip_core [of p] by blast
  then have "dropWhile blank ?q = strip_blanks p" using blanks_around(2) [of a b "strip_blanks p"] by metis
  then have q: "dropWhile blank ?q = strip_blanks p" .
  show ?thesis
  proof (cases "?q = []")
    case True
    then show ?thesis
      using strip_before_ok [OF assms] q by (auto simp: strip_def Let_def simp del: dropWhile_eq_Nil_conv rev_is_Nil_conv)
  next
    case False
    have "t = [] \<or> blank (hd (rev t))" if "t = takeWhile blank ?q" for t
      using that set_takeWhileD [of _ blank ?q] hd_in_set [of "rev t"] by (cases "t = []") auto
    then show ?thesis
      using assms False q by (auto simp: strip_def Let_def hd_append simp del: dropWhile_eq_Nil_conv rev_is_Nil_conv takeWhile_eq_Nil_iff)
  qed
qed

section \<open>The machine that takes single bytes\<close>

text \<open>The end of a line \<open>w\<close>: the verdict of the handler, the pending logical line, the handler's state.\<close>

definition finish :: "(u8 list \<Rightarrow> 'c \<Rightarrow> (bool \<times> 'c) option) \<Rightarrow> u8 list \<Rightarrow> u8 list \<Rightarrow> 'c \<Rightarrow> (bool \<times> u8 list \<times> 'c) option" where
  "finish fn w acc c =
     (let k = clean (trim w) in
      if continued k
      then if length acc + (length k - 1) \<ge> BUFSIZE then None else Some (True, acc @ butlast k, c)
      else if length acc + length k \<ge> BUFSIZE then None
      else do { (ok, c) \<leftarrow> fn (acc @ k) c; Some (ok, [], c) })"

fun feed :: "(u8 list \<Rightarrow> 'c \<Rightarrow> (bool \<times> 'c) option) \<Rightarrow> u8 list \<Rightarrow> u8 list \<Rightarrow> u8 list \<Rightarrow> 'c \<Rightarrow> (bool \<times> u8 list \<times> u8 list \<times> 'c) option" where
  "feed fn [] w acc c = Some (True, w, acc, c)"
| "feed fn (x # xs) w acc c =
     (if length w + 1 \<ge> BUFSIZE then None
      else if x = 10
      then do { (ok, acc, c) \<leftarrow> finish fn (w @ [x]) acc c;
                if ok then feed fn xs [] acc c else Some (False, [], acc, c) }
      else feed fn xs (w @ [x]) acc c)"

lemma feed_append:
  "feed fn (xs @ ys) w acc c =
     do { (ok, w, acc, c) \<leftarrow> feed fn xs w acc c; if ok then feed fn ys w acc c else Some (False, w, acc, c) }"
  by (induction fn xs w acc c rule: feed.induct) (auto split: bind_splits Option.bind_splits)

lemma feed_plain:
  "10 \<notin> set xs \<Longrightarrow> feed fn xs w acc c =
     (if xs \<noteq> [] \<and> length w + length xs \<ge> BUFSIZE then None else Some (True, w @ xs, acc, c))"
  by (induction xs arbitrary: w) auto

lemma feed_line:
  "10 \<notin> set u \<Longrightarrow> feed fn (u @ 10 # xs) w acc c =
     (if length w + length u + 1 \<ge> BUFSIZE then None
      else do { (ok, acc, c) \<leftarrow> finish fn (w @ u @ [10]) acc c;
                if ok then feed fn xs [] acc c else Some (False, [], acc, c) })"
  by (subst feed_append) (auto simp: feed_plain)

text \<open>What a chunk must be like: no NUL, CR only in front of LF, and behind it no byte that would be taken
  for the end of its last line.\<close>

definition chunk_ok :: "mem \<Rightarrow> nat \<Rightarrow> bool" where
  "chunk_ok buf rd \<longleftrightarrow> (\<forall>i<rd. buf i \<noteq> 0 \<and> (buf i = 13 \<longrightarrow> Suc i = rd \<or> buf (Suc i) = 10)) \<and>
     (buf rd \<noteq> 10 \<and> buf rd \<noteq> 13 \<or> buf (rd - 1) = 10)"

lemma line_stop_spec:
  "p \<le> n \<Longrightarrow> p \<le> line_stop buf p n \<and> line_stop buf p n \<le> n \<and>
    (\<forall>i. p \<le> i \<and> i < line_stop buf p n \<longrightarrow> buf i \<noteq> 13 \<and> buf i \<noteq> 10) \<and>
    (line_stop buf p n = n \<or> buf (line_stop buf p n) \<in> {13, 10, 0})"
proof (induction buf p n rule: line_stop.induct)
  case (1 buf q n)
  show ?case
  proof (cases "buf q \<noteq> 13 \<and> buf q \<noteq> 10 \<and> buf q \<noteq> 0 \<and> q < n")
    case True
    then have e: "line_stop buf q n = line_stop buf (q + 1) n" by (subst line_stop.simps) simp
    have IH: "q + 1 \<le> line_stop buf (q + 1) n" "line_stop buf (q + 1) n \<le> n"
      "\<And>i. q + 1 \<le> i \<Longrightarrow> i < line_stop buf (q + 1) n \<Longrightarrow> buf i \<noteq> 13 \<and> buf i \<noteq> 10"
      "line_stop buf (q + 1) n = n \<or> buf (line_stop buf (q + 1) n) \<in> {13, 10, 0}"
      using 1 True by auto
    have "buf i \<noteq> 13 \<and> buf i \<noteq> 10" if "q \<le> i" "i < line_stop buf (q + 1) n" for i
      using IH(3) [of i] True that by (cases "i = q") auto
    then show ?thesis using IH unfolding e by auto
  next
    case False
    then have "line_stop buf q n = q" by (subst line_stop.simps) auto
    then show ?thesis using 1(2) False by auto
  qed
qed

lemma getline_ok:
  assumes "chunk_ok buf rd" "p < rd"
  shows "\<exists>q. p < q \<and> q \<le> rd \<and> getline buf p rd = (if q - p \<ge> BUFSIZE then None else Some (read_at p (q - p) buf, q)) \<and>
    ((\<exists>u. read_at p (q - p) buf = u @ [10] \<and> 10 \<notin> set u \<and> buf (q - 1) = 10) \<or>
     q = rd \<and> 10 \<notin> set (read_at p (rd - p) buf) \<and> buf (rd - 1) \<noteq> 10)"
proof -
  define s where "s = line_stop buf p rd"
  have s: "p \<le> s" "s \<le> rd" "\<And>i. p \<le> i \<Longrightarrow> i < s \<Longrightarrow> buf i \<noteq> 13 \<and> buf i \<noteq> 10" "s = rd \<or> buf s \<in> {13, 10}"
    using line_stop_spec [of p rd buf] assms by (auto simp: s_def chunk_ok_def)
  have free: "10 \<notin> set (read_at p (s - p) buf)" using s(3) by (auto simp: read_at_def)
  have snoc: "read_at p (Suc n) buf = read_at p n buf @ [buf (p + n)]" for n by (simp add: read_at_def)
  consider "s = rd" | "s < rd" "buf s = 10" | "Suc s < rd" "buf s = 13" | "Suc s = rd" "buf s = 13"
    using s(2,4) by (cases "s = rd"; cases "Suc s = rd") auto
  then show ?thesis
  proof cases
    case 1
    then have "buf (rd - 1) \<noteq> 10" using s(3) [of "rd - 1"] assms(2) by simp
    then have "buf s \<noteq> 13" "buf s \<noteq> 10" using assms(1) 1 by (auto simp: chunk_ok_def)
    then show ?thesis
      using free assms(2) 1 \<open>buf (rd - 1) \<noteq> 10\<close>
      by (intro exI [of _ rd]) (simp add: getline_def s_def [symmetric] Let_def)
  next
    case 2
    have "read_at p (Suc s - p) buf = read_at p (s - p) buf @ [10]" using snoc [of "s - p"] s(1) 2 by (simp add: Suc_diff_le)
    then show ?thesis
      using free 2 s(1) by (intro exI [of _ "Suc s"]) (simp add: getline_def s_def [symmetric] Let_def)
  next
    case 3
    then have "s < rd" by simp
    then have n: "buf (Suc s) = 10" using assms(1) 3 unfolding chunk_ok_def by (metis less_irrefl)
    have "read_at p (Suc (Suc s) - p) buf = (read_at p (s - p) buf @ [13]) @ [10]"
      using snoc [of "s - p"] snoc [of "Suc (s - p)"] s(1) 3 n by (simp add: Suc_diff_le)
    then show ?thesis
      using free 3 n s(1) by (intro exI [of _ "Suc (Suc s)"]) (simp add: getline_def s_def [symmetric] Let_def)
  next
    case 4
    then have b: "buf (rd - 1) \<noteq> 10" by auto
    then have "buf (Suc s) \<noteq> 10" using assms(1) 4 by (auto simp: chunk_ok_def)
    moreover have "read_at p (rd - p) buf = read_at p (s - p) buf @ [13]"
      using snoc [of "s - p"] s(1) 4 by (auto simp: Suc_diff_le)
    ultimately show ?thesis
      using free 4 b s(1) by (intro exI [of _ rd]) (auto simp: getline_def s_def [symmetric] Let_def)
  qed
qed

text \<open>The inner loop does what the machine does with the bytes of the chunk.\<close>

lemma cfg_line_step:
  assumes "\<not> blank fb" "fb \<noteq> ch CHR ''^''" "fb \<noteq> ch CHR ''&''" "cbuf b p \<noteq> 0"
    and "getline (cbuf b) p rd = Some (line, q)" "q < rd \<or> cbuf b (rd - 1) = 10"
  shows "cfg_lines fb fn rd p True b c =
    (if length (part_line b) + length line \<ge> BUFSIZE then None
     else do {
       (ok, acc, c) \<leftarrow> finish fn (part_line b @ line) (part_str b) c;
       let b = b\<lparr>part_line := [], part_str := acc\<rparr>;
       if ok then cfg_lines fb fn rd q (q < rd) b c else Some (False, b, c)
     })"
proof -
  let ?s = "trim (part_line b @ line)"
  let ?k = "clean ?s"
  obtain b1 where b1: "strip [fb] ?s = Some (b1, strip_blanks ?s)" "b1 \<noteq> []" "last b1 = fb"
    "hd b1 = fb \<or> blank (hd b1) \<or> hd b1 = 0"
    using strip_ok [of "[fb]" ?s] assms(1) by auto
  obtain b2 where b2: "strip b1 (takeWhile no_comment (strip_blanks ?s)) = Some (b2, ?k)" "b2 \<noteq> []"
    "hd b2 = hd b1 \<or> blank (hd b2) \<or> hd b2 = 0"
    using strip_ok [of b1 "takeWhile no_comment (strip_blanks ?s)"] b1 assms(1) by (auto simp: clean_strip)
  have "hd b2 \<noteq> ch CHR ''^'' \<and> hd b2 \<noteq> ch CHR ''&''"
    using b1(4) b2(3) assms(2,3) by (auto simp: blank_iff)
  then have e: "((if ?k = [] then hd b2 else last ?k) = ch CHR ''^'' \<or> (if ?k = [] then hd b2 else last ?k) = ch CHR ''&'') = continued ?k"
    by (auto simp: continued_def)
  have m: "(q < rd \<or> cbuf b (rd - 1) = 10) = True" using assms(6) by simp
  have k: "continued ?k \<Longrightarrow> ?k \<noteq> []" by (simp add: continued_def)
  show ?thesis
    using assms(4) k
    by (subst cfg_lines.simps)
      (simp only: assms(5) bind.bind_lunit prod.case Let_def m cut_comment b1(1) b2(1) e finish_def not_True_eq_False if_False
        if_True simp_thms Option.bind_assoc, auto split: bind_splits)
qed

lemma cfg_lines_feed:
  assumes "\<not> blank fb" "fb \<noteq> ch CHR ''^''" "fb \<noteq> ch CHR ''&''" "chunk_ok (cbuf b) rd" "p \<le> rd"
  shows "cfg_lines fb fn rd p (p < rd) b c =
    do { (ok, w, acc, c) \<leftarrow> feed fn (read_at p (rd - p) (cbuf b)) (part_line b) (part_str b) c;
         Some (ok, b\<lparr>part_line := w, part_str := acc\<rparr>, c) }"
  using assms(4,5)
proof (induction "rd - p" arbitrary: p b c rule: less_induct)
  case less
  show ?case
  proof (cases "p < rd")
    case False
    then have "p = rd" using less.prems(2) by simp
    then show ?thesis by (subst cfg_lines.simps) simp
  next
    case True
    obtain q where q: "p < q" "q \<le> rd"
      "getline (cbuf b) p rd = (if q - p \<ge> BUFSIZE then None else Some (read_at p (q - p) (cbuf b), q))"
      "(\<exists>u. read_at p (q - p) (cbuf b) = u @ [10] \<and> 10 \<notin> set u \<and> cbuf b (q - 1) = 10) \<or>
       q = rd \<and> 10 \<notin> set (read_at p (rd - p) (cbuf b)) \<and> cbuf b (rd - 1) \<noteq> 10"
      using getline_ok [OF less.prems(1) True] by blast
    have nz: "cbuf b p \<noteq> 0" using less.prems(1) True by (simp add: chunk_ok_def)
    have split: "read_at p (rd - p) (cbuf b) = read_at p (q - p) (cbuf b) @ read_at q (rd - q) (cbuf b)"
      using read_at_append [of p "q - p" "rd - q" "cbuf b"] q(1,2) by simp
    consider u where "read_at p (q - p) (cbuf b) = u @ [10]" "10 \<notin> set u" "cbuf b (q - 1) = 10"
      | "q = rd" "10 \<notin> set (read_at p (rd - p) (cbuf b))" "cbuf b (rd - 1) \<noteq> 10"
      using q(4) by blast
    then show ?thesis
    proof cases
      case 1
      have l: "length u + 1 = q - p" using arg_cong [OF 1(1), of length] by simp
      have X: "read_at p (rd - p) (cbuf b) = u @ 10 # read_at q (rd - q) (cbuf b)" using split 1(1) by simp
      show ?thesis
      proof (cases "q - p \<ge> BUFSIZE \<or> length (part_line b) + (q - p) \<ge> BUFSIZE")
        case True
        have "cfg_lines fb fn rd p True b c = None"
        proof (cases "q - p \<ge> BUFSIZE")
          case t: True
          then show ?thesis using nz q(3) by (subst cfg_lines.simps) simp
        next
          case False
          then show ?thesis using nz q(3) True by (subst cfg_lines.simps) simp
        qed
        then show ?thesis using True \<open>p < rd\<close> 1(2) l by (auto simp: X feed_line)
      next
        case False
        have g: "q < rd \<or> cbuf b (rd - 1) = 10" using q(2) 1(3) by (cases "q = rd") auto
        have st: "cfg_lines fb fn rd p True b c =
          do { (ok, acc, c) \<leftarrow> finish fn (part_line b @ u @ [10]) (part_str b) c;
               let b = b\<lparr>part_line := [], part_str := acc\<rparr>;
               if ok then cfg_lines fb fn rd q (q < rd) b c else Some (False, b, c) }"
          using cfg_line_step [where fn = fn and c = c, OF assms(1-3) nz _ g] q(3) False l by (simp add: 1(1))
        have IH: "cfg_lines fb fn rd q (q < rd) (b\<lparr>part_line := [], part_str := acc\<rparr>) c' =
          do { (ok, w, acc, c) \<leftarrow> feed fn (read_at q (rd - q) (cbuf b)) [] acc c';
               Some (ok, b\<lparr>part_line := w, part_str := acc\<rparr>, c) }" for acc c'
          using less.hyps [of q "b\<lparr>part_line := [], part_str := acc\<rparr>" c'] less.prems(1) q(1,2) True by simp
        have n: "\<not> length (part_line b) + length u + 1 \<ge> BUFSIZE" using False l q(1) by linarith
        show ?thesis
          unfolding X feed_line [OF 1(2)] if_not_P [OF n] using \<open>p < rd\<close> st by (auto simp: IH Let_def split: bind_splits)
      qed
    next
      case 2
      have ne: "read_at p (rd - p) (cbuf b) \<noteq> []" using True by (simp add: read_at_def)
      have "cfg_lines fb fn rd p True b c = (if length (part_line b) + (rd - p) \<ge> BUFSIZE then None
          else Some (True, b\<lparr>part_line := part_line b @ read_at p (rd - p) (cbuf b)\<rparr>, c))"
      proof (cases "rd - p \<ge> BUFSIZE")
        case t: True
        then show ?thesis using nz q(3) 2(1) by (subst cfg_lines.simps) simp
      next
        case False
        then show ?thesis using nz q(3) 2 by (subst cfg_lines.simps, simp) (subst cfg_lines.simps, simp)
      qed
      then show ?thesis using True ne 2(2) by (simp add: feed_plain)
    qed
  qed
qed

text \<open>
  The machine on the bytes of a text is the specification on its lines; what stands behind the last line end stays
  pending and is never handled.
\<close>

lemma trim_line: "13 \<notin> set l \<Longrightarrow> 10 \<notin> set l \<Longrightarrow> trim (l @ 13 # x) = l \<and> trim (l @ [10]) = l"
  by (auto simp: trim_def cut_at_def takeWhile_append takeWhile_eq_all_conv)

lemma config_run_feed:
  "text_lines ls \<Longrightarrow> 10 \<notin> set tail \<Longrightarrow> length tail < BUFSIZE \<Longrightarrow> config_run fn acc ls c =
    do { (ok, w, acc, c) \<leftarrow> feed fn (file_bytes ls @ tail) [] acc c; Some (if ok then 1 else - 1, c) }"
proof (induction ls arbitrary: acc c)
  case Nil
  then show ?case by (simp add: file_bytes_def feed_plain)
next
  case (Cons lc ls)
  obtain l cr where lc: "lc = (l, cr)" by (cases lc)
  have l: "10 \<notin> set l" "13 \<notin> set l" and ls: "text_lines ls" using Cons.prems(1) by (auto simp: text_lines_def lc)
  define u where "u = l @ (if cr then [13] else [])"
  have u: "file_bytes (lc # ls) @ tail = u @ 10 # file_bytes ls @ tail" "10 \<notin> set u" "length u + 1 = length l + (if cr then 2 else 1)"
    using l by (auto simp: file_bytes_def lc u_def)
  have t: "trim ([] @ u @ [10]) = l" using trim_line [OF l(2,1), of "[10]"] by (auto simp: u_def)
  have n: "length ([] :: u8 list) + length u + 1 = length l + (if cr then 2 else 1)" using u(3) by simp
  have step: "config_run fn acc (lc # ls) c =
    (if length l + (if cr then 2 else 1) \<ge> BUFSIZE then None
     else do { (ok, acc, c) \<leftarrow> finish fn ([] @ u @ [10]) acc c; if ok then config_run fn acc ls c else Some (- 1, c) })"
    unfolding lc config_run.simps finish_def t Let_def
    by (simp only: if_distrib [of "\<lambda>x. Option.bind x _"] bind.simps Option.bind_assoc prod.case case_prod_beta' fst_conv snd_conv if_True)
  show ?case
  proof (cases "length l + (if cr then 2 else 1) \<ge> BUFSIZE")
    case True
    then show ?thesis unfolding step u(1) feed_line [OF u(2)] n by simp
  next
    case False
    show ?thesis
      unfolding step u(1) feed_line [OF u(2)] n if_not_P [OF False] Cons.IH [OF ls Cons.prems(2,3)]
      by (cases "finish fn ([] @ u @ [10]) acc c") (simp_all split: prod.split)
  qed
qed

definition text_data :: "u8 list \<Rightarrow> bool" where
  "text_data data \<longleftrightarrow> (\<forall>i<length data. data ! i \<noteq> 0 \<and> (data ! i = 13 \<longrightarrow> Suc i < length data \<and> data ! Suc i = 10))"

lemma text_data_Cons:
  "text_data (x # xs) \<longleftrightarrow> x \<noteq> 0 \<and> (x = 13 \<longrightarrow> xs \<noteq> [] \<and> hd xs = 10) \<and> text_data xs"
  unfolding text_data_def by (cases xs) (auto simp: All_less_Suc2)

lemma text_data_line: "0 \<notin> set l \<Longrightarrow> 13 \<notin> set l \<Longrightarrow> text_data x \<Longrightarrow> text_data (l @ x)"
  by (induction l) (auto simp: text_data_Cons)

lemma text_data_lines:
  assumes "0 \<notin> set tail" "13 \<notin> set tail"
  shows "text_lines ls \<Longrightarrow> text_data (file_bytes ls @ tail)"
proof (induction ls)
  case Nil
  then show ?case using text_data_line [OF assms, of "[]"] by (simp add: file_bytes_def text_data_def)
next
  case (Cons lc ls)
  obtain l cr where lc: "lc = (l, cr)" by (cases lc)
  have t: "text_data (file_bytes ls @ tail)" and l: "0 \<notin> set l" "13 \<notin> set l"
    using Cons by (auto simp: text_lines_def lc)
  have "text_data ((if cr then [13, 10] else [10]) @ file_bytes ls @ tail)" using t by (auto simp: text_data_Cons)
  then show ?case using text_data_line [OF l] by (simp add: file_bytes_def lc)
qed

text \<open>
  A file that does not end in a line end: \<open>getline\<close> looks at the byte behind the last chunk, which is what the
  buffer has held there before, a byte of the chunk in front of it when there is one.  It must not look like the end of
  a line.
\<close>

definition end_ok :: "u8 list \<Rightarrow> nat \<Rightarrow> mem \<Rightarrow> bool" where
  "end_ok data q buf \<longleftrightarrow> length data \<le> q \<or> last data = 10 \<or>
     (let x = (if length data - q < BUFSIZE then buf (length data - q) else data ! (length data - BUFSIZE)) in x \<noteq> 10 \<and> x \<noteq> 13)"

section \<open>Reading the file in chunks\<close>

text \<open>What \<open>process_cfg\<close> needs of the file routines: the file \<open>name\<close> holds \<open>data\<close>.\<close>

locale config_file =
  fixes ops :: "'f file_ops"
    and name :: "u8 list"
    and data :: "u8 list"
    and ready :: "'f \<Rightarrow> bool"
    and opened :: "nat \<Rightarrow> 'f \<Rightarrow> bool"
  assumes file_size: "length data < 2147483648"
    and open_file: "ready f \<Longrightarrow> \<exists>f'. f_open ops name f = Some (0, int (length data), f') \<and> opened 0 f'"
    and seek_file: "opened p f \<Longrightarrow> q \<le> length data \<Longrightarrow> \<exists>r f'. f_seek ops (int q) f = Some (r, f') \<and> opened q f'"
    and read_file: "opened p f \<Longrightarrow> p \<le> length data \<Longrightarrow>
      \<exists>f'. f_read ops (int n) m a f = Some (int (min n (length data - p)), write_at a (take n (drop p data)) m, f') \<and>
        opened (p + min n (length data - p)) f'"
    and close_file: "opened p f \<Longrightarrow> \<exists>f'. f_close ops f = Some f' \<and> ready f'"
begin

lemma chunk_of_text:
  assumes "text_data data" "q < length data" "m BUFSIZE \<noteq> 10" "m BUFSIZE \<noteq> 13" "end_ok data q m"
  shows "chunk_ok (write_at 0 (take BUFSIZE (drop q data)) m) (min BUFSIZE (length data - q))"
proof -
  let ?X = "take BUFSIZE (drop q data)" and ?rd = "min BUFSIZE (length data - q)"
  have X: "length ?X = ?rd" by simp
  have at: "write_at 0 ?X m i = data ! (q + i)" if "i < ?rd" for i
    using write_at_inside [of 0 i ?X m] that by simp
  have "write_at 0 ?X m i \<noteq> 0 \<and> (write_at 0 ?X m i = 13 \<longrightarrow> Suc i = ?rd \<or> write_at 0 ?X m (Suc i) = 10)" if "i < ?rd" for i
  proof -
    have "Suc i = ?rd \<or> write_at 0 ?X m (Suc i) = data ! Suc (q + i)"
    proof (cases "Suc i = ?rd")
      case False
      then have "Suc i < ?rd" using that by linarith
      then show ?thesis using at [of "Suc i"] by simp
    qed simp
    moreover have "q + i < length data" using that by auto
    ultimately show ?thesis using assms(1) at [OF that] unfolding text_data_def by metis
  qed
  moreover have "write_at 0 ?X m ?rd \<noteq> 10 \<and> write_at 0 ?X m ?rd \<noteq> 13 \<or> write_at 0 ?X m (?rd - 1) = 10"
  proof (cases "BUFSIZE \<le> length data - q")
    case True
    then have "write_at 0 ?X m ?rd = m BUFSIZE" using write_at_outside [of "?rd" 0 ?X m] by simp
    then show ?thesis using assms(3,4) by simp
  next
    case False
    then have "?rd - 1 < ?rd" "q + (?rd - 1) = length data - 1" using assms(2) by simp_all
    then have "write_at 0 ?X m (?rd - 1) = last data" using at [of "?rd - 1"] last_conv_nth [of data] assms(2) by fastforce
    moreover have "write_at 0 ?X m ?rd = m (length data - q)" using write_at_outside [of "?rd" 0 ?X m] False by simp
    ultimately show ?thesis using assms(2,5) False by (auto simp: end_ok_def Let_def)
  qed
  ultimately show ?thesis unfolding chunk_ok_def by blast
qed

lemma cfg_chunks_ok:
  assumes "\<not> blank fb" "fb \<noteq> ch CHR ''^''" "fb \<noteq> ch CHR ''&''" "text_data data"
    and "ready f" "q \<le> length data" "cbuf b BUFSIZE \<noteq> 10" "cbuf b BUFSIZE \<noteq> 13" "end_ok data q (cbuf b)"
  shows "case feed fn (drop q data) (part_line b) (part_str b) c of
      None \<Rightarrow> cfg_chunks ops fb fn name (of_nat (length data - q)) (int q) f b c = None
    | Some (ok, w, acc, c') \<Rightarrow> \<exists>f' b'. cfg_chunks ops fb fn name (of_nat (length data - q)) (int q) f b c =
        Some (if ok then 1 else - 1, f', b', c')"
  using assms(5-9)
proof (induction "length data - q" arbitrary: q f b c rule: less_induct)
  case less
  show ?case
  proof (cases "q = length data")
    case True
    then show ?thesis by (subst cfg_chunks.simps) simp
  next
    case False
    then have q: "q < length data" using less.prems(2) by simp
    define rd where "rd = min BUFSIZE (length data - q)"
    have rd: "0 < rd" "rd \<le> length data - q" "rd \<le> BUFSIZE" using q by (simp_all add: rd_def)
    let ?m = "write_at 0 (take BUFSIZE (drop q data)) (cbuf b)"
    obtain f1 where f1: "f_open ops name f = Some (0, int (length data), f1)" "opened 0 f1"
      using open_file [OF less.prems(1)] by blast
    obtain r f2 where f2: "f_seek ops (int q) f1 = Some (r, f2)" "opened q f2"
      using seek_file [OF f1(2) less.prems(2)] by blast
    obtain f3 where f3: "f_read ops (int BUFSIZE) (cbuf b) 0 f2 = Some (int rd, ?m, f3)" "opened (q + rd) f3"
      using read_file [OF f2(2) less.prems(2), of BUFSIZE "cbuf b" 0] by (auto simp: rd_def)
    obtain f4 where f4: "f_close ops f3 = Some f4" "ready f4" using close_file [OF f3(2)] by blast
    have sz: "(of_nat (length data - q) :: u32) \<noteq> 0" using q file_size
      by (simp add: word_of_nat_eq_0_iff del: of_nat_diff) (auto dest: dvd_imp_le)
    have num: "(of_nat (length data - q) :: u32) - c_ulong (int rd) = of_nat (length data - (q + rd))"
      "s32 (int q + int rd) = int (q + rd)" "int rd \<noteq> 0"
      using rd q file_size s32_nat [of "q + rd"] by (simp_all add: c_ulong_def of_nat_diff)
    let ?b = "b\<lparr>cbuf := ?m\<rparr>"
    have t: "take rd (drop q data) = take BUFSIZE (drop q data)" by (simp add: rd_def min_def)
    have "length (take BUFSIZE (drop q data)) = rd" by (simp add: rd_def)
    then have X: "read_at 0 (rd - 0) (cbuf ?b) = take rd (drop q data)"
      using read_write_same [of 0 "take BUFSIZE (drop q data)" "cbuf b"] unfolding t by simp
    have step: "cfg_chunks ops fb fn name (of_nat (length data - q)) (int q) f b c =
      do { (ok, b, c) \<leftarrow> cfg_lines fb fn rd 0 (0 < rd) ?b c;
           if ok then cfg_chunks ops fb fn name (of_nat (length data - (q + rd))) (int (q + rd)) f4 b c
           else Some (- 1, f4, b, c) }"
      using sz rd(1) num(3) by (subst cfg_chunks.simps)
        (simp only: f1(1) f2(1) f3(1) f4(1) bind.bind_lunit prod.case Let_def num(1,2) nat_int if_False if_True not_True_eq_False simp_thms)
    have lines: "cfg_lines fb fn rd 0 (0 < rd) ?b c =
      do { (ok, w, acc, c) \<leftarrow> feed fn (take rd (drop q data)) (part_line b) (part_str b) c;
           Some (ok, ?b\<lparr>part_line := w, part_str := acc\<rparr>, c) }"
      using cfg_lines_feed [where fn = fn and c = c, OF assms(1-3), of ?b rd 0]
        chunk_of_text [where m = "cbuf b", OF assms(4) q less.prems(3-5)] unfolding X by (simp add: rd_def)
    have data: "drop q data = take rd (drop q data) @ drop (q + rd) data" by (metis add.commute append_take_drop_id drop_drop)
    have fd: "feed fn (drop q data) (part_line b) (part_str b) c =
      do { (ok, w, acc, c) \<leftarrow> feed fn (take rd (drop q data)) (part_line b) (part_str b) c;
           if ok then feed fn (drop (q + rd) data) w acc c else Some (False, w, acc, c) }"
      by (subst data) (rule feed_append)
    show ?thesis
    proof (cases "feed fn (take rd (drop q data)) (part_line b) (part_str b) c")
      case None
      then show ?thesis unfolding step lines fd by simp
    next
      case (Some r)
      then obtain ok w acc c1 where r: "feed fn (take rd (drop q data)) (part_line b) (part_str b) c = Some (ok, w, acc, c1)"
        by (cases r) auto
      show ?thesis
      proof (cases ok)
        case False
        then show ?thesis unfolding step lines fd r by simp
      next
        case True
        let ?b1 = "?b\<lparr>part_line := w, part_str := acc\<rparr>"
        have m: "?m BUFSIZE = cbuf b BUFSIZE" by (simp add: write_at_outside)
        have "length data - (q + rd) < length data - q" "q + rd \<le> length data" using rd q by simp_all
        note IH = less.hyps [OF this(1) f4(2) this(2), of ?b1 c1]
        have pre: "cbuf ?b1 BUFSIZE \<noteq> 10" "cbuf ?b1 BUFSIZE \<noteq> 13" and sel: "part_line ?b1 = w" "part_str ?b1 = acc"
          using less.prems(3,4) m by simp_all
        have e: "end_ok data (q + rd) (cbuf ?b1)"
        proof (cases "length data - q \<le> BUFSIZE")
          case True
          then show ?thesis using q by (simp add: rd_def end_ok_def)
        next
          case f: False
          have "?m (length data - (q + rd)) = data ! (length data - BUFSIZE)" if "length data - (q + rd) < BUFSIZE"
          proof -
            have "rd = BUFSIZE" "length data - (q + rd) < length (take BUFSIZE (drop q data))"
              "q + (length data - (q + rd)) = length data - BUFSIZE"
              using f that by (simp_all add: rd_def)
            then show ?thesis using write_at_inside [of 0 "length data - (q + rd)" "take BUFSIZE (drop q data)" "cbuf b"] that q by simp
          qed
          then show ?thesis using less.prems(5) f by (auto simp: end_ok_def Let_def)
        qed
        show ?thesis
          using IH [OF pre e] unfolding step lines fd r sel bind.bind_lunit prod.case if_P [OF True] .
      qed
    qed
  qed
qed

lemma process_cfg_ok:
  assumes "\<not> blank fb" "fb \<noteq> ch CHR ''^''" "fb \<noteq> ch CHR ''&''" "text_lines ls" "data = file_bytes ls @ tail"
    and "0 \<notin> set tail" "10 \<notin> set tail" "13 \<notin> set tail" "length tail < BUFSIZE" "end_ok data 0 (cbuf b)"
    and "ready f" "part_line b = []" "part_str b = []" "cbuf b BUFSIZE \<noteq> 10" "cbuf b BUFSIZE \<noteq> 13"
  shows process_cfg_run: "case config_run fn [] ls c of
      None \<Rightarrow> process_cfg ops fb fn name f b c = None
    | Some (r, c') \<Rightarrow> \<exists>f' b'. process_cfg ops fb fn name f b c = Some (r, f', b', c')"
    and process_cfg_fit: "lines_fit [] ls \<Longrightarrow> handle_all fn (logical_lines [] ls) c = Some (r, c') \<Longrightarrow>
      \<exists>f' b'. process_cfg ops fb fn name f b c = Some (r, f', b', c')"
proof -
  obtain f1 where f1: "f_open ops name f = Some (0, int (length data), f1)" "opened 0 f1"
    using open_file [OF assms(11)] by blast
  obtain f2 where f2: "f_close ops f1 = Some f2" "ready f2" using close_file [OF f1(2)] by blast
  have p: "process_cfg ops fb fn name f b c = cfg_chunks ops fb fn name (of_nat (length data - 0)) (int 0) f2 b c"
    by (simp add: process_cfg_def f1(1) f2(1) c_ulong_def)
  have t: "text_data data" using text_data_lines [OF assms(6,8,4)] assms(5) by simp
  have d: "drop 0 data = file_bytes ls @ tail" using assms(5) by simp
  from cfg_chunks_ok [OF assms(1-3) t f2(2) _ assms(14,15,10), of fn c]
  show run: "case config_run fn [] ls c of
      None \<Rightarrow> process_cfg ops fb fn name f b c = None
    | Some (r, c') \<Rightarrow> \<exists>f' b'. process_cfg ops fb fn name f b c = Some (r, f', b', c')"
    unfolding p config_run_feed [OF assms(4,7,9)] d assms(12,13)
    by (cases "feed fn (file_bytes ls @ tail) [] [] c") auto
  show "\<exists>f' b'. process_cfg ops fb fn name f b c = Some (r, f', b', c')"
    if "lines_fit [] ls" "handle_all fn (logical_lines [] ls) c = Some (r, c')"
    using run config_run_fit [OF that(1), of fn c] that(2) by simp
qed

end

end
