(* ===== verification/Settings.thy ===== *)
theory Settings
  imports Config
begin

text \<open>
  The settings of the pre-loader: the structure \<open>conf\<close> of \<open>stage0_fs.c\<close> and \<open>process_cfg_line1\<close>, the
  handler that \<open>process_cfg\<close> calls for the lines of \<open>preldr.ini\<close>.
\<close>

section \<open>The structure\<close>

record conf =
  driveletter :: int
  multiboot :: int
  conf_root :: int
  microfsd :: int
  ignorecase :: int
  loader_name :: "u8 list"
  loader_base :: int
  loader_len :: int
  ext_name :: "u8 list"
  ext_base :: int
  ext_len :: int
  mini_name :: "u8 list"
  mini_base :: int
  term_default :: int

text \<open>
  The handler's state: the structure, the current section, the names that \<open>fsys_list\<close> and \<open>term_list\<close>
  point to and the bytes of the string table in use.
\<close>

record cfg =
  conf :: conf
  section_name :: "u8 list"
  cfg_fsys :: "u8 list list"
  cfg_terms :: "u8 list list"
  strpos :: nat

definition conf_init :: conf where
  "conf_init = \<lparr>driveletter = 0x80, multiboot = 2, conf_root = 0, microfsd = 0, ignorecase = 0,
     loader_name = [0x5C] @ bs ''boot'' @ [0x5C] @ bs ''loader'' @ [0x5C] @ bs ''freeldr.mdl'', loader_base = 0x20000,
     loader_len = 0xf, ext_name = [0x5C] @ bs ''os2ldr'', ext_base = 0x10000, ext_len = 0xf,
     mini_name = [0x5C] @ bs ''os2boot'', mini_base = 0x7c0, term_default = 0\<rparr>"

definition cfg_init :: cfg where
  "cfg_init = \<lparr>conf = conf_init, section_name = [], cfg_fsys = [], cfg_terms = [], strpos = 0\<rparr>"

section \<open>Values\<close>

abbreviation (input) FSYS_MAX :: nat where "FSYS_MAX \<equiv> 0x20"
abbreviation (input) STRTBL_LEN :: nat where "STRTBL_LEN \<equiv> 0x800"

text \<open>\<open>strip(skip_to(1, line))\<close>\<close>

definition cfg_value :: "u8 list \<Rightarrow> u8 list option" where
  "cfg_value line =
     (let v = skip_to True line in map_option snd (strip (rev (take (length line - length v) line)) v))"

text \<open>A number, or \<open>panic\<close>.\<close>

definition cfg_number :: "u8 list \<Rightarrow> int option" where
  "cfg_number line = do { v \<leftarrow> cfg_value line; (n, _) \<leftarrow> safe_parse_maxint v; Some n }"

text \<open>Truth of \<open>yes\<close> and \<open>on\<close>; \<open>(char)n\<close> of a value in an \<open>int\<close>.\<close>

definition cfg_yes :: "u8 list \<Rightarrow> bool" where
  "cfg_yes v \<longleftrightarrow> v = bs ''yes'' \<or> v = bs ''on''"

definition as_char :: "int \<Rightarrow> int" where
  "as_char n = (n + 128) mod 256 - 128"

text \<open>
  \<open>grub_strncpy\<close> to a name of 0x20 bytes also clears the byte behind it, the low byte of the base that
  follows the name in the packed structure.
\<close>

definition name_copy :: "u8 list \<Rightarrow> u8 list" where
  "name_copy v = take 0x20 v"

definition behind_name :: "int \<Rightarrow> int" where
  "behind_name base = base AND NOT 0xFF"

text \<open>
  A list of names, copied to the string table and cut at the commas.  Behind the last name the table is
  still zero, which ends the loop.
\<close>

function cfg_split :: "u8 list \<Rightarrow> u8 list list" where
  "cfg_split [] = []"
| "cfg_split (c # s) = cut_at (ch CHR '','') (c # s) # cfg_split (tl (dropWhile (\<lambda>x. x \<noteq> ch CHR '','') (c # s)))"
  by pat_completeness auto
termination
proof (relation "measure length", simp)
  fix c :: u8 and s
  have "length (dropWhile (\<lambda>x. x \<noteq> ch CHR '','') (c # s)) \<le> length (c # s)" by (rule length_dropWhile_le)
  then have "length (tl (dropWhile (\<lambda>x. x \<noteq> ch CHR '','') (c # s))) < length (c # s)" by (auto split: if_splits)
  then show "(tl (dropWhile (\<lambda>x. x \<noteq> ch CHR '','') (c # s)), c # s) \<in> measure length" by (simp only: in_measure)
qed

definition cfg_names :: "u8 list \<Rightarrow> cfg \<Rightarrow> (u8 list list \<times> cfg) option" where
  "cfg_names v c =
     (let ns = cfg_split v in
      if strpos c + length v + 1 \<ge> STRTBL_LEN \<or> length ns > FSYS_MAX then None
      else Some (ns, c\<lparr>strpos := (if ns = [] then strpos c else strpos c + length v + (if last v = ch CHR '','' then 0 else 1))\<rparr>))"

section \<open>The handler\<close>

definition process_global :: "u8 list \<Rightarrow> cfg \<Rightarrow> cfg option" where
  "process_global line c =
     (if abbrev line (bs ''driveletter'') 11 then
        let d = (grub_tolower (uint (cur (skip_to True line))) - 97) mod 256;
            d = (if d > 8 then (d - 2 + 0x80) mod 256 else d)
        in Some (c\<lparr>conf := conf c\<lparr>driveletter := d\<rparr>\<rparr>)
      else if abbrev line (bs ''multiboot'') 9 then do {
        v \<leftarrow> cfg_value line;
        let n = (if cfg_yes v then 1 else if v = bs ''ask'' then 2 else 0);
        Some (c\<lparr>conf := conf c\<lparr>multiboot := n\<rparr>\<rparr>)
      }
      else if abbrev line (bs ''root'') 4 then do {
        v \<leftarrow> cfg_value line;
        Some (c\<lparr>conf := conf c\<lparr>conf_root := (if cfg_yes v then 1 else 0)\<rparr>\<rparr>)
      }
      else Some c)"

definition process_microfsd :: "u8 list \<Rightarrow> cfg \<Rightarrow> cfg option" where
  "process_microfsd line c =
     (if abbrev line (bs ''list'') 4 then do {
        (ns, c) \<leftarrow> cfg_names (skip_to True line) c;
        Some (c\<lparr>cfg_fsys := ns\<rparr>)
      }
      else if abbrev line (bs ''ignorecase'') 10 then do {
        v \<leftarrow> cfg_value line;
        Some (c\<lparr>conf := conf c\<lparr>ignorecase := (if cfg_yes v then 1 else 0)\<rparr>\<rparr>)
      }
      else if abbrev line (bs ''microfsd'') 8 then do {
        v \<leftarrow> cfg_value line;
        Some (c\<lparr>conf := conf c\<lparr>microfsd := (if v = bs ''own'' then 1 else 0)\<rparr>\<rparr>)
      }
      else Some c)"

definition process_term :: "u8 list \<Rightarrow> cfg \<Rightarrow> cfg option" where
  "process_term line c =
     (if abbrev line (bs ''list'') 4 then do {
        v \<leftarrow> cfg_value line;
        (ns, c) \<leftarrow> cfg_names v c;
        Some (c\<lparr>cfg_terms := ns\<rparr>)
      }
      else if abbrev line (bs ''default'') 7 then do {
        n \<leftarrow> cfg_number line;
        Some (c\<lparr>conf := conf c\<lparr>term_default := as_char n\<rparr>\<rparr>)
      }
      else Some c)"

definition process_loader :: "u8 list \<Rightarrow> cfg \<Rightarrow> cfg option" where
  "process_loader line c =
     (if abbrev line (bs ''name'') 4 then do {
        v \<leftarrow> cfg_value line;
        Some (c\<lparr>conf := conf c\<lparr>loader_name := name_copy v, loader_base := behind_name (loader_base (conf c))\<rparr>\<rparr>)
      }
      else if abbrev line (bs ''base'') 4 then do {
        n \<leftarrow> cfg_number line;
        Some (c\<lparr>conf := conf c\<lparr>loader_base := n\<rparr>\<rparr>)
      }
      else if abbrev line (bs ''len'') 3 then do {
        n \<leftarrow> cfg_number line;
        Some (c\<lparr>conf := conf c\<lparr>loader_len := n\<rparr>\<rparr>)
      }
      else Some c)"

definition process_extloader :: "u8 list \<Rightarrow> cfg \<Rightarrow> cfg option" where
  "process_extloader line c =
     (if abbrev line (bs ''name'') 4 then do {
        v \<leftarrow> cfg_value line;
        Some (c\<lparr>conf := conf c\<lparr>ext_name := name_copy v, ext_base := behind_name (ext_base (conf c))\<rparr>\<rparr>)
      }
      else if abbrev line (bs ''base'') 4 then do {
        n \<leftarrow> cfg_number line;
        Some (c\<lparr>conf := conf c\<lparr>ext_base := n\<rparr>\<rparr>)
      }
      else if abbrev line (bs ''len'') 3 then do {
        n \<leftarrow> cfg_number line;
        Some (c\<lparr>conf := conf c\<lparr>ext_len := n\<rparr>\<rparr>)
      }
      else Some c)"

definition process_minifsd :: "u8 list \<Rightarrow> cfg \<Rightarrow> cfg option" where
  "process_minifsd line c =
     (if abbrev line (bs ''name'') 4 then do {
        v \<leftarrow> cfg_value line;
        let v = (if v = bs ''none'' then [] else v);
        Some (c\<lparr>conf := conf c\<lparr>mini_name := name_copy v, mini_base := behind_name (mini_base (conf c))\<rparr>\<rparr>)
      }
      else if abbrev line (bs ''base'') 4 then do {
        n \<leftarrow> cfg_number line;
        Some (c\<lparr>conf := conf c\<lparr>mini_base := n\<rparr>\<rparr>)
      }
      else Some c)"

definition process_cfg_line1 :: "u8 list \<Rightarrow> cfg \<Rightarrow> (bool \<times> cfg) option" where
  "process_cfg_line1 line c =
     (if line = [] then Some (True, c)
      else if hd line = ch CHR ''['' \<and> last line = ch CHR '']''
      then Some (True, c\<lparr>section_name := name_copy (butlast (tl line))\<rparr>)
      else map_option (Pair True)
        (if section_name c = bs ''global'' then process_global line c
         else if section_name c = bs ''microfsd'' then process_microfsd line c
         else if section_name c = bs ''term'' then process_term line c
         else if section_name c = bs ''loader'' then process_loader line c
         else if section_name c = bs ''extloader'' then process_extloader line c
         else if section_name c = bs ''minifsd'' then process_minifsd line c
         else Some c))"

end
