(* ===== verification/Lip.thy ===== *)
theory Lip
  imports Files Settings
begin

text \<open>
  The loader interface of the pre-loader, \<open>preldr/stage0_fs.c\<close>: opening, reading, seeking and closing
  through the file layer or through the 16-bit driver (\<open>freeldr_*\<close>, \<open>u_*\<close>), the parameters (\<open>u_parm\<close>),
  raw disk access (\<open>u_diskctl\<close>) and relocation.  The 16-bit driver, the modules that are loaded and the
  video calls are arguments (\<open>lip_env\<close>).
\<close>

section \<open>State\<close>

record 'm preldr =
  ldr :: "'m loader"
  settings :: cfg
  redir_prefix :: "u8 list"
  at_drive :: "u8 list"
  ldrlen :: u32
  extended_memory :: u32
  install_partition :: u32
  relshift :: u32
  ram :: mem

text \<open>The start: no redirection, the settings as compiled in.\<close>

definition start_preldr :: "'m loader \<Rightarrow> 'm preldr" where
  "start_preldr l = \<lparr>ldr = l, settings = cfg_init, redir_prefix = [], at_drive = [], ldrlen = 0, extended_memory = 0,
     install_partition = 0xFFFFFF, relshift = 0, ram = (\<lambda>_. 0)\<rparr>"

record 'm lip_env =
  file_env :: "'m loader_env"
  mu_open :: "u8 list \<Rightarrow> 'm preldr \<Rightarrow> (u16 \<times> int \<times> 'm preldr) option"
  mu_read :: "int \<Rightarrow> int \<Rightarrow> 'm preldr \<Rightarrow> (u8 list \<times> 'm preldr) option"
  mu_close :: "'m preldr \<Rightarrow> 'm preldr option"
  mbi_addr :: u32
  hook_addr :: u32

definition on_ldr :: "('m loader \<Rightarrow> ('a \<times> 'm loader) option) \<Rightarrow> 'm preldr \<Rightarrow> ('a \<times> 'm preldr) option" where
  "on_ldr f p = do { (r, s) \<leftarrow> f (ldr p); Some (r, p\<lparr>ldr := s\<rparr>) }"

section \<open>Names\<close>

definition to_upper :: "u8 \<Rightarrow> u8" where
  "to_upper c = of_int (grub_toupper (uint c))"

definition to_lower :: "u8 \<Rightarrow> u8" where
  "to_lower c = of_int (grub_tolower (uint c))"

abbreviation backslash :: u8 where "backslash \<equiv> 0x5C"

definition redir_list :: "u8 list list" where
  "redir_list = [bs ''OS2LDR'', bs ''OS2LDR.MSG'', bs ''OS2KRNL'', bs ''OS2LDR.INI'', bs ''OS2DUMP'', bs ''OS2LDR.FNT'',
     bs ''OS2DBCS.FNT'']"

text \<open>The copy is in a buffer of 0x200 bytes: \<open>None\<close> is a name that does not fit, here and below.\<close>

definition redir_file :: "u8 list \<Rightarrow> bool option" where
  "redir_file file = (if length file \<ge> 0x200 then None else Some (map to_upper file \<in> set redir_list))"

text \<open>The name of a device alone: a closing parenthesis at its end, not behind the ninth character.\<close>

definition device_only :: "u8 list \<Rightarrow> bool" where
  "device_only name \<longleftrightarrow> cur name = ch CHR ''('' \<and> ch CHR '')'' \<in> set (tl name) \<and>
     (let p = Suc (length (takeWhile (\<lambda>c. c \<noteq> ch CHR '')'') (tl name))) in p < 9 \<and> length name = p + 1)"

text \<open>The rest of a name behind its device; without a closing parenthesis the search leaves the string.\<close>

definition after_device :: "u8 list \<Rightarrow> u8 list option" where
  "after_device name =
     (if cur name \<noteq> ch CHR ''('' then Some name
      else case dropWhile (\<lambda>c. c \<noteq> ch CHR '')'') name of [] \<Rightarrow> None | _ # t \<Rightarrow> Some t)"

text \<open>What the 16-bit driver is given: the name up to a space, with backslashes and in capitals.\<close>

definition dos_char :: "u8 \<Rightarrow> u8" where
  "dos_char c = (let c = (if c = ch CHR ''/'' then backslash else c) in
     if 0x60 < uint c \<and> uint c < 0x7b then c - 0x20 else c)"

definition dos_name :: "u8 list \<Rightarrow> u8 list" where
  "dos_name p = map dos_char (cut_at 32 p)"

text \<open>The name for \<open>grub_open\<close>: redirected, or made absolute, and with slashes.\<close>

definition slashes :: "u8 list \<Rightarrow> u8 list" where
  "slashes name = map (\<lambda>c. if c = backslash then ch CHR ''/'' else c) name"

definition grub_name :: "u8 list \<Rightarrow> u8 list \<Rightarrow> u8 list option" where
  "grub_name pre name =
     do {
       redir \<leftarrow> (if pre \<noteq> [] then redir_file name else Some False);
       let buf = (if redir then pre @ ch CHR ''/'' # name
                  else if cur name \<noteq> ch CHR ''/'' \<and> cur name \<noteq> backslash \<and> cur name \<noteq> ch CHR ''('' then ch CHR ''/'' # name
                  else name);
       if length buf \<ge> 0x200 then None else Some (slashes buf)
     }"

text \<open>Capitals behind the device.\<close>

definition upper_name :: "u8 list \<Rightarrow> u8 list" where
  "upper_name buf =
     (let d = (if cur buf = ch CHR ''('' then takeWhile (\<lambda>c. c \<noteq> ch CHR '')'') buf else [])
      in d @ map to_upper (drop (length d) buf))"

section \<open>Opening, reading, closing\<close>

definition flip :: "bool \<Rightarrow> int" where
  "flip ok = (if ok then 1 else 0)"

text \<open>The attempts of the 32-bit branch.\<close>

definition try_names :: "'m loader_env \<Rightarrow> bool \<Rightarrow> u8 list \<Rightarrow> 'm loader \<Rightarrow> (bool \<times> 'm loader) option" where
  "try_names env ignore buf s =
     do {
       (rc, s) \<leftarrow> grub_open env buf s;
       if \<not> ignore then Some (rc, s)
       else do {
         let up = upper_name buf;
         (rc, buf, s) \<leftarrow> (if rc then Some (rc, buf, s) else do { (rc, s) \<leftarrow> grub_open env up s; Some (rc, up, s) });
         if rc then Some (rc, s) else grub_open env (map to_lower buf) s
       }
     }"

definition freeldr_open :: "'m lip_env \<Rightarrow> u8 list \<Rightarrow> 'm preldr \<Rightarrow> (int \<times> 'm preldr) option" where
  "freeldr_open env name p =
     (let fe = file_env env in
      if device_only name \<or> name = []
      then on_ldr (\<lambda>s. do { (rc, out, s) \<leftarrow> mkroot fe (open_device2 fe) (open_part fe) name s;
                            Some (flip (rc = 0), s\<lparr>console := console s @ out\<rparr>) }) p
      else if filetab_ptr (ldr p)
      then do {
        let p = p\<lparr>ldr := (ldr p)\<lparr>filepos := 0, filemax := 0\<rparr>\<rparr>;
        q \<leftarrow> after_device name;
        if length q \<ge> 0x200 then None
        else do {
          (ret, rc, p) \<leftarrow> mu_open env (dos_name q) p;
          Some (if ret = 0 then (rc, p\<lparr>ldr := (ldr p)\<lparr>filemax := rc\<rparr>\<rparr>) else (0, p))
        }
      }
      else do {
        redir \<leftarrow> (if redir_prefix p \<noteq> [] then redir_file name else Some False);
        rest \<leftarrow> (if redir then Some [] else after_device name);
        if \<not> redir \<and> cur name = ch CHR ''('' \<and> cur rest \<noteq> ch CHR ''/''
        then on_ldr (\<lambda>s. map_option (apfst flip) (grub_open fe name s)) p
        else do {
          buf \<leftarrow> grub_name (redir_prefix p) name;
          on_ldr (\<lambda>s. map_option (apfst flip) (try_names fe (ignorecase (conf (settings p)) \<noteq> 0) buf s)) p
        }
      })"

text \<open>The loop over the 16-bit driver: pieces of at most 0x400 bytes, or of what the last call delivered.\<close>

partial_function (option) mu_read_loop ::
  "'m lip_env \<Rightarrow> int \<Rightarrow> int \<Rightarrow> int \<Rightarrow> int \<Rightarrow> mem \<Rightarrow> nat \<Rightarrow> 'm preldr \<Rightarrow> (int \<times> mem \<times> 'm preldr) option" where
  "mu_read_loop env len rest rc rd buf pos p =
     (if \<not> (rest \<noteq> 0 \<and> filepos (ldr p) < filemax (ldr p)) then Some (rd, buf, p)
      else do {
        let rest = len - rd;
        let rc = (if rest < rc then rest else rc);
        (bytes, p) \<leftarrow> mu_read env (filepos (ldr p)) rc p;
        if length bytes > 0x400 then None
        else
          let n = int (length bytes) in
          mu_read_loop env len rest n (rd + n) (write_at pos bytes buf) (pos + length bytes)
            (p\<lparr>ldr := (ldr p)\<lparr>filepos := s32 (filepos (ldr p) + n)\<rparr>\<rparr>)
      })"

definition freeldr_read :: "'m lip_env \<Rightarrow> int \<Rightarrow> mem \<Rightarrow> nat \<Rightarrow> 'm preldr \<Rightarrow> (int \<times> mem \<times> 'm preldr) option" where
  "freeldr_read env len buf a p =
     (if filetab_ptr (ldr p)
      then mu_read_loop env (if len = - 1 then filemax (ldr p) else len) len 0x400 0 buf a p
      else do { (n, buf, s) \<leftarrow> grub_read (file_env env) len buf a (ldr p); Some (n, buf, p\<lparr>ldr := s\<rparr>) })"

definition freeldr_seek :: "int \<Rightarrow> 'm preldr \<Rightarrow> int \<times> 'm preldr" where
  "freeldr_seek offset p = (let (r, s) = grub_seek offset (ldr p) in (r, p\<lparr>ldr := s\<rparr>))"

definition freeldr_close :: "'m lip_env \<Rightarrow> 'm preldr \<Rightarrow> 'm preldr option" where
  "freeldr_close env p =
     (if filetab_ptr (ldr p) then mu_close env p else map_option (\<lambda>s. p\<lparr>ldr := s\<rparr>) (grub_close (file_env env) (ldr p)))"

definition freeldr_dir :: "'m lip_env \<Rightarrow> u8 list \<Rightarrow> 'm preldr \<Rightarrow> (bool \<times> 'm preldr) option" where
  "freeldr_dir env name p = on_ldr (dir (file_env env) name) p"

definition u_open :: "'m lip_env \<Rightarrow> u8 list \<Rightarrow> 'm preldr \<Rightarrow> (int \<times> int \<times> 'm preldr) option" where
  "u_open env name p =
     do { (rc, p) \<leftarrow> freeldr_open env name p; Some (if rc \<noteq> 0 then (0, filemax (ldr p), p) else (1, 0, p)) }"

definition u_read :: "'m lip_env \<Rightarrow> int \<Rightarrow> mem \<Rightarrow> nat \<Rightarrow> 'm preldr \<Rightarrow> (int \<times> mem \<times> 'm preldr) option" where
  "u_read env count buf a p = freeldr_read env count buf a p"

definition u_seek :: "int \<Rightarrow> 'm preldr \<Rightarrow> (int \<times> 'm preldr) option" where
  "u_seek loffseek p = Some (if loffseek = - 1 then (filepos (ldr p), p) else freeldr_seek loffseek p)"

definition u_close :: "'m lip_env \<Rightarrow> 'm preldr \<Rightarrow> 'm preldr option" where
  "u_close env p = freeldr_close env p"

definition u_dir :: "'m lip_env \<Rightarrow> u8 list \<Rightarrow> 'm preldr \<Rightarrow> (bool \<times> 'm preldr) option" where
  "u_dir env name p = freeldr_dir env name p"

text \<open>The file routines for \<open>process_cfg\<close>.\<close>

definition lip_ops :: "'m lip_env \<Rightarrow> 'm preldr file_ops" where
  "lip_ops env = \<lparr>f_open = u_open env, f_seek = u_seek, f_read = u_read env, f_close = u_close env\<rparr>"

end
