(* ===== verification/BootConfig.thy ===== *)
theory BootConfig
  imports MinixDirs ConfigLines Lip
begin

text \<open>
  The configuration file on a Minix partition: the interface \<open>lip1_t\<close>, the file layer, the driver and the
  disk together are a \<open>config_file\<close>, so \<open>process_cfg\<close> feeds the logical lines of \<open>preldr.ini\<close> to its
  handler.
\<close>

section \<open>The file layer over a mounted Minix partition\<close>

text \<open>The selected device stays selected, and the disk buffer in use.\<close>

locale mounted_device = fs_device dr dev_ok content dev_size env
  for dr :: "int \<Rightarrow> int \<Rightarrow> int \<Rightarrow> mem \<Rightarrow> nat \<Rightarrow> 'm disk_state \<Rightarrow> (bool \<times> mem \<times> 'm disk_state) option"
    and dev_ok :: "'m disk_state \<Rightarrow> bool"
    and content :: "'m disk_state \<Rightarrow> mem"
    and dev_size :: "'m disk_state \<Rightarrow> nat"
    and env :: "'m loader_env" +
  fixes cd cp :: u32
  assumes dev_selected: "dev_ok d \<Longrightarrow> current_drive d = cd \<and> current_partition d = cp \<and> buf_drive d \<noteq> - 1"
begin

definition mounted :: "'m loader \<Rightarrow> bool" where
  "mounted s \<longleftrightarrow> at_super s \<and> \<not> filetab_ptr s \<and> fsys_type s \<noteq> num_fsys s \<and> saved_drive s = cd \<and> saved_partition s = cp \<and>
     sane_partition (cdrom_drive s) cd cp"

lemma mounted_step: "mounted s \<Longrightarrow> same_dev s s' \<Longrightarrow> same_super s s' \<Longrightarrow> mounted s'"
  using at_super_step [of s s'] by (simp add: mounted_def same_super_def)

text \<open>The open file \<open>ino\<close> at position \<open>p\<close>.\<close>

definition open_at :: "nat \<Rightarrow> nat \<Rightarrow> 'm loader \<Rightarrow> bool" where
  "open_at ino p s \<longleftrightarrow> mounted s \<and> at_file ino s \<and> filepos s = int p \<and> fsmax s = MAXINT \<and> \<not> block_file s \<and>
     inode_size (inode_of (content (dsk s)) ino) < 2147483648 \<and>
     blocks_ok (dev_size (dsk s)) (content (dsk s)) (inode_of (content (dsk s)) ino) 0 (inode_size (inode_of (content (dsk s)) ino))"

lemma open_at_filemax: "open_at ino p s \<Longrightarrow> filemax s = int (inode_size (inode_of (content (dsk s)) ino))"
  by (simp add: open_at_def at_file_def inode_size_def c_int_def) (metis s32_nat uint_nat)

lemma grub_open_path:
  assumes "mounted s" "ws \<noteq> []" "path_ok (dev_size (dsk s)) (content (dsk s)) 1 ws" "path_words ws"
    and "resolve (content (dsk s)) 1 ws = Inr ino"
    and "inode_size (inode_of (content (dsk s)) ino) < 2147483648"
    and "blocks_ok (dev_size (dsk s)) (content (dsk s)) (inode_of (content (dsk s)) ino) 0 (inode_size (inode_of (content (dsk s)) ino))"
  shows "\<exists>s'. grub_open (minix_env lb env) (path_text ws) s = Some (True, s') \<and> same_dev s s' \<and> open_at ino 0 s'"
proof -
  let ?s = "s\<lparr>filepos := 0\<rparr>" and ?n = "path_text ws"
  have m: "at_super s" "dev_ok (dsk s)" "\<not> filetab_ptr s" "fsys_type s \<noteq> num_fsys s" "print_possibilities s = 0"
    "saved_drive s = cd" "saved_partition s = cp" "sane_partition (cdrom_drive s) cd cp"
    using assms(1) by (simp_all add: mounted_def at_super_def)
  have e: "err s = ERR_NONE" by (rule dev_no_error [OF m(2)])
  have n: "cur ?n = ch CHR ''/''" using assms(2) by (cases ws) (simp_all add: path_text_def)
  have su: "setup_part (minix_env lb env) ?n ?s = Some (Some ?n, ?s)"
    using n m dev_selected [OF m(2)] e by (simp add: setup_part_def set_err_def)
  let ?s1 = "?s\<lparr>block_file := False, fsmax := MAXINT\<rparr>"
  have "at_super ?s1" using m(1) by (simp add: at_super_def namelen_def)
  then obtain s' where s': "minix_walk env (grub_read (env\<lparr>fs_read := minix_read env\<rparr>)) (int 1) 1 0 (?n @ []) lb ?s1 = Some (True, s')"
    "same_dev ?s1 s'" "same_super ?s1 s'" "at_file ino s'"
    using walk_ok [of ?s1 1 ws "[]" "grub_read (env\<lparr>fs_read := minix_read env\<rparr>)" 1 0 lb] assms(3-5) by (auto simp: name_end_def)
  have fd: "fs_dir (minix_env lb env) ?n ?s1 = Some (True, s')"
    using s'(1) by (simp add: minix_env_def minix_dir_def)
  have se: "set_err ERR_NONE s = s" using e by (simp add: set_err_def)
  have pp: "?s1\<lparr>print_possibilities := 0\<rparr> = ?s1" using m(5) by simp
  have g: "cur ?n \<noteq> ch CHR ''/'' \<longleftrightarrow> False" "fsys_type ?s1 = num_fsys ?s1 \<longleftrightarrow> False" "err ?s1 = ERR_NONE"
    using n m(4) e by simp_all
  have "grub_open (minix_env lb env) ?n s = Some (True, s')"
    unfolding grub_open_def se su bind.bind_lunit prod.case option.case Let_def g if_False simp_thms pp if_True fd
    by simp
  moreover have "same_dev s s'" using s'(2) by (simp add: same_dev_def)
  moreover have "open_at ino 0 s'"
  proof -
    have "mounted ?s1" using assms(1) by (simp add: mounted_def at_super_def namelen_def)
    then show ?thesis
      using mounted_step [OF _ s'(2,3)] s'(2-4) assms(6,7) by (simp add: open_at_def same_super_def same_dev_def)
  qed
  ultimately show ?thesis by blast
qed

lemma grub_read_at:
  fixes n :: nat
  assumes "open_at ino p s" "p \<le> inode_size (inode_of (content (dsk s)) ino)"
  defines "k \<equiv> min n (inode_size (inode_of (content (dsk s)) ino) - p)"
  shows "\<exists>s'. grub_read (minix_env lb env) (int n) m a s = Some (int k,
      write_at a (read_at p k (minix_file (content (dsk s)) (inode_of (content (dsk s)) ino))) m, s') \<and>
    same_dev s s' \<and> open_at ino (p + k) s'"
proof -
  let ?d = "content (dsk s)" and ?i = "inode_of (content (dsk s)) ino"
  have o: "mounted s" "dev_ok (dsk s)" "zone_cache ?d s" "same_inode (fsys_buf s) ?i" "filepos s = int p" "fsmax s = MAXINT"
    "\<not> block_file s" "inode_size ?i < 2147483648" "blocks_ok (dev_size (dsk s)) ?d ?i 0 (inode_size ?i)"
    "fsys_type s \<noteq> num_fsys s"
    using assms(1) by (simp_all add: open_at_def at_file_def mounted_def at_super_def)
  note fm = open_at_filemax [OF assms(1)]
  have k: "p + k \<le> inode_size ?i" "k \<le> n" using assms(2) by (auto simp: k_def)
  have b: "blocks_ok (dev_size (dsk s)) ?d (fsys_buf s) p k"
    unfolding blocks_ok_cong [OF o(4)]
  proof (rule blocks_ok_mono [OF o(9)])
    show "0 \<le> p" "p + k \<le> 0 + inode_size ?i" using k by simp_all
  qed
  obtain s' where s': "minix_read env (int k) m a s = Some (int k, write_at a (read_at p k (minix_file ?d (fsys_buf s))) m, s')"
    "same_dev s s'" "zone_cache ?d s'" "same_names (s\<lparr>filepos := int (p + k)\<rparr>) s'"
    using minix_read_ok [OF o(2,3,5) b, of m a] by blast
  have l: "s32 (filemax s - filepos s) = int (inode_size ?i - p)"
    using fm o(5,8) assms(2) s32_nat [of "inode_size ?i - p"] by (simp add: of_nat_diff)
  have c: "\<not> (filepos s < 0 \<or> filepos s > filemax s)" using fm o(5) assms(2) by simp
  have n: "(if int n < 0 \<or> int n > int (inode_size ?i - p) then int (inode_size ?i - p) else int n) = int k"
    by (auto simp: k_def)
  have "s32 (filepos s + int k) \<le> MAXINT" using s32_range(2) [of "filepos s + int k"] by linarith
  then have "grub_read (minix_env lb env) (int n) m a s = minix_read env (int k) m a s"
    using o(6,7,10) unfolding grub_read_def if_not_P [OF c] Let_def l n by (simp add: minix_env_def)
  moreover have "minix_file ?d (fsys_buf s) = minix_file ?d ?i" by (rule minix_file_cong [OF o(4)])
  moreover have "open_at ino (p + k) s'"
  proof -
    let ?t = "s\<lparr>filepos := int (p + k)\<rparr>"
    have t: "mounted ?t" "same_dev ?t s'" using o(1) s'(2) by (simp_all add: mounted_def at_super_def namelen_def same_dev_def)
    have "mounted s'" by (rule mounted_step [OF t same_names_super [OF s'(4)]])
    moreover have "same_inode (fsys_buf s') ?i"
      using same_names_inode [OF s'(4)] o(4) by (simp add: same_inode_def)
    moreover have "content (dsk s') = ?d" "dev_size (dsk s') = dev_size (dsk s)" using s'(2) by (simp_all add: same_dev_def)
    moreover have "filepos s' = int (p + k)" "filemax s' = filemax s" "fsmax s' = fsmax s" "block_file s' = block_file s"
      using s'(4) by (simp_all add: same_names_def)
    moreover have "filemax s = c_int (i_size ?i)" using assms(1) by (simp add: open_at_def at_file_def)
    ultimately show ?thesis
      using s'(3) o(6-9) unfolding open_at_def at_file_def by simp
  qed
  ultimately show ?thesis using s'(1,2) by auto
qed

text \<open>The states of the pre-loader between two calls, and while the file is open.\<close>

definition lip_ready :: "mem \<Rightarrow> nat \<Rightarrow> 'm preldr \<Rightarrow> bool" where
  "lip_ready d sz p \<longleftrightarrow> mounted (ldr p) \<and> content (dsk (ldr p)) = d \<and> dev_size (dsk (ldr p)) = sz \<and> redir_prefix p = []"

definition lip_opened :: "mem \<Rightarrow> nat \<Rightarrow> nat \<Rightarrow> nat \<Rightarrow> 'm preldr \<Rightarrow> bool" where
  "lip_opened d sz ino q p \<longleftrightarrow> open_at ino q (ldr p) \<and> content (dsk (ldr p)) = d \<and> dev_size (dsk (ldr p)) = sz \<and> redir_prefix p = []"

text \<open>A file on a Minix partition is a configuration file for \<open>process_cfg\<close>.\<close>

lemma lip_config_file:
  fixes name :: "u8 list" and d :: mem
  assumes env: "file_env le = minix_env lb env" and ws: "ws \<noteq> []" "path_words ws"
    and name: "grub_name [] name = Some (path_text ws)" "name \<noteq> []" "cur name \<noteq> ch CHR ''(''"
    and path: "path_ok sz d 1 ws" "resolve d 1 ws = Inr ino"
    and size: "inode_size (inode_of d ino) < 2147483648" "blocks_ok sz d (inode_of d ino) 0 (inode_size (inode_of d ino))"
  shows "config_file (lip_ops le) name (read_at 0 (inode_size (inode_of d ino)) (minix_file d (inode_of d ino)))
    (lip_ready d sz) (lip_opened d sz ino)"
proof
  let ?i = "inode_of d ino" and ?data = "read_at 0 (inode_size (inode_of d ino)) (minix_file d (inode_of d ino))"
  show "length ?data < 2147483648" using size(1) by simp
next
  fix f :: "'m preldr" assume r: "lip_ready d sz f"
  then obtain s' where s': "grub_open (minix_env lb env) (path_text ws) (ldr f) = Some (True, s')" "same_dev (ldr f) s'" "open_at ino 0 s'"
    using grub_open_path [of "ldr f" ws ino lb] ws path size by (auto simp: lip_ready_def)
  have p: "redir_prefix f = []" "\<not> filetab_ptr (ldr f)" using r by (simp_all add: lip_ready_def mounted_def)
  have c: "content (dsk s') = d" "dev_size (dsk s') = sz" using r s'(2) by (simp_all add: lip_ready_def same_dev_def)
  have "try_names (minix_env lb env) ig (path_text ws) (ldr f) = Some (True, s')" for ig
    using s'(1) by (simp add: try_names_def)
  then have "freeldr_open le name f = Some (1, f\<lparr>ldr := s'\<rparr>)"
    using name p by (simp add: freeldr_open_def env device_only_def after_device_def on_ldr_def flip_def Let_def)
  moreover have "filemax s' = int (inode_size (inode_of d ino))" using open_at_filemax [OF s'(3)] by (simp add: c)
  ultimately show "\<exists>f'. f_open (lip_ops le) name f = Some (0, int (length (read_at 0 (inode_size (inode_of d ino)) (minix_file d (inode_of d ino)))), f') \<and>
      lip_opened d sz ino 0 f'"
    using s'(3) c p(1) by (simp add: lip_ops_def u_open_def lip_opened_def)
next
  fix p q :: nat and f :: "'m preldr"
  assume o: "lip_opened d sz ino p f" and q: "q \<le> length (read_at 0 (inode_size (inode_of d ino)) (minix_file d (inode_of d ino)))"
  have fm: "filemax (ldr f) = int (inode_size (inode_of d ino))"
    using o open_at_filemax [of ino p "ldr f"] by (simp add: lip_opened_def)
  have "open_at ino q ((ldr f)\<lparr>filepos := int q\<rparr>)"
    using o by (auto simp: lip_opened_def open_at_def mounted_def at_super_def at_file_def zone_cache_def namelen_def
        mapblock1_def mapblock2_def)
  then show "\<exists>r f'. f_seek (lip_ops le) (int q) f = Some (r, f') \<and> lip_opened d sz ino q f'"
    using q fm o by (simp add: lip_ops_def u_seek_def freeldr_seek_def grub_seek_def lip_opened_def)
next
  fix p n :: nat and f :: "'m preldr" and m :: mem and a :: nat
  let ?sz = "inode_size (inode_of d ino)" and ?f = "minix_file d (inode_of d ino)"
  assume o: "lip_opened d sz ino p f" and le: "p \<le> length (read_at 0 ?sz ?f)"
  have o': "open_at ino p (ldr f)" and c: "content (dsk (ldr f)) = d" using o by (simp_all add: lip_opened_def)
  have ft: "\<not> filetab_ptr (ldr f)" using o' by (simp add: open_at_def mounted_def)
  obtain s' where s': "grub_read (minix_env lb env) (int n) m a (ldr f) =
      Some (int (min n (?sz - p)), write_at a (read_at p (min n (?sz - p)) ?f) m, s')"
    "same_dev (ldr f) s'" "open_at ino (p + min n (?sz - p)) s'"
    using grub_read_at [OF o', where n = n and lb = lb and m = m and a = a] le unfolding c by auto
  have t: "take n (drop p (read_at 0 ?sz ?f)) = read_at p (min n (?sz - p)) ?f"
    by (simp add: drop_read_at take_read_at)
  show "\<exists>f'. f_read (lip_ops le) (int n) m a f = Some (int (min n (length (read_at 0 ?sz ?f) - p)),
      write_at a (take n (drop p (read_at 0 ?sz ?f))) m, f') \<and> lip_opened d sz ino (p + min n (length (read_at 0 ?sz ?f) - p)) f'"
    unfolding t using s' ft o by (simp add: lip_ops_def u_read_def freeldr_read_def env lip_opened_def same_dev_def)
next
  fix p :: nat and f :: "'m preldr" assume o: "lip_opened d sz ino p f"
  then show "\<exists>f'. f_close (lip_ops le) f = Some f' \<and> lip_ready d sz f'"
    by (simp add: lip_ops_def u_close_def freeldr_close_def grub_close_def env minix_env_def lip_opened_def lip_ready_def open_at_def mounted_def)
qed

end

section \<open>The interface holds behind the BIOS\<close>

lemma mounted_partition:
  assumes "partition_reader bd drive geom disk E" "ldisk env = E" "drive \<in> {128..<136}"
  shows "mounted_device (devread E) (partition_reader.selected drive geom disk cp) (part_content disk) part_size env
    (word_of_int drive) cp"
proof (unfold mounted_device_def fs_device_def, intro conjI)
  note sel = partition_reader.selected_def [OF assms(1)]
  show "file_device (devread E) (partition_reader.selected drive geom disk cp) (part_content disk) part_size"
    by (rule partition_reader.selected_file [OF assms(1)])
  show "fs_device_axioms (devread E) env" using assms(2) by (simp add: fs_device_axioms_def)
  show "mounted_device_axioms (partition_reader.selected drive geom disk cp) (word_of_int drive) cp"
  proof
    fix d assume "partition_reader.selected drive geom disk cp d"
    then have d: "c_int (current_drive d) = drive" "current_partition d = cp" "buf_drive d = drive"
      by (simp_all add: sel part_ok_def)
    have "current_drive d = word_of_int (c_int (current_drive d))"
      using c_ulong_c_int [of "current_drive d"] by (simp add: c_ulong_def)
    then show "current_drive d = word_of_int drive \<and> current_partition d = cp \<and> buf_drive d \<noteq> - 1"
      using d assms(3) by simp
  qed
qed

text \<open>A Minix partition is mounted and selected, and its super block is in the buffer.\<close>

definition minix_ready :: "int \<Rightarrow> geometry \<Rightarrow> ('m \<Rightarrow> mem) \<Rightarrow> 'm preldr \<Rightarrow> bool" where
  "minix_ready drive g disk p \<longleftrightarrow>
     (let s = ldr p; d = part_content disk (dsk s) in
      part_ok drive g disk (dsk s) \<and> buf_drive (dsk s) = drive \<and> \<not> filetab_ptr s \<and> fsys_type s \<noteq> num_fsys s \<and>
      saved_drive s = current_drive (dsk s) \<and> saved_partition s = current_partition (dsk s) \<and>
      sane_partition (cdrom_drive s) (current_drive (dsk s)) (current_partition (dsk s)) \<and>
      read_at 0 24 (fsys_buf s) = read_at 1024 24 d \<and> print_possibilities s = 0 \<and>
      namelen s = int (entry_size d) - 2 \<and> redir_prefix p = [])"

text \<open>The path \<open>ws\<close> leads to a file with the bytes \<open>data\<close>, all inside the partition.\<close>

definition minix_holds :: "nat \<Rightarrow> mem \<Rightarrow> u8 list list \<Rightarrow> u8 list \<Rightarrow> bool" where
  "minix_holds sz d ws data \<longleftrightarrow> ws \<noteq> [] \<and> path_words ws \<and> path_ok sz d 1 ws \<and>
     (case resolve d 1 ws of Inl e \<Rightarrow> False
      | Inr ino \<Rightarrow> let m = inode_of d ino in
          inode_size m < 2147483648 \<and> blocks_ok sz d m 0 (inode_size m) \<and> data = read_at 0 (inode_size m) (minix_file d m))"

section \<open>Properties\<close>

text \<open>C3: the configuration file on a mounted Minix partition is a text: lines that end in LF or CR LF, without NUL and
  without CR anywhere else, and behind them possibly a last piece \<open>tail\<close> without a line end, shorter than the buffer.
  \<open>process_cfg\<close> reads it in chunks through \<open>u_open\<close>, \<open>u_seek\<close>, \<open>u_read\<close> and \<open>u_close\<close> and does what \<open>config_run\<close> does
  with its lines, wherever the chunks end: when every line fits into its buffers it calls \<open>process_cfg_line1\<close> for exactly
  the logical lines, in order, and returns when these calls return; \<open>tail\<close> is dropped.  It does not return
  (\<open>None\<close>: \<open>panic\<close>, a store outside a buffer, or a value that the handler does not survive) exactly when
  \<open>config_run\<close> comes to such a line.\<close>

theorem minix_boot_config:
  assumes "lba_drive fw drive g 9 disk \<or> chs_drive fw drive g 9 disk"
    and "\<And>g0. get_diskinfo fw drive g0 = (0, g)" "drive \<in> {128..<136}" "ldisk env = bios_env fw lr ba sa"
    and "file_env le = minix_env lb env" "minix_ready drive g disk p"
    and "minix_holds (part_size (dsk (ldr p))) (part_content disk (dsk (ldr p))) ws (file_bytes ls @ tail)" "text_lines ls"
    and "0 \<notin> set tail" "10 \<notin> set tail" "13 \<notin> set tail" "length tail < BUFSIZE" "end_ok (file_bytes ls @ tail) 0 (cbuf b)"
    and "grub_name [] name = Some (path_text ws)" "cur name \<noteq> 0" "cur name \<noteq> ch CHR ''(''"
    and "\<not> blank fb" "fb \<noteq> ch CHR ''^''" "fb \<noteq> ch CHR ''&''"
    and "part_line b = []" "part_str b = []" "cbuf b BUFSIZE \<noteq> 10" "cbuf b BUFSIZE \<noteq> 13"
  shows "(\<forall>r c'. lines_fit [] ls \<and> handle_all process_cfg_line1 (logical_lines [] ls) c = Some (r, c') \<longrightarrow>
      (\<exists>p' b'. process_cfg (lip_ops le) fb process_cfg_line1 name p b c = Some (r, p', b', c'))) \<and>
    (case config_run process_cfg_line1 [] ls c of
      None \<Rightarrow> process_cfg (lip_ops le) fb process_cfg_line1 name p b c = None
    | Some (r, c') \<Rightarrow> \<exists>p' b'. process_cfg (lip_ops le) fb process_cfg_line1 name p b c = Some (r, p', b', c'))"
proof -
  let ?d = "part_content disk (dsk (ldr p))" and ?sz = "part_size (dsk (ldr p))"
  let ?cp = "current_partition (dsk (ldr p))"
  note r = bios_part [OF assms(1-3), of lr ba sa]
  note m = mounted_partition [OF r assms(4,3), of ?cp]
  note fs = mounted_device.axioms(1) [OF m]
  obtain ino where ino: "resolve ?d 1 ws = Inr ino" "inode_size (inode_of ?d ino) < 2147483648"
    "blocks_ok ?sz ?d (inode_of ?d ino) 0 (inode_size (inode_of ?d ino))"
    "file_bytes ls @ tail = read_at 0 (inode_size (inode_of ?d ino)) (minix_file ?d (inode_of ?d ino))"
    using assms(7) by (auto simp: minix_holds_def Let_def split: sum.splits)
  have ws: "ws \<noteq> []" "path_words ws" "path_ok ?sz ?d 1 ws" using assms(7) by (simp_all add: minix_holds_def)
  have name: "name \<noteq> []" using assms(15) by auto
  note cf = mounted_device.lip_config_file [OF m assms(5) ws(1,2) assms(14) name assms(16) ws(3) ino(1-3)]
  have "current_drive (dsk (ldr p)) = word_of_int (c_int (current_drive (dsk (ldr p))))"
    using c_ulong_c_int [of "current_drive (dsk (ldr p))"] by (simp add: c_ulong_def)
  then have cd: "current_drive (dsk (ldr p)) = word_of_int drive"
    using assms(6) by (simp add: minix_ready_def part_ok_def Let_def)
  have "mounted_device.mounted (partition_reader.selected drive g disk ?cp) (part_content disk) (word_of_int drive) ?cp (ldr p)"
    using assms(6) cd by (simp add: mounted_device.mounted_def [OF m] fs_device.at_super_def [OF fs] minix_ready_def Let_def
        partition_reader.selected_def [OF r])
  then have ready: "mounted_device.lip_ready (partition_reader.selected drive g disk ?cp) (part_content disk) part_size
      (word_of_int drive) ?cp ?d ?sz p"
    using assms(6) by (simp add: mounted_device.lip_ready_def [OF m] minix_ready_def Let_def)
  note run = config_file.process_cfg_ok [OF cf assms(17-19,8) ino(4) [symmetric] assms(9-12) assms(13) [unfolded ino(4)] ready assms(20-23)]
  show ?thesis using run(1) [of process_cfg_line1 c] run(2) [of process_cfg_line1 c] by blast
qed

text \<open>The partition of \<open>MinixDirs\<close>, mounted and selected.\<close>

definition boot_ldr :: "mem loader" where
  "boot_ldr = (start_loader (hd_state\<lparr>media := minix_disk, buf_drive := 128, buf_geom := hd_geometry 1,
      cur_sector_size := sector_size (hd_geometry 1)\<rparr>))
     \<lparr>saved_drive := 128, saved_partition := 0xFFFFFF, fsys_type := 0, num_fsys := 1,
      fsys_buf := (\<lambda>i. minix_part (1024 + i)), drv := (\<lambda>_. 0)(2 := 14)\<rparr>"

definition boot_preldr :: "mem preldr" where
  "boot_preldr = start_preldr boot_ldr"

definition boot_lip :: "mem lip_env" where
  "boot_lip = \<lparr>file_env = minix_env (\<lambda>_. 0) hd_loader_env, mu_open = (\<lambda>_ _. None), mu_read = (\<lambda>_ _ _. None),
     mu_close = (\<lambda>_. None), mbi_addr = 0, hook_addr = 0\<rparr>"

definition boot_bufs :: cfg_bufs where
  "boot_bufs = \<lparr>cbuf = (\<lambda>_. 0), part_line = [], part_str = []\<rparr>"

abbreviation (input) boot_lines :: "(u8 list \<times> bool) list" where
  "boot_lines \<equiv> [(bs ''[global]'', False), (bs ''root=on'', False)]"

lemma boot_part_ok: "part_ok 128 (hd_geometry 1) (\<lambda>m. m) (dsk boot_ldr)"
  using minix_part_ok
  by (simp add: part_ok_def readable_def minix_state_def boot_ldr_def start_loader_def hd_state_def buffer_ready_def cache_ok_def)

lemma boot_content: "part_content (\<lambda>m. m) (dsk boot_ldr) = minix_part" "part_size (dsk boot_ldr) = 51200"
  by (simp_all add: part_content_def part_size_def minix_disk_def boot_ldr_def start_loader_def hd_state_def)

lemma boot_ready: "minix_ready 128 (hd_geometry 1) (\<lambda>m. m) boot_preldr"
  using boot_part_ok
  by (simp add: minix_ready_def Let_def boot_preldr_def start_preldr_def boot_content minix_inodes)
    (simp add: boot_ldr_def start_loader_def hd_state_def sane_partition_def namelen_def read_at_def)

lemma boot_file_ok:
  "blocks_ok 51200 minix_part (inode_of minix_part 2) 0 17"
  "read_at 0 17 (minix_file minix_part (inode_of minix_part 2)) = file_bytes boot_lines"
  by (simp add: blocks_ok_def block_ok_def minix_path(3) zone_inside_def)
    (simp add: file_bytes_def read_at_def upt_rec minix_file_def minix_path(3), simp add: minix_part_def)

lemma boot_holds: "minix_holds 51200 minix_part [[97]] (file_bytes boot_lines)"
  using boot_file_ok minix_path by (simp add: minix_holds_def minix_a Let_def)

lemma boot_name: "grub_name [] (bs ''a'') = Some (path_text [[97]])"
  by (simp add: grub_name_def slashes_def path_text_def Let_def)

lemma boot_line_1: "clean (bs ''[global]'') = bs ''[global]''" "clean (bs ''root=on'') = bs ''root=on''"
  by (simp_all add: clean_def strip_blanks_def blank_iff)

lemma abbrev_numeral:
  "abbrev s1 s2 (numeral n) = (if cur s1 = 0 \<or> cur s2 = 0 \<or> cur s1 \<noteq> cur s2 then False else abbrev (tl s1) (tl s2) (pred_numeral n))"
  by (simp add: numeral_eq_Suc)

lemma boot_line_2: "abbrev (bs ''root=on'') (bs ''driveletter'') 11 = False"
  "abbrev (bs ''root=on'') (bs ''multiboot'') 9 = False" "abbrev (bs ''root=on'') (bs ''root'') 4 = True"
  by (simp_all add: abbrev_numeral)

lemma boot_line_3: "cfg_value (bs ''root=on'') = Some (bs ''on'')"
  by (simp add: cfg_value_def skip_to_def strip_def blank_iff grub_isspace_def)

lemma boot_run: "config_run process_cfg_line1 [] boot_lines cfg_init =
    Some (1, cfg_init\<lparr>section_name := bs ''global'', conf := conf_init\<lparr>conf_root := 1\<rparr>\<rparr>)"
proof -
  let ?c = "cfg_init\<lparr>section_name := bs ''global''\<rparr>"
  have "process_cfg_line1 (bs ''[global]'') cfg_init = Some (True, ?c)"
    by (simp add: process_cfg_line1_def name_copy_def)
  moreover have "process_cfg_line1 (bs ''root=on'') ?c = Some (True, ?c\<lparr>conf := conf_init\<lparr>conf_root := 1\<rparr>\<rparr>)"
    using boot_line_2 boot_line_3 by (simp add: process_cfg_line1_def process_global_def cfg_yes_def cfg_init_def)
  ultimately show ?thesis
    using boot_line_1 by (simp add: continued_def Let_def)
qed

interpretation boot_mount: mounted_device "devread hd_env" "partition_reader.selected 128 (hd_geometry 1) (\<lambda>m. m) 0xFFFFFF"
  "part_content (\<lambda>m. m)" part_size hd_loader_env 128 "0xFFFFFF"
  using mounted_partition [OF bios_part [OF disjI1 [OF hd_lba.lba_drive_axioms] hd_probe] hd_loader_disk, of "0xFFFFFF"]
  by (simp add: hd_env_def)

interpretation boot_file: config_file "lip_ops boot_lip" "bs ''a''" "file_bytes boot_lines"
  "boot_mount.lip_ready minix_part 51200" "boot_mount.lip_opened minix_part 51200 2"
  using boot_mount.lip_config_file [of boot_lip "\<lambda>_. 0" "[[97]]" "bs ''a''" 51200 minix_part 2] minix_path boot_name boot_file_ok
  by (simp add: boot_lip_def minix_a)

theorem minix_boot_config_witness:
  "\<exists>p' b'. process_cfg (lip_ops boot_lip) 0 process_cfg_line1 (bs ''a'') boot_preldr boot_bufs cfg_init =
     Some (1, p', b', cfg_init\<lparr>section_name := bs ''global'', conf := conf_init\<lparr>conf_root := 1\<rparr>\<rparr>)"
proof -
  have e: "file_env boot_lip = minix_env (\<lambda>_. 0) hd_loader_env" by (simp add: boot_lip_def)
  have t: "text_lines boot_lines" by (simp add: text_lines_def)
  have p: "ldr boot_preldr = boot_ldr" by (simp add: boot_preldr_def start_preldr_def)
  show ?thesis
    using minix_boot_config [OF disjI1 [OF hd_lba.lba_drive_axioms] hd_probe _ hd_loader_disk e boot_ready _ t _ _ _ _ _ boot_name, where fb = 0
        and b = boot_bufs and c = cfg_init and tail = "[]"] boot_holds
    unfolding p boot_content boot_run by (simp add: boot_bufs_def blank_def grub_isspace_def end_ok_def file_bytes_def)
qed

end
