(* ===== verification/Driver16.thy ===== *)
theory Driver16
  imports BootConfig
begin

text \<open>
  Files through the 16-bit driver of the boot sector (\<open>filetab_ptr\<close> set): the loop of \<open>freeldr_read\<close> delivers
  what is asked for and always ends, so that this branch of the interface is a \<open>config_file\<close> as well, and
  \<open>process_cfg\<close> feeds the same logical lines as through the file layer.
\<close>

section \<open>The driver\<close>

text \<open>
  A 16-bit driver that serves the file \<open>data\<close> under the name \<open>name16\<close>: \<open>mu_Open\<close> reports its size, and
  \<open>mu_Read\<close> delivers what the file has at the offset.  The driver keeps its own state in the rest of \<open>p\<close>.
\<close>

definition mu_serves :: "'m lip_env \<Rightarrow> u8 list \<Rightarrow> bool" where
  "mu_serves env data \<longleftrightarrow> (\<forall>p off n. 0 \<le> off \<longrightarrow> off \<le> int (length data) \<longrightarrow> 0 \<le> n \<longrightarrow>
     (\<exists>p'. mu_read env off n p = Some (take (nat n) (drop (nat off) data), p') \<and> ldr p' = ldr p \<and> ram p' = ram p))"

definition mu_file :: "'m lip_env \<Rightarrow> u8 list \<Rightarrow> u8 list \<Rightarrow> bool" where
  "mu_file env name16 data \<longleftrightarrow> mu_serves env data \<and>
     (\<forall>p. \<exists>p'. mu_open env name16 p = Some (0, int (length data), p') \<and> ldr p' = ldr p \<and> ram p' = ram p) \<and>
     (\<forall>p. \<exists>p'. mu_close env p = Some p' \<and> ldr p' = ldr p \<and> ram p' = ram p)"

section \<open>Reading\<close>

lemma mu_loop_reads:
  assumes "mu_serves env data" "length data < 2147483648"
    and "filepos (ldr p) = int pos" "filemax (ldr p) = int (length data)" "pos \<le> length data"
    and "rd \<le> L" "rest = 0 \<Longrightarrow> rd = L" "0 < rc" "rc \<le> 0x400"
  defines "k \<equiv> min (L - rd) (length data - pos)"
  shows "\<exists>p'. mu_read_loop env (int L) rest rc (int rd) buf a p = Some (int (rd + k), write_at a (take k (drop pos data)) buf, p') \<and>
    ldr p' = (ldr p)\<lparr>filepos := int (pos + k)\<rparr> \<and> ram p' = ram p"
  using assms(3-9) unfolding k_def
proof (induction "length data - pos" arbitrary: pos rd rest rc buf a p rule: less_induct)
  case less
  note step = mu_read_loop.simps [of env "int L" rest rc "int rd" buf a p]
  show ?case
  proof (cases "rest = 0 \<or> pos = length data")
    case True
    then have "min (L - rd) (length data - pos) = 0" using less.prems by auto
    moreover have "mu_read_loop env (int L) rest rc (int rd) buf a p = Some (int rd, buf, p)"
      unfolding step using True less.prems by auto
    ultimately show ?thesis using less.prems(1) by simp
  next
    case False
    define rc' where "rc' = (if int L - int rd < rc then int L - int rd else rc)"
    define bs where "bs = take (nat rc') (drop pos data)"
    define n where "n = length bs"
    have rc: "0 \<le> rc'" "rc' \<le> 0x400" using less.prems by (auto simp: rc'_def)
    obtain p1 where p1: "mu_read env (int pos) rc' p = Some (bs, p1)" "ldr p1 = ldr p" "ram p1 = ram p"
      using assms(1) rc(1) less.prems(3) unfolding mu_serves_def bs_def by (metis of_nat_0_le_iff of_nat_le_iff nat_int)
    let ?q = "p1\<lparr>ldr := (ldr p1)\<lparr>filepos := int (pos + n)\<rparr>\<rparr>"
    have pl: "pos < length data" using False less.prems(3) by auto
    have n: "n = min (nat rc') (length data - pos)" by (simp add: n_def bs_def)
    have le: "length bs \<le> 0x400" using rc(2) n by (simp add: n_def)
    have s32: "s32 (int pos + int n) = int (pos + n)"
      using s32_nat [of "pos + n"] assms(2) n less.prems(3) by simp
    have eq: "mu_read_loop env (int L) rest rc (int rd) buf a p =
        mu_read_loop env (int L) (int L - int rd) (int n) (int (rd + n)) (write_at a bs buf) (a + n) ?q"
      unfolding step using False less.prems(1-3) le p1(1,2) s32 by (simp add: Let_def rc'_def [symmetric] n_def)
    show ?thesis
    proof (cases "rd = L")
      case True
      then have "n = 0" "bs = []" using less.prems(6) n by (simp_all add: rc'_def bs_def)
      then show ?thesis
        unfolding eq using True p1 less.prems(1) by (subst mu_read_loop.simps) simp
    next
      case rd: False
      then have r: "rd < L" using less.prems(4) by simp
      have pos: "0 < n" using n False r less.prems(3,6) by (auto simp: rc'_def)
      have n': "n \<le> L - rd" "pos + n \<le> length data" using n r less.prems(3) by (auto simp: rc'_def)
      have dec: "length data - (pos + n) < length data - pos" using pos pl by linarith
      let ?k = "min (L - (rd + n)) (length data - (pos + n))"
      have "\<exists>p'. mu_read_loop env (int L) (int L - int rd) (int n) (int (rd + n)) (write_at a bs buf) (a + n) ?q =
          Some (int (rd + n + ?k), write_at (a + n) (take ?k (drop (pos + n) data)) (write_at a bs buf), p') \<and>
          ldr p' = (ldr ?q)\<lparr>filepos := int (pos + n + ?k)\<rparr> \<and> ram p' = ram ?q"
        by (rule less.hyps) (use pos dec n' le r p1 less.prems(2,3) in \<open>auto simp: n_def [symmetric]\<close>)
      moreover have k: "n + ?k = min (L - rd) (length data - pos)"
        using n' by linarith
      moreover have "bs = take n (drop pos data)" by (simp add: n bs_def min_def)
      then have "bs @ take ?k (drop (pos + n) data) = take (min (L - rd) (length data - pos)) (drop pos data)"
        unfolding k [symmetric] take_add by (simp add: add.commute)
      ultimately show ?thesis
        unfolding eq using p1 write_at_append [of a bs] by (auto simp: n_def [symmetric] add.assoc)
    qed
  qed
qed

lemma freeldr_read_16:
  assumes "mu_serves env data" "length data < 2147483648" "filetab_ptr (ldr p)"
    and "filepos (ldr p) = int pos" "filemax (ldr p) = int (length data)" "pos \<le> length data"
  shows "\<exists>p'. freeldr_read env (int n) buf a p =
      Some (int (min n (length data - pos)), write_at a (take n (drop pos data)) buf, p') \<and>
      ldr p' = (ldr p)\<lparr>filepos := int (pos + min n (length data - pos))\<rparr> \<and> ram p' = ram p"
    "\<exists>p'. freeldr_read env (- 1) buf a p = Some (int (length data - pos), write_at a (drop pos data) buf, p') \<and>
      ldr p' = (ldr p)\<lparr>filepos := int (length data)\<rparr> \<and> ram p' = ram p"
proof -
  have t: "take (min n (length data - pos)) (drop pos data) = take n (drop pos data)"
    by (simp add: min_def)
  show "\<exists>p'. freeldr_read env (int n) buf a p =
      Some (int (min n (length data - pos)), write_at a (take n (drop pos data)) buf, p') \<and>
      ldr p' = (ldr p)\<lparr>filepos := int (pos + min n (length data - pos))\<rparr> \<and> ram p' = ram p"
    using mu_loop_reads [OF assms(1,2,4-6), where rd = 0 and L = n and rest = "int n" and rc = "0x400" and buf = buf and a = a] assms(3) t
    by (auto simp: freeldr_read_def)
  show "\<exists>p'. freeldr_read env (- 1) buf a p = Some (int (length data - pos), write_at a (drop pos data) buf, p') \<and>
      ldr p' = (ldr p)\<lparr>filepos := int (length data)\<rparr> \<and> ram p' = ram p"
    using mu_loop_reads [OF assms(1,2,4-6), where rd = 0 and L = "length data" and rest = "- 1" and rc = "0x400" and buf = buf and a = a] assms(3,5,6)
    by (auto simp: freeldr_read_def min_def)
qed

lemma freeldr_open_16:
  assumes "mu_file env (dos_name q) data" "filetab_ptr (ldr p)" "\<not> device_only name" "name \<noteq> []"
    and "after_device name = Some q" "length q < 0x200"
  shows "\<exists>p'. freeldr_open env name p = Some (int (length data), p') \<and>
    ldr p' = (ldr p)\<lparr>filepos := 0, filemax := int (length data)\<rparr> \<and> ram p' = ram p"
proof -
  let ?p = "p\<lparr>ldr := (ldr p)\<lparr>filepos := 0, filemax := 0\<rparr>\<rparr>"
  obtain p' where "mu_open env (dos_name q) ?p = Some (0, int (length data), p')" "ldr p' = ldr ?p" "ram p' = ram ?p"
    using assms(1) unfolding mu_file_def by blast
  then show ?thesis
    using assms(2-6) by (simp add: freeldr_open_def Let_def)
qed

text \<open>Between two calls, and while the file is open.\<close>

definition ready_16 :: "'m preldr \<Rightarrow> bool" where
  "ready_16 p \<longleftrightarrow> filetab_ptr (ldr p)"

definition opened_16 :: "u8 list \<Rightarrow> nat \<Rightarrow> 'm preldr \<Rightarrow> bool" where
  "opened_16 data q p \<longleftrightarrow> filetab_ptr (ldr p) \<and> filepos (ldr p) = int q \<and> filemax (ldr p) = int (length data)"

lemma config_file_16:
  assumes "mu_file env (dos_name q) data" "\<not> device_only name" "name \<noteq> []"
    and "after_device name = Some q" "length q < 0x200" "data \<noteq> []" "length data < 2147483648"
  shows "config_file (lip_ops env) name data ready_16 (opened_16 data)"
proof
  show "length data < 2147483648" by (rule assms(7))
next
  fix p :: "'a preldr" assume r: "ready_16 p"
  then obtain p' where "freeldr_open env name p = Some (int (length data), p')"
      "ldr p' = (ldr p)\<lparr>filepos := 0, filemax := int (length data)\<rparr>"
    using freeldr_open_16 [OF assms(1) _ assms(2-5), of p] by (auto simp: ready_16_def)
  then show "\<exists>p'. f_open (lip_ops env) name p = Some (0, int (length data), p') \<and> opened_16 data 0 p'"
    using r assms(6) by (auto simp: lip_ops_def u_open_def opened_16_def ready_16_def)
next
  fix p i :: nat and f :: "'a preldr" assume "opened_16 data p f" "i \<le> length data"
  then show "\<exists>r f'. f_seek (lip_ops env) (int i) f = Some (r, f') \<and> opened_16 data i f'"
    by (simp add: lip_ops_def u_seek_def freeldr_seek_def grub_seek_def opened_16_def)
next
  fix p n :: nat and f :: "'a preldr" and m :: mem and a :: nat
  assume o: "opened_16 data p f" "p \<le> length data"
  have "mu_serves env data" using assms(1) by (simp add: mu_file_def)
  from freeldr_read_16(1) [OF this assms(7), of f p n m a] o
  show "\<exists>f'. f_read (lip_ops env) (int n) m a f =
      Some (int (min n (length data - p)), write_at a (take n (drop p data)) m, f') \<and>
      opened_16 data (p + min n (length data - p)) f'"
    by (auto simp: lip_ops_def u_read_def opened_16_def)
next
  fix p :: nat and f :: "'a preldr" assume "opened_16 data p f"
  moreover obtain f' where "mu_close env f = Some f'" "ldr f' = ldr f" using assms(1) unfolding mu_file_def by blast
  ultimately show "\<exists>f'. f_close (lip_ops env) f = Some f' \<and> ready_16 f'"
    by (simp add: lip_ops_def u_close_def freeldr_close_def opened_16_def ready_16_def)
qed

section \<open>Properties\<close>

text \<open>C36: \<open>freeldr_read\<close> through a 16-bit driver that serves a file returns, whatever is asked for (-1 is the
  rest of the file): it delivers the bytes from the position on, clamped to the end of the file, and moves the
  position behind them.\<close>

theorem read_16_returns:
  assumes "mu_serves env data" "length data < 2147483648" "filetab_ptr (ldr p)"
    and "filepos (ldr p) = int pos" "filemax (ldr p) = int (length data)" "pos \<le> length data" "- 1 \<le> len"
  shows "\<exists>p'. let k = (if len = - 1 then length data - pos else min (nat len) (length data - pos)) in
    freeldr_read env len buf a p = Some (int k, write_at a (take k (drop pos data)) buf, p') \<and>
    ldr p' = (ldr p)\<lparr>filepos := int (pos + k)\<rparr> \<and> ram p' = ram p"
proof (cases "len = - 1")
  case True
  then show ?thesis using freeldr_read_16(2) [OF assms(1-6), of buf a] assms(6) by simp
next
  case False
  moreover have "take (min (nat len) (length data - pos)) (drop pos data) = take (nat len) (drop pos data)"
    by (simp add: min_def)
  ultimately show ?thesis using freeldr_read_16(1) [OF assms(1-6), of "nat len" buf a] assms(7) by (simp add: Let_def)
qed

text \<open>A driver that has one file in memory.\<close>

definition ram_driver :: "u8 list \<Rightarrow> mem lip_env" where
  "ram_driver data = \<lparr>file_env = hd_loader_env, mu_open = (\<lambda>_ p. Some (0, int (length data), p)),
     mu_read = (\<lambda>off n p. Some (take (nat n) (drop (nat off) data), p)), mu_close = Some, mbi_addr = 0, hook_addr = 0\<rparr>"

lemma ram_driver_file: "mu_file (ram_driver data) name data" "mu_serves (ram_driver data) data"
  by (simp_all add: mu_file_def mu_serves_def ram_driver_def)

theorem read_16_returns_witness:
  "\<exists>p'. freeldr_read (ram_driver (bs ''FreeLdr'')) (- 1) (\<lambda>_. 0) 0
      (start_preldr (boot_ldr\<lparr>filetab_ptr := True, filepos := 4, filemax := 7\<rparr>)) = Some (3, write_at 0 (bs ''Ldr'') (\<lambda>_. 0), p')"
  using read_16_returns [OF ram_driver_file(2), of "bs ''FreeLdr''"
      "start_preldr (boot_ldr\<lparr>filetab_ptr := True, filepos := 4, filemax := 7\<rparr>)" 4 "- 1" "\<lambda>_. 0" 0]
  by (auto simp: start_preldr_def)

text \<open>C4: a configuration file that the 16-bit driver serves, not empty and a text as in \<open>minix_boot_config\<close>, is treated
  in the same way: \<open>process_cfg\<close> does what \<open>config_run\<close> does with its lines.  When every line fits into the buffers it calls
  \<open>process_cfg_line1\<close> for exactly the logical lines, in order, and returns when these calls return; a last piece
  without a line end is dropped; and it does not return exactly when \<open>config_run\<close> comes to a line that does not fit or
  that the handler does not survive.\<close>

theorem boot_config_16:
  assumes "mu_file env (dos_name q) (file_bytes ls @ tail)" "filetab_ptr (ldr p)" "\<not> device_only name" "name \<noteq> []"
    and "after_device name = Some q" "length q < 0x200" "ls \<noteq> []" "length (file_bytes ls @ tail) < 2147483648" "text_lines ls"
    and "0 \<notin> set tail" "10 \<notin> set tail" "13 \<notin> set tail" "length tail < BUFSIZE" "end_ok (file_bytes ls @ tail) 0 (cbuf b)"
    and "\<not> blank fb" "fb \<noteq> ch CHR ''^''" "fb \<noteq> ch CHR ''&''"
    and "part_line b = []" "part_str b = []" "cbuf b BUFSIZE \<noteq> 10" "cbuf b BUFSIZE \<noteq> 13"
  shows "(\<forall>r c'. lines_fit [] ls \<and> handle_all process_cfg_line1 (logical_lines [] ls) c = Some (r, c') \<longrightarrow>
      (\<exists>p' b'. process_cfg (lip_ops env) fb process_cfg_line1 name p b c = Some (r, p', b', c'))) \<and>
    (case config_run process_cfg_line1 [] ls c of
      None \<Rightarrow> process_cfg (lip_ops env) fb process_cfg_line1 name p b c = None
    | Some (r, c') \<Rightarrow> \<exists>p' b'. process_cfg (lip_ops env) fb process_cfg_line1 name p b c = Some (r, p', b', c'))"
proof -
  have "file_bytes ls @ tail \<noteq> []" using assms(7) by (cases ls) (auto simp: file_bytes_def split: if_splits)
  note cf = config_file_16 [OF assms(1,3-6) this assms(8)]
  have "ready_16 p" using assms(2) by (simp add: ready_16_def)
  note run = config_file.process_cfg_ok [OF cf assms(15-17,9) refl assms(10-14) this assms(18-21)]
  show ?thesis using run(1) [of process_cfg_line1 c] run(2) [of process_cfg_line1 c] by blast
qed

text \<open>The text of the Minix file, with a last line that lacks its end and is dropped.\<close>

theorem boot_config_16_witness:
  "\<exists>p' b'. process_cfg (lip_ops (ram_driver (file_bytes boot_lines @ bs ''root=off''))) 0 process_cfg_line1 (bs ''a'')
       (start_preldr (boot_ldr\<lparr>filetab_ptr := True\<rparr>)) boot_bufs cfg_init =
     Some (1, p', b', cfg_init\<lparr>section_name := bs ''global'', conf := conf_init\<lparr>conf_root := 1\<rparr>\<rparr>)"
proof -
  have t: "text_lines boot_lines" by (simp add: text_lines_def)
  show ?thesis
    using boot_config_16 [OF ram_driver_file(1) _ _ _ _ _ _ _ t, where p = "start_preldr (boot_ldr\<lparr>filetab_ptr := True\<rparr>)"
        and name = "bs ''a''" and q = "bs ''a''" and fb = 0 and b = boot_bufs and c = cfg_init and tail = "bs ''root=off''"]
    unfolding boot_run by (simp add: start_preldr_def boot_bufs_def blank_def grub_isspace_def device_only_def
        after_device_def file_bytes_def end_ok_def)
qed

end
