(* ===== verification/Parms.thy ===== *)
theory Parms
  imports Driver16
begin

text \<open>
  The calls of the loader interface that are not file operations, \<open>preldr/stage0_fs.c\<close>: the parameters
  (\<open>u_parm\<close>), raw disk access (\<open>u_diskctl\<close>), the name of the boot drive (\<open>determine_boot_drive\<close>) and
  loading and relocating modules (\<open>reloc\<close>, \<open>blackbox_load\<close>, \<open>u_termctl\<close>).  The theorems: parameters are
  independent cells, the name of the boot drive is read back by \<open>set_device\<close>, and relocation adds to the
  listed words and changes nothing else.
\<close>

section \<open>Error numbers\<close>

text \<open>The enumeration \<open>grub_error_t\<close> is an integer type: its order and its numbers.\<close>

definition grub_errors :: "grub_error list" where
  "grub_errors =
    [ERR_NONE, ERR_BAD_FILENAME, ERR_BAD_FILETYPE, ERR_BAD_GZIP_DATA, ERR_BAD_GZIP_HEADER, ERR_BAD_PART_TABLE,
     ERR_BAD_VERSION, ERR_BELOW_1MB, ERR_BOOT_COMMAND, ERR_BOOT_FAILURE, ERR_BOOT_FEATURES, ERR_DEV_FORMAT,
     ERR_DEV_VALUES, ERR_EXEC_FORMAT, ERR_FILELENGTH, ERR_FILE_NOT_FOUND, ERR_FSYS_CORRUPT, ERR_FSYS_MOUNT,
     ERR_GEOM, ERR_NEED_LX_KERNEL, ERR_NEED_MB_KERNEL, ERR_NO_DISK, ERR_NO_PART, ERR_NUMBER_PARSING,
     ERR_OUTSIDE_PART, ERR_READ, ERR_SYMLINK_LOOP, ERR_UNRECOGNIZED, ERR_WONT_FIT, ERR_WRITE, ERR_BAD_ARGUMENT,
     ERR_UNALIGNED, ERR_PRIVILEGED, ERR_DEV_NEED_INIT, ERR_NO_DISK_SPACE, ERR_NUMBER_OVERFLOW, ERR_BADMODADDR]"

definition err_number :: "grub_error \<Rightarrow> nat" where
  "err_number e = length (takeWhile (\<lambda>x. x \<noteq> e) grub_errors)"

definition err_of_number :: "u32 \<Rightarrow> grub_error option" where
  "err_of_number n = (if unat n < length grub_errors then Some (grub_errors ! unat n) else None)"

lemma nth_takeWhile_neq:
  "x \<in> set xs \<Longrightarrow> length (takeWhile (\<lambda>y. y \<noteq> x) xs) < length xs \<and> xs ! length (takeWhile (\<lambda>y. y \<noteq> x) xs) = x"
  by (induction xs) auto

lemma length_grub_errors: "length grub_errors = 37"
  by (simp add: grub_errors_def)

lemma in_grub_errors: "e \<in> set grub_errors"
  unfolding grub_errors_def by (cases e) (simp_all only: list.set insertI1 insertI2 simp_thms)

lemma err_of_err_number: "err_number e < 37" "grub_errors ! err_number e = e"
  unfolding err_number_def length_grub_errors [symmetric] using nth_takeWhile_neq [OF in_grub_errors, of e] by blast+

lemma err_number_inj: "err_number e = err_number f \<Longrightarrow> e = f"
  by (metis err_of_err_number(2))

lemma err_of_number_number [simp]: "err_of_number (of_nat (err_number e)) = Some e"
  using err_of_err_number [of e] by (simp add: err_of_number_def unat_of_nat length_grub_errors)

instantiation grub_error :: linorder
begin

definition less_eq_grub_error :: "grub_error \<Rightarrow> grub_error \<Rightarrow> bool" where
  "less_eq_grub_error e f \<longleftrightarrow> err_number e \<le> err_number f"

definition less_grub_error :: "grub_error \<Rightarrow> grub_error \<Rightarrow> bool" where
  "less_grub_error e f \<longleftrightarrow> err_number e < err_number f"

instance
  by standard (auto simp: less_eq_grub_error_def less_grub_error_def intro: err_number_inj)

end

lemma err_number_of_number: "err_of_number v = Some e \<Longrightarrow> of_nat (err_number e) = v"
proof -
  assume a: "err_of_number v = Some e"
  have d: "distinct grub_errors" by (simp add: grub_errors_def)
  have v: "unat v < length grub_errors" "e = grub_errors ! unat v" using a by (auto simp: err_of_number_def split: if_splits)
  have "err_number e < length grub_errors" using err_of_err_number(1) [of e] by (simp add: length_grub_errors)
  then have "err_number e = unat v" using v d err_of_err_number(2) [of e] by (simp add: nth_eq_iff_index_eq)
  then show ?thesis by simp
qed

section \<open>Parameters\<close>

abbreviation (input) ACT_GET :: int where "ACT_GET \<equiv> 0"
abbreviation (input) ACT_SET :: int where "ACT_SET \<equiv> 1"

datatype parm =
    PARM_BOOT_DRIVE | PARM_CDROM_DRIVE | PARM_CURRENT_DRIVE | PARM_CURRENT_PARTITION | PARM_CURRENT_SLICE
  | PARM_SAVED_DRIVE | PARM_SAVED_PARTITION | PARM_SAVED_SLICE | PARM_PART_START | PARM_PART_LENGTH | PARM_MBI
  | PARM_ERRNUM | PARM_FILEPOS | PARM_FILEMAX | PARM_EXTENDED_MEMORY | PARM_PREFIX | PARM_LDRLEN | PARM_BUF_DRIVE
  | PARM_AT_DRIVE | PARM_DISK_READ_HOOK | PARM_DISK_READ_FUNC | PARM_SECTSIZE | PARM_OTHER

text \<open>What \<open>val\<close> points to: a number, or the characters of a string.\<close>

datatype parm_val = PNum u32 | PStr "u8 list"

text \<open>
  One case of the switch: the value, and how to set it (\<open>None\<close> is a value that the variable cannot hold: a
  string that does not fit, a number behind the enumeration, a function that is not the hook).
\<close>

definition parm_num :: "int \<Rightarrow> parm_val \<Rightarrow> u32 \<Rightarrow> (u32 \<Rightarrow> 'm preldr option) \<Rightarrow> 'm preldr \<Rightarrow> (int \<times> parm_val \<times> 'm preldr) option" where
  "parm_num action val x store p =
     (case val of PStr _ \<Rightarrow> None
      | PNum v \<Rightarrow> if action = ACT_GET then Some (0, PNum x, p) else map_option (\<lambda>p. (0, PNum v, p)) (store v))"

definition parm_str ::
  "int \<Rightarrow> parm_val \<Rightarrow> nat \<Rightarrow> u8 list \<Rightarrow> (u8 list \<Rightarrow> 'm preldr) \<Rightarrow> 'm preldr \<Rightarrow> (int \<times> parm_val \<times> 'm preldr) option" where
  "parm_str action val n x store p =
     (case val of PNum _ \<Rightarrow> None
      | PStr v \<Rightarrow> if action = ACT_GET then Some (0, PStr x, p) else if length v \<ge> n then None else Some (0, PStr v, store v))"

definition hook_value :: "u32 \<Rightarrow> bool \<Rightarrow> u32" where
  "hook_value addr on = (if on then addr else 0)"

definition hook_of :: "u32 \<Rightarrow> u32 \<Rightarrow> bool option" where
  "hook_of addr v = (if v = 0 then Some False else if v = addr then Some True else None)"

definition up_ldr :: "('m loader \<Rightarrow> 'm loader) \<Rightarrow> 'm preldr \<Rightarrow> 'm preldr" where
  "up_ldr f p = p\<lparr>ldr := f (ldr p)\<rparr>"

definition up_dsk :: "('m disk_state \<Rightarrow> 'm disk_state) \<Rightarrow> 'm preldr \<Rightarrow> 'm preldr" where
  "up_dsk f p = up_ldr (\<lambda>s. s\<lparr>dsk := f (dsk s)\<rparr>) p"

definition u_parm :: "'m lip_env \<Rightarrow> parm \<Rightarrow> int \<Rightarrow> parm_val \<Rightarrow> 'm preldr \<Rightarrow> (int \<times> parm_val \<times> 'm preldr) option" where
  "u_parm env parm action val p =
     (let s = ldr p; d = dsk s in
      case parm of
        PARM_BOOT_DRIVE \<Rightarrow> parm_num action val (boot_drive s) (\<lambda>v. Some (up_ldr (boot_drive_update (\<lambda>_. v)) p)) p
      | PARM_CDROM_DRIVE \<Rightarrow> parm_num action val (cdrom_drive s) (\<lambda>v. Some (up_ldr (cdrom_drive_update (\<lambda>_. v)) p)) p
      | PARM_CURRENT_DRIVE \<Rightarrow> parm_num action val (current_drive d) (\<lambda>v. Some (up_dsk (current_drive_update (\<lambda>_. v)) p)) p
      | PARM_CURRENT_PARTITION \<Rightarrow>
          parm_num action val (current_partition d) (\<lambda>v. Some (up_dsk (current_partition_update (\<lambda>_. v)) p)) p
      | PARM_CURRENT_SLICE \<Rightarrow>
          parm_num action val (c_ulong (current_slice d)) (\<lambda>v. Some (up_dsk (current_slice_update (\<lambda>_. c_int v)) p)) p
      | PARM_SAVED_DRIVE \<Rightarrow> parm_num action val (saved_drive s) (\<lambda>v. Some (up_ldr (saved_drive_update (\<lambda>_. v)) p)) p
      | PARM_BUF_DRIVE \<Rightarrow> parm_num action val (c_ulong (buf_drive d)) (\<lambda>v. Some (up_dsk (buf_drive_update (\<lambda>_. c_int v)) p)) p
      | PARM_SAVED_PARTITION \<Rightarrow>
          parm_num action val (saved_partition s) (\<lambda>v. Some (up_ldr (saved_partition_update (\<lambda>_. v)) p)) p
      | PARM_SAVED_SLICE \<Rightarrow>
          parm_num action val (c_ulong (saved_slice s)) (\<lambda>v. Some (up_ldr (saved_slice_update (\<lambda>_. c_int v)) p)) p
      | PARM_PART_START \<Rightarrow> parm_num action val (part_start d) (\<lambda>v. Some (up_dsk (part_start_update (\<lambda>_. v)) p)) p
      | PARM_PART_LENGTH \<Rightarrow> parm_num action val (part_length d) (\<lambda>v. Some (up_dsk (part_length_update (\<lambda>_. v)) p)) p
      | PARM_MBI \<Rightarrow>
          if action = ACT_GET then parm_num action val (mbi_addr env) (\<lambda>_. None) p else Some (- 1, val, p)
      | PARM_ERRNUM \<Rightarrow>
          parm_num action val (of_nat (err_number (errnum d)))
            (\<lambda>v. map_option (\<lambda>e. up_dsk (errnum_update (\<lambda>_. e)) p) (err_of_number v)) p
      | PARM_FILEPOS \<Rightarrow> parm_num action val (c_ulong (filepos s)) (\<lambda>v. Some (up_ldr (filepos_update (\<lambda>_. c_int v)) p)) p
      | PARM_FILEMAX \<Rightarrow> parm_num action val (c_ulong (filemax s)) (\<lambda>v. Some (up_ldr (filemax_update (\<lambda>_. c_int v)) p)) p
      | PARM_EXTENDED_MEMORY \<Rightarrow> parm_num action val (extended_memory p) (\<lambda>v. Some (p\<lparr>extended_memory := v\<rparr>)) p
      | PARM_PREFIX \<Rightarrow> parm_str action val 0x200 (redir_prefix p) (\<lambda>v. p\<lparr>redir_prefix := v\<rparr>) p
      | PARM_LDRLEN \<Rightarrow> parm_num action val (ldrlen p) (\<lambda>v. Some (p\<lparr>ldrlen := v\<rparr>)) p
      | PARM_AT_DRIVE \<Rightarrow> parm_str action val 16 (at_drive p) (\<lambda>v. p\<lparr>at_drive := v\<rparr>) p
      | PARM_DISK_READ_HOOK \<Rightarrow>
          parm_num action val (hook_value (hook_addr env) (disk_read_hook s))
            (\<lambda>v. map_option (\<lambda>b. up_ldr (disk_read_hook_update (\<lambda>_. b)) p) (hook_of (hook_addr env) v)) p
      | PARM_DISK_READ_FUNC \<Rightarrow>
          parm_num action val (hook_value (hook_addr env) (disk_read_func d))
            (\<lambda>v. map_option (\<lambda>b. up_dsk (disk_read_func_update (\<lambda>_. b)) p) (hook_of (hook_addr env) v)) p
      | PARM_SECTSIZE \<Rightarrow>
          if action = ACT_GET then parm_num action val (sector_size (buf_geom d)) (\<lambda>_. None) p else Some (- 1, val, p)
      | PARM_OTHER \<Rightarrow> Some (- 1, val, p))"

section \<open>Raw disk access\<close>

text \<open>
  \<open>addr & 0xf != 0\<close> groups as \<open>addr & (0xf != 0)\<close>, so only odd addresses are refused.  \<open>fw\<close> is the BIOS
  (\<open>BiosDisk\<close>), \<open>stop_floppy\<close> the assembly routine that stops the motor.
\<close>

abbreviation (input) BIOSDISK_GEO :: int where "BIOSDISK_GEO \<equiv> 2"
abbreviation (input) BIOSDISK_STOP_FLOPPY :: int where "BIOSDISK_STOP_FLOPPY \<equiv> 3"

definition u_diskctl ::
  "'m firmware \<Rightarrow> ('m \<Rightarrow> 'm) \<Rightarrow> int \<Rightarrow> int \<Rightarrow> geometry \<Rightarrow> int \<Rightarrow> int \<Rightarrow> int \<Rightarrow> mem \<Rightarrow> 'm \<Rightarrow> (int \<times> geometry \<times> mem \<times> 'm) option" where
  "u_diskctl fw stop_floppy func drive geometry sector nsec addr buf m =
     (if addr AND (if (0xf :: int) \<noteq> 0 then 1 else 0) \<noteq> 0 then Some (int (err_number ERR_UNALIGNED), geometry, buf, m)
      else if func = BIOSDISK_READ \<or> func = BIOSDISK_WRITE
      then biosdisk fw func drive geometry sector nsec (drop_bit 4 addr) buf m
      else if func = BIOSDISK_GEO
      then (let (r, g) = get_diskinfo fw drive geometry in Some (r, g, buf, m))
      else if func = BIOSDISK_STOP_FLOPPY then Some (0, geometry, buf, stop_floppy m)
      else Some (0, geometry, buf, m))"

section \<open>The name of the boot drive\<close>

text \<open>\<open>ltoa\<close> to the 4 bytes of \<open>buf\<close>.\<close>

definition ltoa_text :: "u32 \<Rightarrow> u8 list option" where
  "ltoa_text n = map_option (\<lambda>m. takeWhile (\<lambda>c. c \<noteq> 0) (read_at 0 4 m)) (ltoa (\<lambda>_. 0) (c_int n) 0 10)"

definition determine_boot_drive :: "'m preldr \<Rightarrow> 'm preldr option" where
  "determine_boot_drive p =
     (let bd = boot_drive (ldr p); cd = cdrom_drive (ldr p);
          (t, c) = (if bd = cd \<and> cd \<noteq> 0xFF then (bs ''(cd'', False)
                    else if bd AND 0x80 \<noteq> 0 then (bs ''(hd'', True) else (bs ''(fd'', True));
          drv = (bd AND 0xFF) AND NOT 0x80
      in do {
        t \<leftarrow> (if \<not> c then Some t
             else do {
               d \<leftarrow> ltoa_text drv;
               let drv = drop_bit 16 (install_partition p) AND 0xFF;
               if drv = 0xFF then Some (t @ d)
               else do {
                 n \<leftarrow> ltoa_text drv;
                 let drv = drop_bit 8 (install_partition p) AND 0xFF;
                 Some (t @ d @ ch CHR '','' # n @ (if drv = 0xFF then [] else takeWhile (\<lambda>x. x \<noteq> 0) [97 + ucast drv]))
               }
             });
        let t = t @ [ch CHR '')''];
        if length t \<ge> 16 then None else Some (p\<lparr>at_drive := t\<rparr>)
      })"

section \<open>Modules\<close>

text \<open>The last position of a character in a string, counted from 1.\<close>

definition lastpos :: "u8 \<Rightarrow> u8 list \<Rightarrow> int" where
  "lastpos c s = int (length (dropWhile (\<lambda>x. x \<noteq> c) (rev s)))"

text \<open>
  Items \<open>i\<close> to \<open>n\<close> of the relocation table in \<open>buf\<close>, of three bytes each.  The shift count is taken modulo
  32, as the processor does.
\<close>

function reloc_loop :: "nat \<Rightarrow> mem \<Rightarrow> u32 \<Rightarrow> nat \<Rightarrow> nat \<Rightarrow> mem \<Rightarrow> mem" where
  "reloc_loop base buf shift i n m =
     (if i < n then
        let a = base + nat (le16 buf (2 + 3 * i));
            k = unat (buf (2 + 3 * i + 2)) mod 32
        in reloc_loop base buf shift (i + 1) n (put32 a (le32 m a + drop_bit k shift) m)
      else m)"
  by pat_completeness auto
termination
  by (relation "measure (\<lambda>(base, buf, shift, i, n, m). n - i)") auto

declare reloc_loop.simps [simp del]

text \<open>\<open>buf\<close> is the buffer of 0x1000 bytes on the stack, with what it and the stack behind it hold before the
  call.  \<open>panic\<close>, and a file that does not fit, are \<open>None\<close>.\<close>

definition reloc :: "'m lip_env \<Rightarrow> mem \<Rightarrow> nat \<Rightarrow> u8 list \<Rightarrow> u32 \<Rightarrow> 'm preldr \<Rightarrow> 'm preldr option" where
  "reloc env buf base rel_file shift p =
     do {
       (rc, p) \<leftarrow> freeldr_open env rel_file p;
       if rc = 0 then None
       else do {
         (rc, buf, p) \<leftarrow> freeldr_read env (- 1) buf 0 p;
         p \<leftarrow> freeldr_close env p;
         if rc > 0x1000 then None
         else Some (p\<lparr>ram := reloc_loop base buf shift 0 (nat (le16 buf 0 div 3)) (ram p)\<rparr>)
       }
     }"

text \<open>
  \<open>bb_init\<close> is the call of the module's first byte, which is code that was loaded; the first
  argument is the address of the buffer.  \<open>stack\<close> is the memory of the buffer in \<open>reloc\<close>.  The terms in
  \<open>SHIFT\<close>, a build constant, cancel.
\<close>

definition blackbox_buffers :: "int \<Rightarrow> (nat \<times> u32) option" where
  "blackbox_buffers bufno =
     (if bufno = 1 then Some (0x3E8000, 0x63400) else if bufno = 2 then Some (0x3EC000, 0x63800)
      else if bufno = 3 then Some (0x3F0000, 0x63C00) else None)"

definition blackbox_load ::
  "'m lip_env \<Rightarrow> (nat \<Rightarrow> 'm preldr \<Rightarrow> 'm preldr option) \<Rightarrow> mem \<Rightarrow> u8 list \<Rightarrow> int \<Rightarrow> 'm preldr \<Rightarrow> (int \<times> 'm preldr) option" where
  "blackbox_load env bb_init stack path bufno p =
     (case blackbox_buffers bufno of
        None \<Rightarrow> Some (0, p)
      | Some (hidest, lodest) \<Rightarrow>
          let lodest = lodest + relshift p in do {
            (rc, p) \<leftarrow> freeldr_open env path p;
            if rc = 0 then None
            else do {
              (rc, m, p) \<leftarrow> freeldr_read env (- 1) (ram p) hidest p;
              p \<leftarrow> freeldr_close env (p\<lparr>ram := m\<rparr>);
              m \<leftarrow> grub_memmove (ram p) (unat lodest) hidest 0x400;
              let i = lastpos (ch CHR ''.'') path - 1;
              if i < 0 \<or> length path \<ge> 0x100 \<or> i + 4 \<ge> 0x100 then None
              else do {
                p \<leftarrow> reloc env stack hidest (take (nat i) path @ bs ''.rel'') (of_nat hidest - 0x73E00) (p\<lparr>ram := m\<rparr>);
                p \<leftarrow> bb_init hidest p;
                Some (1, p)
              }
            }
          })"

section \<open>Parameters are cells\<close>

lemma parm_num_get: "parm_num 0 val x store p = (case val of PStr _ \<Rightarrow> None | PNum v \<Rightarrow> Some (0, PNum x, p))"
  by (simp add: parm_num_def split: parm_val.split)

lemma parm_str_get: "parm_str 0 val n x store p = (case val of PNum _ \<Rightarrow> None | PStr v \<Rightarrow> Some (0, PStr x, p))"
  by (simp add: parm_str_def split: parm_val.split)

lemma parm_num_set: "parm_num 1 val x store p = Some (r, w, p') \<longleftrightarrow> r = 0 \<and> (\<exists>v. val = PNum v \<and> w = PNum v \<and> store v = Some p')"
  by (auto simp: parm_num_def split: parm_val.splits)

lemma parm_str_set:
  "parm_str 1 val n x store p = Some (r, w, p') \<longleftrightarrow> r = 0 \<and> (\<exists>v. val = PStr v \<and> w = PStr v \<and> length v < n \<and> p' = store v)"
  by (auto simp: parm_str_def split: parm_val.splits)

lemma hook_value_of: "hook_of a v = Some b \<Longrightarrow> hook_value a b = v"
  by (auto simp: hook_of_def hook_value_def split: if_splits)

section \<open>Relocation\<close>

text \<open>Item \<open>i\<close> of the table: the address and what is added there.\<close>

definition reloc_addr :: "nat \<Rightarrow> mem \<Rightarrow> nat \<Rightarrow> nat" where
  "reloc_addr base buf i = base + nat (le16 buf (2 + 3 * i))"

definition reloc_add :: "u32 \<Rightarrow> mem \<Rightarrow> nat \<Rightarrow> u32" where
  "reloc_add shift buf i = drop_bit (unat (buf (2 + 3 * i + 2)) mod 32) shift"

definition reloc_apart :: "nat \<Rightarrow> mem \<Rightarrow> nat \<Rightarrow> bool" where
  "reloc_apart base buf n \<longleftrightarrow> (\<forall>i<n. \<forall>j<i. reloc_addr base buf j + 4 \<le> reloc_addr base buf i \<or>
     reloc_addr base buf i + 4 \<le> reloc_addr base buf j)"

lemma reloc_loop_adds:
  assumes "reloc_apart base buf n" "i \<le> n"
  shows "(\<forall>j<n. le32 (reloc_loop base buf shift i n m) (reloc_addr base buf j) =
      le32 m (reloc_addr base buf j) + (if i \<le> j then reloc_add shift buf j else 0)) \<and>
    (\<forall>x. (\<forall>j<n. x < reloc_addr base buf j \<or> reloc_addr base buf j + 4 \<le> x) \<longrightarrow> reloc_loop base buf shift i n m x = m x)"
  using assms(2)
proof (induction "n - i" arbitrary: i m)
  case 0
  then show ?case by (simp add: reloc_loop.simps)
next
  case (Suc k)
  let ?a = "reloc_addr base buf i" and ?m = "put32 (reloc_addr base buf i) (le32 m (reloc_addr base buf i) + reloc_add shift buf i) m"
  have i: "i < n" using Suc.hyps(2) by simp
  have step: "reloc_loop base buf shift i n m = reloc_loop base buf shift (i + 1) n ?m"
    using i by (subst reloc_loop.simps) (simp add: reloc_addr_def reloc_add_def Let_def)
  have "k = n - (i + 1)" "i + 1 \<le> n" using Suc.hyps(2) i by simp_all
  note ih = Suc.hyps(1) [OF this, of ?m]
  have other: "le32 ?m (reloc_addr base buf j) = le32 m (reloc_addr base buf j)" if "j < n" "j \<noteq> i" for j
  proof (rule le32_put32_other)
    consider "i < j" | "j < i" using \<open>j \<noteq> i\<close> by linarith
    then show "reloc_addr base buf i + 4 \<le> reloc_addr base buf j \<or> reloc_addr base buf j + 4 \<le> reloc_addr base buf i"
      using assms(1) that(1) i unfolding reloc_apart_def by cases blast+
  qed
  have "le32 (reloc_loop base buf shift i n m) (reloc_addr base buf j) =
      le32 m (reloc_addr base buf j) + (if i \<le> j then reloc_add shift buf j else 0)" if "j < n" for j
    using ih other [of j] that unfolding step by (cases "j = i") (auto simp: Suc_le_eq)
  moreover have "reloc_loop base buf shift i n m x = m x"
    if "\<forall>j<n. x < reloc_addr base buf j \<or> reloc_addr base buf j + 4 \<le> x" for x
    using ih that i unfolding step by (simp add: put32_outside)
  ultimately show ?case by blast
qed

section \<open>Reading the name of the boot drive\<close>

lemma num_digits_length: "n < b ^ Suc k \<Longrightarrow> length (num_digits b n) \<le> Suc k"
proof (induction k arbitrary: n)
  case 0
  then show ?case by (subst num_digits.simps) simp
next
  case (Suc k)
  have "n div b < b ^ Suc k" using Suc.prems by (simp add: less_mult_imp_div_less mult.commute)
  then have "length (num_digits b (n div b)) \<le> Suc k" by (rule Suc.IH)
  then show ?case by (subst num_digits.simps) simp
qed

lemma digit_char_nonzero: "d < 10 \<Longrightarrow> digit_char d \<noteq> 0"
proof -
  assume "d < 10"
  then have "d \<in> {0,1,2,3,4,5,6,7,8,9}" by auto
  then show ?thesis by (elim insertE) (simp_all add: digit_char_def)
qed

lemma ltoa_text_eq:
  assumes "uint n < 1000"
  shows "ltoa_text n = Some (convert_to_ascii (ch CHR ''d'') n)"
proof -
  let ?ds = "map digit_char (num_digits 10 (unat n))"
  have u: "unat n < 1000" using assms by (simp add: nat_less_iff flip: nat_uint_eq)
  have "c_int n = int (unat n)" using c_int_small [of n] assms by simp
  then have l: "ltoa (\<lambda>_. 0) (c_int n) 0 10 = Some (write_at 0 ?ds (write_at 0 [0,0,0,0] (\<lambda>_. 0)))"
    using ltoa_eq [of "\<lambda>_. 0" "unat n" 0] by simp
  have len: "length ?ds \<le> 3" using num_digits_length [of "unat n" 10 2] u by simp
  have "read_at 0 4 (write_at 0 ?ds (write_at 0 [0,0,0,0] (\<lambda>_. 0))) = ?ds @ replicate (4 - length ?ds) 0"
    by (rule nth_equalityI) (use len in \<open>auto simp: write_at_def nth_append nth_Cons' split: if_splits\<close>)
  moreover have "takeWhile (\<lambda>c. c \<noteq> 0) (?ds @ replicate (4 - length ?ds) 0) =
      ?ds @ takeWhile (\<lambda>c. c \<noteq> 0) (replicate (4 - length ?ds) 0)"
    by (rule takeWhile_append2) (use num_digits_less [of 10 _ "unat n"] digit_char_nonzero in auto)
  moreover have "takeWhile (\<lambda>c. c \<noteq> 0) (replicate k (0 :: u8)) = []" for k by (cases k) simp_all
  ultimately show ?thesis
    unfolding ltoa_text_def l using convert_to_ascii_eq [of "ch CHR ''d''" n] assms by simp
qed

lemma parse_decimal_letter:
  assumes "uint n \<le> MAXINT" "bsd_letter c"
  shows "safe_parse_maxint (convert_to_ascii (ch CHR ''d'') n @ c # rest) = Some (uint n, c # rest)"
proof (rule print_parse_decimal [OF assms(1)])
  have c: "97 \<le> uint c" "uint c \<le> 104" using assms(2) by (simp_all add: bsd_letter_def word_le_def)
  then have t: "grub_tolower (uint c) = uint c" by (simp add: grub_tolower_def)
  show "digit_of 10 (cur (c # rest)) = None" unfolding digit_of_def cur_simps t using c by (simp add: Let_def)
  show "grub_tolower (uint (cur (c # rest))) \<noteq> 120" unfolding cur_simps t using c by simp
qed

text \<open>The partition as \<open>determine_boot_drive\<close> writes it: no comma in front of the letter.\<close>

definition at_text :: "u32 \<Rightarrow> u32 \<Rightarrow> u8 list" where
  "at_text a b = (if a = 0xFF then [] else
     ch CHR '','' # convert_to_ascii (ch CHR ''d'') a @ (if b = 0xFF then [] else [ucast (b + 97)]))"

lemma at_text_reads:
  assumes "a \<le> 0xFF" "b \<in> {0,1,2,3,4,5,6,7} \<or> b = 0xFF" "a = 0xFF \<longrightarrow> b = 0xFF"
    and s: "current_drive (dsk s) AND 0x80 \<noteq> 0" "current_partition (dsk s) = 0xFFFFFF" "err s = ERR_NONE"
  shows "\<exists>s'. device_tail (at_text a b @ ch CHR '')'' # rest) s = Inr (True, ch CHR '')'' # rest, s') \<and>
    err s' = ERR_NONE \<and> current_drive (dsk s') = current_drive (dsk s) \<and>
    current_partition (dsk s') = part_code a b \<and> cdrom_drive s' = cdrom_drive s"
proof (cases "a = 0xFF")
  case True
  then show ?thesis using assms by (simp add: device_tail_def at_text_def part_code_ff)
next
  case False
  have b: "b \<le> 0xFF" using assms(2) by auto
  note f = part_code_fields [OF assms(1) b]
  let ?s = "s\<lparr>disk_choice := False, part_choice := PART_DISK\<rparr>"
  let ?t = "convert_to_ascii (ch CHR ''d'') a @ (if b = 0xFF then [] else [ucast (b + 97)]) @ ch CHR '')'' # rest"
  have "uint a \<le> MAXINT" using assms(1) by (simp add: word_le_def)
  then obtain d ds where d: "convert_to_ascii (ch CHR ''d'') a = d # ds" "dec_digit d"
    using hd_decimal by blast
  have a: "\<not> a > 254" using assms(1) False by (auto simp: word_less_nat_alt word_le_nat_alt word_unat_eq_iff)
  have cur: "dec_digit (cur ?t)" using d by simp
  have parse: "safe_parse_maxint ?t = Some (uint a, (if b = 0xFF then [] else [ucast (b + 97)]) @ ch CHR '')'' # rest)"
    using parse_decimal [OF \<open>uint a \<le> MAXINT\<close>] parse_decimal_letter [OF \<open>uint a \<le> MAXINT\<close>] char_letter(1) [of b] assms(2)
    by (cases "b = 0xFF") simp_all
  have z: "(push_bit 16 a + 0xFFFF) AND 0xFF00FF = part_code a 0"
    using part_code_fields(5) [where a = a and b = "0xFF"] assms(1) f(6) by simp
  have s1: "current_drive (dsk ?s) AND 0x80 \<noteq> 0" using s(1) by simp
  have "device_partition ?t ?s = Inr (ch CHR '')'' # rest, set_partition (part_code a b) (?s\<lparr>part_choice := PART_CHOSEN\<rparr>))"
    unfolding device_partition_number [OF cur parse a s1] Let_def z
    unfolding f(6) [symmetric]
    using assms(2) char_letter [of b] f(7) by (cases "b = 0xFF") (auto simp: bsd_letter_def)
  then have "device_tail (ch CHR '','' # ?t) s =
      Inr (True, ch CHR '')'' # rest, set_partition (part_code a b) (?s\<lparr>part_choice := PART_CHOSEN\<rparr>))"
    by (rule device_tail_comma) (use s(3) in simp_all)
  then show ?thesis using s False by (simp add: at_text_def)
qed

lemma decimal_length: "uint n < 1000 \<Longrightarrow> length (convert_to_ascii (ch CHR ''d'') n) \<le> 3"
  using num_digits_length [of "unat n" 10 2] convert_to_ascii_eq [of "ch CHR ''d''" n]
  by (simp add: nat_less_iff flip: nat_uint_eq)

lemma byte_and:
  fixes d :: u32
  assumes "d \<le> 0xFF"
  shows "d AND 0xFF = d"
proof -
  have "take_bit 8 d = d" using assms by (simp add: take_bit_eq_mod mod_word_less word_less_nat_alt word_le_nat_alt)
  then show ?thesis by (simp add: take_bit_eq_mask mask_numeral)
qed

lemma byte_masks:
  fixes d :: u32
  assumes "d < 0x100"
  shows "d AND 0x80 \<noteq> 0 \<Longrightarrow> (d AND 0xFF) AND NOT 0x80 = d - 0x80" "d AND 0x80 = 0 \<Longrightarrow> (d AND 0xFF) AND NOT 0x80 = d"
proof -
  have b: "bit d n \<Longrightarrow> n < 8" for n
  proof (rule ccontr)
    assume n: "bit d n" "\<not> n < 8"
    have "take_bit 8 d = d" using assms by (simp add: take_bit_eq_mod mod_word_less)
    then show False using n by (metis bit_take_bit_iff)
  qed
  have m: "d AND 0xFF = d" unfolding bits_mask by (rule bit_word_eqI) (auto simp: bit_simps dest: b)
  show "d AND 0x80 = 0 \<Longrightarrow> (d AND 0xFF) AND NOT 0x80 = d"
  proof (rule bit_word_eqI)
    fix n assume "d AND 0x80 = 0"
    then have "\<not> bit d 7" using and_exp_eq_0_iff_not_bit [of d 7] by simp
    then show "bit ((d AND 0xFF) AND NOT 0x80) n = bit d n"
      unfolding m using bit_exp_iff [of 7 n, where ?'a = u32] by (auto simp: bit_simps dest: b)
  qed
  assume "d AND 0x80 \<noteq> 0"
  then have "bit d 7" by (auto simp: bit_simps and_exp_eq_0_iff_not_bit [of d 7, simplified])
  then have "d AND 0x80 = 0x80"
    by (intro bit_word_eqI) (auto simp: bit_simps bit_exp_iff [of 7, simplified])
  moreover have "NOT d AND (d AND 0x80) = 0" by (simp add: and.assoc [symmetric])
  ultimately have "d - 0x80 = d AND NOT 0x80" by (intro disjunctive_diff_eq_and_not) simp
  then show "(d AND 0xFF) AND NOT 0x80 = d - 0x80" unfolding m by simp
qed

text \<open>What \<open>determine_boot_drive\<close> writes.\<close>

lemma boot_drive_text:
  assumes "boot_drive (ldr p) < 0x100" "\<not> (boot_drive (ldr p) = cdrom_drive (ldr p) \<and> cdrom_drive (ldr p) \<noteq> 0xFF)"
  defines "a \<equiv> drop_bit 16 (install_partition p) AND 0xFF" and "b \<equiv> drop_bit 8 (install_partition p) AND 0xFF"
    and "h \<equiv> boot_drive (ldr p) AND 0x80 \<noteq> 0"
  assumes "b \<in> {0,1,2,3,4,5,6,7} \<or> b = 0xFF"
  shows "determine_boot_drive p = Some (p\<lparr>at_drive := (if h then bs ''(hd'' else bs ''(fd'') @
    convert_to_ascii (ch CHR ''d'') (if h then boot_drive (ldr p) - 0x80 else boot_drive (ldr p)) @ at_text a b @ [ch CHR '')'']\<rparr>)"
proof -
  define n where "n = (boot_drive (ldr p) AND 0xFF) AND NOT 0x80"
  have n: "n = (if h then boot_drive (ldr p) - 0x80 else boot_drive (ldr p))"
    using byte_masks [OF assms(1)] by (simp add: h_def n_def)
  have "n \<le> 0xFF" unfolding n_def by (metis word_and_le1 word_and_le2 order_trans)
  then have un: "uint n < 1000" by (simp add: word_le_def)
  have "a \<le> 0xFF" unfolding a_def by (rule word_and_le1)
  then have ua: "uint a < 1000" by (simp add: word_le_def)
  have l: "length (convert_to_ascii (ch CHR ''d'') n) \<le> 3" "length (convert_to_ascii (ch CHR ''d'') a) \<le> 3"
    using decimal_length un ua by blast+
  have c: "takeWhile (\<lambda>x. x \<noteq> 0) [97 + ucast b :: u8] = [ucast (b + 97)]" if "b \<noteq> 0xFF"
    using assms(6) that by auto
  show ?thesis
    using ltoa_text_eq [OF un] ltoa_text_eq [OF ua] l c
    unfolding determine_boot_drive_def Let_def if_not_P [OF assms(2)] n [symmetric] n_def [symmetric] a_def [symmetric] b_def [symmetric] h_def [symmetric] at_text_def
    by (cases h; cases "a = 0xFF"; cases "b = 0xFF") (simp_all del: takeWhile.simps)
qed

section \<open>Properties\<close>

text \<open>C37: the name that \<open>determine_boot_drive\<close> builds for the macro \<open>@\<close> is read back by \<open>set_device\<close>: it selects
  the boot drive and, on a hard disk, the partition the loader was installed on (a BSD partition only inside a
  slice; without a slice the name would lose it).\<close>

theorem boot_drive_roundtrip:
  assumes "sane_partition (cdrom_drive (ldr p)) (boot_drive (ldr p)) (install_partition p)"
    and "boot_drive (ldr p) < 0xFF" "boot_drive (ldr p) \<noteq> NETWORK_DRIVE"
    and "drop_bit 16 (install_partition p) = 0xFF \<longrightarrow> install_partition p = 0xFFFFFF"
    and "cdrom_drive s0 = cdrom_drive (ldr p)" "err s0 = ERR_NONE"
  shows "\<exists>t s1. determine_boot_drive p = Some (p\<lparr>at_drive := t\<rparr>) \<and> set_device t s0 = (Some [], [], s1) \<and>
    err s1 = ERR_NONE \<and> current_drive (dsk s1) = boot_drive (ldr p) \<and>
    current_partition (dsk s1) =
      (if boot_drive (ldr p) AND 0x80 \<noteq> 0 \<and> boot_drive (ldr p) \<noteq> cdrom_drive (ldr p) then install_partition p else 0xFFFFFF)"
proof -
  let ?bd = "boot_drive (ldr p)" and ?ip = "install_partition p"
  let ?s = "set_partition 0xFFFFFF (set_drive (saved_drive s0)
                (s0\<lparr>incomplete := False, disk_choice := True, part_choice := PART_UNSPECIFIED\<rparr>))"
  show ?thesis
  proof (cases "?bd = cdrom_drive (ldr p)")
    case True
    then have "set_device (bs ''(cd)'') s0 = device_result (True, bs '')'', (set_drive ?bd ?s)\<lparr>part_choice := PART_CHOSEN\<rparr>)"
      using assms by (auto simp: set_device_def device_drive_def drive_letter_def device_tail_def Let_def)
    moreover have "determine_boot_drive p = Some (p\<lparr>at_drive := bs ''(cd)''\<rparr>)"
      using True assms(2) by (auto simp: determine_boot_drive_def Let_def)
    ultimately show ?thesis using True assms by (auto simp: device_result_def sane_partition_def)
  next
    case cd: False
    have ip: "?ip AND 0xFF000000 = 0" "?ip AND 0xFF = 0xFF" "?ip AND 0xFF00 = 0xFF00 \<or> ?ip AND 0xFF00 < 0x800"
      using assms(1,3) by (auto simp: sane_partition_def)
    obtain a b where p: "?ip = part_code a b" and ab: "a \<le> 0xFF" "b \<le> 0xFF"
      using part_code_complete [OF ip(1,2)] by blast
    note f = part_code_fields [OF ab]
    have ba: "drop_bit 16 ?ip AND 0xFF = a" "drop_bit 8 ?ip AND 0xFF = b"
      using byte_and [OF ab(1)] f(1,2) by (simp_all add: p)
    have b: "b \<in> {0,1,2,3,4,5,6,7} \<or> b = 0xFF"
      using bsd_cases [of ?ip] ip(3) f(2,4) push_byte [OF ab(2), of 8] unfolding p by auto
    have ab': "a = 0xFF \<longrightarrow> b = 0xFF" using assms(4) f(1,2) by (auto simp: p)
    let ?h = "?bd AND 0x80 \<noteq> 0"
    let ?n = "if ?h then ?bd - 0x80 else ?bd" and ?x = "if ?h then ch CHR ''h'' else ch CHR ''f''"
    let ?t = "(if ?h then bs ''(hd'' else bs ''(fd'') @ convert_to_ascii (ch CHR ''d'') ?n @ at_text a b @ [ch CHR '')'']"
    have bd: "?bd < 0x100" using assms(2) by (rule order.strict_trans) simp
    have det: "determine_boot_drive p = Some (p\<lparr>at_drive := ?t\<rparr>)"
      using boot_drive_text [OF bd] cd b unfolding ba by auto
    have n: "uint ?n \<le> MAXINT"
      using high_bit_drive [OF _ bd] bd by (auto simp: word_less_def)
    let ?s1 = "set_drive ?bd (?s\<lparr>disk_choice := False\<rparr>)"
    have tail: "\<exists>s'. device_tail (at_text a b @ [ch CHR '')'']) ?s1 = Inr (True, [ch CHR '')''], s') \<and> err s' = ERR_NONE \<and>
        current_drive (dsk s') = ?bd \<and> current_partition (dsk s') = (if ?h then ?ip else 0xFFFFFF) \<and> cdrom_drive s' = cdrom_drive s0"
    proof (cases ?h)
      case True
      then show ?thesis using at_text_reads [OF ab(1) b ab', of ?s1 "[]"] assms(6) p by auto
    next
      case False
      then have "a = 0xFF" using assms(1,3) cd
        using f(1) by (auto simp: sane_partition_def p)
      then show ?thesis using False assms(6) by (auto simp: at_text_def device_tail_def)
    qed
    then obtain s' where s': "device_tail (at_text a b @ [ch CHR '')'']) ?s1 = Inr (True, [ch CHR '')''], s')" "err s' = ERR_NONE"
      "current_drive (dsk s') = ?bd" "current_partition (dsk s') = (if ?h then ?ip else 0xFFFFFF)" "cdrom_drive s' = cdrom_drive s0"
      by blast
    obtain c r where c: "at_text a b @ [ch CHR '')''] = c # r" "c \<in> {ch CHR '','', ch CHR '')''}"
      by (cases "at_text a b @ [ch CHR '')'']") (auto simp: at_text_def split: if_splits)
    have "device_drive (?x # ch CHR ''d'' # convert_to_ascii (ch CHR ''d'') ?n @ at_text a b @ [ch CHR '')'']) ?s =
        Inr (at_text a b @ [ch CHR '')''], ?s1)"
      unfolding c(1) using device_drive_reads [OF n c(2), of ?x r ?s] by (cases ?h) simp_all
    then have "set_device ?t s0 = device_result (True, [ch CHR '')''], s')"
      using s'(1) by (cases ?h) (simp_all add: set_device_def)
    moreover have "sane_partition (cdrom_drive s0) ?bd (if ?h then ?ip else 0xFFFFFF)"
      using assms(1,3,5) by (auto simp: sane_partition_def)
    ultimately show ?thesis
      using det s' cd by (auto simp: device_result_def)
  qed
qed

theorem boot_drive_roundtrip_witness:
  "\<exists>t s1. determine_boot_drive (start_preldr (boot_ldr\<lparr>boot_drive := 0x80\<rparr>)\<lparr>install_partition := 0x0001FF\<rparr>) =
      Some (start_preldr (boot_ldr\<lparr>boot_drive := 0x80\<rparr>)\<lparr>install_partition := 0x0001FF, at_drive := t\<rparr>) \<and>
    set_device t boot_ldr = (Some [], [], s1) \<and> current_drive (dsk s1) = 0x80 \<and> current_partition (dsk s1) = 0x0001FF"
proof -
  let ?p = "start_preldr (boot_ldr\<lparr>boot_drive := 0x80\<rparr>)\<lparr>install_partition := 0x0001FF\<rparr>"
  have v: "boot_drive (ldr ?p) = 0x80" "cdrom_drive (ldr ?p) = 0xFF" "install_partition ?p = 0x0001FF"
    "cdrom_drive boot_ldr = 0xFF" "err boot_ldr = ERR_NONE"
    by (simp_all add: start_preldr_def boot_ldr_def start_loader_def hd_state_def)
  have "sane_partition 0xFF 0x80 0x0001FF" by (simp add: sane_partition_def)
  then obtain t s1 where "determine_boot_drive ?p = Some (?p\<lparr>at_drive := t\<rparr>)" "set_device t boot_ldr = (Some [], [], s1)"
    "current_drive (dsk s1) = 0x80" "current_partition (dsk s1) = 0x0001FF"
    using boot_drive_roundtrip [of ?p boot_ldr] unfolding v by auto
  then show ?thesis by auto
qed

text \<open>C38: the parameters of \<open>u_parm\<close> are independent cells: after a parameter was set, \<open>ACT_GET\<close> delivers
  the value for it and the old value for every other one, and no query changes anything.\<close>

theorem u_parm_cells:
  assumes "u_parm env parm ACT_SET v p = Some (0, w, p')"
  shows "w = v \<and> (\<forall>parm' x. u_parm env parm' ACT_GET x p' =
    map_option (\<lambda>(r, y, _). (r, if parm' = parm then v else y, p')) (u_parm env parm' ACT_GET x p))"
proof (intro conjI allI)
  show "w = v" using assms by (cases parm) (auto simp: u_parm_def Let_def parm_num_set parm_str_set)
next
  fix parm' x
  show "u_parm env parm' ACT_GET x p' =
    map_option (\<lambda>(r, y, _). (r, if parm' = parm then v else y, p')) (u_parm env parm' ACT_GET x p)"
    using assms
    by (cases parm; cases parm')
      (auto simp: u_parm_def Let_def parm_num_set parm_str_set parm_num_get parm_str_get up_dsk_def up_ldr_def
        hook_value_of err_number_of_number c_ulong_c_int split: parm_val.split)
qed

theorem u_parm_cells_witness:
  "\<exists>p'. u_parm boot_lip PARM_ERRNUM ACT_SET (PNum 15) boot_preldr = Some (0, PNum 15, p') \<and>
    u_parm boot_lip PARM_ERRNUM ACT_GET (PNum 0) p' = Some (0, PNum 15, p') \<and>
    u_parm boot_lip PARM_SAVED_DRIVE ACT_GET (PNum 0) p' = Some (0, PNum 128, p')"
proof -
  obtain p' where p: "u_parm boot_lip PARM_ERRNUM ACT_SET (PNum 15) boot_preldr = Some (0, PNum 15, p')"
    by (simp add: u_parm_def Let_def parm_num_def err_of_number_def length_grub_errors)
  moreover have "u_parm boot_lip PARM_ERRNUM ACT_GET (PNum 0) boot_preldr = Some (0, PNum 0, boot_preldr)"
    "u_parm boot_lip PARM_SAVED_DRIVE ACT_GET (PNum 0) boot_preldr = Some (0, PNum 128, boot_preldr)"
    by (simp_all add: u_parm_def Let_def parm_num_def boot_preldr_def start_preldr_def boot_ldr_def start_loader_def hd_state_def
        err_number_def grub_errors_def)
  ultimately show ?thesis using u_parm_cells [OF p] by simp
qed

text \<open>C39: a relocation file that the 16-bit driver serves is applied: \<open>reloc\<close> returns, every word of its
  table is increased by the shift, shifted right as its item says, and nothing else in memory changes (the words
  of the table do not overlap).\<close>

theorem reloc_applies:
  fixes buf :: mem
  assumes "mu_file env (dos_name q) data" "filetab_ptr (ldr p)" "\<not> device_only rel_file" "rel_file \<noteq> []"
    and "after_device rel_file = Some q" "length q < 0x200" "data \<noteq> []" "length data \<le> 0x1000"
  defines "tab \<equiv> write_at 0 data buf"
  defines "n \<equiv> nat (le16 tab 0 div 3)"
  assumes "reloc_apart base tab n"
  shows "\<exists>p'. reloc env buf base rel_file shift p = Some p' \<and>
    (\<forall>i<n. le32 (ram p') (reloc_addr base tab i) = le32 (ram p) (reloc_addr base tab i) + reloc_add shift tab i) \<and>
    (\<forall>x. (\<forall>i<n. x < reloc_addr base tab i \<or> reloc_addr base tab i + 4 \<le> x) \<longrightarrow> ram p' x = ram p x)"
proof -
  obtain p1 where p1: "freeldr_open env rel_file p = Some (int (length data), p1)"
      "ldr p1 = (ldr p)\<lparr>filepos := 0, filemax := int (length data)\<rparr>" "ram p1 = ram p"
    using freeldr_open_16 [OF assms(1-6)] by blast
  have "mu_serves env data" "length data < 2147483648" using assms(1,8) by (simp_all add: mu_file_def)
  from freeldr_read_16(2) [OF this, of p1 0 buf 0] p1 assms(2)
  obtain p2 where p2: "freeldr_read env (- 1) buf 0 p1 = Some (int (length data), tab, p2)" "ldr p2 = (ldr p1)\<lparr>filepos := int (length data)\<rparr>"
      "ram p2 = ram p"
    by (auto simp: tab_def)
  obtain p3 where p3: "freeldr_close env p2 = Some p3" "ram p3 = ram p"
  proof -
    obtain p3 where "mu_close env p2 = Some p3" "ram p3 = ram p2" using assms(1) unfolding mu_file_def by blast
    moreover have "filetab_ptr (ldr p2)" using p1(2) p2(2) assms(2) by simp
    ultimately show ?thesis using that [of p3] p2(3) by (simp add: freeldr_close_def)
  qed
  have "reloc env buf base rel_file shift p = Some (p3\<lparr>ram := reloc_loop base tab shift 0 n (ram p)\<rparr>)"
    using p1(1) p2(1) p3 assms(7,8) by (simp add: reloc_def n_def)
  then show ?thesis using reloc_loop_adds [OF assms(11), of 0 shift "ram p"] by simp
qed

text \<open>Two items: the word at 2 plus the shift, the word at 8 plus the shift in paragraphs.\<close>

theorem reloc_applies_witness:
  "\<exists>p'. reloc (ram_driver [6, 0, 2, 0, 0, 8, 0, 4]) (\<lambda>_. 0) 0x1000 (bs ''m.rel'') 0x12340 (start_preldr (boot_ldr\<lparr>filetab_ptr := True\<rparr>)) = Some p' \<and>
    le32 (ram p') 0x1002 = 0x12340 \<and> le32 (ram p') 0x1008 = 0x1234 \<and> ram p' 0x1006 = 0"
proof -
  let ?tab = "write_at 0 [6, 0, 2, 0, 0, 8, 0, 4] (\<lambda>_. 0)"
  have n: "nat (le16 ?tab 0 div 3) = 2" by (simp add: le16_def write_at_def)
  have a: "reloc_addr 0x1000 ?tab 0 = 0x1002" "reloc_addr 0x1000 ?tab 1 = 0x1008"
    "reloc_add 0x12340 ?tab 0 = 0x12340" "reloc_add 0x12340 ?tab 1 = 0x1234"
    by (simp_all add: reloc_addr_def reloc_add_def le16_def write_at_def)
  have ap: "reloc_apart 0x1000 ?tab (nat (le16 ?tab 0 div 3))"
    using a unfolding n by (auto simp: reloc_apart_def less_Suc_eq numeral_2_eq_2)
  have z: "le32 (\<lambda>_. 0) x = 0" for x by (simp add: le32_def le16_def)
  obtain p' where p': "reloc (ram_driver [6, 0, 2, 0, 0, 8, 0, 4]) (\<lambda>_. 0) 0x1000 (bs ''m.rel'') 0x12340
      (start_preldr (boot_ldr\<lparr>filetab_ptr := True\<rparr>)) = Some p'"
    "\<forall>i<2. le32 (ram p') (reloc_addr 0x1000 ?tab i) = reloc_add 0x12340 ?tab i"
    "\<forall>x. (\<forall>i<2. x < reloc_addr 0x1000 ?tab i \<or> reloc_addr 0x1000 ?tab i + 4 \<le> x) \<longrightarrow> ram p' x = 0"
    using reloc_applies [OF ram_driver_file(1), where buf = "\<lambda>_. 0" and base = "0x1000" and rel_file = "bs ''m.rel''" and q = "bs ''m.rel''"
        and data = "[6, 0, 2, 0, 0, 8, 0, 4]" and p = "start_preldr (boot_ldr\<lparr>filetab_ptr := True\<rparr>)" and shift = "0x12340"] ap
    unfolding n by (auto simp: z device_only_def after_device_def start_preldr_def)
  have "le32 (ram p') 0x1002 = 0x12340" "le32 (ram p') 0x1008 = 0x1234"
    using p'(2) a by (metis zero_less_numeral, metis one_less_numeral_iff semiring_norm(76))
  moreover have "ram p' 0x1006 = 0" using p'(3) a by (auto simp: less_Suc_eq numeral_2_eq_2)
  ultimately show ?thesis using p'(1) by blast
qed

end
