(* ===== verification/MemMap.thy ===== *)
theory MemMap
  imports Dskaccess
begin

text \<open>
  What the pre-loader asks the BIOS at start, \<open>preldr/common.c\<close>: the memory map and the sizes of lower, upper
  and extended memory derived from it (\<open>mmap_avail_at\<close>, \<open>init_bios_info\<close>), and the drives.  The assembly
  routines that call the BIOS are arguments (\<open>bios_calls\<close>).  Memory is flat, addresses are 32-bit words.
  The structure \<open>AddrRangeDesc\<close> is laid out as the BIOS fills it in, without padding.
\<close>

section \<open>The map\<close>

definition le64 :: "mem \<Rightarrow> nat \<Rightarrow> u64" where
  "le64 m a = push_bit 32 (ucast (le32 m (a + 4))) OR ucast (le32 m a)"

definition put64 :: "nat \<Rightarrow> u64 \<Rightarrow> mem \<Rightarrow> mem" where
  "put64 a w m = put32 (a + 4) (ucast (drop_bit 32 w)) (put32 a (ucast w) m)"

definition ard_size :: "mem \<Rightarrow> u32 \<Rightarrow> u32" where "ard_size m a = le32 m (unat a)"
definition ard_base :: "mem \<Rightarrow> u32 \<Rightarrow> u64" where "ard_base m a = le64 m (unat a + 4)"
definition ard_length :: "mem \<Rightarrow> u32 \<Rightarrow> u64" where "ard_length m a = le64 m (unat a + 12)"
definition ard_type :: "mem \<Rightarrow> u32 \<Rightarrow> u32" where "ard_type m a = le32 m (unat a + 20)"

abbreviation (input) MB_ARD_MEMORY :: u32 where "MB_ARD_MEMORY \<equiv> 1"

record mbi =
  mbi_flags :: u32
  mem_lower :: u32
  mem_upper :: u32
  mmap_length :: u32
  mmap_addr :: u32
  drives_length :: u32
  drives_addr :: u32
  config_table :: u32
  boot_loader_name :: u32
  apm_table :: u32

text \<open>One pass over the descriptors from \<open>a\<close> to \<open>e\<close>.\<close>

partial_function (option) mmap_pass :: "mem \<Rightarrow> u32 \<Rightarrow> u32 \<Rightarrow> u64 \<Rightarrow> int \<Rightarrow> (u64 \<times> int) option" where
  "mmap_pass m a e mtop cont =
     (if \<not> a < e then Some (mtop, cont)
      else
        let (mtop, cont) =
              (if ard_type m a = MB_ARD_MEMORY \<and> ard_base m a \<le> mtop \<and> ard_base m a + ard_length m a > mtop
               then (ard_base m a + ard_length m a, cont + 1) else (mtop, cont))
        in mmap_pass m (a + (ard_size m a + 4)) e mtop cont)"

partial_function (option) mmap_top :: "mem \<Rightarrow> u32 \<Rightarrow> u32 \<Rightarrow> u64 \<Rightarrow> u64 option" where
  "mmap_top m a e mtop =
     do { (mtop, cont) \<leftarrow> mmap_pass m a e mtop 0; if cont \<noteq> 0 then mmap_top m a e mtop else Some mtop }"

definition mmap_avail_at :: "mem \<Rightarrow> mbi \<Rightarrow> u32 \<Rightarrow> u32 option" where
  "mmap_avail_at m i bottom =
     do { mtop \<leftarrow> mmap_top m (mmap_addr i) (mmap_addr i + mmap_length i) (ucast bottom); Some (ucast mtop - bottom) }"

partial_function (option) mmap_max :: "mem \<Rightarrow> u32 \<Rightarrow> u32 \<Rightarrow> u64 \<Rightarrow> u64 option" where
  "mmap_max m a e mtop =
     (if \<not> a < e then Some mtop
      else mmap_max m (a + (ard_size m a + 4)) e
        (if ard_type m a = MB_ARD_MEMORY \<and> ard_length m a > 0 \<and> ard_base m a + ard_length m a > mtop
         then ard_base m a + ard_length m a else mtop))"

section \<open>Asking the BIOS\<close>

record bios_calls =
  get_memsize :: "int \<Rightarrow> u32"
  get_eisamemsize :: u32
  get_code_end :: u32
  get_mmap_entry :: "u32 \<Rightarrow> u32 \<Rightarrow> mem \<Rightarrow> u32 \<times> mem"
  get_rom_config_table :: u32
  apm_version :: u16
  apm_bios_info :: u32
  probe_drive :: "int \<Rightarrow> geometry \<Rightarrow> int \<times> geometry"
  fakemap :: u32
  loader_name_addr :: u32
  stage0base :: u32

partial_function (option) mmap_read :: "bios_calls \<Rightarrow> u32 \<Rightarrow> u32 \<Rightarrow> u32 \<Rightarrow> mem \<Rightarrow> (u32 \<times> u32 \<times> mem) option" where
  "mmap_read bios a cont len m =
     (let (cont, m) = get_mmap_entry bios a cont m in
      if ard_size m a = 0 then Some (a, len, m)
      else
        let len = len + (ard_size m a + 4); a = a + (ard_size m a + 4) in
        if cont \<noteq> 0 then mmap_read bios a cont len m else Some (a, len, m))"

text \<open>
  The drives: a \<open>drive_info\<close> of 12 bytes for each.  The table of I/O ports has just been cleared, so the loop
  that copies it ends at once.
\<close>

abbreviation (input) MB_DI_CHS_MODE :: u8 where "MB_DI_CHS_MODE \<equiv> 0"
abbreviation (input) MB_DI_LBA_MODE :: u8 where "MB_DI_LBA_MODE \<equiv> 1"

definition drive_info :: "int \<Rightarrow> geometry \<Rightarrow> u8 list" where
  "drive_info drive g =
     word_bytes 12 @
     [of_int drive, if flags g AND BIOSDISK_FLAG_LBA_EXTENSION \<noteq> 0 then MB_DI_LBA_MODE else MB_DI_CHS_MODE,
      ucast (cylinders g), ucast (drop_bit 8 (cylinders g)), ucast (heads g), ucast (sectors g)]"

function mbi_drives :: "bios_calls \<Rightarrow> geometry \<Rightarrow> int \<Rightarrow> u32 \<Rightarrow> u32 \<Rightarrow> mem \<Rightarrow> u32 \<times> u32 \<times> mem" where
  "mbi_drives bios g drive a len m =
     (if drive < 0x88 then
        let (r, g) = probe_drive bios drive g in
        if r \<noteq> 0 then (a, len, m)
        else mbi_drives bios g (drive + 1) (a + 12) (len + 12) (write_at (unat a) (drive_info drive g) m)
      else (a, len, m))"
  by pat_completeness auto
termination
  by (relation "measure (\<lambda>(bios, g, drive, a, len, m). nat (0x88 - drive))") auto

declare mbi_drives.simps [simp del]

text \<open>The memory sizes: from the map, from \<open>get_eisamemsize\<close> (with a map of its own), or the plain ones.\<close>

record bios_state =
  mbi :: mbi
  bios_ram :: mem
  extended_memory :: u32
  saved_mem_upper :: u32

definition eisa_memory :: "bios_calls \<Rightarrow> bios_state \<Rightarrow> bios_state" where
  "eisa_memory bios s =
     (let cont = get_eisamemsize bios AND NOT 0xFFFF; memtmp = get_eisamemsize bios AND 0xFFFF;
          s = s\<lparr>extended_memory := (if cont \<noteq> 0 then drop_bit 10 cont + 0x3C00 else memtmp)\<rparr>
      in if cont = 0 \<or> memtmp = 0x3C00
         then s\<lparr>mbi := (mbi s)\<lparr>mem_upper := memtmp + drop_bit 10 cont\<rparr>\<rparr>
         else
           let f = unat (fakemap bios);
               m = put64 (f + 12) (ucast (push_bit 10 (mem_lower (mbi s)))) (bios_ram s);
               m = put64 (f + 36) (ucast (push_bit 10 memtmp)) m;
               m = put64 (f + 60) (ucast cont) m
           in s\<lparr>bios_ram := m, mbi := (mbi s)\<lparr>mmap_addr := fakemap bios, mmap_length := 72, mem_upper := memtmp\<rparr>\<rparr>)"

definition map_memory :: "bios_state \<Rightarrow> bios_state option" where
  "map_memory s =
     do {
       lower \<leftarrow> mmap_avail_at (bios_ram s) (mbi s) 0;
       let i = (mbi s)\<lparr>mem_lower := drop_bit 10 lower\<rparr>;
       upper \<leftarrow> mmap_avail_at (bios_ram s) i 0x100000;
       let i = i\<lparr>mem_upper := drop_bit 10 upper\<rparr>;
       mtop \<leftarrow> mmap_max (bios_ram s) (mmap_addr i) (mmap_addr i + mmap_length i) 0;
       Some (s\<lparr>mbi := i, extended_memory := ucast (drop_bit 10 (mtop - 0x100000))\<rparr>)
     }"

abbreviation (input) MB_INFO_APM_TABLE :: u32 where "MB_INFO_APM_TABLE \<equiv> 0x400"

text \<open>The flags for memory, boot device, command line, memory map, drives, ROM table and loader name.\<close>

definition init_bios_info :: "bios_calls \<Rightarrow> geometry \<Rightarrow> bios_state \<Rightarrow> bios_state option" where
  "init_bios_info bios g s =
     (let i = (mbi s)\<lparr>mem_lower := get_memsize bios 0, mem_upper := get_memsize bios 1\<rparr>;
          a = get_code_end bios
      in do {
        (a, len, m) \<leftarrow> mmap_read bios a 0 0 (bios_ram s);
        let s = s\<lparr>mbi := i\<lparr>mmap_addr := get_code_end bios, mmap_length := len\<rparr>, bios_ram := m, extended_memory := mem_upper i\<rparr>;
        s \<leftarrow> (if len \<noteq> 0 then map_memory s
             else if get_eisamemsize bios \<noteq> - 1 then Some (eisa_memory bios s) else Some s);
        let s = s\<lparr>saved_mem_upper := mem_upper (mbi s)\<rparr>;
        let (_, dlen, m) = mbi_drives bios g 0x80 a 0 (bios_ram s);
        let i = (mbi s)\<lparr>drives_length := dlen, drives_addr := a, config_table := get_rom_config_table bios,
                  boot_loader_name := loader_name_addr bios\<rparr>;
        let i = (if apm_version bios \<noteq> 0 then i\<lparr>apm_table := apm_bios_info bios + stage0base bios\<rparr> else i);
        let i = i\<lparr>mbi_flags := 1 OR 4 OR 2 OR 0x80 OR 0x100 OR 0x200 OR 0x40\<rparr>;
        let i = (if apm_version bios \<noteq> 0 then i\<lparr>mbi_flags := mbi_flags i OR MB_INFO_APM_TABLE\<rparr> else i);
        Some (s\<lparr>mbi := i, bios_ram := m\<rparr>)
      })"

section \<open>What the map says\<close>

record mem_range =
  r_size :: u32
  r_base :: u64
  r_length :: u64
  r_type :: u32

text \<open>The descriptor \<open>r\<close> is at \<open>a\<close>; the descriptors \<open>rs\<close> follow each other from \<open>a\<close> on, and their length.\<close>

definition range_at :: "mem \<Rightarrow> u32 \<Rightarrow> mem_range \<Rightarrow> bool" where
  "range_at m a r \<longleftrightarrow> ard_size m a = r_size r \<and> ard_base m a = r_base r \<and> ard_length m a = r_length r \<and> ard_type m a = r_type r"

fun map_bytes :: "mem_range list \<Rightarrow> nat" where
  "map_bytes [] = 0"
| "map_bytes (r # rs) = unat (r_size r) + 4 + map_bytes rs"

fun map_at :: "mem \<Rightarrow> u32 \<Rightarrow> mem_range list \<Rightarrow> bool" where
  "map_at m a [] = True"
| "map_at m a (r # rs) \<longleftrightarrow> range_at m a r \<and> map_at m (a + (r_size r + 4)) rs"

text \<open>Address \<open>x\<close> is usable memory; no range goes beyond 64 bits.\<close>

definition usable :: "mem_range \<Rightarrow> int \<Rightarrow> bool" where
  "usable r x \<longleftrightarrow> r_type r = MB_ARD_MEMORY \<and> uint (r_base r) \<le> x \<and> x < uint (r_base r) + uint (r_length r)"

definition ranges_ok :: "mem_range list \<Rightarrow> bool" where
  "ranges_ok rs \<longleftrightarrow> (\<forall>r\<in>set rs. 20 \<le> r_size r \<and> uint (r_base r) + uint (r_length r) < 2 ^ 64)"

text \<open>\<open>t\<close> is the first address from \<open>b\<close> on that is no usable memory.\<close>

definition memory_until :: "mem_range list \<Rightarrow> int \<Rightarrow> int \<Rightarrow> bool" where
  "memory_until rs b t \<longleftrightarrow> b \<le> t \<and> (\<forall>x. b \<le> x \<and> x < t \<longrightarrow> (\<exists>r\<in>set rs. usable r x)) \<and> \<not> (\<exists>r\<in>set rs. usable r t)"

definition pass_step :: "mem_range \<Rightarrow> u64 \<times> int \<Rightarrow> u64 \<times> int" where
  "pass_step r tc = (if r_type r = MB_ARD_MEMORY \<and> r_base r \<le> fst tc \<and> r_base r + r_length r > fst tc
     then (r_base r + r_length r, snd tc + 1) else tc)"

lemma next_range:
  assumes "unat a + map_bytes (r # rs) < 4294967296"
  shows "unat (a + (r_size r + 4)) = unat a + (unat (r_size r) + 4)"
proof -
  have "unat (r_size r + 4) = unat (r_size r) + 4" using assms by (subst unat_add_lem [THEN iffD1]) simp_all
  then show ?thesis using assms by (subst unat_add_lem [THEN iffD1]) simp_all
qed

lemma pass_fold:
  assumes "map_at m a rs" "unat a + map_bytes rs = unat e"
  shows "mmap_pass m a e t c = Some (fold pass_step rs (t, c))"
  using assms
proof (induction rs arbitrary: a t c)
  case Nil
  then show ?case by (subst mmap_pass.simps) (simp add: word_less_nat_alt)
next
  case (Cons r rs)
  have lt: "a < e" using Cons.prems(2) by (simp add: word_less_nat_alt)
  have n: "unat (a + (r_size r + 4)) = unat a + (unat (r_size r) + 4)"
    by (rule next_range [where rs = rs]) (use Cons.prems(2) unat_u32 [of e] in simp)
  have "mmap_pass m a e t c = mmap_pass m (a + (r_size r + 4)) e (fst (pass_step r (t, c))) (snd (pass_step r (t, c)))"
    using lt Cons.prems(1) by (subst mmap_pass.simps) (simp add: range_at_def pass_step_def)
  then show ?case using Cons.IH [of "a + (r_size r + 4)"] Cons.prems n by simp
qed

lemma uint_end: "ranges_ok rs \<Longrightarrow> r \<in> set rs \<Longrightarrow> uint (r_base r + r_length r) = uint (r_base r) + uint (r_length r)"
  by (simp add: ranges_ok_def uint_plus_if_size word_size)

lemma pass_step_ok:
  assumes "ranges_ok rs" "r \<in> set rs"
  shows "pass_step r (t, c) = (t, c) \<and> \<not> usable r (uint t) \<or>
    uint t < uint (fst (pass_step r (t, c))) \<and> snd (pass_step r (t, c)) = c + 1 \<and>
    (\<forall>x. uint t \<le> x \<and> x < uint (fst (pass_step r (t, c))) \<longrightarrow> usable r x)"
  using uint_end [OF assms] by (auto simp: pass_step_def usable_def word_le_def word_less_def)

lemma fold_pass:
  assumes "ranges_ok rs" "set qs \<subseteq> set rs" "fold pass_step qs (t, c) = (t', c')"
  shows "uint t \<le> uint t' \<and> c \<le> c' \<and> (c' = c \<longrightarrow> t' = t \<and> \<not> (\<exists>r\<in>set qs. usable r (uint t))) \<and> (c' \<noteq> c \<longrightarrow> uint t < uint t') \<and>
    (\<forall>x. uint t \<le> x \<and> x < uint t' \<longrightarrow> (\<exists>r\<in>set rs. usable r x))"
  using assms(2,3)
proof (induction qs arbitrary: t c)
  case Nil
  then show ?case by auto
next
  case (Cons r qs)
  obtain t1 c1 where s: "pass_step r (t, c) = (t1, c1)" by fastforce
  have r: "r \<in> set rs" using Cons.prems(1) by simp
  note st = pass_step_ok [OF assms(1) r, of t c, unfolded s fst_conv snd_conv]
  have f: "fold pass_step qs (t1, c1) = (t', c')" using Cons.prems(2) s by simp
  have ih: "uint t1 \<le> uint t' \<and> c1 \<le> c' \<and> (c' = c1 \<longrightarrow> t' = t1 \<and> \<not> (\<exists>r\<in>set qs. usable r (uint t1))) \<and> (c' \<noteq> c1 \<longrightarrow> uint t1 < uint t') \<and>
    (\<forall>x. uint t1 \<le> x \<and> x < uint t' \<longrightarrow> (\<exists>r\<in>set rs. usable r x))"
    using Cons.IH [OF _ f] Cons.prems(1) by simp
  show ?case
  proof (cases "c1 = c")
    case True
    then have "t1 = t" "\<not> usable r (uint t)" using st by auto
    then show ?thesis using ih True by auto
  next
    case False
    then have "uint t < uint t1" "c1 = c + 1" "\<forall>x. uint t \<le> x \<and> x < uint t1 \<longrightarrow> usable r x" using st by auto
    then show ?thesis using ih r by (smt (verit))
  qed
qed

lemma mmap_top_ok:
  assumes "map_at m a rs" "unat a + map_bytes rs = unat e" "ranges_ok rs"
  shows "\<exists>t'. mmap_top m a e t = Some t' \<and> memory_until rs (uint t) (uint t')"
proof (induction "nat (2 ^ 64 - uint t)" arbitrary: t rule: less_induct)
  case less
  obtain t1 c1 where f: "fold pass_step rs (t, 0) = (t1, c1)" by fastforce
  note p = fold_pass [OF assms(3) subset_refl f]
  show ?case
  proof (cases "c1 = 0")
    case True
    then show ?thesis
      using p f by (subst mmap_top.simps) (auto simp: pass_fold [OF assms(1,2)] memory_until_def)
  next
    case False
    have "uint t1 < 2 ^ 64" using uint_lt2p [of t1] by simp
    then obtain t' where t': "mmap_top m a e t1 = Some t'" "memory_until rs (uint t1) (uint t')"
      using less [of t1] p False by auto
    have "memory_until rs (uint t) (uint t')"
      using t'(2) p unfolding memory_until_def by (smt (verit))
    then show ?thesis
      using t'(1) f False by (subst mmap_top.simps) (simp add: pass_fold [OF assms(1,2)])
  qed
qed

lemma avail_ok:
  assumes "map_at m (mmap_addr i) rs" "unat (mmap_addr i) + map_bytes rs < 4294967296" "unat (mmap_length i) = map_bytes rs"
    and "ranges_ok rs"
  shows "\<exists>t. mmap_avail_at m i bottom = Some (word_of_int (t - uint bottom)) \<and> memory_until rs (uint bottom) t"
proof -
  have "unat (mmap_addr i) + map_bytes rs = unat (mmap_addr i + mmap_length i)"
    using assms(2,3) by (subst unat_add_lem [THEN iffD1]) simp_all
  from mmap_top_ok [OF assms(1) this assms(4), of "ucast bottom"] obtain t'
    where t': "mmap_top m (mmap_addr i) (mmap_addr i + mmap_length i) (ucast bottom) = Some t'"
      "memory_until rs (uint (ucast bottom :: u64)) (uint t')" by blast
  have u: "uint (ucast bottom :: u64) = uint bottom" by (simp add: uint_up_ucast is_up)
  have "word_of_int (uint t' - uint bottom) = ucast t' - bottom"
    unfolding wi_hom_sub [symmetric] ucast_eq word_of_int_uint ..
  then show ?thesis using t' u by (intro exI [of _ "uint t'"]) (simp add: mmap_avail_at_def)
qed

text \<open>The highest end of a range of usable memory.\<close>

definition memory_end :: "mem_range list \<Rightarrow> int" where
  "memory_end rs = Max (insert 0 {uint (r_base r) + uint (r_length r) |r. r \<in> set rs \<and> r_type r = MB_ARD_MEMORY \<and> 0 < r_length r})"

lemma Max_insert_max: "finite E \<Longrightarrow> Max (insert (max a b) E) = Max (insert a (insert b E))" for a b :: int
  by (cases "E = {}") (simp_all add: max.assoc)

lemma max_ok:
  assumes "map_at m a rs" "unat a + map_bytes rs = unat e" "ranges_ok rs"
  shows "\<exists>t'. mmap_max m a e t = Some t' \<and>
    uint t' = Max (insert (uint t) {uint (r_base r) + uint (r_length r) |r. r \<in> set rs \<and> r_type r = MB_ARD_MEMORY \<and> 0 < r_length r})"
  using assms
proof (induction rs arbitrary: a t)
  case Nil
  then show ?case by (subst mmap_max.simps) (simp add: word_less_nat_alt)
next
  case (Cons r rs)
  have lt: "a < e" using Cons.prems(2) by (simp add: word_less_nat_alt)
  have n: "unat (a + (r_size r + 4)) = unat a + (unat (r_size r) + 4)"
    by (rule next_range [where rs = rs]) (use Cons.prems(2) unat_u32 [of e] in simp)
  let ?E = "\<lambda>rs. {uint (r_base r) + uint (r_length r) |r. r \<in> set rs \<and> r_type r = MB_ARD_MEMORY \<and> 0 < r_length r}"
  let ?t = "if r_type r = MB_ARD_MEMORY \<and> r_length r > 0 \<and> r_base r + r_length r > t then r_base r + r_length r else t"
  have step: "mmap_max m a e t = mmap_max m (a + (r_size r + 4)) e ?t"
    using lt Cons.prems(1) by (subst mmap_max.simps) (simp add: range_at_def)
  have ok: "ranges_ok rs" using Cons.prems(3) by (simp add: ranges_ok_def)
  obtain t' where t': "mmap_max m (a + (r_size r + 4)) e ?t = Some t'" "uint t' = Max (insert (uint ?t) (?E rs))"
    using Cons.IH [of "a + (r_size r + 4)" ?t] Cons.prems(1,2) n ok by auto
  have fin: "finite (?E qs)" for qs by simp
  have e: "?E (r # rs) = (if r_type r = MB_ARD_MEMORY \<and> 0 < r_length r then insert (uint (r_base r) + uint (r_length r)) (?E rs) else ?E rs)"
    by auto
  have u: "uint (r_base r + r_length r) = uint (r_base r) + uint (r_length r)"
    by (rule uint_end [OF Cons.prems(3)]) simp
  have "Max (insert (uint ?t) (?E rs)) = Max (insert (uint t) (?E (r # rs)))"
  proof (cases "r_type r = MB_ARD_MEMORY \<and> 0 < r_length r")
    case True
    then have "insert (uint t) (?E (r # rs)) = insert (uint t) (insert (uint (r_base r + r_length r)) (?E rs))"
      unfolding e u by simp
    moreover have "uint ?t = max (uint t) (uint (r_base r + r_length r))"
      using True by (auto simp: word_less_def)
    ultimately show ?thesis using Max_insert_max [OF fin] by (simp only:)
  next
    case False
    then have "?t = t" by auto
    then show ?thesis unfolding e if_not_P [OF False] by (simp only:)
  qed
  then show ?case using t' step by simp
qed

section \<open>Reading the map from the BIOS\<close>

text \<open>
  A BIOS that reports \<open>rs\<close> from the continuation value \<open>c\<close> on: each call writes the next descriptor to the
  address it is given and nothing below, and the last one gives the continuation value 0, or a descriptor of
  length 0 follows it.
\<close>

fun bios_reports :: "bios_calls \<Rightarrow> u32 \<Rightarrow> mem_range list \<Rightarrow> bool" where
  "bios_reports bios c [] \<longleftrightarrow>
     (\<forall>a m. ard_size (snd (get_mmap_entry bios a c m)) a = 0 \<and> (\<forall>x<unat a. snd (get_mmap_entry bios a c m) x = m x))"
| "bios_reports bios c (r # rs) \<longleftrightarrow>
     (\<exists>c'. (\<forall>a m. fst (get_mmap_entry bios a c m) = c' \<and> range_at (snd (get_mmap_entry bios a c m)) a r \<and>
              (\<forall>x<unat a. snd (get_mmap_entry bios a c m) x = m x)) \<and>
           (if c' = 0 then rs = [] else bios_reports bios c' rs))"

lemma le64_cong: "(\<And>i. i < 8 \<Longrightarrow> m (a + i) = m' (a + i)) \<Longrightarrow> le64 m a = le64 m' a"
  unfolding le64_def by (intro arg_cong2 [where f = "\<lambda>x y. push_bit 32 (ucast x) OR ucast y"] le32_cong) (simp_all add: add.assoc)

lemma range_at_cong:
  assumes "\<And>x. unat a \<le> x \<Longrightarrow> x < unat a + 24 \<Longrightarrow> m x = m' x"
  shows "range_at m a r = range_at m' a r"
proof -
  have "ard_size m a = ard_size m' a" "ard_type m a = ard_type m' a"
    unfolding ard_size_def ard_type_def by (rule le32_cong, simp add: assms)+
  moreover have "ard_base m a = ard_base m' a" "ard_length m a = ard_length m' a"
    unfolding ard_base_def ard_length_def by (rule le64_cong, simp add: assms)+
  ultimately show ?thesis by (simp add: range_at_def)
qed

lemma mmap_read_ok:
  assumes "bios_reports bios c rs" "ranges_ok rs" "unat a + map_bytes rs < 4294967296"
  shows "\<exists>m'. mmap_read bios a c len m = Some (a + of_nat (map_bytes rs), len + of_nat (map_bytes rs), m') \<and>
    map_at m' a rs \<and> (\<forall>x<unat a. m' x = m x)"
  using assms
proof (induction rs arbitrary: a c len m)
  case Nil
  then show ?case
    by (subst mmap_read.simps) (auto simp: Let_def case_prod_beta intro!: exI [of _ "snd (get_mmap_entry bios a c m)"])
next
  case (Cons r rs)
  let ?m = "snd (get_mmap_entry bios a c m)" and ?a = "a + (r_size r + 4)"
  obtain c' where c: "fst (get_mmap_entry bios a c m) = c'" "range_at ?m a r" "\<forall>x<unat a. ?m x = m x"
    "if c' = 0 then rs = [] else bios_reports bios c' rs"
    using Cons.prems(1) by auto
  have sz: "20 \<le> r_size r" "ranges_ok rs" using Cons.prems(2) by (simp_all add: ranges_ok_def)
  have nz: "r_size r \<noteq> 0" using sz(1) by auto
  have un: "20 \<le> unat (r_size r)" using sz(1) by (simp add: word_le_nat_alt)
  have n: "unat ?a = unat a + (unat (r_size r) + 4)" by (rule next_range [OF Cons.prems(3)])
  have sum: "?a + of_nat (map_bytes rs) = a + of_nat (map_bytes (r # rs))"
    "len + (r_size r + 4) + of_nat (map_bytes rs) = len + of_nat (map_bytes (r # rs))" by simp_all
  have step: "mmap_read bios a c len m =
      (if c' \<noteq> 0 then mmap_read bios ?a c' (len + (r_size r + 4)) ?m else Some (?a, len + (r_size r + 4), ?m))"
    using c(1,2) nz by (subst mmap_read.simps) (simp add: case_prod_beta range_at_def Let_def)
  show ?case
  proof (cases "c' = 0")
    case True
    then show ?thesis using c step by (auto intro!: exI [of _ ?m])
  next
    case False
    then have "bios_reports bios c' rs" using c(4) by simp
    from Cons.IH [OF this sz(2), of ?a "len + (r_size r + 4)" ?m] obtain m' where
      m': "mmap_read bios ?a c' (len + (r_size r + 4)) ?m = Some (?a + of_nat (map_bytes rs), len + (r_size r + 4) + of_nat (map_bytes rs), m')"
        "map_at m' ?a rs" "\<forall>x<unat ?a. m' x = ?m x"
      using n Cons.prems(3) by auto
    have "range_at m' a r = range_at ?m a r"
      by (rule range_at_cong) (use m'(3) n un in auto)
    then show ?thesis
      using step False m' c(2,3) n unfolding sum by auto
  qed
qed

lemma memory_until_unique: "memory_until rs b t \<Longrightarrow> memory_until rs b t' \<Longrightarrow> t = t'"
  unfolding memory_until_def by (smt (verit))

section \<open>A BIOS that reports a list\<close>

lemma le64_put64 [simp]: "le64 (put64 a w m) a = w"
  unfolding le64_def put64_def
  by (simp add: le32_put32_other) (rule bit_word_eqI, auto simp: bit_simps)

lemma le32_put64_other: "a + 8 \<le> b \<or> b + 4 \<le> a \<Longrightarrow> le32 (put64 a w m) b = le32 m b"
  by (auto simp: put64_def le32_put32_other)

lemma le64_put64_other: "a + 8 \<le> b \<or> b + 8 \<le> a \<Longrightarrow> le64 (put64 a w m) b = le64 m b"
  by (auto simp: le64_def le32_put64_other)

lemma le64_put32_other: "a + 4 \<le> b \<or> b + 8 \<le> a \<Longrightarrow> le64 (put32 a w m) b = le64 m b"
  by (auto simp: le64_def le32_put32_other)

definition put_range :: "u32 \<Rightarrow> mem_range \<Rightarrow> mem \<Rightarrow> mem" where
  "put_range a r m = put32 (unat a) (r_size r) (put64 (unat a + 4) (r_base r) (put64 (unat a + 12) (r_length r)
     (put32 (unat a + 20) (r_type r) m)))"

lemma range_at_put: "range_at (put_range a r m) a r" "x < unat a \<Longrightarrow> put_range a r m x = m x"
  by (simp_all add: put_range_def range_at_def ard_size_def ard_base_def ard_length_def ard_type_def put32_outside
      le32_put32_other le32_put64_other le64_put32_other le64_put64_other)
    (simp add: put64_def put32_outside)

definition list_bios :: "mem_range list \<Rightarrow> bios_calls" where
  "list_bios rs = \<lparr>get_memsize = (\<lambda>_. 0), get_eisamemsize = - 1, get_code_end = 0x80000,
     get_mmap_entry = (\<lambda>a c m. (if Suc (unat c) < length rs then c + 1 else 0, put_range a (rs ! unat c) m)),
     get_rom_config_table = 0, apm_version = 0, apm_bios_info = 0, probe_drive = (\<lambda>d g. (1, g)), fakemap = 0,
     loader_name_addr = 0, stage0base = 0\<rparr>"

lemma list_bios_reports:
  assumes "i < length rs" "length rs < 4294967296"
  shows "bios_reports (list_bios rs) (of_nat i) (drop i rs)"
  using assms(1)
proof (induction "length rs - i" arbitrary: i)
  case 0
  then show ?case by simp
next
  case (Suc k)
  have d: "drop i rs = rs ! i # drop (Suc i) rs" using Suc.prems by (simp add: Cons_nth_drop_Suc)
  have u: "unat (of_nat i :: u32) = i" using Suc.prems assms(2) by (simp add: unat_of_nat)
  have c: "get_mmap_entry (list_bios rs) a (of_nat i) m = (if Suc i < length rs then of_nat (Suc i) else 0, put_range a (rs ! i) m)" for a m
    by (simp add: list_bios_def u add.commute)
  have nz: "(of_nat (Suc i) :: u32) \<noteq> 0" if "Suc i < length rs"
  proof
    assume "(of_nat (Suc i) :: u32) = 0"
    then have "unat (of_nat (Suc i) :: u32) = 0" by (simp only: unat_0)
    then show False using that assms(2) unfolding unat_of_nat by simp
  qed
  have "bios_reports (list_bios rs) (of_nat (Suc i)) (drop (Suc i) rs)" if "Suc i < length rs"
    using Suc.hyps(1) [of "Suc i"] Suc.hyps(2) that by simp
  then show ?case
    unfolding d bios_reports.simps c using nz range_at_put by (auto intro!: exI [of _ "if Suc i < length rs then of_nat (Suc i) else 0"])
qed

section \<open>Properties\<close>

text \<open>C40: \<open>mmap_avail_at\<close> returns for every map, in whatever order its ranges come and however they overlap:
  the distance from \<open>bottom\<close> to the first address that is no usable memory, modulo 4 GiB (so it is exact up to
  4 GiB, and less than the memory there is beyond).\<close>

theorem mmap_avail_at_exact:
  assumes "map_at m (mmap_addr i) rs" "unat (mmap_addr i) + map_bytes rs < 4294967296" "unat (mmap_length i) = map_bytes rs"
    and "ranges_ok rs"
  shows "\<exists>n t. mmap_avail_at m i bottom = Some n \<and> memory_until rs (uint bottom) t \<and>
    uint n = (t - uint bottom) mod 4294967296"
proof -
  obtain t where t: "mmap_avail_at m i bottom = Some (word_of_int (t - uint bottom))" "memory_until rs (uint bottom) t"
    using avail_ok [OF assms] by blast
  moreover have "uint (word_of_int (t - uint bottom) :: u32) = (t - uint bottom) mod 4294967296"
    unfolding uint_word_of_int by simp
  ultimately show ?thesis by blast
qed

text \<open>4 GiB and 1 KiB of memory from 1 MiB on count as 1 KiB.\<close>

theorem mmap_avail_at_exact_witness:
  "mmap_avail_at (put_range 0x80000 \<lparr>r_size = 20, r_base = 0x100000, r_length = 0x100000400, r_type = 1\<rparr> (\<lambda>_. 0))
     \<lparr>mbi_flags = 0, mem_lower = 0, mem_upper = 0, mmap_length = 24, mmap_addr = 0x80000, drives_length = 0, drives_addr = 0,
      config_table = 0, boot_loader_name = 0, apm_table = 0\<rparr> 0x100000 = Some 0x400"
    (is "mmap_avail_at (put_range _ ?r _) ?i _ = _")
proof -
  have "memory_until [?r] 0x100000 0x100100400" by (auto simp: memory_until_def usable_def)
  then have t: "memory_until [?r] 0x100000 t \<Longrightarrow> t = 0x100100400" for t using memory_until_unique by blast
  obtain n t where n: "mmap_avail_at (put_range 0x80000 ?r (\<lambda>_. 0)) ?i 0x100000 = Some n" "memory_until [?r] 0x100000 t"
    "uint n = (t - 0x100000) mod 4294967296"
    using mmap_avail_at_exact [of "put_range 0x80000 ?r (\<lambda>_. 0)" ?i "[?r]" "0x100000"] range_at_put(1) [of "0x80000" ?r]
    by (auto simp: ranges_ok_def)
  have "uint n = uint (0x400 :: u32)" using n(3) t [OF n(2)] by simp
  then show ?thesis using n(1) by (simp only: uint_eq_iff)
qed

text \<open>C12: when the BIOS reports a memory map, \<open>init_bios_info\<close> reads it to its end and derives the sizes from
  it: lower memory up to the first gap above 0, upper memory up to the first gap above 1 MiB, extended memory up
  to the end of the highest range, in units of 1 KiB.\<close>

theorem memory_sizes:
  assumes "bios_reports bios 0 rs" "rs \<noteq> []" "ranges_ok rs" "unat (get_code_end bios) + map_bytes rs < 4294967296"
  shows "\<exists>s' t0 t1. init_bios_info bios g s = Some s' \<and> memory_until rs 0 t0 \<and> memory_until rs 0x100000 t1 \<and>
    mem_lower (mbi s') = drop_bit 10 (word_of_int t0) \<and>
    mem_upper (mbi s') = drop_bit 10 (word_of_int (t1 - 0x100000)) \<and> saved_mem_upper s' = mem_upper (mbi s') \<and>
    extended_memory s' = ucast (drop_bit 10 (word_of_int (memory_end rs - 0x100000) :: u64))"
proof -
  let ?a = "get_code_end bios" and ?n = "of_nat (map_bytes rs) :: u32"
  obtain m where m: "mmap_read bios ?a 0 0 (bios_ram s) = Some (?a + ?n, ?n, m)" "map_at m ?a rs"
    using mmap_read_ok [OF assms(1,3,4), of 0 "bios_ram s"] by auto
  have n: "unat ?n = map_bytes rs" using assms(4) by (simp add: unat_of_nat)
  have nz: "?n \<noteq> 0"
  proof
    assume "?n = 0"
    then have "map_bytes rs = 0" using n by (simp only: unat_0)
    then show False using assms(2) by (cases rs) simp_all
  qed
  have e: "unat ?a + map_bytes rs = unat (?a + ?n)" using n assms(4) by (subst unat_add_lem [THEN iffD1]) simp_all
  have avail: "\<exists>t. mmap_avail_at m j bottom = Some (word_of_int (t - uint bottom)) \<and> memory_until rs (uint bottom) t"
    if "mmap_addr j = ?a" "mmap_length j = ?n" for j bottom
    using avail_ok [of m j rs bottom] that m(2) assms(3,4) n by simp
  let ?i = "(mbi s)\<lparr>mem_lower := get_memsize bios 0, mem_upper := get_memsize bios 1, mmap_addr := ?a, mmap_length := ?n\<rparr>"
  obtain t0 where t0: "mmap_avail_at m ?i 0 = Some (word_of_int t0)" "memory_until rs 0 t0" using avail [of ?i 0] by auto
  let ?j = "?i\<lparr>mem_lower := drop_bit 10 (word_of_int t0)\<rparr>"
  obtain t1 where t1: "mmap_avail_at m ?j 0x100000 = Some (word_of_int (t1 - 0x100000))" "memory_until rs 0x100000 t1"
    using avail [of ?j "0x100000"] by auto
  obtain x where x: "mmap_max m ?a (?a + ?n) 0 = Some x" "uint x = memory_end rs"
    using max_ok [OF m(2) e assms(3), of 0] by (auto simp: memory_end_def)
  have u: "x - 0x100000 = word_of_int (memory_end rs - 0x100000)"
    unfolding x(2) [symmetric] by (simp add: wi_hom_sub [symmetric])
  define s1 where "s1 = s\<lparr>mbi := ?i, bios_ram := m, extended_memory := get_memsize bios 1\<rparr>"
  define s2 where "s2 = s1\<lparr>mbi := ?j\<lparr>mem_upper := drop_bit 10 (word_of_int (t1 - 0x100000))\<rparr>,
      extended_memory := ucast (drop_bit 10 (word_of_int (memory_end rs - 0x100000) :: u64))\<rparr>"
  have mm: "map_memory s1 = Some s2"
    using t0(1) t1(1) x(1) u by (simp add: map_memory_def s1_def s2_def)
  have "\<exists>s3. init_bios_info bios g s = Some s3 \<and> mem_lower (mbi s3) = mem_lower (mbi s2) \<and> mem_upper (mbi s3) = mem_upper (mbi s2) \<and>
      saved_mem_upper s3 = mem_upper (mbi s2) \<and> extended_memory s3 = extended_memory s2"
    using m(1) mm nz unfolding init_bios_info_def Let_def
    by (auto simp: s1_def [symmetric] case_prod_beta)
  then show ?thesis using t0(2) t1(2) by (fastforce simp: s2_def)
qed

text \<open>A machine with 640 KiB less 1 KiB, 7 MiB behind the first one and 1 MiB at 0xE00000 (in this order: the
  last, the first, the second).\<close>

definition sample_map :: "mem_range list" where
  "sample_map = [\<lparr>r_size = 20, r_base = 0xE00000, r_length = 0x100000, r_type = 1\<rparr>,
     \<lparr>r_size = 20, r_base = 0, r_length = 0x9FC00, r_type = 1\<rparr>, \<lparr>r_size = 20, r_base = 0x9FC00, r_length = 0x60400, r_type = 2\<rparr>,
     \<lparr>r_size = 20, r_base = 0x100000, r_length = 0x700000, r_type = 1\<rparr>]"

lemma sample_usable: "(\<exists>r\<in>set sample_map. usable r x) \<longleftrightarrow>
    0 \<le> x \<and> x < 0x9FC00 \<or> 0x100000 \<le> x \<and> x < 0x800000 \<or> 0xE00000 \<le> x \<and> x < 0xF00000"
  by (auto simp: sample_map_def usable_def)

lemma sample_until: "memory_until sample_map 0 t \<Longrightarrow> t = 0x9FC00" "memory_until sample_map 0x100000 t \<Longrightarrow> t = 0x800000"
proof -
  have "memory_until sample_map 0 0x9FC00" "memory_until sample_map 0x100000 0x800000"
    unfolding memory_until_def sample_usable by auto
  then show "memory_until sample_map 0 t \<Longrightarrow> t = 0x9FC00" "memory_until sample_map 0x100000 t \<Longrightarrow> t = 0x800000"
    using memory_until_unique by blast+
qed

lemma sample_ok: "ranges_ok sample_map" "map_bytes sample_map = 96" "length sample_map = 4" "memory_end sample_map = 0xF00000"
proof -
  have "{uint (r_base r) + uint (r_length r) |r. r \<in> set sample_map \<and> r_type r = MB_ARD_MEMORY \<and> 0 < r_length r} = {0xF00000, 0x9FC00, 0x800000}"
    (is "?E = _")
  proof -
    have "?E = (\<lambda>r. uint (r_base r) + uint (r_length r)) ` set (filter (\<lambda>r. r_type r = MB_ARD_MEMORY \<and> 0 < r_length r) sample_map)"
      by auto
    then show ?thesis by (simp add: sample_map_def)
  qed
  then show "memory_end sample_map = 0xF00000" by (simp add: memory_end_def)
qed (simp_all add: ranges_ok_def sample_map_def)

theorem memory_sizes_witness:
  "\<exists>s'. init_bios_info (list_bios sample_map) (hd_geometry 1)
      \<lparr>mbi = \<lparr>mbi_flags = 0, mem_lower = 0, mem_upper = 0, mmap_length = 0, mmap_addr = 0, drives_length = 0, drives_addr = 0,
         config_table = 0, boot_loader_name = 0, apm_table = 0\<rparr>, bios_ram = (\<lambda>_. 0), extended_memory = 0, saved_mem_upper = 0\<rparr> = Some s' \<and>
    mem_lower (mbi s') = 639 \<and> mem_upper (mbi s') = 7168 \<and> extended_memory s' = 14336"
proof -
  have r: "bios_reports (list_bios sample_map) 0 sample_map"
    using list_bios_reports [of 0 sample_map] by (simp add: sample_ok)
  have a: "unat (get_code_end (list_bios sample_map)) + map_bytes sample_map < 4294967296"
    by (simp add: list_bios_def sample_ok)
  show ?thesis
    using memory_sizes [OF r _ sample_ok(1) a] sample_until sample_ok(4)
    by (fastforce simp: sample_map_def)
qed

end
