(* ===== verification/Fat.thy ===== *)
theory Fat
  imports Minix
begin

text \<open>
  The FAT and exFAT driver, \<open>loader/filesys/fsys_fat.c\<close>.  The structure \<open>fat_superblock\<close> lies in \<open>FSYS_BUF\<close> at
  32256 and is kept there, field by field; in front of it are the window on the FAT (2048 bytes at 30208), the
  name of a directory entry in UTF-16 (28160) and in UTF-8 (25600).  The drivers are compiled with \<open>-j\<close>, so a
  plain \<open>char\<close> is signed here.
\<close>

section \<open>The super block\<close>

abbreviation (input) FAT_SUPER :: nat where "FAT_SUPER \<equiv> 32256"
abbreviation (input) FAT_BUF :: nat where "FAT_BUF \<equiv> 30208"
abbreviation (input) NAME_BUF :: nat where "NAME_BUF \<equiv> 28160"
abbreviation (input) backslash :: u8 where "backslash \<equiv> 0x5C"
abbreviation (input) UTF8_BUF :: nat where "UTF8_BUF \<equiv> 25600"

text \<open>The fields, by their position.\<close>

abbreviation (input) fat_offset :: nat where "fat_offset \<equiv> 0"
abbreviation (input) fat_length :: nat where "fat_length \<equiv> 1"
abbreviation (input) fat_size :: nat where "fat_size \<equiv> 2"
abbreviation (input) fat_type :: nat where "fat_type \<equiv> 3"
abbreviation (input) root_offset :: nat where "root_offset \<equiv> 4"
abbreviation (input) root_max :: nat where "root_max \<equiv> 5"
abbreviation (input) data_offset :: nat where "data_offset \<equiv> 6"
abbreviation (input) num_sectors :: nat where "num_sectors \<equiv> 7"
abbreviation (input) num_clust :: nat where "num_clust \<equiv> 8"
abbreviation (input) clust_eof_marker :: nat where "clust_eof_marker \<equiv> 9"
abbreviation (input) sects_per_clust :: nat where "sects_per_clust \<equiv> 10"
abbreviation (input) sectsize_bits :: nat where "sectsize_bits \<equiv> 11"
abbreviation (input) clustsize_bits :: nat where "clustsize_bits \<equiv> 12"
abbreviation (input) root_cluster :: nat where "root_cluster \<equiv> 13"
abbreviation (input) cached_fat :: nat where "cached_fat \<equiv> 14"
abbreviation (input) file_cluster :: nat where "file_cluster \<equiv> 15"
abbreviation (input) contig_size :: nat where "contig_size \<equiv> 16"
abbreviation (input) current_cluster_num :: nat where "current_cluster_num \<equiv> 17"
abbreviation (input) current_cluster :: nat where "current_cluster \<equiv> 18"

definition fat :: "nat \<Rightarrow> 'm loader \<Rightarrow> u32" where
  "fat k s = le32 (fsys_buf s) (FAT_SUPER + 4 * k)"

abbreviation fati :: "nat \<Rightarrow> 'm loader \<Rightarrow> int" where
  "fati k s \<equiv> c_int (fat k s)"

definition set_fat :: "nat \<Rightarrow> u32 \<Rightarrow> 'm loader \<Rightarrow> 'm loader" where
  "set_fat k v s = s\<lparr>fsys_buf := put32 (FAT_SUPER + 4 * k) v (fsys_buf s)\<rparr>"

text \<open>The lowest bit that is set (\<open>bsf\<close>, undefined for 0).\<close>

definition log2_tmp :: "u32 \<Rightarrow> nat option" where
  "log2_tmp w = (if w = 0 then None else Some (length (takeWhile (\<lambda>i. \<not> bit w i) [0..<32])))"

text \<open>Fields of \<open>struct fat_bpb\<close>, of 111 bytes.\<close>

definition bytes_per_sect :: "mem \<Rightarrow> int" where "bytes_per_sect b = le16 b 11"
definition bpb_sects_per_clust :: "mem \<Rightarrow> u8" where "bpb_sects_per_clust b = b 13"
definition reserved_sects :: "mem \<Rightarrow> int" where "reserved_sects b = le16 b 14"
definition num_fats :: "mem \<Rightarrow> u8" where "num_fats b = b 16"
definition dir_entries :: "mem \<Rightarrow> int" where "dir_entries b = le16 b 17"
definition short_sectors :: "mem \<Rightarrow> int" where "short_sectors b = le16 b 19"
definition bpb_fat_length :: "mem \<Rightarrow> int" where "bpb_fat_length b = le16 b 22"
definition secs_track :: "mem \<Rightarrow> int" where "secs_track b = le16 b 24"
definition bpb_heads :: "mem \<Rightarrow> int" where "bpb_heads b = le16 b 26"
definition long_sectors :: "mem \<Rightarrow> u32" where "long_sectors b = le32 b 32"
definition fat32_length :: "mem \<Rightarrow> u32" where "fat32_length b = le32 b 36"
definition bpb_flags :: "mem \<Rightarrow> int" where "bpb_flags b = le16 b 40"
definition bpb_root_cluster :: "mem \<Rightarrow> u32" where "bpb_root_cluster b = le32 b 44"

text \<open>The fields of exFAT; of \<open>sector_count\<close> only the low 32 bits are used.\<close>

definition sector_count :: "mem \<Rightarrow> u32" where "sector_count b = le32 b 72"
definition fat_sector_start :: "mem \<Rightarrow> u32" where "fat_sector_start b = le32 b 80"
definition fat_sector_count :: "mem \<Rightarrow> u32" where "fat_sector_count b = le32 b 84"
definition cluster_sector_start :: "mem \<Rightarrow> u32" where "cluster_sector_start b = le32 b 88"
definition cluster_count :: "mem \<Rightarrow> u32" where "cluster_count b = le32 b 92"
definition rootdir_cluster :: "mem \<Rightarrow> u32" where "rootdir_cluster b = le32 b 96"
definition volume_state :: "mem \<Rightarrow> int" where "volume_state b = le16 b 106"
definition sector_bits :: "mem \<Rightarrow> u8" where "sector_bits b = b 108"
definition spc_bits :: "mem \<Rightarrow> u8" where "spc_bits b = b 109"
definition fat_count :: "mem \<Rightarrow> u8" where "fat_count b = b 110"

section \<open>Mounting\<close>

text \<open>A read into a local variable.\<close>

definition devread_local :: "'m loader_env \<Rightarrow> int \<Rightarrow> int \<Rightarrow> int \<Rightarrow> mem \<Rightarrow> nat \<Rightarrow> 'm loader \<Rightarrow> (bool \<times> mem \<times> 'm loader) option" where
  "devread_local env sector off len m a s =
     do { (ok, m, d) \<leftarrow> devread (ldisk env) sector off len m a (dsk s); Some (ok, m, s\<lparr>dsk := d\<rparr>) }"

text \<open>The last steps: the size of the FAT, its first entry (which decides nothing), an empty window.\<close>

definition fat_size_wrong :: "'m loader \<Rightarrow> bool" where
  "fat_size_wrong s \<longleftrightarrow> fati num_clust s \<le> 2 \<or> s32 (fati fat_size s * fati num_clust s) sdiv 1024 > fati fat_length s"

definition fat_finish :: "'m loader_env \<Rightarrow> 'm loader \<Rightarrow> (bool \<times> 'm loader) option" where
  "fat_finish env s =
     do {
       (ok, _, s) \<leftarrow> devread_local env (fati fat_offset s) 0 4 (\<lambda>_. 0) 0 s;
       Some (if ok then (True, set_fat cached_fat (- 4096) s) else (False, s))
     }"

definition exfat_mount :: "'m loader_env \<Rightarrow> mem \<Rightarrow> 'm loader \<Rightarrow> (bool \<times> 'm loader) option" where
  "exfat_mount env b s =
     (if bytes_per_sect b \<noteq> 0 then Some (False, s)
      else let s = set_fat sectsize_bits (ucast (sector_bits b)) s in
      if sector_bits b \<noteq> 9 then Some (False, s)
      else let s = set_fat clustsize_bits (9 + ucast (spc_bits b)) s in
      if fati clustsize_bits s > 25 \<or> fat_count b - 1 > 1 then Some (False, s)
      else
        let s = set_fat num_sectors (sector_count b) s;
            s = set_fat fat_offset (fat_sector_start b) s;
            s = set_fat fat_length (fat_sector_count b) s;
            s = set_fat fat_type 64 s;
            s = set_fat fat_size 8 s;
            s = set_fat data_offset (cluster_sector_start b) s;
            s = set_fat root_offset (fat data_offset s) s;
            s = set_fat root_max 0 s;
            s = set_fat num_clust (cluster_count b) s;
            s = set_fat sects_per_clust (push_bit (unat (spc_bits b)) 1) s
        in if dir_entries b \<noteq> 0 then Some (False, s)
        else if volume_state b AND 1 \<noteq> 0 \<and> fat_count b < 2 then Some (False, s)
        else
          let s = (if volume_state b AND 1 \<noteq> 0 then set_fat fat_offset (fat fat_offset s + fat fat_length s) s else s);
              s = set_fat root_cluster (rootdir_cluster b) s;
              s = set_fat clust_eof_marker 0xFFFFFFFF s
          in if fat_size_wrong s then Some (False, s) else fat_finish env s)"

text \<open>Offsets and numbers common to FAT12, FAT16 and FAT32.\<close>

definition fat_fill :: "mem \<Rightarrow> 'm loader \<Rightarrow> 'm loader" where
  "fat_fill b s =
     (let s = set_fat num_sectors (if short_sectors b \<noteq> 0 then c_ulong (short_sectors b) else long_sectors b) s;
          s = set_fat fat_offset (c_ulong (reserved_sects b)) s;
          s = set_fat fat_length (if bpb_fat_length b \<noteq> 0 then c_ulong (bpb_fat_length b) else fat32_length b) s;
          s = set_fat root_offset (fat fat_offset s + ucast (num_fats b) * fat fat_length s) s;
          s = set_fat root_max (c_ulong (32 * dir_entries b)) s;
          s = set_fat data_offset (fat root_offset s + c_ulong (drop_bit 9 (fati root_max s + 511))) s;
          s = set_fat num_clust (2 + (fat num_sectors s - fat data_offset s) div ucast (bpb_sects_per_clust b)) s
      in set_fat sects_per_clust (ucast (bpb_sects_per_clust b)) s)"

definition fat32_fill :: "mem \<Rightarrow> 'm loader \<Rightarrow> bool \<times> 'm loader" where
  "fat32_fill b s =
     (if dir_entries b \<noteq> 0 then (False, s)
      else
        let active = bpb_flags b AND 0x000F in
        if bpb_flags b AND 0x0080 \<noteq> 0 \<and> active \<ge> uint (num_fats b) then (False, s)
        else
          let s = (if bpb_flags b AND 0x0080 \<noteq> 0
                   then set_fat fat_offset (fat fat_offset s + c_ulong active * fat fat_length s) s else s);
              s = set_fat fat_type 32 s;
              s = set_fat fat_size 8 s;
              s = set_fat root_cluster (bpb_root_cluster b) s
          in (True, set_fat clust_eof_marker 0xFFFFFF8 s))"

definition fat16_fill :: "'m loader \<Rightarrow> bool \<times> 'm loader" where
  "fat16_fill s =
     (if fat root_max s = 0 then (False, s)
      else
        let s = set_fat root_cluster (- 1) s in
        (True,
         if fati num_clust s > 4087
         then set_fat clust_eof_marker 0xFFF8 (set_fat fat_size 4 (set_fat fat_type 16 s))
         else set_fat clust_eof_marker 0xFF8 (set_fat fat_size 3 (set_fat fat_type 12 s))))"

definition fat_mount :: "'m loader_env \<Rightarrow> 'm loader \<Rightarrow> (bool \<times> 'm loader) option" where
  "fat_mount env s =
     do {
       (ok, b, s) \<leftarrow> devread_local env 0 0 111 (\<lambda>_. 0) 0 s;
       if \<not> ok then Some (False, s)
       else if bpb_fat_length b = 0 \<and> fat32_length b = 0 then exfat_mount env b s
       else if bpb_sects_per_clust b = 0 \<or> 128 mod bpb_sects_per_clust b \<noteq> 0 then Some (False, s)
       else do {
         l \<leftarrow> log2_tmp (c_ulong (bytes_per_sect b));
         let s = set_fat sectsize_bits (of_nat l) s;
         if l \<noteq> 9 then Some (False, s)
         else do {
           k \<leftarrow> log2_tmp (ucast (bpb_sects_per_clust b));
           let s = set_fat clustsize_bits (fat sectsize_bits s + of_nat k) s;
           if reserved_sects b = 0 \<or> num_fats b - 1 > 1 \<or> (secs_track b - 1) mod 65536 > 62 \<or> (bpb_heads b - 1) mod 65536 > 255
           then Some (False, s)
           else
             let s = fat_fill b s; (ok, s) = (if bpb_fat_length b = 0 then fat32_fill b s else fat16_fill s) in
             if \<not> ok then Some (False, s)
             else if bytes_per_sect b \<noteq> 512 \<or> uint (bpb_sects_per_clust b) \<noteq> 2 ^ k \<or> fat_size_wrong s then Some (False, s)
             else fat_finish env s
         }
       }
     }"

section \<open>Reading\<close>

text \<open>The mask of a byte in its cluster, and the first sector of a cluster.\<close>

definition cluster_bytes :: "'m loader \<Rightarrow> int" where
  "cluster_bytes s = 2 ^ nat (fati clustsize_bits s)"

definition cluster_sector :: "u32 \<Rightarrow> 'm loader \<Rightarrow> int" where
  "cluster_sector c s = c_int (fat data_offset s + push_bit (nat (fati clustsize_bits s - fati sectsize_bits s)) (c - 2))"

text \<open>
  One step along the chain of clusters: the window is moved if it does not show the entry, and the entry taken from
  it.  \<open>Inl True\<close> is the end of the chain, \<open>Inl False\<close> a return of 0.
\<close>

definition fat_fetch :: "'m loader_env \<Rightarrow> u32 \<Rightarrow> 'm loader \<Rightarrow> (bool \<times> 'm loader) option" where
  "fat_fetch env fat_entry s =
     (if fat_entry < fat cached_fat s \<or> fat_entry - fat cached_fat s + fat fat_size s > 4096
      then
        let s = set_fat cached_fat (fat_entry AND NOT 1023) s;
            sector = s32 (fati fat_offset s + fati cached_fat s sdiv 1024)
        in devread_buf env sector 0 2048 FAT_BUF s
      else Some (True, s))"

definition cached_entry :: "u32 \<Rightarrow> 'm loader \<Rightarrow> u32" where
  "cached_entry fat_entry s =
     (let cached_pos = fat_entry - fat cached_fat s;
          next_cluster = le32 (fsys_buf s) (FAT_BUF + unat (drop_bit 1 cached_pos))
      in if fat fat_size s = 3 then (if cached_pos AND 1 \<noteq> 0 then drop_bit 4 next_cluster else next_cluster) AND 0xFFF
         else if fat fat_size s = 4 then next_cluster AND 0xFFFF else next_cluster)"

definition fat_next_cluster :: "'m loader_env \<Rightarrow> 'm loader \<Rightarrow> ((bool + unit) \<times> 'm loader) option" where
  "fat_next_cluster env s =
     do {
       let fat_entry = fat current_cluster s * fat fat_size s;
       (ok, s) \<leftarrow> fat_fetch env fat_entry s;
       if \<not> ok then Some (Inl False, s)
       else
         let next_cluster = cached_entry fat_entry s
         in if next_cluster \<ge> fat clust_eof_marker s then Some (Inl True, s)
            else if next_cluster < 2 \<or> next_cluster \<ge> fat num_clust s then Some (Inl False, set_err ERR_FSYS_CORRUPT s)
            else Some (Inr (), set_fat current_cluster_num (fat current_cluster_num s + 1) (set_fat current_cluster next_cluster s))
     }"

partial_function (option) fat_seek :: "'m loader_env \<Rightarrow> u32 \<Rightarrow> 'm loader \<Rightarrow> ((bool + unit) \<times> 'm loader) option" where
  "fat_seek env logical_clust s =
     (if \<not> logical_clust > fat current_cluster_num s then Some (Inr (), s)
      else do {
        (r, s) \<leftarrow> fat_next_cluster env s;
        if isl r then Some (r, s) else fat_seek env logical_clust s
      })"

text \<open>A transfer of data, with the hook set; its failure only shows in \<open>errnum\<close>.\<close>

definition fat_transfer :: "'m loader_env \<Rightarrow> int \<Rightarrow> int \<Rightarrow> int \<Rightarrow> mem \<Rightarrow> nat \<Rightarrow> 'm loader \<Rightarrow> (mem \<times> 'm loader) option" where
  "fat_transfer env sector off len buf a s =
     do {
       (_, buf, d) \<leftarrow> devread (ldisk env) sector off len buf a ((dsk s)\<lparr>disk_read_func := disk_read_hook s\<rparr>);
       Some (buf, s\<lparr>dsk := d\<lparr>disk_read_func := False\<rparr>, filepos := s32 (filepos s + len)\<rparr>)
     }"

partial_function (option) fat_read_loop ::
  "'m loader_env \<Rightarrow> u32 \<Rightarrow> int \<Rightarrow> int \<Rightarrow> u32 \<Rightarrow> mem \<Rightarrow> nat \<Rightarrow> 'm loader \<Rightarrow> (int \<times> mem \<times> 'm loader) option" where
  "fat_read_loop env logical_clust offset len ret buf a s =
     (if \<not> len > 0 then Some (if err s \<noteq> ERR_NONE then 0 else c_int ret, buf, s)
      else do {
        (r, s) \<leftarrow> fat_seek env logical_clust s;
        case r of
          Inl at_end \<Rightarrow> Some (if at_end then c_int ret else 0, buf, s)
        | Inr _ \<Rightarrow> do {
            let sz = (if cluster_bytes s - offset > len then len else cluster_bytes s - offset);
            (buf, s) \<leftarrow> fat_transfer env (cluster_sector (fat current_cluster s) s) offset sz buf a s;
            fat_read_loop env (logical_clust + 1) 0 (len - sz) (ret + c_ulong sz) buf (a + nat sz) s
          }
      })"

text \<open>The root directory of FAT12 and FAT16; a file of exFAT without a chain.\<close>

definition fat_read_root :: "'m loader_env \<Rightarrow> int \<Rightarrow> mem \<Rightarrow> nat \<Rightarrow> 'm loader \<Rightarrow> (int \<times> mem \<times> 'm loader) option" where
  "fat_read_root env len buf a s =
     (if fat root_max s = 0 \<or> fati root_max s \<le> filepos s \<or> fati fat_type s > 16 then Some (0, buf, s)
      else do {
        let sz = c_ulong (fati root_max s - filepos s);
        let sz = (if sz > c_ulong len then c_ulong len else sz);
        (ok, buf, s) \<leftarrow> devread_local env (fati root_offset s) (filepos s) (c_int sz) buf a s;
        Some (if ok then (c_int sz, buf, s\<lparr>filepos := c_int (c_ulong (filepos s) + sz)\<rparr>) else (0, buf, s))
      })"

definition fat_read_contig :: "'m loader_env \<Rightarrow> int \<Rightarrow> mem \<Rightarrow> nat \<Rightarrow> 'm loader \<Rightarrow> (int \<times> mem \<times> 'm loader) option" where
  "fat_read_contig env len buf a s =
     (if filepos s \<ge> fati contig_size s then Some (0, buf, s)
      else do {
        let sz = (if s32 (filepos s + len) > fati contig_size s then fati contig_size s - filepos s else len);
        (buf, s) \<leftarrow> fat_transfer env (cluster_sector (fat file_cluster s) s) (filepos s) sz buf a s;
        let s = set_fat current_cluster (fat file_cluster s) (set_fat current_cluster_num 0 s);
        Some (if err s \<noteq> ERR_NONE then 0 else sz, buf, s)
      })"

definition fat_read :: "'m loader_env \<Rightarrow> int \<Rightarrow> mem \<Rightarrow> nat \<Rightarrow> 'm loader \<Rightarrow> (int \<times> mem \<times> 'm loader) option" where
  "fat_read env len buf a s =
     (if len = 0 then Some (0, buf, s)
      else if fati file_cluster s = MAXINT then fat_read_root env len buf a s
      else if fat fat_type s = 64 \<and> fat contig_size s \<noteq> 0 then fat_read_contig env len buf a s
      else
        let logical_clust = c_ulong (drop_bit (nat (fati clustsize_bits s)) (filepos s));
            offset = filepos s AND (cluster_bytes s - 1);
            s = (if logical_clust < fat current_cluster_num s
                 then set_fat current_cluster (fat file_cluster s) (set_fat current_cluster_num 0 s) else s)
        in fat_read_loop env logical_clust offset len 0 buf a s)"

section \<open>Names\<close>

text \<open>\<open>unicode_to_utf8\<close> on a name without its end; a space gets a backslash in front.\<close>

fun unicode_to_utf8 :: "u16 list \<Rightarrow> u8 list" where
  "unicode_to_utf8 [] = []"
| "unicode_to_utf8 (uni # us) =
     (if uni \<le> 0x7F then (if uni \<noteq> 0x20 then [ucast uni] else [backslash, ucast uni])
      else if uni \<le> 0x7FF then [0xC0 OR ucast (drop_bit 6 uni), 0x80 OR ucast (uni AND 0x3F)]
      else [0xE0 OR ucast (drop_bit 12 uni), 0x80 OR ucast (drop_bit 6 uni AND 0x3F), 0x80 OR ucast (uni AND 0x3F)])
     @ unicode_to_utf8 us"

text \<open>The name in \<open>NAME_BUF\<close>, character by character.\<close>

definition put_name :: "nat \<Rightarrow> u16 \<Rightarrow> mem \<Rightarrow> mem" where
  "put_name i u m = write_at (NAME_BUF + 2 * i) [ucast u, ucast (drop_bit 8 u)] m"

definition name_at :: "nat \<Rightarrow> mem \<Rightarrow> u16" where
  "name_at i m = word_of_int (le16 m (NAME_BUF + 2 * i))"

definition fat_name :: "mem \<Rightarrow> u16 list" where
  "fat_name m = takeWhile (\<lambda>u. u \<noteq> 0) (map (\<lambda>i. name_at i m) [0..<832])"

text \<open>The characters \<open>i, i + 1, ...\<close> of an entry \<open>e\<close> to the positions from \<open>k\<close> on, in lower case if \<open>y\<close>, up to
  and with a NUL or a space: how many are in front of it, and the buffer.\<close>

definition entry_char :: "bool \<Rightarrow> u8 \<Rightarrow> u16" where
  "entry_char y c = word_of_int (if y \<and> ch CHR ''A'' \<le> c \<and> c < ch CHR ''A'' + 26 then uint (c OR 0x20) else sint c)"

fun put_chars :: "bool \<Rightarrow> u8 list \<Rightarrow> nat \<Rightarrow> nat \<Rightarrow> mem \<Rightarrow> nat \<times> mem" where
  "put_chars y [] k n m = (n, m)"
| "put_chars y (c # cs) k n m =
     (let u = entry_char y c; m = put_name k u m in
      if u = 0 \<or> u = 0x20 then (n, m) else put_chars y cs (k + 1) (n + 1) m)"

definition short_name :: "mem \<Rightarrow> mem \<Rightarrow> mem" where
  "short_name e m =
     (let (i, m) = put_chars (e 12 AND 0x08 \<noteq> 0) (read_at 0 8 e) 0 0 m;
          m = put_name i (ucast (ch CHR ''.'')) m;
          i = i + 1;
          (j, m) = put_chars (e 12 AND 0x10 \<noteq> 0) (read_at 8 3 e) i 0 m;
          i = (if j = 0 then i - 1 else i)
      in put_name (i + j) 0 m)"

text \<open>The checksum of the short name that the parts of a long name carry.\<close>

definition alias_sum :: "mem \<Rightarrow> u8" where
  "alias_sum e = fold (\<lambda>c sum. (drop_bit 1 sum OR push_bit 7 sum) + c) (read_at 0 11 e) 0"

text \<open>A word of the path: a backslash takes the next character with it.\<close>

definition fat_word_end :: "u8 \<Rightarrow> bool" where
  "fat_word_end c \<longleftrightarrow> grub_isspace (sint c) \<or> c = ch CHR ''/''"

fun fat_word :: "u8 list \<Rightarrow> u8 list \<times> u8 list" where
  "fat_word [] = ([], [])"
| "fat_word [c] = (if fat_word_end c then ([], [c]) else ([c], []))"
| "fat_word (c # d # s) =
     (if fat_word_end c then ([], c # d # s)
      else if c = backslash then (let (w, r) = fat_word s in (c # d # w, r))
      else (let (w, r) = fat_word (d # s) in (c # w, r)))"

section \<open>Looking up a name\<close>

text \<open>The variables that survive an entry: the place in a long name and its checksum, and those of exFAT.\<close>

record scan_vars =
  slot :: int
  alias_checksum :: int
  exfat_attrib :: int
  exfat_flags :: int
  exfat_secondarycount :: int
  exfat_namecount :: nat
  exfat_nextentry :: u8
  exfat_filemax :: u32
  exfat_file_cluster :: u32

abbreviation (input) EXFAT_ENTRY_FILE :: u8 where "EXFAT_ENTRY_FILE \<equiv> 0x85"
abbreviation (input) EXFAT_ENTRY_FILE_INFO :: u8 where "EXFAT_ENTRY_FILE_INFO \<equiv> 0xC0"
abbreviation (input) EXFAT_ENTRY_FILE_NAME :: u8 where "EXFAT_ENTRY_FILE_NAME \<equiv> 0xC1"
abbreviation (input) FAT_ATTRIB_DIR :: int where "FAT_ATTRIB_DIR \<equiv> 0x10"

definition scan_start :: scan_vars where
  "scan_start = \<lparr>slot = - 2, alias_checksum = - 1, exfat_attrib = FAT_ATTRIB_DIR, exfat_flags = 0, exfat_secondarycount = 0,
     exfat_namecount = 0, exfat_nextentry = EXFAT_ENTRY_FILE, exfat_filemax = 0, exfat_file_cluster = 0\<rparr>"

definition entry_valid :: "mem \<Rightarrow> bool" where
  "entry_valid e \<longleftrightarrow> e 0 \<noteq> 0 \<and> e 0 \<noteq> 0xE5 \<and> e 11 AND 0xC8 = 0"

definition longdir_pos :: "nat list" where
  "longdir_pos = [1, 3, 5, 7, 9, 14, 16, 18, 20, 22, 24, 28, 30]"

text \<open>The characters at the positions \<open>ps\<close> of an entry to the name from position \<open>k\<close> on.\<close>

definition put_units :: "mem \<Rightarrow> nat list \<Rightarrow> nat \<Rightarrow> mem \<Rightarrow> mem" where
  "put_units e ps k m = fold (\<lambda>(i, p) m. put_name (k + i) (word_of_int (le16 e p)) m) (enumerate 0 ps) m"

text \<open>A part of a long name.\<close>

definition long_name :: "mem \<Rightarrow> scan_vars \<Rightarrow> mem \<Rightarrow> scan_vars \<times> mem" where
  "long_name e v m =
     (let id = e 0; sum = uint (e 13);
          (id, v, m) =
            (if id AND 0x40 \<noteq> 0
             then (id AND 0x3F, v\<lparr>slot := uint (id AND 0x3F), alias_checksum := sum\<rparr>, put_name (unat (id AND 0x3F) * 13) 0 m)
             else (id, v, m))
      in if uint id \<noteq> slot v \<or> slot v = 0 \<or> alias_checksum v \<noteq> sum then (v\<lparr>alias_checksum := - 1\<rparr>, m)
         else (v\<lparr>slot := slot v - 1\<rparr>, put_units e longdir_pos (nat (slot v - 1) * 13) m))"

text \<open>An entry of exFAT; the result tells whether a name is complete.\<close>

definition exfat_entry :: "mem \<Rightarrow> scan_vars \<Rightarrow> mem \<Rightarrow> bool \<times> scan_vars \<times> mem" where
  "exfat_entry e v m =
     (if e 0 \<noteq> exfat_nextentry v then (False, v\<lparr>exfat_nextentry := EXFAT_ENTRY_FILE\<rparr>, m)
      else if e 0 = EXFAT_ENTRY_FILE
      then
        let n = uint (e 1) in
        (False, v\<lparr>exfat_attrib := le16 e 4, exfat_secondarycount := (if n < 2 \<or> n > 18 then n else n - 1),
           exfat_namecount := 0, exfat_nextentry := EXFAT_ENTRY_FILE_INFO\<rparr>, m)
      else if e 0 = EXFAT_ENTRY_FILE_INFO
      then (False, v\<lparr>exfat_filemax := le32 e 8, exfat_file_cluster := le32 e 20, exfat_flags := le16 e 1,
              exfat_nextentry := EXFAT_ENTRY_FILE_NAME\<rparr>, m)
      else if e 0 = EXFAT_ENTRY_FILE_NAME
      then
        let m = put_units e (map (\<lambda>i. 2 + 2 * i) [0..<15]) (15 * exfat_namecount v) m;
            v = v\<lparr>exfat_namecount := exfat_namecount v + 1\<rparr>;
            m = put_name (15 * exfat_namecount v) 0 m
        in if int (exfat_namecount v) < exfat_secondarycount v then (False, v\<lparr>exfat_nextentry := EXFAT_ENTRY_FILE_NAME\<rparr>, m)
           else (True, v\<lparr>exfat_nextentry := EXFAT_ENTRY_FILE\<rparr>, m)
      else (False, v\<lparr>exfat_nextentry := EXFAT_ENTRY_FILE\<rparr>, m))"

text \<open>
  The name in \<open>NAME_BUF\<close> against the word, with \<open>c\<close> behind it: \<open>Some True\<close> is a match, \<open>Some False\<close> none,
  \<open>None\<close> goes on with the next entry after a completion.
\<close>

definition fat_compare :: "u8 list \<Rightarrow> u8 \<Rightarrow> 'm loader \<Rightarrow> bool option \<times> 'm loader" where
  "fat_compare word c s =
     (let name = unicode_to_utf8 (fat_name (fsys_buf s));
          s = s\<lparr>fsys_buf := write_at UTF8_BUF (name @ [0]) (fsys_buf s)\<rparr>
      in if print_possibilities s \<noteq> 0 \<and> c \<noteq> ch CHR ''/''
         then (None,
           if str_prefix word name \<le> 0
           then print_a_completion name
                  (if print_possibilities s > 0 then s\<lparr>print_possibilities := - print_possibilities s\<rparr> else s)
           else s)
         else (Some (str_prefix word name = 0), s))"

text \<open>The comparison, and once more with the short name when a long name did not match.\<close>

definition fat_match :: "u8 list \<Rightarrow> u8 \<Rightarrow> mem \<Rightarrow> scan_vars \<Rightarrow> 'm loader \<Rightarrow> bool \<times> scan_vars \<times> 'm loader" where
  "fat_match word c e v s =
     (let (r, s) = fat_compare word c s in
      if r = None then (False, v, s)
      else if r = Some True then (True, v, s)
      else if alias_checksum v = - 1 then (False, v, s)
      else
        let (r, s) = fat_compare word c (s\<lparr>fsys_buf := short_name e (fsys_buf s)\<rparr>) in
        (r = Some True, v\<lparr>alias_checksum := - 1\<rparr>, s))"

text \<open>An entry of FAT12, FAT16 and FAT32.\<close>

definition fat_entry :: "u8 list \<Rightarrow> u8 \<Rightarrow> mem \<Rightarrow> scan_vars \<Rightarrow> 'm loader \<Rightarrow> bool \<times> scan_vars \<times> 'm loader" where
  "fat_entry word c e v s =
     (if e 11 = 0x0F then (let (v, m) = long_name e v (fsys_buf s) in (False, v, s\<lparr>fsys_buf := m\<rparr>))
      else if \<not> entry_valid e then (False, v, s)
      else
        let long = (alias_checksum v \<noteq> - 1 \<and> slot v = 0);
            v = (if long then v\<lparr>slot := - 2\<rparr> else v)
        in if long \<and> uint (alias_sum e) = alias_checksum v then fat_match word c e v s
           else fat_match word c e v (s\<lparr>fsys_buf := short_name e (fsys_buf s)\<rparr>))"

text \<open>The loop over the entries; \<open>e\<close> is \<open>dir_buf\<close>.  \<open>Inl\<close> is a return, \<open>Inr\<close> the entry found.\<close>

partial_function (option) fat_scan ::
  "'m loader_env \<Rightarrow> u8 list \<Rightarrow> u8 \<Rightarrow> mem \<Rightarrow> scan_vars \<Rightarrow> 'm loader \<Rightarrow> ((bool + mem \<times> scan_vars) \<times> 'm loader) option" where
  "fat_scan env word c e v s =
     do {
       (n, e, s) \<leftarrow> fat_read env 32 e 0 s;
       if n \<noteq> 32 \<or> e 0 = 0
       then Some (if err s \<noteq> ERR_NONE then (Inl False, s)
                  else if print_possibilities s < 0 then (Inl True, s) else (Inl False, set_err ERR_FILE_NOT_FOUND s))
       else if fat fat_type s = 64
       then
         let (complete, v, m) = exfat_entry e v (fsys_buf s); s = s\<lparr>fsys_buf := m\<rparr>;
             (found, v, s) = (if complete then fat_match word c e v s else (False, v, s))
         in if found then Some (Inr (e, v), s) else fat_scan env word c e v s
       else
         let (found, v, s) = fat_entry word c e v s
         in if found then Some (Inr (e, v), s) else fat_scan env word c e v s
     }"

text \<open>Entering what was found: the new attributes.\<close>

definition fat_enter :: "mem \<Rightarrow> scan_vars \<Rightarrow> 'm loader \<Rightarrow> int \<times> 'm loader" where
  "fat_enter e v s =
     (if fat fat_type s = 64
      then
        let s = set_fat file_cluster (exfat_file_cluster v) (s\<lparr>filemax := c_int (exfat_filemax v)\<rparr>);
            mask = cluster_bytes s - 1
        in (exfat_attrib v,
            set_fat contig_size (if exfat_flags v AND 2 \<noteq> 0 then c_ulong ((filemax s + mask) AND NOT mask) else 0) s)
      else
        (uint (e 11),
         set_fat file_cluster (c_ulong (le16 e 26) + push_bit 16 (c_ulong (le16 e 20))) (s\<lparr>filemax := c_int (le32 e 28)\<rparr>)))"

partial_function (option) fat_walk ::
  "'m loader_env \<Rightarrow> int \<Rightarrow> u8 list \<Rightarrow> mem \<Rightarrow> scan_vars \<Rightarrow> 'm loader \<Rightarrow> (bool \<times> 'm loader) option" where
  "fat_walk env attrib dirname e v s =
     (let s = set_fat current_cluster_num (c_ulong MAXINT) (s\<lparr>filepos := 0\<rparr>) in
      if name_end (cur dirname)
      then Some (if attrib AND FAT_ATTRIB_DIR \<noteq> 0 then (False, set_err ERR_BAD_FILETYPE s) else (True, s))
      else
        let dirname = dropWhile (\<lambda>c. c = ch CHR ''/'') dirname in
        if attrib AND FAT_ATTRIB_DIR = 0 then Some (False, set_err ERR_BAD_FILETYPE s)
        else do {
          let (word, rest) = fat_word dirname;
          (r, s) \<leftarrow> fat_scan env word (cur rest) e v (s\<lparr>filemax := MAXINT\<rparr>);
          case r of
            Inl ok \<Rightarrow> Some (ok, s)
          | Inr (e, v) \<Rightarrow> (let (attrib, s) = fat_enter e v s in fat_walk env attrib rest e v s)
        })"

definition fat_dir :: "'m loader_env \<Rightarrow> u8 list \<Rightarrow> 'm loader \<Rightarrow> (bool \<times> 'm loader) option" where
  "fat_dir env dirname s =
     (let s = set_fat file_cluster (fat root_cluster s) s;
          s = (if fat fat_type s = 64 then set_fat contig_size 0 s else s)
      in fat_walk env FAT_ATTRIB_DIR dirname (\<lambda>_. 0) scan_start s)"

definition fat_env :: "'m loader_env \<Rightarrow> 'm loader_env" where
  "fat_env env = env\<lparr>fs_mount := fat_mount env, fs_read := fat_read env, fs_dir := fat_dir env, fs_close := Some\<rparr>"

end
