(* ===== verification/FatFiles.thy ===== *)
theory FatFiles
  imports Fat MinixFiles
begin

text \<open>
  The FAT driver, reading: a volume as numbers, the chain of clusters of a file as the specification, the
  contract of one step along the chain through the window on the FAT, and the contract of \<open>fat_read\<close>.
\<close>

section \<open>The super block as a record of fields\<close>

lemma fat_set_fat [simp]: "fat j (set_fat k v s) = (if j = k then v else fat j s)"
proof (cases "j = k")
  case False
  then have "32256 + 4 * k + 4 \<le> 32256 + 4 * j \<or> 32256 + 4 * j + 4 \<le> 32256 + 4 * k" by linarith
  then show ?thesis using False by (simp add: fat_def set_fat_def le32_put32_other)
qed (simp add: fat_def set_fat_def)

lemma set_fat_simps [simp]:
  "dsk (set_fat k v s) = dsk s" "filepos (set_fat k v s) = filepos s" "filemax (set_fat k v s) = filemax s"
  "fsmax (set_fat k v s) = fsmax s" "print_possibilities (set_fat k v s) = print_possibilities s"
  "disk_read_hook (set_fat k v s) = disk_read_hook s" "drv (set_fat k v s) = drv s"
  by (simp_all add: set_fat_def)

lemma fat_update [simp]:
  "fat k (s\<lparr>dsk := d\<rparr>) = fat k s" "fat k (s\<lparr>filepos := p\<rparr>) = fat k s" "fat k (s\<lparr>filemax := p\<rparr>) = fat k s"
  "fat k (set_err e s) = fat k s"
  by (simp_all add: fat_def set_err_def)

lemma fat_write_below:
  "a + length xs \<le> FAT_SUPER \<Longrightarrow> fat k (s\<lparr>fsys_buf := write_at a xs m\<rparr>) = fat k (s\<lparr>fsys_buf := m\<rparr>)"
  unfolding fat_def by (intro le32_cong) (auto simp: write_at_outside)

lemma fat_buf_id [simp]: "fat k (s\<lparr>fsys_buf := fsys_buf s\<rparr>) = fat k s"
  by (simp add: fat_def)

section \<open>A volume\<close>

text \<open>
  The first sector of the FAT, the width of its entries in units of 4 bits, the sector in front of cluster 2, the
  number of clusters (with the two that do not exist), the sectors of a cluster as a power of two, and the least
  entry that ends a chain.
\<close>

record fat_volume =
  fat_start :: nat
  nibbles :: nat
  data_start :: nat
  clusters :: nat
  spc_log :: nat
  eof_mark :: nat

definition volume :: "'m loader \<Rightarrow> fat_volume" where
  "volume s = \<lparr>fat_start = unat (fat fat_offset s), nibbles = unat (fat fat_size s), data_start = unat (fat data_offset s),
     clusters = unat (fat num_clust s), spc_log = unat (fat clustsize_bits s) - 9, eof_mark = unat (fat clust_eof_marker s)\<rparr>"

text \<open>A volume on a device of \<open>sz\<close> bytes, with the FAT and two more kilobytes inside of it.\<close>

definition volume_ok :: "nat \<Rightarrow> fat_volume \<Rightarrow> bool" where
  "volume_ok sz V \<longleftrightarrow> nibbles V \<in> {3, 4, 8} \<and> spc_log V \<le> 16 \<and> 2 < clusters V \<and> clusters V < 268435456 \<and>
     fat_start V * 512 + clusters V * nibbles V div 2 + 2048 \<le> sz \<and>
     fat_start V + clusters V * nibbles V div 1024 + 4 < 2147483648 \<and>
     data_start V + clusters V * 2 ^ spc_log V < 2147483648"

text \<open>The entry of cluster \<open>c\<close>.\<close>

definition fat_value :: "fat_volume \<Rightarrow> mem \<Rightarrow> nat \<Rightarrow> nat" where
  "fat_value V d c =
     (let a = fat_start V * 512 + c * nibbles V div 2 in
      if nibbles V = 3 then nat (le16 d a) div (if odd c then 16 else 1) mod 4096
      else if nibbles V = 4 then nat (le16 d a) else unat (le32 d a))"

fun nth_cluster :: "fat_volume \<Rightarrow> mem \<Rightarrow> nat \<Rightarrow> nat \<Rightarrow> nat" where
  "nth_cluster V d c 0 = c"
| "nth_cluster V d c (Suc n) = fat_value V d (nth_cluster V d c n)"

definition cluster_size :: "fat_volume \<Rightarrow> nat" where
  "cluster_size V = 512 * 2 ^ spc_log V"

definition cluster_pos :: "fat_volume \<Rightarrow> nat \<Rightarrow> nat" where
  "cluster_pos V c = data_start V * 512 + (c - 2) * cluster_size V"

definition cluster_ok :: "nat \<Rightarrow> fat_volume \<Rightarrow> nat \<Rightarrow> bool" where
  "cluster_ok sz V c \<longleftrightarrow> 2 \<le> c \<and> c < clusters V \<and> cluster_pos V c + cluster_size V \<le> sz"

text \<open>The first \<open>n\<close> clusters of the chain from \<open>c\<close>, and the file they make up.\<close>

definition chain_ok :: "nat \<Rightarrow> fat_volume \<Rightarrow> mem \<Rightarrow> nat \<Rightarrow> nat \<Rightarrow> bool" where
  "chain_ok sz V d c n \<longleftrightarrow> (\<forall>i<n. cluster_ok sz V (nth_cluster V d c i) \<and> (0 < i \<longrightarrow> nth_cluster V d c i < eof_mark V))"

text \<open>The chain reaches as far as byte \<open>e\<close>.\<close>

definition chain_cover :: "nat \<Rightarrow> fat_volume \<Rightarrow> mem \<Rightarrow> nat \<Rightarrow> nat \<Rightarrow> bool" where
  "chain_cover sz V d c e \<longleftrightarrow> chain_ok sz V d c ((e + cluster_size V - 1) div cluster_size V)"

definition fat_file :: "fat_volume \<Rightarrow> mem \<Rightarrow> nat \<Rightarrow> mem" where
  "fat_file V d c = (\<lambda>p. d (cluster_pos V (nth_cluster V d c (p div cluster_size V)) + p mod cluster_size V))"

text \<open>The window on the FAT is empty or shows the FAT from a sector of it on.\<close>

definition fat_window :: "mem \<Rightarrow> 'm loader \<Rightarrow> bool" where
  "fat_window d s \<longleftrightarrow> fat cached_fat s = 0xFFFFF000 \<or>
     (\<exists>q. unat (fat cached_fat s) = 1024 * q \<and>
        read_at FAT_BUF 2048 (fsys_buf s) = read_at (fat_start (volume s) * 512 + 512 * q) 2048 d)"

text \<open>What reading leaves alone.\<close>

definition same_vol :: "'m loader \<Rightarrow> 'm loader \<Rightarrow> bool" where
  "same_vol s s' \<longleftrightarrow> (\<forall>k. k \<noteq> cached_fat \<and> k \<noteq> current_cluster_num \<and> k \<noteq> current_cluster \<and> k < 19 \<longrightarrow> fat k s' = fat k s) \<and>
     filemax s' = filemax s \<and> disk_read_hook s' = disk_read_hook s \<and> print_possibilities s' = print_possibilities s"

lemma same_vol_refl [simp]: "same_vol s s"
  by (simp add: same_vol_def)

lemma same_vol_trans: "same_vol s s' \<Longrightarrow> same_vol s' s'' \<Longrightarrow> same_vol s s''"
  by (simp add: same_vol_def)

lemma same_vol_fields:
  assumes "same_vol s s'"
  shows "volume s' = volume s" "fat file_cluster s' = fat file_cluster s" "fat clustsize_bits s' = fat clustsize_bits s"
    "fat sectsize_bits s' = fat sectsize_bits s" "fat fat_type s' = fat fat_type s" "fat contig_size s' = fat contig_size s"
    "fat data_offset s' = fat data_offset s"
  using assms by (simp_all add: same_vol_def volume_def)

lemma volume_set_fat [simp]: "13 < k \<Longrightarrow> volume (set_fat k v s) = volume s"
  by (simp add: volume_def)

lemma volume_update [simp]:
  "volume (s\<lparr>dsk := d\<rparr>) = volume s" "volume (s\<lparr>filepos := p\<rparr>) = volume s" "volume (s\<lparr>filemax := p\<rparr>) = volume s"
  "volume (set_err e s) = volume s"
  by (simp_all add: volume_def)

lemma fat_window_set [simp]: "14 < k \<Longrightarrow> fat_window d (set_fat k v s) = fat_window d s"
proof -
  have "read_at FAT_BUF 2048 (fsys_buf (set_fat k v s)) = read_at FAT_BUF 2048 (fsys_buf s)"
    by (simp add: set_fat_def put32_def read_write_outside)
  then show "14 < k \<Longrightarrow> fat_window d (set_fat k v s) = fat_window d s" by (simp add: fat_window_def)
qed

lemma fat_window_update [simp]:
  "fat_window d (s\<lparr>dsk := x\<rparr>) = fat_window d s" "fat_window d (s\<lparr>filepos := p\<rparr>) = fat_window d s"
  "fat_window d (s\<lparr>filemax := p\<rparr>) = fat_window d s" "fat_window d (set_err e s) = fat_window d s"
  by (simp_all add: fat_window_def set_err_def)

section \<open>One step along a chain\<close>

lemma unat_eqI: "uint w = int n \<Longrightarrow> unat w = n"
  by (simp only: nat_uint_eq [symmetric] nat_int)

lemma uint_le32: "uint (le32 m a) = le16 m a + 65536 * le16 m (a + 2)"
proof -
  have "0 \<le> le16 m a + 65536 * le16 m (a + 2)" "le16 m a + 65536 * le16 m (a + 2) < 4294967296"
    using le16_range [of m a] le16_range [of m "a + 2"] by linarith+
  then show ?thesis unfolding le32_def by (simp only: uint_word_of_int) simp
qed

lemma uint_and_mask: "uint (w AND 0xFFF :: u32) = uint w mod 4096" "uint (w AND 0xFFFF :: u32) = uint w mod 65536"
  using take_bit_eq_mask [of 12 "uint w"] take_bit_eq_mask [of 16 "uint w"]
  by (simp_all add: uint_and take_bit_eq_mod mask_eq_exp_minus_1)

lemma c_int_unat: "unat w < 2147483648 \<Longrightarrow> c_int w = int (unat w)"
  by (simp add: c_int_small nat_less_iff flip: nat_uint_eq)

lemma odd_and_1: "(w AND 1 \<noteq> (0 :: u32)) = odd (unat w)"
proof -
  have "bit (unat w) 0 = bit w 0" by (simp add: bit_unsigned_iff)
  then show ?thesis by (simp add: and_one_eq bit_0 odd_iff_mod_2_eq_one)
qed

lemma unat_drop_bit: "unat (drop_bit n (w :: u32)) = unat w div 2 ^ n"
  unfolding unsigned_drop_bit_eq by (simp add: drop_bit_eq_div take_bit_eq_mod unat_u32)

lemma unat_and_not_1023: "unat (w AND NOT 1023 :: u32) = unat w div 1024 * 1024"
proof -
  have m: "unat (w AND 1023) = unat w mod 1024"
  proof -
    have "w AND 1023 = take_bit 10 w" using take_bit_eq_mask [of 10 w] by (simp add: mask_eq_exp_minus_1)
    then have "unat (w AND 1023) = take_bit 10 (unat w)" by (simp only: unsigned_take_bit_eq)
    then show ?thesis by (simp add: take_bit_eq_mod)
  qed
  have "w AND NOT 1023 = w AND NOT (w AND 1023)" by (rule bit_eqI) (auto simp: bit_simps)
  also have "\<dots> = w - (w AND 1023)" by (rule disjunctive_diff [symmetric]) (simp add: bit_and_iff)
  finally show ?thesis
    using m by (simp add: unat_sub word_le_nat_alt minus_mod_eq_div_mult)
qed

lemma cached_entry_value:
  assumes V: "volume_ok sz (volume s)" and x: "x < clusters (volume s)"
    and q: "unat (fat cached_fat s) = 1024 * q" "1024 * q \<le> x * nibbles (volume s)"
      "x * nibbles (volume s) + nibbles (volume s) \<le> 1024 * q + 4096"
    and w: "read_at FAT_BUF 2048 (fsys_buf s) = read_at (fat_start (volume s) * 512 + 512 * q) 2048 d"
    and e: "unat e = x * nibbles (volume s)"
  shows "unat (cached_entry e s) = fat_value (volume s) d x"
proof -
  define n where "n = nibbles (volume s)"
  define F where "F = fat_start (volume s) * 512"
  define i where "i = (x * n - 1024 * q) div 2"
  have n: "n \<in> {3, 4, 8}" using V by (simp add: volume_ok_def n_def)
  have size: "unat (fat fat_size s) = n" by (simp add: n_def volume_def)
  have q': "1024 * q \<le> x * n" "x * n + n \<le> 1024 * q + 4096" using q(2,3) by (simp_all add: n_def)
  have pos: "unat (e - fat cached_fat s) = x * n - 1024 * q"
    using q(1,2) e by (simp add: n_def unat_sub word_le_nat_alt)
  have i: "unat (drop_bit 1 (e - fat cached_fat s)) = i"
    using pos unfolding i_def unat_drop_bit by simp
  have i2: "F + 512 * q + i = F + x * n div 2"
    using q'(1) unfolding i_def by linarith
  have par: "((e - fat cached_fat s) AND 1 \<noteq> 0) = odd (x * n)"
    unfolding odd_and_1 pos using q'(1) by simp
  have le: "le16 (fsys_buf s) (FAT_BUF + j) = le16 d (F + 512 * q + j)" if "j + 1 < 2048" for j
    using le16_read_at [OF w that] by (simp add: F_def add.assoc)
  have i_le: "i + 1 < 2048" "n = 8 \<Longrightarrow> i + 2 + 1 < 2048" using q' n unfolding i_def by auto
  let ?w = "le32 (fsys_buf s) (FAT_BUF + i)"
  have w: "uint ?w = le16 d (F + x * n div 2) + 65536 * le16 (fsys_buf s) (FAT_BUF + i + 2)"
    using le [of i] i_le(1) i2 by (simp only: uint_le32)
  note r = le16_range [of d "F + x * n div 2"]
  have lo: "uint ?w mod 65536 = le16 d (F + x * n div 2)"
    unfolding w mod_mult_self2 using r by simp
  have v: "fat_value (volume s) d x = (if n = 3 then nat (le16 d (F + x * n div 2)) div (if odd x then 16 else 1) mod 4096
      else if n = 4 then nat (le16 d (F + x * n div 2)) else unat (le32 d (F + x * n div 2)))"
    by (simp add: fat_value_def n_def F_def Let_def)
  have c: "cached_entry e s = (if fat fat_size s = 3 then (if odd (x * n) then drop_bit 4 ?w else ?w) AND 0xFFF
         else if fat fat_size s = 4 then ?w AND 0xFFFF else ?w)"
    unfolding cached_entry_def Let_def i par ..
  have fs: "fat fat_size s = of_nat n" unfolding size [symmetric] by simp
  consider "n = 3" "fat fat_size s = 3" | "n = 4" "fat fat_size s = 4" | "n = 8" "fat fat_size s = 8"
    using n fs by auto
  then show ?thesis
  proof cases
    case 1
    have d: "uint (drop_bit 4 ?w) mod 4096 = uint ?w mod 65536 div 16 mod 4096"
      unfolding uint_drop_bit using zmod_zmult2_eq [of 4096 "uint ?w" 16] by simp
    have e: "uint ?w mod 4096 = uint ?w mod 65536 mod 4096" by (rule mod_mod_cancel [symmetric]) simp
    have "cached_entry e s = (if odd x then drop_bit 4 ?w else ?w) AND 0xFFF" using 1 unfolding c by simp
    then have "uint (cached_entry e s) = le16 d (F + x * n div 2) div (if odd x then 16 else 1) mod 4096"
      by (cases "odd x") (simp_all only: uint_and_mask d e lo if_True if_False simp_thms div_by_1)
    then show ?thesis using 1 r unfolding v by (intro unat_eqI) (simp add: zdiv_int zmod_int)
  next
    case 2
    then show ?thesis using lo r unfolding v c by (intro unat_eqI) (simp add: uint_and_mask)
  next
    case 3
    have "le16 (fsys_buf s) (FAT_BUF + i + 2) = le16 d (F + x * n div 2 + 2)"
      using le [of "i + 2"] i_le(2) 3 i2 by (simp add: add.assoc [symmetric])
    then have "uint ?w = uint (le32 d (F + x * n div 2))" using w by (simp only: uint_le32)
    then have "?w = le32 d (F + x * n div 2)" by (simp only: uint_eq_iff)
    then show ?thesis using 3 unfolding v c by simp
  qed
qed

lemma div_mod_inside:
  fixes f j k :: nat
  assumes "f mod k + j < k"
  shows "(f + j) div k = f div k" "(f + j) mod k = f mod k + j"
proof -
  have e: "f + j = (f mod k + j) + f div k * k" using div_mult_mod_eq [of f k] by linarith
  show "(f + j) div k = f div k" "(f + j) mod k = f mod k + j"
    unfolding e div_mult_self1 [OF assms [THEN gr_implies_not0]] mod_mult_self1 using assms by simp_all
qed

lemma div_mod_end:
  fixes f k :: nat
  assumes "0 < k"
  shows "(f + (k - f mod k)) div k = f div k + 1" "(f + (k - f mod k)) mod k = 0"
proof -
  have e: "f + (k - f mod k) = (f div k + 1) * k"
    using div_mult_mod_eq [of f k] mod_less_divisor [OF assms, of f] unfolding distrib_right mult_1 by linarith
  show "(f + (k - f mod k)) div k = f div k + 1" "(f + (k - f mod k)) mod k = 0"
    unfolding e using assms by simp_all
qed

lemma read_cluster:
  assumes "f mod cluster_size V + n \<le> cluster_size V"
  shows "read_at (cluster_pos V (nth_cluster V d c (f div cluster_size V)) + f mod cluster_size V) n d = read_at f n (fat_file V d c)"
  using assms by (intro nth_equalityI) (simp_all add: fat_file_def div_mod_inside add.assoc)

context fs_device
begin

lemma fetch_ok:
  assumes dev: "dev_ok (dsk s)" and V: "volume_ok (dev_size (dsk s)) (volume s)"
    and w: "fat_window (content (dsk s)) s" and x: "x < clusters (volume s)" and e: "unat e = x * nibbles (volume s)"
  shows "\<exists>s' q. fat_fetch env e s = Some (True, s') \<and> same_dev s s' \<and> same_vol s s' \<and> filepos s' = filepos s \<and>
    fat current_cluster s' = fat current_cluster s \<and> fat current_cluster_num s' = fat current_cluster_num s \<and>
    unat (fat cached_fat s') = 1024 * q \<and> 1024 * q \<le> x * nibbles (volume s) \<and>
    x * nibbles (volume s) + nibbles (volume s) \<le> 1024 * q + 4096 \<and>
    read_at FAT_BUF 2048 (fsys_buf s') = read_at (fat_start (volume s) * 512 + 512 * q) 2048 (content (dsk s))"
proof -
  define n where "n = nibbles (volume s)"
  have n: "n \<in> {3, 4, 8}" "unat (fat fat_size s) = n" using V by (simp_all add: volume_ok_def n_def volume_def)
  have xn: "x * n \<le> clusters (volume s) * n" "clusters (volume s) \<le> 268435456"
    using x V by (simp_all add: volume_ok_def)
  have le: "x * n < 2147483648" using x xn(2) n(1) by auto
  have r: "x * n + n \<le> clusters (volume s) * n" using x mult_le_mono1 [of "Suc x" "clusters (volume s)" n] by simp
  show ?thesis
  proof (cases "e < fat cached_fat s \<or> e - fat cached_fat s + fat fat_size s > 4096")
    case True
    define q where "q = x * n div 1024"
    let ?s = "set_fat cached_fat (e AND NOT 1023) s"
    have c: "unat (e AND NOT 1023) = 1024 * q" unfolding unat_and_not_1023 e q_def n_def by simp
    have q: "1024 * q \<le> x * n" "x * n < 1024 * q + 1024" unfolding q_def by simp_all
    have ci: "fati cached_fat ?s = int (1024 * q)" using c q(1) le c_int_unat [of "e AND NOT 1023"] by simp
    have fs: "fat_start (volume s) + clusters (volume s) * n div 1024 + 4 < 2147483648"
      "fat_start (volume s) * 512 + clusters (volume s) * n div 2 + 2048 \<le> dev_size (dsk s)"
      using V by (simp_all add: volume_ok_def n_def)
    then have cs: "fati fat_offset ?s = int (fat_start (volume s))"
      using c_int_unat [of "fat fat_offset s"] by (simp add: volume_def)
    have "q \<le> clusters (volume s) * n div 1024" using xn(1) unfolding q_def by (rule div_le_mono)
    then have sec: "s32 (fati fat_offset ?s + fati cached_fat ?s sdiv 1024) = int (fat_start (volume s) + q)"
      unfolding ci cs using fs(1) s32_nat [of "fat_start (volume s) + q"] by (simp add: sdiv_nonneg)
    have "512 * q \<le> clusters (volume s) * n div 2" using order_trans [OF q(1) xn(1)] by (simp add: less_eq_div_iff_mult_less_eq)
    then have "(fat_start (volume s) + q) * 512 + 2048 \<le> dev_size (dsk s)" using fs(2) by simp
    then obtain d where d: "devread_buf env (int (fat_start (volume s) + q)) (int 0) (int 2048) FAT_BUF ?s =
      Some (True, ?s\<lparr>fsys_buf := write_at FAT_BUF (read_at ((fat_start (volume s) + q) * 512 + 0) 2048 (content (dsk ?s))) (fsys_buf ?s), dsk := d\<rparr>)"
      "dev_ok d" "content d = content (dsk ?s)" "dev_size d = dev_size (dsk ?s)"
      using read_buf_ok [of ?s 2048 "fat_start (volume s) + q" 0 FAT_BUF] dev by auto
    let ?s' = "?s\<lparr>fsys_buf := write_at FAT_BUF (read_at ((fat_start (volume s) + q) * 512) 2048 (content (dsk s))) (fsys_buf ?s), dsk := d\<rparr>"
    have f: "fat k ?s' = fat k ?s" for k by (simp add: fat_write_below)
    have "fat_fetch env e s = Some (True, ?s')"
      using d(1) True sec unfolding fat_fetch_def by (simp only: if_True Let_def of_nat_numeral int_ops(1) add_0_right set_fat_simps)
    moreover have "x * n + n \<le> 1024 * q + 4096" using q n(1) by auto
    ultimately show ?thesis
      using d(2-4) c q(1) f unfolding n_def
      by (intro exI [of _ ?s'] exI [of _ q]) (simp add: same_dev_def same_vol_def algebra_simps read_write_inside take_read_at)
  next
    case False
    then have f: "fat_fetch env e s = Some (True, s)" by (simp add: fat_fetch_def)
    have c: "unat (fat cached_fat s) \<le> x * n" using False e by (simp add: n_def word_less_nat_alt)
    then have "fat cached_fat s \<noteq> 0xFFFFF000" using le by auto
    then obtain q where q: "unat (fat cached_fat s) = 1024 * q"
      "read_at FAT_BUF 2048 (fsys_buf s) = read_at (fat_start (volume s) * 512 + 512 * q) 2048 (content (dsk s))"
      using w unfolding fat_window_def by blast
    have "unat (e - fat cached_fat s) = x * n - 1024 * q" using c e q(1) by (simp add: n_def unat_sub word_le_nat_alt)
    then have "unat (e - fat cached_fat s + fat fat_size s) = x * n - 1024 * q + n"
      using le n by (subst unat_add_lem [THEN iffD1]) auto
    then have "x * n + n \<le> 1024 * q + 4096" using False c q(1) by (auto simp: word_less_nat_alt)
    then show ?thesis using f dev q c same_dev_refl [OF dev] unfolding n_def by (intro exI [of _ s] exI [of _ q]) simp
  qed
qed

text \<open>One step along the chain, for every value of the entry.\<close>

lemma next_cluster_ok:
  assumes dev: "dev_ok (dsk s)" and V: "volume_ok (dev_size (dsk s)) (volume s)"
    and w: "fat_window (content (dsk s)) s" and x: "unat (fat current_cluster s) = x" "x < clusters (volume s)"
  shows "\<exists>s' y. unat y = fat_value (volume s) (content (dsk s)) x \<and> fat_next_cluster env s =
      Some (if eof_mark (volume s) \<le> unat y then (Inl True, s')
            else if unat y < 2 \<or> clusters (volume s) \<le> unat y then (Inl False, set_err ERR_FSYS_CORRUPT s')
            else (Inr (), set_fat current_cluster_num (fat current_cluster_num s + 1) (set_fat current_cluster y s'))) \<and>
    same_dev s s' \<and> same_vol s s' \<and> filepos s' = filepos s \<and> fat_window (content (dsk s)) s' \<and>
    fat current_cluster_num s' = fat current_cluster_num s"
proof -
  define n where "n = nibbles (volume s)"
  have n: "n \<in> {3, 4, 8}" "unat (fat fat_size s) = n" using V by (simp_all add: volume_ok_def n_def volume_def)
  have "x * n < 2147483648" using x V n(1) by (auto simp: volume_ok_def)
  then have e: "unat (fat current_cluster s * fat fat_size s) = x * nibbles (volume s)"
    using x(1) n(2) by (subst unat_mult_lem [THEN iffD1]) (simp_all add: n_def)
  obtain s' q where s': "fat_fetch env (fat current_cluster s * fat fat_size s) s = Some (True, s')" "same_dev s s'" "same_vol s s'"
    "filepos s' = filepos s" "fat current_cluster_num s' = fat current_cluster_num s"
    and q: "unat (fat cached_fat s') = 1024 * q" "1024 * q \<le> x * nibbles (volume s)"
    "x * nibbles (volume s) + nibbles (volume s) \<le> 1024 * q + 4096"
    "read_at FAT_BUF 2048 (fsys_buf s') = read_at (fat_start (volume s) * 512 + 512 * q) 2048 (content (dsk s))"
    using fetch_ok [OF dev V w x(2) e] by blast
  have v: "volume s' = volume s" using same_vol_fields [OF s'(3)] by simp
  define y where "y = cached_entry (fat current_cluster s * fat fat_size s) s'"
  have y: "unat y = fat_value (volume s) (content (dsk s)) x"
    using cached_entry_value [of "dev_size (dsk s)" s' x q "content (dsk s)"] V x(2) q e unfolding v y_def by blast
  have g: "unat (fat clust_eof_marker s') = eof_mark (volume s)" "unat (fat num_clust s') = clusters (volume s)"
    unfolding v [symmetric] by (simp_all add: volume_def)
  have "fat_window (content (dsk s)) s'" using q(1,4) unfolding fat_window_def v by blast
  moreover have "fat_next_cluster env s =
      Some (if eof_mark (volume s) \<le> unat y then (Inl True, s')
            else if unat y < 2 \<or> clusters (volume s) \<le> unat y then (Inl False, set_err ERR_FSYS_CORRUPT s')
            else (Inr (), set_fat current_cluster_num (fat current_cluster_num s + 1) (set_fat current_cluster y s')))"
    unfolding fat_next_cluster_def Let_def s'(1) bind.bind_lunit prod.case y_def [symmetric]
    using g s'(5) by (auto simp: word_le_nat_alt word_less_nat_alt)
  ultimately show ?thesis using y s'(2-5) by blast
qed

section \<open>Reading a file\<close>

text \<open>A mounted volume, and the place in a chain from \<open>c\<close> that the super block keeps.\<close>

definition fat_mounted :: "'m loader \<Rightarrow> bool" where
  "fat_mounted s \<longleftrightarrow> dev_ok (dsk s) \<and> volume_ok (dev_size (dsk s)) (volume s) \<and> fat sectsize_bits s = 9 \<and>
     unat (fat clustsize_bits s) = 9 + spc_log (volume s) \<and> fat_window (content (dsk s)) s"

definition at_chain :: "nat \<Rightarrow> 'm loader \<Rightarrow> bool" where
  "at_chain c s \<longleftrightarrow> unat (fat current_cluster s) = nth_cluster (volume s) (content (dsk s)) c (unat (fat current_cluster_num s))"

lemma fat_mounted_cong:
  assumes "fat_mounted s" "same_dev s s'" "same_vol s s'" "fat_window (content (dsk s)) s'"
  shows "fat_mounted s'"
  using assms same_vol_fields [OF assms(3)] by (simp add: fat_mounted_def same_dev_def)

lemma seek_ok:
  assumes "fat_mounted s" "at_chain c s" "chain_ok (dev_size (dsk s)) (volume s) (content (dsk s)) c (l + 1)"
    and "unat (fat current_cluster_num s) \<le> l" "l < 2147483648"
  shows "\<exists>s'. fat_seek env (of_nat l) s = Some (Inr (), s') \<and> fat_mounted s' \<and> same_dev s s' \<and> same_vol s s' \<and>
    filepos s' = filepos s \<and> at_chain c s' \<and> unat (fat current_cluster_num s') = l"
  using assms
proof (induction "l - unat (fat current_cluster_num s)" arbitrary: s)
  case 0
  have e: "unat (of_nat l :: u32) = l" using 0 by (simp add: unat_of_nat)
  have "unat (fat current_cluster_num s) = l" using 0 by simp
  moreover then have "fat_seek env (of_nat l) s = Some (Inr (), s)"
    by (subst fat_seek.simps) (simp add: word_less_nat_alt e)
  ultimately show ?case using 0 same_dev_refl by (auto simp: fat_mounted_def)
next
  case (Suc k)
  let ?V = "volume s" and ?d = "content (dsk s)"
  define m where "m = unat (fat current_cluster_num s)"
  define x where "x = nth_cluster ?V ?d c m"
  have e: "unat (of_nat l :: u32) = l" using Suc.prems(5) by (simp add: unat_of_nat)
  have m: "m < l" using Suc.hyps(2) by (simp add: m_def)
  have ok: "cluster_ok (dev_size (dsk s)) ?V (nth_cluster ?V ?d c i)" "0 < i \<Longrightarrow> nth_cluster ?V ?d c i < eof_mark ?V" if "i \<le> l" for i
    using Suc.prems(3) that by (simp_all add: chain_ok_def)
  have x: "unat (fat current_cluster s) = x" "x < clusters ?V"
    using Suc.prems(2) ok(1) [of m] m by (simp_all add: at_chain_def x_def m_def cluster_ok_def)
  have y: "fat_value ?V ?d x = nth_cluster ?V ?d c (Suc m)" by (simp add: x_def)
  obtain s1 z where s1: "unat z = fat_value ?V ?d x" "fat_next_cluster env s =
      Some (if eof_mark ?V \<le> unat z then (Inl True, s1)
            else if unat z < 2 \<or> clusters ?V \<le> unat z then (Inl False, set_err ERR_FSYS_CORRUPT s1)
            else (Inr (), set_fat current_cluster_num (fat current_cluster_num s + 1) (set_fat current_cluster z s1)))"
    "same_dev s s1" "same_vol s s1" "filepos s1 = filepos s" "fat_window ?d s1" "fat current_cluster_num s1 = fat current_cluster_num s"
    using next_cluster_ok [of s x] Suc.prems(1) x unfolding fat_mounted_def by blast
  let ?s2 = "set_fat current_cluster_num (fat current_cluster_num s + 1) (set_fat current_cluster z s1)"
  have step: "fat_next_cluster env s = Some (Inr (), ?s2)"
    using s1(1,2) ok [of "Suc m"] m unfolding y by (simp add: cluster_ok_def)
  have r: "fat_seek env (of_nat l) s = fat_seek env (of_nat l) ?s2"
    by (subst fat_seek.simps) (use m in \<open>simp add: word_less_nat_alt e step m_def [symmetric]\<close>)
  have sd: "same_dev s ?s2" "same_vol s ?s2" using s1(3,4) by (simp_all add: same_dev_def same_vol_def)
  have v: "volume ?s2 = ?V" using same_vol_fields [OF s1(4)] by simp
  have n: "unat (fat current_cluster_num ?s2) = Suc m"
    using m Suc.prems(5) unat_add_lem [of "fat current_cluster_num s" 1] by (simp add: m_def)
  have w: "fat_window ?d ?s2" using s1(6) by simp
  have mt: "fat_mounted ?s2" by (rule fat_mounted_cong [OF Suc.prems(1) sd w])
  have at: "at_chain c ?s2" using s1(1,3) n v y by (simp add: at_chain_def same_dev_def)
  have ch: "chain_ok (dev_size (dsk ?s2)) (volume ?s2) (content (dsk ?s2)) c (l + 1)"
    using Suc.prems(3) s1(3) v by (simp add: same_dev_def)
  have "k = l - unat (fat current_cluster_num ?s2)" "unat (fat current_cluster_num ?s2) \<le> l" using Suc.hyps(2) n m by (simp_all add: m_def)
  then obtain s' where "fat_seek env (of_nat l) ?s2 = Some (Inr (), s')" "fat_mounted s'" "same_dev ?s2 s'" "same_vol ?s2 s'"
    "filepos s' = filepos ?s2" "at_chain c s'" "unat (fat current_cluster_num s') = l"
    using Suc.hyps(1) mt at ch Suc.prems(5) by blast
  then show ?case unfolding r using same_dev_trans [OF sd(1)] same_vol_trans [OF sd(2)] s1(5) by fastforce
qed

lemma transfer_ok:
  assumes "dev_ok (dsk s)" "0 < l" "sec * 512 + off + l \<le> dev_size (dsk s)" "off + l + 512 \<le> 2147483648"
    and "filepos s = int f" "f + l < 2147483648"
  shows "\<exists>s'. fat_transfer env (int sec) (int off) (int l) buf a s =
      Some (write_at a (read_at (sec * 512 + off) l (content (dsk s))) buf, s') \<and> same_dev s s' \<and> same_vol s s' \<and>
    filepos s' = int (f + l) \<and> fsys_buf s' = fsys_buf s"
proof -
  let ?d = "(dsk s)\<lparr>disk_read_func := disk_read_hook s\<rparr>"
  obtain d' where d': "dr (int sec) (int off) (int l) buf a ?d =
      Some (True, write_at a (read_at (sec * 512 + off) l (content (dsk s))) buf, d')"
    "dev_ok d'" "content d' = content (dsk s)" "dev_size d' = dev_size (dsk s)"
    using dev_read [of ?d l sec off buf a] assms(1-4) by (auto simp: dev_hook)
  have "s32 (filepos s + int l) = int (f + l)" using s32_nat [OF assms(6)] assms(5) by simp
  then show ?thesis
    using d' by (intro exI [of _ "s\<lparr>dsk := d'\<lparr>disk_read_func := False\<rparr>, filepos := int (f + l)\<rparr>"])
      (simp add: fat_transfer_def env_devread same_dev_def dev_hook same_vol_def)
qed

lemma cluster_sector_ok:
  assumes "fat_mounted s" "cluster_ok sz (volume s) c" "unat w = c"
  shows "cluster_sector w s = int (data_start (volume s) + (c - 2) * 2 ^ spc_log (volume s))"
    "cluster_bytes s = int (cluster_size (volume s))"
proof -
  define k where "k = spc_log (volume s)"
  have V: "k \<le> 16" "data_start (volume s) + clusters (volume s) * 2 ^ k < 2147483648" "2 \<le> c" "c < clusters (volume s)"
    using assms(1,2) by (simp_all add: fat_mounted_def volume_ok_def k_def cluster_ok_def)
  have b: "fati clustsize_bits s = int (9 + k)" "fati sectsize_bits s = 9"
    using assms(1) V(1) c_int_unat [of "fat clustsize_bits s"] by (simp_all add: fat_mounted_def k_def c_int_def)
  have "(c - 2) * 2 ^ k \<le> clusters (volume s) * 2 ^ k" using V(4) by (intro mult_le_mono1) simp
  then have le: "data_start (volume s) + (c - 2) * 2 ^ k < 2147483648" using V(2) by linarith
  have w: "unat (w - 2) = c - 2" using assms(3) V(3) by (simp add: unat_sub word_le_nat_alt)
  have p: "unat (push_bit k (w - 2)) = (c - 2) * 2 ^ k"
    using w le unfolding unsigned_push_bit_eq by (simp add: push_bit_eq_mult take_bit_eq_mod)
  have "unat (fat data_offset s + push_bit k (w - 2)) = data_start (volume s) + (c - 2) * 2 ^ k"
    using le p by (subst unat_add_lem [THEN iffD1]) (simp_all add: volume_def)
  then show "cluster_sector w s = int (data_start (volume s) + (c - 2) * 2 ^ spc_log (volume s))"
    using le c_int_unat [of "fat data_offset s + push_bit k (w - 2)"] unfolding cluster_sector_def b k_def [symmetric] by simp
  show "cluster_bytes s = int (cluster_size (volume s))"
    unfolding cluster_bytes_def b cluster_size_def k_def [symmetric] by (simp add: power_add nat_add_distrib)
qed

lemma fat_loop_ok:
  assumes "fat_mounted s" "at_chain c s" "filepos s = int f" "f + n < 2147483648" "ret + n < 2147483648"
    and "chain_ok (dev_size (dsk s)) (volume s) (content (dsk s)) c ((f + n + cluster_size (volume s) - 1) div cluster_size (volume s))"
    and "0 < n \<Longrightarrow> lc = f div cluster_size (volume s) \<and> off = f mod cluster_size (volume s) \<and> unat (fat current_cluster_num s) \<le> lc"
  shows "\<exists>s'. fat_read_loop env (of_nat lc) (int off) (int n) (c_ulong (int ret)) buf a s =
      Some (int (ret + n), write_at a (read_at f n (fat_file (volume s) (content (dsk s)) c)) buf, s') \<and>
    fat_mounted s' \<and> at_chain c s' \<and> same_dev s s' \<and> same_vol s s' \<and> filepos s' = int (f + n)"
  using assms
proof (induction n arbitrary: f lc off ret buf a s rule: less_induct)
  case (less n)
  let ?V = "volume s" and ?d = "content (dsk s)"
  define cs where "cs = cluster_size ?V"
  have cs: "512 \<le> cs" by (simp add: cs_def cluster_size_def)
  show ?case
  proof (cases "n = 0")
    case True
    have "err s = ERR_NONE" using less.prems(1) dev_no_error by (simp add: fat_mounted_def)
    then show ?thesis
      using True less.prems by (subst fat_read_loop.simps) (auto simp: same_dev_refl fat_mounted_def c_int_nat)
  next
    case False
    define m where "m = min n (cs - off)"
    have lo: "lc = f div cs" "off = f mod cs" "unat (fat current_cluster_num s) \<le> lc" using less.prems(7) False by (simp_all add: cs_def)
    have off: "off < cs" unfolding lo(2) using cs by simp
    have m: "0 < m" "m \<le> n" "off + m \<le> cs" using False off by (auto simp: m_def)
    have q: "lc < (f + n + cs - 1) div cs" 
    proof -
      have "f div cs + 1 = (f + cs) div cs" using cs by (simp add: div_add_self2)
      also have "\<dots> \<le> (f + n + cs - 1) div cs" using False by (intro div_le_mono) simp
      finally show ?thesis unfolding lo(1) by simp
    qed
    have ch: "chain_ok (dev_size (dsk s)) ?V ?d c (lc + 1)"
      using less.prems(6) q unfolding chain_ok_def cs_def by auto
    have lc: "lc < 2147483648" using div_le_dividend [of f cs] less.prems(4) unfolding lo(1) by linarith
    obtain s1 where s1: "fat_seek env (of_nat lc) s = Some (Inr (), s1)" "fat_mounted s1" "same_dev s s1" "same_vol s s1"
      "filepos s1 = filepos s" "at_chain c s1" "unat (fat current_cluster_num s1) = lc"
      using seek_ok [OF less.prems(1,2) ch lo(3) lc] by blast
    have v: "volume s1 = ?V" "content (dsk s1) = ?d" "dev_size (dsk s1) = dev_size (dsk s)"
      using same_vol_fields [OF s1(4)] s1(3) by (simp_all add: same_dev_def)
    define x where "x = nth_cluster ?V ?d c lc"
    have x: "unat (fat current_cluster s1) = x" "cluster_ok (dev_size (dsk s)) ?V x"
      using s1(6,7) ch by (simp_all add: at_chain_def x_def v chain_ok_def)
    have cs16: "cs \<le> 33554432" using less.prems(1) power_increasing [of "spc_log ?V" 16 "2 :: nat"]
      by (simp add: fat_mounted_def volume_ok_def cs_def cluster_size_def)
    define sec where "sec = data_start ?V + (x - 2) * 2 ^ spc_log ?V"
    have sec: "cluster_sector (fat current_cluster s1) s1 = int sec" "cluster_bytes s1 = int cs"
      using cluster_sector_ok [OF s1(2) _ x(1)] x(2) unfolding v sec_def cs_def by auto
    have pos: "sec * 512 = cluster_pos ?V x" by (simp add: sec_def cluster_pos_def cluster_size_def algebra_simps)
    obtain s2 where s2: "fat_transfer env (int sec) (int off) (int m) buf a s1 =
        Some (write_at a (read_at (sec * 512 + off) m ?d) buf, s2)" "same_dev s1 s2" "same_vol s1 s2"
      "filepos s2 = int (f + m)" "fsys_buf s2 = fsys_buf s1"
      using transfer_ok [of s1 m sec off f buf a] s1(2,3,5) m x(2) less.prems(3,4) cs16
      unfolding v fat_mounted_def cluster_ok_def cs_def [symmetric] pos [symmetric] by auto
    define buf' where "buf' = write_at a (read_at (sec * 512 + off) m ?d) buf"
    have num: "(if cluster_bytes s1 - int off > int n then int n else cluster_bytes s1 - int off) = int m" "int n > 0"
      "int n - int m = int (n - m)" "c_ulong (int ret) + c_ulong (int m) = c_ulong (int (ret + m))" "nat (int m) = m"
      "of_nat lc + (1 :: u32) = of_nat (lc + 1)" "\<not> isl (Inr ())"
      using off m False unfolding sec(2) m_def by (auto simp: c_ulong_def)
    have step: "fat_read_loop env (of_nat lc) (int off) (int n) (c_ulong (int ret)) buf a s =
        fat_read_loop env (of_nat (lc + 1)) (int 0) (int (n - m)) (c_ulong (int (ret + m))) buf' (a + m) s2"
      by (subst fat_read_loop.simps)
        (simp only: num s1(1) bind.bind_lunit prod.case sum.case sec(1) s2(1) buf'_def Let_def not_True_eq_False simp_thms
          if_False if_True int_ops(1))
    have fat_eq: "fat k s2 = fat k s1" for k by (simp add: fat_def s2(5))
    have sd: "same_dev s s2" "same_vol s s2" using same_dev_trans [OF s1(3) s2(2)] same_vol_trans [OF s1(4) s2(3)] by auto
    have v2: "volume s2 = ?V" "content (dsk s2) = ?d" "dev_size (dsk s2) = dev_size (dsk s)"
      using same_vol_fields [OF sd(2)] sd(1) by (simp_all add: same_dev_def)
    have "fat_window ?d s2" using s1(2) by (simp add: fat_window_def fat_eq s2(5) fat_mounted_def v v2)
    then have mt: "fat_mounted s2" by (rule fat_mounted_cong [OF less.prems(1) sd])
    have at: "at_chain c s2" using s1(6) by (simp add: at_chain_def fat_eq v v2)
    have nm: "n - m < n" "f + m + (n - m) = f + n" "ret + m + (n - m) = ret + n" using m by simp_all
    have nxt: "lc + 1 = (f + m) div cs \<and> 0 = (f + m) mod cs \<and> unat (fat current_cluster_num s2) \<le> lc + 1" if "0 < n - m"
    proof -
      have "m = cs - f mod cs" using that unfolding m_def lo(2) by auto
      then show ?thesis using div_mod_end [of cs f] cs s1(7) lo(1) by (simp add: fat_eq)
    qed
    obtain s' where s': "fat_read_loop env (of_nat (lc + 1)) (int 0) (int (n - m)) (c_ulong (int (ret + m))) buf' (a + m) s2 =
      Some (int (ret + m + (n - m)), write_at (a + m) (read_at (f + m) (n - m) (fat_file ?V ?d c)) buf', s')"
      "fat_mounted s'" "at_chain c s'" "same_dev s2 s'" "same_vol s2 s'" "filepos s' = int (f + m + (n - m))"
      using less.IH [OF nm(1) mt at s2(4), of "ret + m" "lc + 1" 0 buf' "a + m"] less.prems(4-6) nxt
      unfolding v2 nm cs_def by blast
    have "read_at (sec * 512 + off) m ?d = read_at f m (fat_file ?V ?d c)"
      using read_cluster [of f ?V m ?d c] m(3) unfolding pos x_def lo cs_def by simp
    then have "write_at (a + m) (read_at (f + m) (n - m) (fat_file ?V ?d c)) buf' = write_at a (read_at f n (fat_file ?V ?d c)) buf"
      using write_at_append [of a "read_at f m (fat_file ?V ?d c)"] read_at_append [of f m "n - m" "fat_file ?V ?d c"] m(2)
      by (simp add: buf'_def)
    then show ?thesis
      unfolding step s'(1) nm using s'(2-6) same_dev_trans [OF sd(1)] same_vol_trans [OF sd(2)] by (auto simp: nm)
  qed
qed

text \<open>The contract of \<open>fs_read\<close> for this driver.\<close>

lemma fat_read_ok:
  assumes mt: "fat_mounted s" and f: "filepos s = int f" "f + n < 2147483648" "0 < n"
    and ch: "chain_cover (dev_size (dsk s)) (volume s) (content (dsk s)) c (f + n)"
    and c: "unat (fat file_cluster s) = c" and nc: "fat fat_type s \<noteq> 64 \<or> fat contig_size s = 0"
    and at: "at_chain c s \<or> fat current_cluster_num s = c_ulong MAXINT"
  shows "\<exists>s'. fat_read env (int n) buf a s =
      Some (int n, write_at a (read_at f n (fat_file (volume s) (content (dsk s)) c)) buf, s') \<and>
    fat_mounted s' \<and> at_chain c s' \<and> same_dev s s' \<and> same_vol s s' \<and> filepos s' = int (f + n)"
proof -
  let ?V = "volume s"
  define cs where "cs = cluster_size ?V"
  have cs: "512 \<le> cs" "cs = 2 ^ (9 + spc_log ?V)" by (simp_all add: cs_def cluster_size_def power_add)
  have "0 < (f + n + cs - 1) div cs" using f(3) cs(1) by (simp add: div_greater_zero_iff)
  then have "cluster_ok (dev_size (dsk s)) ?V (nth_cluster ?V (content (dsk s)) c 0)"
    using ch unfolding chain_cover_def chain_ok_def cs_def by blast
  then have c2: "c < 268435456 + 1" using mt by (auto simp: cluster_ok_def fat_mounted_def volume_ok_def)
  have b: "fati clustsize_bits s = int (9 + spc_log ?V)"
    using mt c_int_unat [of "fat clustsize_bits s"] by (auto simp: fat_mounted_def volume_ok_def)
  have bytes: "cluster_bytes s = int cs" unfolding cluster_bytes_def b cs(2) by simp
  have lc: "c_ulong (drop_bit (nat (fati clustsize_bits s)) (filepos s)) = of_nat (f div cs)"
  proof -
    have "drop_bit (9 + spc_log ?V) (int f) = int (f div cs)"
      unfolding drop_bit_eq_div cs(2) by (simp only: zdiv_int of_nat_power of_nat_numeral)
    then show ?thesis unfolding b f(1) nat_int by (simp add: c_ulong_def)
  qed
  have off: "filepos s AND (cluster_bytes s - 1) = int (f mod cs)"
    using take_bit_eq_mask [of "9 + spc_log ?V" "int f"] unfolding bytes f(1)
    by (simp add: take_bit_eq_mod mask_eq_exp_minus_1 zmod_int cs(2))
  define s1 where "s1 = (if (of_nat (f div cs) :: u32) < fat current_cluster_num s
     then set_fat current_cluster (fat file_cluster s) (set_fat current_cluster_num 0 s) else s)"
  have q: "f div cs < 2147483647" using div_le_dividend [of f cs] f(2,3) by linarith
  have u: "unat (of_nat (f div cs) :: u32) = f div cs" using q by (simp add: unat_of_nat)
  have sd: "same_dev s s1" "same_vol s s1" "filepos s1 = int f" "volume s1 = ?V" "fat_window (content (dsk s)) s1"
    using mt f(1) by (simp_all add: s1_def same_dev_def fat_mounted_def same_vol_def)
  have mt1: "fat_mounted s1" by (rule fat_mounted_cong [OF mt sd(1,2,5)])
  have at1: "at_chain c s1 \<and> unat (fat current_cluster_num s1) \<le> f div cs"
  proof (cases "(of_nat (f div cs) :: u32) < fat current_cluster_num s")
    case True
    then show ?thesis using c by (simp add: s1_def at_chain_def)
  next
    case False
    then have "unat (fat current_cluster_num s) \<le> f div cs" using u by (simp add: word_less_nat_alt)
    moreover then have "fat current_cluster_num s \<noteq> c_ulong MAXINT" using q by (auto simp: c_ulong_def)
    ultimately show ?thesis using at False by (simp add: s1_def)
  qed
  have "fat file_cluster s \<noteq> 0x7FFFFFFF" using c c2 by auto
  moreover have "c_ulong MAXINT = 0x7FFFFFFF" by (simp add: c_ulong_def)
  ultimately have fc: "fati file_cluster s \<noteq> MAXINT" using c_ulong_c_int [of "fat file_cluster s"] by metis
  have e: "fat_read env (int n) buf a s = fat_read_loop env (of_nat (f div cs)) (int (f mod cs)) (int n) (c_ulong (int 0)) buf a s1"
    using f(3) nc fc unfolding fat_read_def lc off s1_def by (auto simp: Let_def c_ulong_def)
  have d1: "content (dsk s1) = content (dsk s)" "dev_size (dsk s1) = dev_size (dsk s)"
    using sd(1) by (simp_all add: same_dev_def)
  have n0: "0 + n < 2147483648" using f(2) by simp
  obtain s' where "fat_read_loop env (of_nat (f div cs)) (int (f mod cs)) (int n) (c_ulong (int 0)) buf a s1 =
      Some (int (0 + n), write_at a (read_at f n (fat_file ?V (content (dsk s)) c)) buf, s')"
    "fat_mounted s'" "at_chain c s'" "same_dev s1 s'" "same_vol s1 s'" "filepos s' = int (f + n)"
    using fat_loop_ok [OF mt1 _ sd(3) f(2) n0, of c "f div cs" "f mod cs" buf a] at1 ch
    unfolding sd(4) d1 cs_def chain_cover_def by blast
  then show ?thesis
    unfolding e using same_dev_trans [OF sd(1)] same_vol_trans [OF sd(2)] by auto
qed

end

end
