(* ===== verification/FatMount.thy ===== *)
theory FatMount
  imports FatFiles
begin

text \<open>
  The FAT driver, mounting: every super block that \<open>fat_mount\<close> leaves behind is well formed, and it holds the
  layout that the boot sector describes.
\<close>

section \<open>A well-formed super block\<close>

definition super_ok :: "'m loader \<Rightarrow> bool" where
  "super_ok s \<longleftrightarrow> fat sectsize_bits s = 9 \<and> fat clustsize_bits s \<in> {9..25} \<and>
     fat sects_per_clust s = 2 ^ unat (fat clustsize_bits s - 9) \<and>
     (fat fat_type s, fat fat_size s, fat clust_eof_marker s) \<in>
       {(12, 3, 0xFF8), (16, 4, 0xFFF8), (32, 8, 0xFFFFFF8), (64, 8, 0xFFFFFFFF)} \<and>
     2 < fati num_clust s \<and> (fat fat_type s = 12 \<longrightarrow> fati num_clust s \<le> 4087) \<and>
     (fat fat_type s = 16 \<longrightarrow> 4087 < fati num_clust s) \<and> (fat root_max s \<noteq> 0 \<longleftrightarrow> fat fat_type s \<le> 16) \<and>
     fat cached_fat s = 0xFFFFF000"

lemma uint_byte: "uint (ucast (x :: u8) :: u32) = uint x" "uint (ucast (x :: u8) :: u32) < 256"
proof -
  have "uint x < 256" using uint_lt2p [of x] by simp
  then show "uint (ucast x :: u32) = uint x" "uint (ucast x :: u32) < 256"
    by (simp_all add: unsigned_ucast_eq take_bit_int_eq_self)
qed

lemma finish_True:
  assumes "fat_finish env s = Some (True, s')"
  obtains d where "s' = set_fat cached_fat (- 4096) (s\<lparr>dsk := d\<rparr>)"
  using assms by (auto simp: fat_finish_def devread_local_def split: bind_splits if_splits)

lemma exfat_mount_super:
  assumes "exfat_mount env b s = Some (True, s')"
  shows "super_ok s'"
proof -
  let ?k = "ucast (spc_bits b) :: u32"
  note small = uint_byte(2) [of "spc_bits b"]
  then have u: "uint (9 + ?k) = 9 + uint ?k" by (simp add: uint_word_ariths)
  then have k: "c_int (9 + ?k) = 9 + uint ?k" using small by (simp add: c_int_small)
  obtain s1 where s1: "fat_finish env s1 = Some (True, s')" "\<not> fat_size_wrong s1" "sector_bits b = 9" "\<not> 9 + uint ?k > 25"
    "fat sectsize_bits s1 = 9" "fat clustsize_bits s1 = 9 + ?k" "fat sects_per_clust s1 = push_bit (unat (spc_bits b)) 1"
    "fat fat_type s1 = 64" "fat fat_size s1 = 8" "fat clust_eof_marker s1 = 0xFFFFFFFF" "fat root_max s1 = 0"
    using assms unfolding exfat_mount_def Let_def
    by (simp only: split: if_splits) (simp_all add: k)
  obtain d where "s' = set_fat cached_fat (- 4096) (s1\<lparr>dsk := d\<rparr>)" by (rule finish_True [OF s1(1)])
  moreover have "9 + ?k - 9 = ?k" "unat ?k = unat (spc_bits b)"
    by (simp_all only: uint_byte nat_uint_eq [symmetric]) simp
  moreover have "9 + ?k \<in> {9..25}" using s1(4) uint_ge_0 [of ?k] by (simp add: word_le_def u)
  ultimately show ?thesis using s1 by (simp add: super_ok_def fat_size_wrong_def push_bit_eq_mult)
qed

lemma fat32_fill_True:
  assumes "fat32_fill b s = (True, s1)"
  shows "dir_entries b = 0" "fat fat_type s1 = 32" "fat fat_size s1 = 8" "fat clust_eof_marker s1 = 0xFFFFFF8"
    "fat root_cluster s1 = bpb_root_cluster b" "k \<notin> {0, 2, 3, 9, 13} \<Longrightarrow> fat k s1 = fat k s"
    "fat fat_offset s1 = (if bpb_flags b AND 0x0080 \<noteq> 0
       then fat fat_offset s + c_ulong (bpb_flags b AND 0x000F) * fat fat_length s else fat fat_offset s)" "dsk s1 = dsk s"
  using assms by (auto simp: fat32_fill_def Let_def split: if_splits)

lemma fat16_fill_True:
  assumes "fat16_fill s = (True, s1)"
  shows "fat root_max s \<noteq> 0" "fat root_cluster s1 = - 1" "k \<notin> {2, 3, 9, 13} \<Longrightarrow> fat k s1 = fat k s"
    "(fat fat_type s1, fat fat_size s1, fat clust_eof_marker s1) =
       (if fati num_clust s > 4087 then (16, 4, 0xFFF8) else (12, 3, 0xFF8))" "dsk s1 = dsk s"
  using assms by (auto simp: fat16_fill_def Let_def split: if_splits)

lemma fat_mount_super:
  assumes "fat_mount env s = Some (True, s')"
  shows "super_ok s'"
proof -
  obtain b s0 where b: "devread_local env 0 0 111 (\<lambda>_. 0) 0 s = Some (True, b, s0)"
    using assms by (auto simp: fat_mount_def split: bind_splits if_splits)
  show ?thesis
  proof (cases "bpb_fat_length b = 0 \<and> fat32_length b = 0")
    case True
    then have "exfat_mount env b s0 = Some (True, s')" using assms by (simp add: fat_mount_def b)
    then show ?thesis by (rule exfat_mount_super)
  next
    case False
    obtain k s1 where s1: "log2_tmp (ucast (bpb_sects_per_clust b)) = Some k" "uint (bpb_sects_per_clust b) = 2 ^ k"
      "(if bpb_fat_length b = 0 then fat32_fill b (fat_fill b (set_fat clustsize_bits (9 + of_nat k) (set_fat sectsize_bits 9 s0)))
        else fat16_fill (fat_fill b (set_fat clustsize_bits (9 + of_nat k) (set_fat sectsize_bits 9 s0)))) = (True, s1)"
      "\<not> fat_size_wrong s1" "fat_finish env s1 = Some (True, s')"
      using assms False unfolding fat_mount_def b bind.bind_lunit prod.case
      by (auto simp: Let_def split: bind_splits if_splits prod.splits)
    let ?s = "fat_fill b (set_fat clustsize_bits (9 + of_nat k) (set_fat sectsize_bits 9 s0))"
    have k: "k \<le> 7" using s1(2) uint_byte(2) [of "bpb_sects_per_clust b"] power_increasing [of 8 k "2 :: int"]
      unfolding uint_byte by (cases "k \<le> 7") simp_all
    have "9 + of_nat k = (of_nat (9 + k) :: u32)" by simp
    then have u: "unat (9 + of_nat k :: u32) = 9 + k" using k by (simp only: unat_of_nat) simp
    then have u9: "unat (of_nat k :: u32) = k" using k by (simp add: unat_of_nat)
    have c: "9 + of_nat k \<in> {9..(25 :: u32)}" using k u by (simp add: word_le_nat_alt)
    obtain d where d: "s' = set_fat cached_fat (- 4096) (s1\<lparr>dsk := d\<rparr>)" by (rule finish_True [OF s1(5)])
    have f: "fat sectsize_bits ?s = 9" "fat clustsize_bits ?s = 9 + of_nat k" "fat sects_per_clust ?s = ucast (bpb_sects_per_clust b)"
      "fat root_max ?s = c_ulong (32 * dir_entries b)"
      by (simp_all add: fat_fill_def Let_def)
    have p: "ucast (bpb_sects_per_clust b) = (2 ^ k :: u32)"
    proof (rule uint_eq_iff [THEN iffD1])
      have "(2 :: int) ^ k < 4294967296" using power_increasing [of k 7 "2 :: int"] k by simp
      then have "uint (word_of_int (2 ^ k) :: u32) = 2 ^ k" by (simp only: uint_word_of_int) simp
      then show "uint (ucast (bpb_sects_per_clust b) :: u32) = uint (2 ^ k :: u32)" using s1(2) by (simp add: uint_byte)
    qed
    have de: "c_ulong (32 * dir_entries b) = 0 \<longleftrightarrow> dir_entries b = 0"
      using le16_range [of b 17] uint_c_ulong [of "32 * dir_entries b"] by (auto simp: dir_entries_def c_ulong_def)
    have nc: "2 < fati num_clust s1" using s1(4) by (simp add: fat_size_wrong_def)
    show ?thesis
    proof (cases "bpb_fat_length b = 0")
      case True
      then have t: "fat32_fill b ?s = (True, s1)" using s1(3) by simp
      show ?thesis
        using fat32_fill_True(1-4) [OF t] fat32_fill_True(6) [OF t] f c u9 nc p de
        unfolding d super_ok_def by simp
    next
      case False
      then have t: "fat16_fill ?s = (True, s1)" using s1(3) by simp
      show ?thesis
        using fat16_fill_True(1,2,4) [OF t] fat16_fill_True(3) [OF t] f c u9 nc p
        unfolding d super_ok_def by (simp split: if_splits)
    qed
  qed
qed

section \<open>The layout of a volume\<close>

text \<open>The numbers of a FAT12, FAT16 or FAT32 boot sector \<open>d\<close>, as the format defines them.\<close>

definition bpb_spc :: "mem \<Rightarrow> nat" where "bpb_spc d = unat (bpb_sects_per_clust d)"
definition bpb_fats :: "mem \<Rightarrow> nat" where "bpb_fats d = unat (num_fats d)"

definition bpb_total :: "mem \<Rightarrow> nat" where
  "bpb_total d = (if short_sectors d \<noteq> 0 then nat (short_sectors d) else unat (long_sectors d))"

definition bpb_fat_sectors :: "mem \<Rightarrow> nat" where
  "bpb_fat_sectors d = (if bpb_fat_length d \<noteq> 0 then nat (bpb_fat_length d) else unat (fat32_length d))"

definition bpb_active :: "mem \<Rightarrow> nat" where
  "bpb_active d = (if bpb_fat_length d = 0 \<and> bpb_flags d AND 0x80 \<noteq> 0 then nat (bpb_flags d AND 0xF) else 0)"

definition bpb_root_start :: "mem \<Rightarrow> nat" where
  "bpb_root_start d = nat (reserved_sects d) + bpb_fats d * bpb_fat_sectors d"

definition bpb_data_start :: "mem \<Rightarrow> nat" where
  "bpb_data_start d = bpb_root_start d + (32 * nat (dir_entries d) + 511) div 512"

definition bpb_clusters :: "mem \<Rightarrow> nat" where
  "bpb_clusters d = 2 + (bpb_total d - bpb_data_start d) div bpb_spc d"

definition bpb_volume :: "mem \<Rightarrow> nat \<Rightarrow> fat_volume" where
  "bpb_volume d k = \<lparr>fat_start = nat (reserved_sects d) + bpb_active d * bpb_fat_sectors d,
     nibbles = (if bpb_fat_length d = 0 then 8 else if bpb_clusters d > 4087 then 4 else 3),
     data_start = bpb_data_start d, clusters = bpb_clusters d, spc_log = k,
     eof_mark = (if bpb_fat_length d = 0 then 0xFFFFFF8 else if bpb_clusters d > 4087 then 0xFFF8 else 0xFF8)\<rparr>"

text \<open>A boot sector the driver accepts, with \<open>2 ^ k\<close> sectors per cluster.\<close>

definition bpb_ok :: "mem \<Rightarrow> nat \<Rightarrow> bool" where
  "bpb_ok d k \<longleftrightarrow> bytes_per_sect d = 512 \<and> k \<le> 7 \<and> bpb_spc d = 2 ^ k \<and> 0 < reserved_sects d \<and> bpb_fats d \<in> {1, 2} \<and>
     0 < secs_track d \<and> secs_track d \<le> 63 \<and> 0 < bpb_heads d \<and> bpb_heads d \<le> 256 \<and>
     (dir_entries d = 0 \<longleftrightarrow> bpb_fat_length d = 0) \<and> bpb_active d < bpb_fats d \<and> 0 < bpb_fat_sectors d \<and>
     bpb_total d < 268435456 \<and> bpb_data_start d + 2 ^ k \<le> bpb_total d \<and>
     nibbles (bpb_volume d k) * bpb_clusters d div 1024 \<le> bpb_fat_sectors d"

lemmas bpb_fields = bytes_per_sect_def bpb_sects_per_clust_def reserved_sects_def num_fats_def dir_entries_def short_sectors_def
  bpb_fat_length_def secs_track_def bpb_heads_def long_sectors_def fat32_length_def bpb_flags_def bpb_root_cluster_def

lemma bpb_cong:
  assumes "\<And>i. i < 111 \<Longrightarrow> b i = d i"
  shows "bpb_volume b k = bpb_volume d k" "bpb_ok b k = bpb_ok d k" "bpb_root_cluster b = bpb_root_cluster d"
    "bpb_fat_length b = bpb_fat_length d" "dir_entries b = dir_entries d" "bpb_root_start b = bpb_root_start d"
proof -
  have l: "n + 1 < 111 \<Longrightarrow> le16 b n = le16 d n" "n + 3 < 111 \<Longrightarrow> le32 b n = le32 d n" for n
    by (auto intro!: le16_cong le32_cong assms)
  have f: "bytes_per_sect b = bytes_per_sect d" "bpb_sects_per_clust b = bpb_sects_per_clust d" "reserved_sects b = reserved_sects d"
    "num_fats b = num_fats d" "short_sectors b = short_sectors d"
    "secs_track b = secs_track d" "bpb_heads b = bpb_heads d" "long_sectors b = long_sectors d" "fat32_length b = fat32_length d"
    "bpb_flags b = bpb_flags d"
    by (simp_all add: bpb_fields l assms)
  show g: "bpb_root_cluster b = bpb_root_cluster d" "bpb_fat_length b = bpb_fat_length d" "dir_entries b = dir_entries d"
    by (simp_all add: bpb_fields l assms)
  have h: "bpb_spc b = bpb_spc d" "bpb_fats b = bpb_fats d" "bpb_total b = bpb_total d" "bpb_fat_sectors b = bpb_fat_sectors d"
    "bpb_active b = bpb_active d"
    by (simp_all only: f g bpb_spc_def bpb_fats_def bpb_total_def bpb_fat_sectors_def bpb_active_def)
  show r: "bpb_root_start b = bpb_root_start d" by (simp only: bpb_root_start_def f h)
  have c: "bpb_data_start b = bpb_data_start d" "bpb_clusters b = bpb_clusters d"
    by (simp_all only: bpb_data_start_def bpb_clusters_def r g h)
  show v: "bpb_volume b k = bpb_volume d k" by (simp only: bpb_volume_def f g h c)
  show "bpb_ok b k = bpb_ok d k" by (simp only: bpb_ok_def v f g h c)
qed

lemma c_ulong_of_nat: "0 \<le> x \<Longrightarrow> c_ulong x = of_nat (nat x)"
  by (simp add: c_ulong_def)

lemma fill_fields:
  assumes "bpb_ok b k"
  shows "fat fat_offset (fat_fill b s) = of_nat (nat (reserved_sects b))"
    "fat fat_length (fat_fill b s) = of_nat (bpb_fat_sectors b)"
    "fat root_offset (fat_fill b s) = of_nat (bpb_root_start b)"
    "fat root_max (fat_fill b s) = of_nat (32 * nat (dir_entries b))"
    "fat data_offset (fat_fill b s) = of_nat (bpb_data_start b)"
    "fat num_clust (fat_fill b s) = of_nat (bpb_clusters b)"
    "10 < j \<Longrightarrow> fat j (fat_fill b s) = fat j s" "dsk (fat_fill b s) = dsk s"
proof -
  let ?R = "nat (reserved_sects b)" and ?L = "bpb_fat_sectors b" and ?T = "bpb_total b" and ?e = "nat (dir_entries b)"
  note r = le16_range [of b 14] le16_range [of b 17] le16_range [of b 19] le16_range [of b 22]
  have n: "0 \<le> reserved_sects b" "0 \<le> dir_entries b" "0 \<le> short_sectors b" "0 \<le> bpb_fat_length b" "dir_entries b < 65536"
    using r by (simp_all add: bpb_fields)
  have T: "(if short_sectors b \<noteq> 0 then c_ulong (short_sectors b) else long_sectors b) = of_nat ?T"
    using n by (simp add: bpb_total_def c_ulong_of_nat)
  have L: "(if bpb_fat_length b \<noteq> 0 then c_ulong (bpb_fat_length b) else fat32_length b) = of_nat ?L"
    using n by (simp add: bpb_fat_sectors_def c_ulong_of_nat)
  have root: "of_nat ?R + ucast (num_fats b) * of_nat ?L = (of_nat (bpb_root_start b) :: u32)"
    by (simp add: bpb_root_start_def bpb_fats_def)
  have e: "c_ulong (32 * dir_entries b) = of_nat (32 * ?e)" using n by (simp add: c_ulong_of_nat nat_mult_distrib)
  have d: "c_ulong (drop_bit 9 (c_int (of_nat (32 * ?e)) + 511)) = of_nat ((32 * ?e + 511) div 512)"
  proof -
    have "drop_bit 9 (int m + 511) = int ((m + 511) div 512)" for m by (simp add: drop_bit_eq_div zdiv_int)
    moreover have "c_int (of_nat (32 * ?e)) = int (32 * ?e)" using n by (intro c_int_of_nat) simp
    ultimately show ?thesis by (simp only: c_ulong_of_nat of_nat_0_le_iff nat_int)
  qed
  have c: "2 + (of_nat ?T - of_nat (bpb_data_start b)) div ucast (bpb_sects_per_clust b) = (of_nat (bpb_clusters b) :: u32)"
  proof -
    have le: "bpb_data_start b \<le> ?T" "?T < 4294967296" using assms by (simp_all add: bpb_ok_def)
    have "of_nat ?T - of_nat (bpb_data_start b) = (of_nat (?T - bpb_data_start b) :: u32)" using le(1) by simp
    then have "unat (of_nat ?T - of_nat (bpb_data_start b) :: u32) = ?T - bpb_data_start b" using le by (simp only: unat_of_nat) simp
    moreover have "unat (ucast (bpb_sects_per_clust b) :: u32) = bpb_spc b"
      unfolding bpb_spc_def nat_uint_eq [symmetric] uint_byte ..
    ultimately show ?thesis unfolding word_arith_nat_div bpb_clusters_def by simp
  qed
  define s1 where "s1 = set_fat num_sectors (if short_sectors b \<noteq> 0 then c_ulong (short_sectors b) else long_sectors b) s"
  define s2 where "s2 = set_fat fat_offset (c_ulong (reserved_sects b)) s1"
  define s3 where "s3 = set_fat fat_length (if bpb_fat_length b \<noteq> 0 then c_ulong (bpb_fat_length b) else fat32_length b) s2"
  define s4 where "s4 = set_fat root_offset (fat fat_offset s3 + ucast (num_fats b) * fat fat_length s3) s3"
  define s5 where "s5 = set_fat root_max (c_ulong (32 * dir_entries b)) s4"
  define s6 where "s6 = set_fat data_offset (fat root_offset s5 + c_ulong (drop_bit 9 (fati root_max s5 + 511))) s5"
  define s7 where "s7 = set_fat num_clust (2 + (fat num_sectors s6 - fat data_offset s6) div ucast (bpb_sects_per_clust b)) s6"
  have g: "fat_fill b s = set_fat sects_per_clust (ucast (bpb_sects_per_clust b)) s7"
    by (simp only: fat_fill_def Let_def s1_def s2_def s3_def s4_def s5_def s6_def s7_def)
  have f3: "fat num_sectors s3 = of_nat ?T" "fat fat_offset s3 = of_nat ?R" "fat fat_length s3 = of_nat ?L"
    unfolding s3_def s2_def s1_def T L using n by (simp_all add: c_ulong_of_nat)
  have f4: "fat root_offset s4 = of_nat (bpb_root_start b)" unfolding s4_def fat_set_fat f3 root by simp
  have f6: "fat data_offset s6 = of_nat (bpb_data_start b)" "fat num_sectors s6 = of_nat ?T"
  proof -
    have r5: "fat root_max s5 = of_nat (32 * ?e)" "fat root_offset s5 = of_nat (bpb_root_start b)"
      unfolding s5_def fat_set_fat e f4 by simp_all
    show "fat data_offset s6 = of_nat (bpb_data_start b)"
      unfolding s6_def fat_set_fat r5 d bpb_data_start_def of_nat_add by simp
    show "fat num_sectors s6 = of_nat ?T" unfolding s6_def s5_def s4_def fat_set_fat f3 by simp
  qed
  have f7: "fat num_clust s7 = of_nat (bpb_clusters b)" unfolding s7_def fat_set_fat f6 c by simp
  show "fat fat_offset (fat_fill b s) = of_nat ?R"
    "fat fat_length (fat_fill b s) = of_nat ?L"
    "fat root_offset (fat_fill b s) = of_nat (bpb_root_start b)"
    "fat root_max (fat_fill b s) = of_nat (32 * ?e)"
    "fat data_offset (fat_fill b s) = of_nat (bpb_data_start b)"
    "fat num_clust (fat_fill b s) = of_nat (bpb_clusters b)"
    "10 < j \<Longrightarrow> fat j (fat_fill b s) = fat j s" "dsk (fat_fill b s) = dsk s"
    using f3 f4 f6 f7 e unfolding g s7_def s6_def s5_def s4_def fat_set_fat by (simp_all del: One_nat_def)
      (simp_all add: s3_def s2_def s1_def)
qed

lemma log2_tmp_power: "k < 32 \<Longrightarrow> log2_tmp (2 ^ k) = Some k"
proof -
  assume k: "k < 32"
  have b: "bit (2 ^ k :: u32) i \<longleftrightarrow> i = k" for i using k by (auto simp: bit_simps)
  then have "(2 ^ k :: u32) \<noteq> 0" by (metis bit_0_eq bot_apply bot_bool_def)
  moreover have "takeWhile (\<lambda>i. \<not> bit (2 ^ k :: u32) i) [0..<32] = [0..<k]"
    unfolding b using k takeWhile_append2 [of "[0..<k]" "\<lambda>i. i \<noteq> k" "[k..<32]"] upt_add_eq_append [of 0 k "32 - k"]
    by (simp add: upt_conv_Cons)
  ultimately show ?thesis by (simp add: log2_tmp_def)
qed

context fs_device
begin

lemma read_local_ok:
  assumes "dev_ok (dsk s)" "0 < l" "sec * 512 + off + l \<le> dev_size (dsk s)" "off + l + 512 \<le> 2147483648"
  shows "\<exists>d. devread_local env (int sec) (int off) (int l) m a s =
      Some (True, write_at a (read_at (sec * 512 + off) l (content (dsk s))) m, s\<lparr>dsk := d\<rparr>) \<and>
    dev_ok d \<and> content d = content (dsk s) \<and> dev_size d = dev_size (dsk s)"
  using dev_read [OF assms, of m a] by (auto simp: devread_local_def env_devread)

text \<open>The contract of \<open>fs_mount\<close> for this driver: it accepts the volume and keeps its layout.\<close>

lemma fat_mount_ok:
  assumes dev: "dev_ok (dsk s)" and ok: "bpb_ok (content (dsk s)) k" and V: "volume_ok (dev_size (dsk s)) (bpb_volume (content (dsk s)) k)"
  shows "\<exists>s'. fat_mount env s = Some (True, s') \<and> same_dev s s' \<and> fat_mounted s' \<and> volume s' = bpb_volume (content (dsk s)) k \<and>
    fat fat_type s' \<noteq> 64 \<and> unat (fat root_offset s') = bpb_root_start (content (dsk s)) \<and>
    unat (fat root_max s') = 32 * nat (dir_entries (content (dsk s))) \<and>
    fat root_cluster s' = (if bpb_fat_length (content (dsk s)) = 0 then bpb_root_cluster (content (dsk s)) else - 1)"
proof -
  let ?d = "content (dsk s)"
  have sz: "111 \<le> dev_size (dsk s)" using V by (simp add: volume_ok_def)
  define b where "b = write_at 0 (read_at 0 111 ?d) (\<lambda>_. 0)"
  obtain e where e: "devread_local env 0 0 111 (\<lambda>_. 0) 0 s = Some (True, b, s\<lparr>dsk := e\<rparr>)"
    "dev_ok e" "content e = ?d" "dev_size e = dev_size (dsk s)"
    using read_local_ok [OF dev, of 111 0 0 "\<lambda>_. 0" 0] sz by (auto simp: b_def)
  have "b i = ?d i" if "i < 111" for i using that by (simp add: b_def write_at_def)
  note B = bpb_cong [OF this]
  have ob: "bpb_ok b k" using ok by (simp only: B)
  define w where "w = bpb_sects_per_clust b"
  have k: "k \<le> 7" "unat w = 2 ^ k" using ob by (simp_all add: bpb_ok_def bpb_spc_def w_def)
  have w: "w = of_nat (2 ^ k)" unfolding k(2) [symmetric] by simp
  have "k \<in> {0, 1, 2, 3, 4, 5, 6, 7}" using k(1) by auto
  then have c2: "w \<noteq> 0" "128 mod w = 0" unfolding w by auto
  have uw: "ucast w = (2 ^ k :: u32)"
    by (rule uint_eq_iff [THEN iffD1]) (use \<open>k \<in> {0, 1, 2, 3, 4, 5, 6, 7}\<close> in \<open>auto simp: uint_byte w\<close>)
  have c4: "log2_tmp (ucast w) = Some k" unfolding uw using k(1) by (intro log2_tmp_power) simp
  have c3: "log2_tmp (c_ulong (bytes_per_sect b)) = Some 9"
    using ob log2_tmp_power [of 9] by (simp add: bpb_ok_def c_ulong_def)
  have c1: "\<not> (bpb_fat_length b = 0 \<and> fat32_length b = 0)" using ob by (auto simp: bpb_ok_def bpb_fat_sectors_def)
  have c5: "\<not> (reserved_sects b = 0 \<or> num_fats b - 1 > 1 \<or> (secs_track b - 1) mod 65536 > 62 \<or> (bpb_heads b - 1) mod 65536 > 255)"
  proof -
    have "num_fats b = of_nat (bpb_fats b)" by (simp add: bpb_fats_def)
    then have "num_fats b \<in> {1, 2}" using ob by (auto simp: bpb_ok_def)
    then have "\<not> num_fats b - 1 > 1" by auto
    then show ?thesis using ob by (auto simp: bpb_ok_def)
  qed
  define S where "S = fat_fill b (set_fat clustsize_bits (of_nat 9 + of_nat k) (set_fat sectsize_bits (of_nat 9) (s\<lparr>dsk := e\<rparr>)))"
  define P where "P = (if bpb_fat_length b = 0 then fat32_fill b S else fat16_fill S)"
  let ?V = "bpb_volume b k"
  have Vb: "volume_ok (dev_size (dsk s)) ?V" using V by (simp only: B)
  have cl: "2 < bpb_clusters b" "bpb_clusters b < 268435456" "bpb_data_start b < 4294967296"
    using Vb by (simp_all add: volume_ok_def bpb_volume_def)
  have st: "fat_start ?V < 4294967296" using Vb by (simp add: volume_ok_def)
  note F = fill_fields [OF ob, where s = "set_fat clustsize_bits (of_nat 9 + of_nat k) (set_fat sectsize_bits (of_nat 9) (s\<lparr>dsk := e\<rparr>))",
    folded S_def]
  have "fst P \<and> fat fat_offset (snd P) = of_nat (fat_start ?V) \<and> fat fat_size (snd P) = of_nat (nibbles ?V) \<and>
    fat clust_eof_marker (snd P) = of_nat (eof_mark ?V) \<and> fat fat_type (snd P) \<noteq> 64 \<and>
    fat root_cluster (snd P) = (if bpb_fat_length b = 0 then bpb_root_cluster b else - 1) \<and>
    (\<forall>j. j \<notin> {0, 2, 3, 9, 13} \<longrightarrow> fat j (snd P) = fat j S) \<and> dsk (snd P) = dsk S"
  proof (cases "bpb_fat_length b = 0")
    case True
    then have p: "P = fat32_fill b S" by (simp add: P_def)
    have A: "0 \<le> bpb_flags b AND 15" by simp
    have "\<not> (bpb_flags b AND 0x80 \<noteq> 0 \<and> bpb_flags b AND 15 \<ge> uint (num_fats b))"
    proof -
      have "nat (bpb_flags b AND 15) < bpb_fats b" if "bpb_flags b AND 0x80 \<noteq> 0"
        using ob True that by (simp add: bpb_ok_def bpb_active_def)
      then show ?thesis unfolding bpb_fats_def using A by (auto simp: nat_less_iff simp flip: nat_uint_eq)
    qed
    then have "fst P" using ob True unfolding p fat32_fill_def by (simp add: bpb_ok_def Let_def)
    then have t: "fat32_fill b S = (True, snd P)" using p by (simp add: prod_eq_iff)
    have "fat fat_offset (snd P) = of_nat (fat_start ?V)"
      unfolding fat32_fill_True(7) [OF t] F using True A by (simp add: bpb_volume_def bpb_active_def c_ulong_of_nat)
    then show ?thesis using fat32_fill_True(2-6,8) [OF t] \<open>fst P\<close> True by (simp add: bpb_volume_def)
  next
    case False
    then have p: "P = fat16_fill S" by (simp add: P_def)
    have "0 < nat (dir_entries b)" "32 * nat (dir_entries b) < 4294967296"
      using ob False le16_range [of b 17] by (auto simp: bpb_ok_def dir_entries_def)
    then have "unat (fat root_max S) \<noteq> 0" unfolding F by (simp only: unat_of_nat) simp
    then have "fat root_max S \<noteq> 0" by auto
    then have "fst P" unfolding p fat16_fill_def by (simp add: Let_def)
    then have t: "fat16_fill S = (True, snd P)" using p by (simp add: prod_eq_iff)
    have "fati num_clust S = int (bpb_clusters b)" unfolding F using cl by (intro c_int_of_nat) simp
    then show ?thesis using fat16_fill_True [OF t] F(1) \<open>fst P\<close> False by (simp add: bpb_volume_def bpb_active_def split: if_splits)
  qed
  then have P: "fst P" "fat fat_offset (snd P) = of_nat (fat_start ?V)" "fat fat_size (snd P) = of_nat (nibbles ?V)"
    "fat clust_eof_marker (snd P) = of_nat (eof_mark ?V)" "fat fat_type (snd P) \<noteq> 64"
    "fat root_cluster (snd P) = (if bpb_fat_length b = 0 then bpb_root_cluster b else - 1)"
    "\<And>j. j \<notin> {0, 2, 3, 9, 13} \<Longrightarrow> fat j (snd P) = fat j S" "dsk (snd P) = e"
    using F(8) by auto
  have n: "nibbles ?V \<in> {3, 4, 8}" by (simp add: bpb_volume_def)
  have i: "fati num_clust (snd P) = int (bpb_clusters b)" "fati fat_size (snd P) = int (nibbles ?V)"
    "fati fat_length (snd P) = int (bpb_fat_sectors b)"
  proof -
    have "1 * bpb_fat_sectors b \<le> bpb_fats b * bpb_fat_sectors b" using ob by (intro mult_le_mono1) (auto simp: bpb_ok_def)
    then have "bpb_fat_sectors b \<le> bpb_data_start b" unfolding bpb_data_start_def bpb_root_start_def by linarith
    then have "bpb_fat_sectors b < 2147483648" using ob by (simp add: bpb_ok_def)
    then show "fati fat_length (snd P) = int (bpb_fat_sectors b)"
      using P(7) [of 1] unfolding F(2) by (simp add: c_int_of_nat)
    show "fati num_clust (snd P) = int (bpb_clusters b)" using P(7) [of 8] cl unfolding F(6) by (simp add: c_int_of_nat)
    show "fati fat_size (snd P) = int (nibbles ?V)" unfolding P(3) using n by (intro c_int_of_nat) auto
  qed
  have "nibbles ?V * bpb_clusters b < 2147483648" using n cl by auto
  then have "s32 (int (nibbles ?V) * int (bpb_clusters b)) sdiv 1024 = int (nibbles ?V * bpb_clusters b div 1024)"
    using s32_nat [of "nibbles ?V * bpb_clusters b"] by (simp add: sdiv_nonneg zdiv_int)
  moreover have "nibbles ?V * bpb_clusters b div 1024 \<le> bpb_fat_sectors b" using ob by (simp add: bpb_ok_def)
  ultimately have "\<not> fat_size_wrong (snd P)" unfolding fat_size_wrong_def i using cl by simp
  moreover have "uint w = 2 ^ k" using k(2) uint_nat [of w] by simp
  ultimately have c6: "\<not> (bytes_per_sect b \<noteq> 512 \<or> uint w \<noteq> 2 ^ k \<or> fat_size_wrong (snd P))"
    using ob by (simp add: bpb_ok_def)
  have m: "fat_mount env s = fat_finish env (snd P)"
  proof -
    have "\<not> (w = 0 \<or> 128 mod w \<noteq> 0)" using c2 by simp
    then show ?thesis using P(1)
      unfolding fat_mount_def e(1) bind.bind_lunit prod.case w_def [symmetric]
      by (simp only: not_True_eq_False if_False c1 c3 c4 c5 c6 bind.bind_lunit Let_def fat_set_fat if_True simp_thms
        S_def [symmetric] P_def [symmetric] case_prod_beta)
  qed
  have fs: "fati fat_offset (snd P) = int (fat_start ?V)" unfolding P(2) using Vb by (intro c_int_of_nat) (simp add: volume_ok_def)
  have "fat_start ?V * 512 + 0 + 4 \<le> dev_size (dsk (snd P))" using Vb unfolding P(8) e(4) by (simp add: volume_ok_def)
  then obtain x where x: "devread_local env (int (fat_start ?V)) (int 0) (int 4) (\<lambda>_. 0) 0 (snd P) =
      Some (True, write_at 0 (read_at (fat_start ?V * 512 + 0) 4 (content (dsk (snd P)))) (\<lambda>_. 0), (snd P)\<lparr>dsk := x\<rparr>)"
    "dev_ok x" "content x = ?d" "dev_size x = dev_size (dsk s)"
    using read_local_ok [of "snd P" 4 "fat_start ?V" 0 "\<lambda>_. 0" 0] e(2-4) unfolding P(8) by auto
  let ?s' = "set_fat cached_fat (- 4096) ((snd P)\<lparr>dsk := x\<rparr>)"
  have f: "fat_mount env s = Some (True, ?s')"
    unfolding m fat_finish_def fs using x(1) by simp
  have "k < 32" using k(1) by simp
  have c: "fat clustsize_bits (snd P) = of_nat (9 + k)" "fat sectsize_bits (snd P) = 9"
    using P(7) [of 12] P(7) [of 11] F(7) [of 12] F(7) [of 11] by simp_all
  have u: "unat (of_nat (9 + k) :: u32) = 9 + k" using k(1) by (simp only: unat_of_nat) simp
  have "unat (of_nat x :: u32) = x" if "x < 4294967296" for x using that by (simp add: unat_of_nat)
  note n32 = this
  have r: "bpb_root_start b < 4294967296" "32 * nat (dir_entries b) < 4294967296"
    using cl(3) le16_range [of b 17] unfolding bpb_data_start_def by (simp_all add: dir_entries_def)
  have "nibbles ?V < 4294967296" "eof_mark ?V < 4294967296" using n by (auto simp: bpb_volume_def)
  then have v: "volume ?s' = ?V"
    using P(2-4) P(7) [of 6] P(7) [of 8] st cl c u unfolding F(5,6)
    by (simp add: volume_def n32) (simp add: bpb_volume_def)
  have "fat_mounted ?s'"
    unfolding fat_mounted_def v using x(2-4) Vb c u by (simp add: fat_window_def) (simp add: bpb_volume_def)
  moreover have "unat (fat root_offset ?s') = bpb_root_start b" "unat (fat root_max ?s') = 32 * nat (dir_entries b)"
    using P(7) [of 4] P(7) [of 5] n32 [OF r(1)] n32 [OF r(2)] unfolding F(3,4) by simp_all
  moreover have "same_dev s ?s'" using x(2-4) by (simp add: same_dev_def)
  ultimately show ?thesis using f v P(5,6) by (intro exI [of _ ?s']) (simp add: B)
qed

end

end
