(* ===== verification/FatVolume.thy ===== *)
theory FatVolume
  imports FatMount MinixDirs
begin

text \<open>
  The FAT driver on a partition behind the BIOS: the properties of mounting and reading, and a small volume on
  which they are tried.
\<close>

section \<open>The root directory of FAT12 and FAT16\<close>

text \<open>The state in which \<open>fat_dir\<close> reads the first entries of a directory or \<open>fs_read\<close> a file from \<open>c\<close> on.\<close>

definition open_chain :: "u32 \<Rightarrow> nat \<Rightarrow> 'm loader \<Rightarrow> 'm loader" where
  "open_chain c f s = (set_fat current_cluster_num (c_ulong MAXINT) (set_fat file_cluster c s))\<lparr>filepos := int f\<rparr>"

text \<open>
  What a caller does with a mounted volume, in any order: it opens a chain of clusters, or reads from a position of
  the open one (\<open>grub_seek\<close> sets \<open>filepos\<close>, \<open>grub_read\<close> calls \<open>fat_read\<close>) into a buffer at an address.  A session
  collects the results of its reads; the state, with the window on the FAT and the cached cluster, is handed on from call
  to call.  Against it stands what the bytes of the volume define, and which reads stay inside their chain.
\<close>

datatype fat_call = FatOpen nat | FatRead nat nat mem nat

fun fat_session :: "'m loader_env \<Rightarrow> fat_call list \<Rightarrow> 'm loader \<Rightarrow> ((int \<times> mem) list \<times> 'm loader) option" where
  "fat_session env [] s = Some ([], s)"
| "fat_session env (FatOpen c # calls) s = fat_session env calls (open_chain (of_nat c) 0 s)"
| "fat_session env (FatRead f n buf a # calls) s = do {
     (ret, buf, s) \<leftarrow> fat_read env (int n) buf a (s\<lparr>filepos := int f\<rparr>);
     (rets, s) \<leftarrow> fat_session env calls s;
     Some ((ret, buf) # rets, s)
   }"

fun fat_results :: "fat_volume \<Rightarrow> mem \<Rightarrow> nat \<Rightarrow> fat_call list \<Rightarrow> (int \<times> mem) list" where
  "fat_results V d c [] = []"
| "fat_results V d c (FatOpen c' # calls) = fat_results V d c' calls"
| "fat_results V d c (FatRead f n buf a # calls) =
     (int n, write_at a (read_at f n (fat_file V d c)) buf) # fat_results V d c calls"

fun fat_calls_ok :: "nat \<Rightarrow> fat_volume \<Rightarrow> mem \<Rightarrow> nat \<Rightarrow> fat_call list \<Rightarrow> bool" where
  "fat_calls_ok sz V d c [] \<longleftrightarrow> True"
| "fat_calls_ok sz V d c (FatOpen c' # calls) \<longleftrightarrow> c' < 4294967296 \<and> fat_calls_ok sz V d c' calls"
| "fat_calls_ok sz V d c (FatRead f n buf a # calls) \<longleftrightarrow>
     0 < n \<and> f + n < 2147483648 \<and> chain_cover sz V d c (f + n) \<and> fat_calls_ok sz V d c calls"

lemma chain_cover_mono:
  assumes "chain_cover sz V d c e" "e' \<le> e"
  shows "chain_cover sz V d c e'"
proof -
  have "(e' + cluster_size V - 1) div cluster_size V \<le> (e + cluster_size V - 1) div cluster_size V"
    using assms(2) by (intro div_le_mono) simp
  then show ?thesis using assms(1) unfolding chain_cover_def chain_ok_def by (meson less_le_trans)
qed

lemma c_int_m1: "c_int (- 1) = - 1"
  using c_int_c_ulong [of "- 1"] by (simp add: c_ulong_def)

context fs_device
begin

lemma open_chain_mounted:
  assumes "fat_mounted s"
  shows "fat_mounted (open_chain c f s)" "volume (open_chain c f s) = volume s" "dsk (open_chain c f s) = dsk s"
    "filepos (open_chain c f s) = int f"
  using assms by (simp_all add: open_chain_def fat_mounted_def)

text \<open>The invariant that a session keeps: the volume is mounted, and the cached cluster belongs to the open chain.\<close>

definition fat_open :: "nat \<Rightarrow> 'm loader \<Rightarrow> bool" where
  "fat_open c s \<longleftrightarrow> fat_mounted s \<and> fat fat_type s \<noteq> 64 \<and> unat (fat file_cluster s) = c \<and>
     (at_chain c s \<or> fat current_cluster_num s = c_ulong MAXINT)"

lemma fat_open_chain:
  assumes "fat_mounted s" "fat fat_type s \<noteq> 64" "c < 4294967296"
  shows "fat_open c (open_chain (of_nat c) f s)"
  using assms open_chain_mounted(1) [OF assms(1)] by (simp add: fat_open_def open_chain_def unat_of_nat)

lemma fat_open_read:
  assumes "fat_open c s" "0 < n" "f + n < 2147483648"
    and "chain_cover (dev_size (dsk s)) (volume s) (content (dsk s)) c (f + n)"
  shows "\<exists>s'. fat_read env (int n) buf a (s\<lparr>filepos := int f\<rparr>) =
      Some (int n, write_at a (read_at f n (fat_file (volume s) (content (dsk s)) c)) buf, s') \<and>
    fat_open c s' \<and> same_dev s s' \<and> volume s' = volume s"
proof -
  let ?s = "s\<lparr>filepos := int f\<rparr>"
  have s: "fat_mounted ?s" "at_chain c ?s \<or> fat current_cluster_num ?s = c_ulong MAXINT" "unat (fat file_cluster ?s) = c"
    "fat fat_type ?s \<noteq> 64" "dsk ?s = dsk s" "volume ?s = volume s"
    using assms(1) by (simp_all add: fat_open_def fat_mounted_def at_chain_def)
  obtain s' where s': "fat_read env (int n) buf a ?s =
      Some (int n, write_at a (read_at f n (fat_file (volume s) (content (dsk s)) c)) buf, s')"
    "fat_mounted s'" "at_chain c s'" "same_dev ?s s'" "same_vol ?s s'"
    using fat_read_ok [OF s(1) _ assms(3,2), of c buf a] s(2-6) assms(4) by auto
  have k: "fat file_cluster s' = fat file_cluster s" "fat fat_type s' = fat fat_type s" "volume s' = volume s"
    using same_vol_fields [OF s'(5)] by simp_all
  have "same_dev s s'" using s'(4) by (simp add: same_dev_def)
  then show ?thesis using s' s(3,4) k by (auto simp: fat_open_def)
qed

lemma fat_session_ok:
  assumes "fat_open c s" "fat_calls_ok (dev_size (dsk s)) (volume s) (content (dsk s)) c calls"
  shows "\<exists>s'. fat_session env calls s = Some (fat_results (volume s) (content (dsk s)) c calls, s') \<and>
    fat_mounted s' \<and> same_dev s s' \<and> volume s' = volume s"
  using assms
proof (induction calls arbitrary: c s)
  case Nil
  then show ?case by (simp add: fat_open_def fat_mounted_def same_dev_def)
next
  case (Cons call calls)
  show ?case
  proof (cases call)
    case (FatOpen c')
    let ?s = "open_chain (of_nat c') 0 s"
    have mt: "fat_mounted s" "fat fat_type s \<noteq> 64" using Cons.prems(1) by (simp_all add: fat_open_def)
    have d: "dsk ?s = dsk s" "volume ?s = volume s" using open_chain_mounted [OF mt(1)] by simp_all
    have "same_dev s ?s" using mt(1) by (simp add: open_chain_def same_dev_def fat_mounted_def)
    moreover obtain s' where "fat_session env calls ?s = Some (fat_results (volume s) (content (dsk s)) c' calls, s')"
      "fat_mounted s'" "same_dev ?s s'" "volume s' = volume s"
      using Cons.IH [OF fat_open_chain [OF mt, of c' 0]] Cons.prems(2) d by (auto simp: FatOpen)
    ultimately show ?thesis using same_dev_trans by (auto simp: FatOpen)
  next
    case (FatRead f n buf a)
    obtain s1 where s1: "fat_read env (int n) buf a (s\<lparr>filepos := int f\<rparr>) =
        Some (int n, write_at a (read_at f n (fat_file (volume s) (content (dsk s)) c)) buf, s1)"
      "fat_open c s1" "same_dev s s1" "volume s1 = volume s"
      using fat_open_read [OF Cons.prems(1), of n f buf a] Cons.prems(2) by (auto simp: FatRead)
    have d: "content (dsk s1) = content (dsk s)" "dev_size (dsk s1) = dev_size (dsk s)"
      using s1(3) by (simp_all add: same_dev_def)
    obtain s' where "fat_session env calls s1 = Some (fat_results (volume s) (content (dsk s)) c calls, s')"
      "fat_mounted s'" "same_dev s1 s'" "volume s' = volume s"
      using Cons.IH [OF s1(2)] Cons.prems(2) unfolding d s1(4) FatRead by auto
    then show ?thesis using same_dev_trans [OF s1(3)] by (auto simp: FatRead s1(1))
  qed
qed

lemma read_root_wrong:
  assumes mt: "fat_mounted s" "fat fat_type s \<noteq> 64" and n: "0 < n" "f + n \<le> cluster_size (volume s)"
    and d: "3 * 2 ^ spc_log (volume s) \<le> data_start (volume s)" "cluster_pos (volume s) 2 \<le> dev_size (dsk s)"
  shows "\<exists>s'. fat_read env (int n) buf a (open_chain (- 1) f s) =
      Some (int n, write_at a (read_at ((data_start (volume s) - 3 * 2 ^ spc_log (volume s)) * 512 + f) n (content (dsk s))) buf, s')"
proof -
  let ?V = "volume s" and ?s0 = "open_chain (- 1) f s"
  define k where "k = spc_log ?V"
  define cs where "cs = cluster_size ?V"
  define s1 where "s1 = set_fat current_cluster (- 1) (set_fat current_cluster_num 0 ?s0)"
  have V: "k \<le> 16" "data_start ?V < 2147483648" using mt(1) by (simp_all add: fat_mounted_def volume_ok_def k_def)
  have f: "f < cs" "cs - f \<ge> n" "cs \<le> 33554432" using n V power_increasing [of k 16 "2 :: nat"] by (simp_all add: cs_def cluster_size_def k_def)
  have b: "fati clustsize_bits ?s0 = int (9 + k)" "fati sectsize_bits ?s0 = 9" "fat data_offset ?s0 = of_nat (data_start ?V)"
    using mt(1) V(1) c_int_unat [of "fat clustsize_bits s"] by (simp_all add: fat_mounted_def k_def open_chain_def c_int_def volume_def)
  have cs: "cs = 2 ^ (9 + k)" by (simp add: cs_def cluster_size_def power_add k_def)
  have bytes: "cluster_bytes ?s0 = int cs" unfolding cluster_bytes_def b cs by simp
  have lc: "c_ulong (drop_bit (nat (fati clustsize_bits ?s0)) (filepos ?s0)) = 0"
  proof -
    have "int f < 2 ^ (9 + k)" using f(1) unfolding cs by (metis of_nat_less_iff of_nat_power of_nat_numeral)
    then have "int f div 2 ^ (9 + k) = 0" by (intro div_pos_pos_trivial) simp_all
    then show ?thesis unfolding b nat_int drop_bit_eq_div by (simp add: open_chain_def c_ulong_def)
  qed
  have off: "filepos ?s0 AND (cluster_bytes ?s0 - 1) = int f"
    using take_bit_eq_mask [of "9 + k" "int f"] f(1) unfolding bytes
    by (simp add: take_bit_eq_mod mask_eq_exp_minus_1 open_chain_def cs)
  have e: "fat_read env (int n) buf a ?s0 = fat_read_loop env 0 (int f) (int n) 0 buf a s1"
    using n(1) mt(2) unfolding fat_read_def lc off s1_def by (simp add: Let_def open_chain_def c_ulong_def c_int_m1)
  have seek: "fat_seek env 0 s1 = Some (Inr (), s1)" by (subst fat_seek.simps) (simp add: s1_def)
  define sec where "sec = data_start ?V - 3 * 2 ^ k"
  have sec: "cluster_sector (fat current_cluster s1) s1 = int sec"
  proof -
    have "fat current_cluster s1 - 2 = - 3" by (simp add: s1_def)
    moreover have "fat data_offset s1 + push_bit k (- 3) = of_nat sec"
      using d(1) b(3) unfolding s1_def sec_def k_def [symmetric] by (simp add: push_bit_eq_mult of_nat_diff)
    moreover have "nat (fati clustsize_bits s1 - fati sectsize_bits s1) = k" using b(1,2) by (simp add: s1_def)
    ultimately have "cluster_sector (fat current_cluster s1) s1 = c_int (of_nat sec)" by (simp only: cluster_sector_def)
    then show ?thesis using V(2) by (simp add: c_int_of_nat sec_def)
  qed
  obtain s2 where s2: "fat_transfer env (int sec) (int f) (int n) buf a s1 =
      Some (write_at a (read_at (sec * 512 + f) n (content (dsk s))) buf, s2)" "same_dev s1 s2"
  proof -
    have "sec * 512 + f + n \<le> dev_size (dsk s1)"
    proof -
      have "cs = 512 * 2 ^ k" by (simp add: cs power_add)
      then show ?thesis using d f(2) n(2) unfolding sec_def cluster_pos_def cs_def [symmetric] k_def [symmetric]
        by (simp add: s1_def open_chain_def)
    qed
    then show ?thesis using that transfer_ok [of s1 n sec f f buf a] mt(1) n(1) n(2) [folded cs_def] f(3)
      by (auto simp: s1_def open_chain_def fat_mounted_def)
  qed
  have "err s2 = ERR_NONE" using dev_no_error s2(2) by (simp add: same_dev_def)
  then have z: "fat_read_loop env (0 + 1) 0 (int 0) (0 + c_ulong (int n)) m p s2 = Some (int n, m, s2)" for m p
    using f by (subst fat_read_loop.simps) (simp add: c_int_nat)
  have num: "(if cluster_bytes s1 - int f > int n then int n else cluster_bytes s1 - int f) = int n" "int n > 0" "int n - int n = int 0"
  proof -
    have "cluster_bytes s1 = int cs" using bytes by (simp add: s1_def cluster_bytes_def)
    then show "(if cluster_bytes s1 - int f > int n then int n else cluster_bytes s1 - int f) = int n" using f by auto
  qed (use n(1) in simp_all)
  have "fat_read_loop env 0 (int f) (int n) 0 buf a s1 =
      Some (int n, write_at a (read_at (sec * 512 + f) n (content (dsk s))) buf, s2)"
    by (subst fat_read_loop.simps)
      (simp only: num seek bind.bind_lunit prod.case sum.case sec s2(1) z Let_def not_True_eq_False simp_thms if_False if_True)
  then show ?thesis unfolding e sec_def k_def by blast
qed

end

section \<open>Properties\<close>

text \<open>C15: whatever is on the disk, a super block that \<open>fat_mount\<close> reports as mounted is well formed: sectors of 512
  bytes, clusters of 1 to 65536 sectors, a width of the entries and an end mark that belong to the type, FAT12 exactly
  below the limit, a root directory of its own exactly for FAT12 and FAT16, and an empty window on the FAT.\<close>

theorem fat_mount_well_formed:
  assumes "fat_mount env s = Some (True, s')"
  shows "super_ok s'"
  using assms by (rule fat_mount_super)

text \<open>C7: a FAT12, FAT16 or FAT32 volume whose boot sector the format allows is mounted with the layout that the boot
  sector describes.  From then on, in any sequence of opening chains of clusters and reading from any positions of them,
  forwards and backwards, every read delivers the bytes that its chain defines, from whatever window on the FAT and cached
  cluster the calls before have left behind; the volume and the partition stay as they are.\<close>

theorem fat_mount_and_read:
  assumes "lba_drive fw drive g 9 disk \<or> chs_drive fw drive g 9 disk"
    and "\<And>g0. get_diskinfo fw drive g0 = (0, g)" "drive \<in> {128..<136}" "ldisk env = bios_env fw lr ba sa"
    and "part_ok drive g disk (dsk s)" "bpb_ok (part_content disk (dsk s)) k"
    and "volume_ok (part_size (dsk s)) (bpb_volume (part_content disk (dsk s)) k)"
  shows "\<exists>s1. fat_mount env s = Some (True, s1) \<and> volume s1 = bpb_volume (part_content disk (dsk s)) k \<and>
    (\<forall>c calls. fat_calls_ok (part_size (dsk s)) (volume s1) (part_content disk (dsk s)) c (FatOpen c # calls) \<longrightarrow>
       (\<exists>s2. fat_session env (FatOpen c # calls) s1 =
          Some (fat_results (volume s1) (part_content disk (dsk s)) c calls, s2) \<and>
          volume s2 = volume s1 \<and> part_content disk (dsk s2) = part_content disk (dsk s)))"
proof -
  let ?d = "part_content disk (dsk s)" and ?sz = "part_size (dsk s)"
  note f = partition_fs [OF bios_part [OF assms(1-3)] assms(4)]
  obtain s1 where s1: "fat_mount env s = Some (True, s1)" "fs_device.same_dev (part_ok drive g disk) (part_content disk) part_size s s1"
    "fs_device.fat_mounted (part_ok drive g disk) (part_content disk) part_size s1" "volume s1 = bpb_volume ?d k" "fat fat_type s1 \<noteq> 64"
    using fs_device.fat_mount_ok [OF f assms(5-7)] by blast
  note m = fs_device.open_chain_mounted [OF f s1(3)]
  have d1: "part_content disk (dsk s1) = ?d" "part_size (dsk s1) = ?sz"
    using s1(2) by (simp_all add: fs_device.same_dev_def [OF f])
  have "\<exists>s2. fat_session env (FatOpen c # calls) s1 = Some (fat_results (volume s1) ?d c calls, s2) \<and>
      volume s2 = volume s1 \<and> part_content disk (dsk s2) = ?d"
    if "c < 4294967296" "fat_calls_ok ?sz (volume s1) ?d c calls" for c calls
    using fs_device.fat_session_ok [OF f fs_device.fat_open_chain [OF f s1(3,5) that(1)], of 0 calls] that(2)
    by (auto simp: m d1 fs_device.same_dev_def [OF f])
  then show ?thesis using s1(1,4) by auto
qed

text \<open>C19: on FAT12 and FAT16 the root directory is not read.  Its cluster is set to \<open>- 1\<close>, but \<open>fat_read\<close> asks for
  \<open>MAXINT\<close>: the first entries come from three clusters in front of the data area instead.\<close>

theorem fat16_root_misread:
  assumes "lba_drive fw drive g 9 disk \<or> chs_drive fw drive g 9 disk"
    and "\<And>g0. get_diskinfo fw drive g0 = (0, g)" "drive \<in> {128..<136}" "ldisk env = bios_env fw lr ba sa"
    and "part_ok drive g disk (dsk s)" "bpb_ok (part_content disk (dsk s)) k"
    and "volume_ok (part_size (dsk s)) (bpb_volume (part_content disk (dsk s)) k)"
    and "bpb_fat_length (part_content disk (dsk s)) \<noteq> 0" "3 * 2 ^ k \<le> bpb_data_start (part_content disk (dsk s))"
    and "bpb_data_start (part_content disk (dsk s)) * 512 \<le> part_size (dsk s)" "p + 32 \<le> 512 * 2 ^ k"
  shows "\<exists>s1 s2. fat_mount env s = Some (True, s1) \<and>
    fat_read env 32 buf a (open_chain (fat root_cluster s1) p s1) =
      Some (32, write_at a (read_at ((bpb_data_start (part_content disk (dsk s)) - 3 * 2 ^ k) * 512 + p) 32 (part_content disk (dsk s))) buf, s2)"
proof -
  let ?d = "part_content disk (dsk s)"
  note f = partition_fs [OF bios_part [OF assms(1-3)] assms(4)]
  obtain s1 where s1: "fat_mount env s = Some (True, s1)" "fs_device.same_dev (part_ok drive g disk) (part_content disk) part_size s s1"
    "fs_device.fat_mounted (part_ok drive g disk) (part_content disk) part_size s1" "volume s1 = bpb_volume ?d k" "fat fat_type s1 \<noteq> 64"
    "fat root_cluster s1 = - 1"
    using fs_device.fat_mount_ok [OF f assms(5-7)] assms(8) by auto
  have d1: "part_content disk (dsk s1) = ?d" "part_size (dsk s1) = part_size (dsk s)"
    using s1(2) by (simp_all add: fs_device.same_dev_def [OF f])
  have v: "spc_log (volume s1) = k" "data_start (volume s1) = bpb_data_start ?d" "cluster_size (volume s1) = 512 * 2 ^ k"
    "cluster_pos (volume s1) 2 = bpb_data_start ?d * 512"
    by (simp_all add: s1(4) bpb_volume_def cluster_size_def cluster_pos_def)
  have "\<exists>s2. fat_read env (int 32) buf a (open_chain (- 1) p s1) =
      Some (int 32, write_at a (read_at ((bpb_data_start ?d - 3 * 2 ^ k) * 512 + p) 32 ?d) buf, s2)"
    using fs_device.read_root_wrong [OF f s1(3,5), of 32 p buf a] assms(9-11) unfolding v d1 by simp
  then show ?thesis using s1(1) by - (rule exI [of _ s1], simp add: s1(6))
qed

section \<open>A small volume\<close>

text \<open>A FAT12 partition of 100 sectors with clusters of one sector; cluster 2 is followed by cluster 5.\<close>

definition fat_part :: mem where
  "fat_part = (\<lambda>i. case map_of
     [(12, 2), (13, 1), (14, 1), (16, 1), (17, 16), (19, 100), (21, 0xF8), (22, 1), (24, 63), (26, 16),
      (512, 0xF8), (513, 0xFF), (514, 0xFF), (515, 5), (519, 0xF0), (520, 0xFF), (2047, 91), (3072, 93)] i of
     None \<Rightarrow> 0 | Some b \<Rightarrow> b)"

definition fat_disk :: mem where
  "fat_disk = (\<lambda>i. if i < 32256 then 0 else fat_part (i - 32256))"

definition fat_state :: "mem loader" where
  "fat_state = start_loader (hd_state\<lparr>media := fat_disk\<rparr>)"

lemma fat_part_ok: "part_ok 128 (hd_geometry 1) (\<lambda>m. m) (dsk fat_state)"
proof -
  have "no_ezd (hd_geometry 1) 9 fat_disk"
    by (auto simp: no_ezd_def hd_vtrack is_ezd_def PC_SLICE_TYPE_def fat_disk_def)
  then show ?thesis
    using hd_part_ok by (simp add: part_ok_def readable_def fat_state_def start_loader_def hd_state_def)
qed

lemma fat_content: "part_content (\<lambda>m. m) (dsk fat_state) = fat_part" "part_size (dsk fat_state) = 51200"
  by (simp_all add: part_content_def part_size_def fat_disk_def fat_state_def start_loader_def hd_state_def)

lemma fat_layout:
  "bpb_fat_length fat_part = 1" "bpb_data_start fat_part = 3" "bpb_clusters fat_part = 99" "bpb_ok fat_part 0"
  "bpb_volume fat_part 0 = \<lparr>fat_start = 1, nibbles = 3, data_start = 3, clusters = 99, spc_log = 0, eof_mark = 0xFF8\<rparr>"
proof -
  have f: "bytes_per_sect fat_part = 512" "bpb_sects_per_clust fat_part = 1" "reserved_sects fat_part = 1" "num_fats fat_part = 1"
    "dir_entries fat_part = 16" "short_sectors fat_part = 100" "secs_track fat_part = 63" "bpb_heads fat_part = 16"
    by (simp_all add: bpb_fields le16_def fat_part_def)
  show l: "bpb_fat_length fat_part = 1" by (simp add: bpb_fields le16_def fat_part_def)
  have s: "bpb_fat_sectors fat_part = 1" "bpb_active fat_part = 0" "bpb_fats fat_part = 1" "bpb_total fat_part = 100" "bpb_spc fat_part = 1"
    by (simp_all add: bpb_fat_sectors_def bpb_active_def bpb_fats_def bpb_total_def bpb_spc_def f l)
  show d: "bpb_data_start fat_part = 3" by (simp add: bpb_data_start_def bpb_root_start_def s f)
  show c: "bpb_clusters fat_part = 99" by (simp add: bpb_clusters_def s d)
  show v: "bpb_volume fat_part 0 = \<lparr>fat_start = 1, nibbles = 3, data_start = 3, clusters = 99, spc_log = 0, eof_mark = 0xFF8\<rparr>"
    by (simp add: bpb_volume_def s c d l f)
  show "bpb_ok fat_part 0" by (simp add: bpb_ok_def v s c d l f)
qed

lemma fat_chain:
  "nth_cluster (bpb_volume fat_part 0) fat_part 2 1 = 5" "chain_cover 51200 (bpb_volume fat_part 0) fat_part 2 513"
  "volume_ok 51200 (bpb_volume fat_part 0)"
proof -
  show n: "nth_cluster (bpb_volume fat_part 0) fat_part 2 1 = 5"
    by (simp add: fat_layout(5) fat_value_def le16_def Let_def) (simp add: fat_part_def)
  show "chain_cover 51200 (bpb_volume fat_part 0) fat_part 2 513"
    using n by (auto simp: chain_cover_def chain_ok_def cluster_ok_def cluster_pos_def cluster_size_def fat_layout(5) less_Suc_eq numeral_2_eq_2)
  show "volume_ok 51200 (bpb_volume fat_part 0)" by (simp add: volume_ok_def fat_layout(5))
qed

text \<open>Across the end of the first cluster, back into it, and forward to the second one again.\<close>

theorem fat_mount_and_read_witness:
  "\<exists>s1 s2. fat_mount hd_loader_env fat_state = Some (True, s1) \<and>
     fat_session hd_loader_env [FatOpen 2, FatRead 511 2 (\<lambda>_. 0) 0, FatRead 510 2 (\<lambda>_. 0) 0, FatRead 512 1 (\<lambda>_. 0) 7] s1 =
       Some ([(2, write_at 0 (bs ''[]'') (\<lambda>_. 0)), (2, write_at 0 (0 # bs ''['') (\<lambda>_. 0)), (1, write_at 7 (bs '']'') (\<lambda>_. 0))], s2)"
proof -
  let ?f = "fat_file (bpb_volume fat_part 0) fat_part 2"
  have "read_at 511 2 ?f = bs ''[]''"
    using fat_chain(1) by (simp add: read_at_def upt_rec fat_file_def cluster_pos_def cluster_size_def fat_layout(5)) (simp add: fat_part_def)
  moreover have "read_at 510 2 ?f = 0 # bs ''[''"
    using fat_chain(1) by (simp add: read_at_def upt_rec fat_file_def cluster_pos_def cluster_size_def fat_layout(5)) (simp add: fat_part_def)
  moreover have "read_at 512 1 ?f = bs '']''"
    using fat_chain(1) by (simp add: read_at_def upt_rec fat_file_def cluster_pos_def cluster_size_def fat_layout(5)) (simp add: fat_part_def)
  moreover have c: "chain_cover 51200 (bpb_volume fat_part 0) fat_part 2 512"
    using chain_cover_mono [OF fat_chain(2), of 512] by simp
  moreover obtain s1 where s1: "fat_mount hd_loader_env fat_state = Some (True, s1)" "volume s1 = bpb_volume fat_part 0"
    "\<forall>c calls. fat_calls_ok 51200 (volume s1) fat_part c (FatOpen c # calls) \<longrightarrow>
       (\<exists>s2. fat_session hd_loader_env (FatOpen c # calls) s1 = Some (fat_results (volume s1) fat_part c calls, s2) \<and>
         volume s2 = volume s1 \<and> part_content (\<lambda>m. m) (dsk s2) = fat_part)"
    using fat_mount_and_read [OF disjI1 [OF hd_lba.lba_drive_axioms] hd_probe _ hd_loader_disk fat_part_ok, where k = 0, unfolded fat_content,
        OF _ fat_layout(4) fat_chain(3)] by (auto simp del: fat_session.simps fat_calls_ok.simps)
  moreover have "fat_calls_ok 51200 (volume s1) fat_part 2
      [FatOpen 2, FatRead 511 2 (\<lambda>_. 0) 0, FatRead 510 2 (\<lambda>_. 0) 0, FatRead 512 1 (\<lambda>_. 0) 7]"
    using c fat_chain(2) by (simp add: s1(2))
  ultimately show ?thesis using s1(3) [rule_format, of 2 "[FatRead 511 2 (\<lambda>_. 0) 0, FatRead 510 2 (\<lambda>_. 0) 0, FatRead 512 1 (\<lambda>_. 0) 7]"]
    by (auto simp del: fat_session.simps One_nat_def)
qed

theorem fat16_root_misread_witness:
  "\<exists>s1 s2. fat_mount hd_loader_env fat_state = Some (True, s1) \<and>
     fat_read hd_loader_env 32 (\<lambda>_. 0) 0 (open_chain (fat root_cluster s1) 0 s1) =
       Some (32, write_at 0 (read_at 0 32 fat_part) (\<lambda>_. 0), s2)"
  using fat16_root_misread [OF disjI1 [OF hd_lba.lba_drive_axioms] hd_probe _ hd_loader_disk fat_part_ok, where k = 0 and p = 0 and buf = "\<lambda>_. 0" and a = 0,
      unfolded fat_content, OF _ fat_layout(4) fat_chain(3)]
  by (simp add: fat_layout)

lemma fat_mounts: "\<exists>s1. fat_mount hd_loader_env fat_state = Some (True, s1)"
proof -
  note f = partition_fs [OF bios_part [OF disjI1 [OF hd_lba.lba_drive_axioms] hd_probe] hd_loader_disk]
  show ?thesis
    using fs_device.fat_mount_ok [OF f fat_part_ok, where k = 0, unfolded fat_content, OF _ fat_layout(4) fat_chain(3)] by auto
qed

theorem fat_mount_well_formed_witness:
  "\<exists>s1. fat_mount hd_loader_env fat_state = Some (True, s1) \<and> super_ok s1"
  using fat_mounts fat_mount_well_formed by blast

end
