(* ===== verification/Ext2.thy ===== *)
theory Ext2
  imports Fat
begin

text \<open>
  The ext2, ext3 and ext4 driver, \<open>loader/filesys/fsys_ext2fs.c\<close>, built without \<open>E2DEBUG\<close>, \<open>STAGE1_5\<close> and \<open>GRUB_UTIL\<close>.
  \<open>FSYS_BUF\<close> holds a name (at 0), the super block (at 512), a block of group descriptors (at 1536), and behind it,
  at places that depend on the block size, the inode and two blocks of block numbers.  The two static variables are
  entries of \<open>drv\<close>, as in \<open>Minix\<close>; \<open>log2_tmp\<close> is the same instruction as \<open>log2\<close> of \<open>dskaccess.c\<close>.  Blocks of more
  than 8192 bytes make these places leave the 32 KiB of \<open>FSYS_BUF\<close>; what lies behind is not modelled, the buffer is
  taken to be long enough.
\<close>

section \<open>Layout\<close>

abbreviation (input) EXT2_SUPER :: nat where "EXT2_SUPER \<equiv> 512"
abbreviation (input) GROUP_DESC :: nat where "GROUP_DESC \<equiv> 1536"
abbreviation (input) EXT2_ROOT_INO :: int where "EXT2_ROOT_INO \<equiv> 2"
abbreviation (input) EXT4_EXT_MAGIC :: int where "EXT4_EXT_MAGIC \<equiv> 0xF30A"

text \<open>Fields of \<open>struct ext2_super_block\<close>.\<close>

definition s_inodes_count :: "mem \<Rightarrow> u32" where "s_inodes_count m = le32 m EXT2_SUPER"
definition s_blocks_count :: "mem \<Rightarrow> u32" where "s_blocks_count m = le32 m (EXT2_SUPER + 4)"
definition s_first_data_block :: "mem \<Rightarrow> u32" where "s_first_data_block m = le32 m (EXT2_SUPER + 20)"
definition s_log_block_size :: "mem \<Rightarrow> u32" where "s_log_block_size m = le32 m (EXT2_SUPER + 24)"
definition s_blocks_per_group :: "mem \<Rightarrow> u32" where "s_blocks_per_group m = le32 m (EXT2_SUPER + 32)"
definition s_inodes_per_group :: "mem \<Rightarrow> u32" where "s_inodes_per_group m = le32 m (EXT2_SUPER + 40)"
definition ext2_magic :: "mem \<Rightarrow> int" where "ext2_magic m = le16 m (EXT2_SUPER + 56)"
definition s_rev_level :: "mem \<Rightarrow> u32" where "s_rev_level m = le32 m (EXT2_SUPER + 76)"
definition s_inode_size :: "mem \<Rightarrow> int" where "s_inode_size m = le16 m (EXT2_SUPER + 88)"
definition s_feature_incompat :: "mem \<Rightarrow> u32" where "s_feature_incompat m = le32 m (EXT2_SUPER + 96)"
definition s_desc_size :: "mem \<Rightarrow> int" where "s_desc_size m = le16 m (EXT2_SUPER + 254)"

text \<open>The block size; its exponent is at most 14 after a mount.\<close>

definition ext2_bits :: "mem \<Rightarrow> nat" where
  "ext2_bits m = unat (s_log_block_size m + 10)"

definition ext2_block_size :: "mem \<Rightarrow> nat" where
  "ext2_block_size m = 2 ^ ext2_bits m"

definition addr_per_block :: "mem \<Rightarrow> nat" where
  "addr_per_block m = ext2_block_size m div 4"

definition addr_per_block_bits :: "mem \<Rightarrow> nat" where
  "addr_per_block_bits m = log2 (of_nat (addr_per_block m))"

definition ext2_inode_size :: "mem \<Rightarrow> int" where
  "ext2_inode_size m = (if s_rev_level m = 0 then 128 else s_inode_size m)"

definition ext2_inodes_per_block :: "mem \<Rightarrow> int" where
  "ext2_inodes_per_block m = int (ext2_block_size m) div ext2_inode_size m"

definition incompat_64bit :: "mem \<Rightarrow> bool" where
  "incompat_64bit m \<longleftrightarrow> s_feature_incompat m AND 0x80 \<noteq> 0"

definition incompat_extents :: "mem \<Rightarrow> bool" where
  "incompat_extents m \<longleftrightarrow> s_feature_incompat m AND 0x40 \<noteq> 0"

definition ext2_desc_size :: "mem \<Rightarrow> int" where
  "ext2_desc_size m = (if incompat_64bit m then s_desc_size m else 32)"

definition ext2_desc_per_block :: "mem \<Rightarrow> int" where
  "ext2_desc_per_block m = int (ext2_block_size m) div ext2_desc_size m"

text \<open>The places behind the group descriptors; \<open>struct ext2_inode\<close> has 156 bytes.\<close>

definition ext2_inode_at :: "mem \<Rightarrow> nat" where "ext2_inode_at m = GROUP_DESC + ext2_block_size m"
definition ext2_data1 :: "mem \<Rightarrow> nat" where "ext2_data1 m = ext2_inode_at m + 156"
definition ext2_data2 :: "mem \<Rightarrow> nat" where "ext2_data2 m = ext2_data1 m + ext2_block_size m"

text \<open>Fields of the inode at its place.\<close>

definition ei_mode :: "mem \<Rightarrow> int" where "ei_mode m = le16 m (ext2_inode_at m)"
definition ei_size :: "mem \<Rightarrow> u32" where "ei_size m = le32 m (ext2_inode_at m + 4)"
definition ei_blocks :: "mem \<Rightarrow> u32" where "ei_blocks m = le32 m (ext2_inode_at m + 28)"
definition ei_flags :: "mem \<Rightarrow> u32" where "ei_flags m = le32 m (ext2_inode_at m + 32)"
definition ei_block_at :: "mem \<Rightarrow> nat" where "ei_block_at m = ext2_inode_at m + 40"
definition ei_block :: "mem \<Rightarrow> nat \<Rightarrow> u32" where "ei_block m i = le32 m (ei_block_at m + 4 * i)"
definition ei_file_acl :: "mem \<Rightarrow> u32" where "ei_file_acl m = le32 m (ext2_inode_at m + 104)"
definition ei_size_high :: "mem \<Rightarrow> u32" where "ei_size_high m = le32 m (ext2_inode_at m + 108)"

section \<open>Mounting\<close>

definition ext2_super_valid :: "mem \<Rightarrow> bool" where
  "ext2_super_valid m \<longleftrightarrow> ext2_magic m = 0xEF53 \<and> s_inodes_count m \<noteq> 0 \<and> s_blocks_count m \<noteq> 0 \<and>
     s_blocks_per_group m \<noteq> 0 \<and> s_inodes_per_group m \<noteq> 0 \<and> s_first_data_block m \<le> 1 \<and> s_log_block_size m \<le> 4 \<and>
     (if s_first_data_block m \<noteq> 0 then s_log_block_size m = 0 else s_log_block_size m \<noteq> 0) \<and>
     (s_rev_level m \<noteq> 0 \<longrightarrow> s_inode_size m \<noteq> 0 \<and> int (ext2_block_size m) mod s_inode_size m = 0)"

definition ext2_mount :: "'m loader_env \<Rightarrow> 'm loader \<Rightarrow> (bool \<times> 'm loader) option" where
  "ext2_mount env s =
     (if part_length (dsk s) < 4 then Some (False, s)
      else do {
        (ok, s) \<leftarrow> devread_buf env 2 0 1024 EXT2_SUPER s;
        Some (ok \<and> ext2_super_valid (fsys_buf s), s)
      })"

section \<open>Blocks\<close>

definition ext2_rdfsb :: "'m loader_env \<Rightarrow> int \<Rightarrow> nat \<Rightarrow> 'm loader \<Rightarrow> (bool \<times> 'm loader) option" where
  "ext2_rdfsb env fsblock buffer s =
     (let bs = int (ext2_block_size (fsys_buf s)) in devread_buf env (s32 (fsblock * (bs div 512))) 0 bs buffer s)"

text \<open>A block of block numbers, through the buffer \<open>a\<close> that holds it already when \<open>cached\<close>.\<close>

definition number_block :: "'m loader_env \<Rightarrow> bool \<Rightarrow> int \<Rightarrow> nat \<Rightarrow> 'm loader \<Rightarrow> (bool \<times> 'm loader) option" where
  "number_block env cached b a s =
     do {
       (ok, s) \<leftarrow> (if cached then Some (True, s) else ext2_rdfsb env b a s);
       Some (ok, if ok then s else set_err ERR_FSYS_CORRUPT s)
     }"

text \<open>The number at position \<open>i\<close> of the block at \<open>a\<close>.\<close>

definition number_in :: "mem \<Rightarrow> nat \<Rightarrow> nat \<Rightarrow> int" where
  "number_in m a i = c_int (le32 m (a + 4 * i))"

text \<open>Logical block \<open>lb\<close> (an \<open>unsigned long\<close>) of a file without extents.\<close>

definition ext2_block_map :: "'m loader_env \<Rightarrow> nat \<Rightarrow> 'm loader \<Rightarrow> (int \<times> 'm loader) option" where
  "ext2_block_map env lb s =
     (let m = fsys_buf s; data1 = ext2_data1 m; data2 = ext2_data2 m; n = addr_per_block m; k = addr_per_block_bits m in
      if lb < 12 then Some (c_int (ei_block m lb), s)
      else if lb - 12 < n
      then do {
        (ok, s) \<leftarrow> number_block env (mapblock1 s = 1) (c_int (ei_block m 12)) data1 s;
        if \<not> ok then Some (- 1, s)
        else let s = set_drv 0 1 s in Some (number_in (fsys_buf s) data1 (lb - 12), s)
      }
      else if lb - 12 - n < 2 ^ (k * 2)
      then
        let lb = lb - 12 - n in
        do {
          (ok, s) \<leftarrow> number_block env (mapblock1 s = 2) (c_int (ei_block m 13)) data1 s;
          if \<not> ok then Some (- 1, s)
          else do {
            let s = set_drv 0 2 s;
            let bnum = number_in (fsys_buf s) data1 (drop_bit k lb);
            (ok, s) \<leftarrow> number_block env (bnum = mapblock2 s) bnum data2 s;
            if \<not> ok then Some (- 1, s)
            else let s = set_drv 1 bnum s in Some (number_in (fsys_buf s) data2 (lb AND (n - 1)), s)
          }
        }
      else
        let s = set_drv 1 (- 1) s; lb = lb - 12 - n - 2 ^ (k * 2) in
        do {
          (ok, s) \<leftarrow> number_block env (mapblock1 s = 3) (c_int (ei_block m 14)) data1 s;
          if \<not> ok then Some (- 1, s)
          else do {
            let s = set_drv 0 3 s;
            (ok, s) \<leftarrow> number_block env False (number_in (fsys_buf s) data1 (drop_bit (k * 2) lb)) data2 s;
            if \<not> ok then Some (- 1, s)
            else do {
              (ok, s) \<leftarrow> number_block env False (number_in (fsys_buf s) data2 (drop_bit k lb AND (n - 1))) data2 s;
              if \<not> ok then Some (- 1, s) else Some (number_in (fsys_buf s) data2 (lb AND (n - 1)), s)
            }
          }
        })"

section \<open>Extents\<close>

text \<open>
  A node of the tree at \<open>h\<close>: a header of 12 bytes and entries of 12 bytes, which begin with their first logical block
  at every level.
\<close>

definition eh_magic :: "mem \<Rightarrow> nat \<Rightarrow> int" where "eh_magic m h = le16 m h"
definition eh_entries :: "mem \<Rightarrow> nat \<Rightarrow> int" where "eh_entries m h = le16 m (h + 2)"
definition eh_depth :: "mem \<Rightarrow> nat \<Rightarrow> int" where "eh_depth m h = le16 m (h + 6)"
definition ext_entry :: "nat \<Rightarrow> int \<Rightarrow> nat" where "ext_entry h i = h + 12 + 12 * nat i"
definition ext_block :: "mem \<Rightarrow> nat \<Rightarrow> int \<Rightarrow> u32" where "ext_block m h i = le32 m (ext_entry h i)"
definition ei_leaf_lo :: "mem \<Rightarrow> nat \<Rightarrow> u32" where "ei_leaf_lo m e = le32 m (e + 4)"
definition ei_leaf_hi :: "mem \<Rightarrow> nat \<Rightarrow> int" where "ei_leaf_hi m e = le16 m (e + 8)"
definition ee_block :: "mem \<Rightarrow> nat \<Rightarrow> u32" where "ee_block m e = le32 m e"
definition ee_len :: "mem \<Rightarrow> nat \<Rightarrow> int" where "ee_len m e = le16 m (e + 4)"
definition ee_start_hi :: "mem \<Rightarrow> nat \<Rightarrow> int" where "ee_start_hi m e = le16 m (e + 6)"
definition ee_start_lo :: "mem \<Rightarrow> nat \<Rightarrow> u32" where "ee_start_lo m e = le32 m (e + 8)"

text \<open>The search: \<open>l\<close> and \<open>r\<close> are positions of entries.\<close>

function ext4_search :: "mem \<Rightarrow> nat \<Rightarrow> u32 \<Rightarrow> int \<Rightarrow> int \<Rightarrow> int" where
  "ext4_search m h lb l r =
     (if l \<le> r
      then let mid = l + (r - l) sdiv 2 in
           if lb < ext_block m h mid then ext4_search m h lb l (mid - 1) else ext4_search m h lb (mid + 1) r
      else l - 1)"
  by pat_completeness auto
termination
proof (relation "measure (\<lambda>(m, h, lb, l, r). nat (r - l + 1))", simp)
  fix l r mid :: int and m :: mem and h :: nat and lb :: u32
  assume *: "l \<le> r" "mid = l + (r - l) sdiv 2"
  then have "(r - l) sdiv 2 = (r - l) div 2" by (simp add: sdiv_nonneg)
  then show "((m, h, lb, l, mid - 1), m, h, lb, l, r) \<in> measure (\<lambda>(m, h, lb, l, r). nat (r - l + 1))"
    "((m, h, lb, mid + 1, r), m, h, lb, l, r) \<in> measure (\<lambda>(m, h, lb, l, r). nat (r - l + 1))"
    using * by auto
qed

declare ext4_search.simps [simp del]

definition ext4_ext_binsearch_idx :: "mem \<Rightarrow> nat \<Rightarrow> u32 \<Rightarrow> nat" where
  "ext4_ext_binsearch_idx m h lb = ext_entry h (ext4_search m h lb 1 (eh_entries m h - 1))"

definition ext4_ext_binsearch :: "mem \<Rightarrow> nat \<Rightarrow> u32 \<Rightarrow> nat" where
  "ext4_ext_binsearch m h lb = ext_entry h (ext4_search m h lb 1 (eh_entries m h - 1))"

text \<open>Down to the leaf: \<open>Inr\<close> is its place, \<open>Inl\<close> the error with the result \<open>- 1\<close>.\<close>

partial_function (option) ext4_descend :: "'m loader_env \<Rightarrow> u32 \<Rightarrow> nat \<Rightarrow> 'm loader \<Rightarrow> ((grub_error + nat) \<times> 'm loader) option" where
  "ext4_descend env lb h s =
     (if eh_depth (fsys_buf s) h = 0 then Some (Inr h, s)
      else if eh_magic (fsys_buf s) h \<noteq> EXT4_EXT_MAGIC then Some (Inl ERR_FSYS_CORRUPT, s)
      else
        let ei = ext4_ext_binsearch_idx (fsys_buf s) h lb; data1 = ext2_data1 (fsys_buf s) in
        if ei_leaf_hi (fsys_buf s) ei \<noteq> 0 then Some (Inl ERR_FILELENGTH, s)
        else do {
          (ok, s) \<leftarrow> ext2_rdfsb env (c_int (ei_leaf_lo (fsys_buf s) ei)) data1 s;
          if \<not> ok then Some (Inl ERR_FSYS_CORRUPT, s) else ext4_descend env lb data1 s
        })"

definition ext4_block_map :: "'m loader_env \<Rightarrow> int \<Rightarrow> 'm loader \<Rightarrow> (int \<times> 'm loader) option" where
  "ext4_block_map env logical_block s =
     (let lb = c_ulong logical_block; h = ei_block_at (fsys_buf s) in
      if eh_magic (fsys_buf s) h \<noteq> EXT4_EXT_MAGIC then Some (- 1, set_err ERR_FSYS_CORRUPT s)
      else do {
        (r, s) \<leftarrow> ext4_descend env lb h s;
        case r of
          Inl e \<Rightarrow> Some (- 1, set_err e s)
        | Inr h \<Rightarrow>
            let m = fsys_buf s; ex = ext4_ext_binsearch m h lb in
            Some (if ee_start_hi m ex \<noteq> 0 then (- 1, set_err ERR_FILELENGTH s)
                  else if ee_block m ex + c_ulong (ee_len m ex) < lb then (- 1, set_err ERR_FSYS_CORRUPT s)
                  else (c_int (ee_start_lo m ex + lb - ee_block m ex), s))
      })"

text \<open>The choice between the two maps.\<close>

definition ext_map :: "'m loader_env \<Rightarrow> u32 \<Rightarrow> 'm loader \<Rightarrow> (int \<times> 'm loader) option" where
  "ext_map env lb s =
     (if incompat_extents (fsys_buf s) \<and> ei_flags (fsys_buf s) AND 0x80000 \<noteq> 0 then ext4_block_map env (c_int lb) s
      else ext2_block_map env (unat lb) s)"

section \<open>Reading\<close>

text \<open>Block 0 is a hole; a failed transfer only shows in \<open>errnum\<close>.\<close>

definition ext2_transfer :: "'m loader_env \<Rightarrow> int \<Rightarrow> u32 \<Rightarrow> u32 \<Rightarrow> mem \<Rightarrow> nat \<Rightarrow> 'm loader \<Rightarrow> (mem \<times> 'm loader) option" where
  "ext2_transfer env blk offset sz buf a s =
     (if blk = 0 then Some (write_at a (replicate (unat sz) 0) buf, s)
      else do {
        (_, buf, d) \<leftarrow> devread (ldisk env) (s32 (blk * (int (ext2_block_size (fsys_buf s)) div 512))) (c_int offset) (c_int sz) buf a
                         ((dsk s)\<lparr>disk_read_func := disk_read_hook s\<rparr>);
        Some (buf, s\<lparr>dsk := d\<lparr>disk_read_func := False\<rparr>\<rparr>)
      })"

partial_function (option) ext2_read_loop ::
  "'m loader_env \<Rightarrow> u32 \<Rightarrow> u32 \<Rightarrow> mem \<Rightarrow> nat \<Rightarrow> 'm loader \<Rightarrow> (u32 \<times> mem \<times> 'm loader) option" where
  "ext2_read_loop env len ret buf a s =
     (if \<not> len > 0 then Some (ret, buf, s)
      else do {
        let logical_block = c_ulong (drop_bit (ext2_bits (fsys_buf s)) (filepos s));
        let offset = c_ulong (filepos s AND (int (ext2_block_size (fsys_buf s)) - 1));
        (blk, s) \<leftarrow> ext_map env logical_block s;
        if blk < 0 then Some (ret, buf, s)
        else do {
          let sz = of_nat (ext2_block_size (fsys_buf s)) - offset;
          let sz = (if sz > len then len else sz);
          (buf, s) \<leftarrow> ext2_transfer env blk offset sz buf a s;
          ext2_read_loop env (len - sz) (ret + sz) buf (a + unat sz) (s\<lparr>filepos := c_int (c_ulong (filepos s) + sz)\<rparr>)
        }
      })"

definition ext2_read :: "'m loader_env \<Rightarrow> int \<Rightarrow> mem \<Rightarrow> nat \<Rightarrow> 'm loader \<Rightarrow> (int \<times> mem \<times> 'm loader) option" where
  "ext2_read env len buf a s =
     do {
       (ret, buf, s) \<leftarrow> ext2_read_loop env (c_ulong len) 0 buf a s;
       Some (if err s \<noteq> ERR_NONE then 0 else c_int ret, buf, s)
     }"

section \<open>Looking up a name\<close>

text \<open>
  The start of the outer loop: the inode \<open>ino\<close> to its fixed place.  \<open>Inl\<close> is a return of \<open>ext2fs_dir\<close>; the one with
  \<open>- 1\<close> counts as success for its caller, but comes with an error.
\<close>

definition ext2_get_inode :: "'m loader_env \<Rightarrow> int \<Rightarrow> 'm loader \<Rightarrow> ((bool + unit) \<times> 'm loader) option" where
  "ext2_get_inode env ino s =
     do {
       let m = fsys_buf s;
       let group_id = c_int (c_ulong (ino - 1) div s_inodes_per_group m);
       if ext2_desc_size m = 0 then None
       else do {
         let dpb = ext2_desc_per_block m;
         let group_desc = drop_bit (log2 (c_ulong dpb)) group_id;
         let desc = group_id AND (dpb - 1);
         (ok, s) \<leftarrow> ext2_rdfsb env (c_int (1 + c_ulong group_desc + s_first_data_block m)) GROUP_DESC s;
         if \<not> ok then Some (Inl False, s)
         else
           let gdp = GROUP_DESC + nat (desc * ext2_desc_size (fsys_buf s)) in
           if incompat_64bit (fsys_buf s) \<and> le32 (fsys_buf s) (gdp + 40) = 0 then Some (Inl True, set_err ERR_FILELENGTH s)
           else do {
             let ipb = ext2_inodes_per_block m;
             let ino_blk = le32 (fsys_buf s) (gdp + 8)
                   + drop_bit (log2 (c_ulong ipb)) (c_ulong (ino - 1) mod s_inodes_per_group m);
             (ok, s) \<leftarrow> ext2_rdfsb env (c_int ino_blk) (ext2_inode_at m) s;
             if \<not> ok then Some (Inl False, s)
             else
               let s = set_drv 0 (- 1) (set_drv 1 (- 1) s);
                   raw = ext2_inode_at m + nat (((ino - 1) AND (ipb - 1)) * ext2_inode_size m)
               in Some (Inr (), s\<lparr>fsys_buf := write_at (ext2_inode_at m) (read_at raw 156 (fsys_buf s)) (fsys_buf s)\<rparr>)
           }
       }
     }"

text \<open>A name in an entry, up to a NUL, with a backslash in front of every space.\<close>

definition quoted_name :: "u8 list \<Rightarrow> u8 list" where
  "quoted_name ns = concat (map (\<lambda>c. if c = ch CHR '' '' then [backslash, c] else [c]) (takeWhile (\<lambda>c. c \<noteq> 0) ns))"

text \<open>
  The inner loop over the entries of the directory, as in \<open>minix_scan\<close>; an entry of length 0 that does not match is
  looked at forever (\<open>None\<close>).
\<close>

partial_function (option) ext2_scan ::
  "'m loader_env \<Rightarrow> u8 list \<Rightarrow> u8 \<Rightarrow> int \<Rightarrow> int \<Rightarrow> 'm loader \<Rightarrow> ((bool + int) \<times> 'm loader) option" where
  "ext2_scan env word c loc str_chk s =
     (if c_ulong loc \<ge> ei_size (fsys_buf s)
      then Some (if print_possibilities s < 0 then (Inl True, s) else (Inl False, set_err ERR_FILE_NOT_FOUND s))
      else do {
        let data2 = ext2_data2 (fsys_buf s);
        (blk, s) \<leftarrow> ext_map env (c_ulong (drop_bit (ext2_bits (fsys_buf s)) loc)) s;
        let s = set_drv 1 (- 1) s;
        if blk < 0 then Some (Inl False, s)
        else do {
          (ok, s) \<leftarrow> ext2_rdfsb env blk data2 s;
          if \<not> ok then Some (Inl False, set_err ERR_FSYS_CORRUPT s)
          else
            let m = fsys_buf s;
                dp = data2 + nat (loc AND (int (ext2_block_size m) - 1));
                loc = s32 (loc + le16 m (dp + 4));
                ino = le32 m dp;
                name = quoted_name (read_at (dp + 8) (unat (m (dp + 6))) m);
                str_chk = (if ino \<noteq> 0 then str_prefix word name else str_chk);
                s = (if ino \<noteq> 0
                     then
                       let s = s\<lparr>fsys_buf := write_at 0 (name @ [0]) m\<rparr> in
                       if print_possibilities s \<noteq> 0 \<and> c \<noteq> ch CHR ''/'' \<and> (word = [] \<or> str_chk \<le> 0)
                       then print_a_completion name
                              (if print_possibilities s > 0 then s\<lparr>print_possibilities := - print_possibilities s\<rparr> else s)
                       else s
                     else s)
            in if ino = 0 \<or> str_chk \<noteq> 0 \<or> (print_possibilities s \<noteq> 0 \<and> c \<noteq> ch CHR ''/'')
               then ext2_scan env word c loc str_chk s
               else Some (Inr (c_int ino), s)
        }
      })"

text \<open>The rest of the path up to a space that is not quoted.\<close>

fun ext2_rest :: "u8 list \<Rightarrow> u8 list" where
  "ext2_rest [] = []"
| "ext2_rest [c] = (if name_end c then [] else [c])"
| "ext2_rest (c # d # s) =
     (if name_end c then [] else if c = backslash then c # d # ext2_rest s else c # ext2_rest (d # s))"

definition ext2_fast_symlink :: "mem \<Rightarrow> bool" where
  "ext2_fast_symlink m \<longleftrightarrow> ei_blocks m = (if ei_file_acl m \<noteq> 0 then of_nat (ext2_block_size m div 512) else 0)"

text \<open>A symbolic link, as in \<open>minix_link\<close>; the text of a short one is in the inode.  \<open>lb\<close> is \<open>linkbuf\<close>.\<close>

definition ext2_link ::
  "(int \<Rightarrow> mem \<Rightarrow> nat \<Rightarrow> 'm loader \<Rightarrow> (int \<times> mem \<times> 'm loader) option) \<Rightarrow> u8 list \<Rightarrow> mem \<Rightarrow> 'm loader
   \<Rightarrow> ((u8 list \<times> mem) option \<times> 'm loader) option" where
  "ext2_link gread dirname lb s =
     (let name = ext2_rest dirname;
          s = s\<lparr>filemax := c_int (ei_size (fsys_buf s))\<rparr>
      in if s32 (filemax s + int (length name)) > 1022
         then Some (None, set_err ERR_FILELENGTH s)
         else if filemax s < 0 then None
         else
           let lb = (write_at (nat (filemax s)) name lb)(nat (filemax s) + length name := 0);
               text = (\<lambda>lb. takeWhile (\<lambda>c. c \<noteq> 0) (read_at 0 1024 lb))
           in if \<not> ext2_fast_symlink (fsys_buf s)
              then do {
                (n, lb, s) \<leftarrow> gread (filemax s) lb 0 s;
                let s = s\<lparr>filepos := 0\<rparr>;
                Some (if n = 0 then None else Some (text lb, lb), s)
              }
              else
                let lb = write_at 0 (read_at (ei_block_at (fsys_buf s)) (nat (filemax s)) (fsys_buf s)) lb
                in Some (Some (text lb, lb), s))"

partial_function (option) ext2_walk ::
  "'m loader_env \<Rightarrow> (int \<Rightarrow> mem \<Rightarrow> nat \<Rightarrow> 'm loader \<Rightarrow> (int \<times> mem \<times> 'm loader) option) \<Rightarrow>
   int \<Rightarrow> int \<Rightarrow> nat \<Rightarrow> u8 list \<Rightarrow> mem \<Rightarrow> 'm loader \<Rightarrow> (bool \<times> 'm loader) option" where
  "ext2_walk env gread ino updir links dirname lb s =
     do {
       (r, s) \<leftarrow> ext2_get_inode env ino s;
       case r of
         Inl ok \<Rightarrow> Some (ok, s)
       | Inr _ \<Rightarrow>
           if S_ISLNK (ei_mode (fsys_buf s))
           then if links + 1 > 5 then Some (False, set_err ERR_SYMLINK_LOOP s)
                else do {
                  (r, s) \<leftarrow> ext2_link gread dirname lb s;
                  case r of
                    None \<Rightarrow> Some (False, s)
                  | Some (dirname, lb) \<Rightarrow>
                      if cur dirname = ch CHR ''/''
                      then ext2_walk env gread EXT2_ROOT_INO EXT2_ROOT_INO (links + 1) dirname lb s
                      else ext2_walk env gread updir updir (links + 1) dirname lb s
                }
           else if name_end (cur dirname)
           then Some (if \<not> S_ISREG (ei_mode (fsys_buf s)) then (False, set_err ERR_BAD_FILETYPE s)
                      else if ei_flags (fsys_buf s) AND 0x40000 \<noteq> 0 \<and> ei_size_high (fsys_buf s) = 0
                      then (False, set_err ERR_FILELENGTH s)
                      else (True, s\<lparr>filemax := c_int (ei_size (fsys_buf s))\<rparr>))
           else
             let dirname = dropWhile (\<lambda>c. c = ch CHR ''/'') dirname in
             if ei_size (fsys_buf s) = 0 \<or> \<not> S_ISDIR (ei_mode (fsys_buf s))
             then Some (False, set_err ERR_BAD_FILETYPE s)
             else do {
               let (word, rest) = fat_word dirname;
               (r, s) \<leftarrow> ext2_scan env word (cur rest) 0 0 s;
               case r of
                 Inl ok \<Rightarrow> Some (ok, s)
               | Inr ino' \<Rightarrow> ext2_walk env gread ino' ino links rest lb s
             }
     }"

definition ext2_dir ::
  "'m loader_env \<Rightarrow> (int \<Rightarrow> mem \<Rightarrow> nat \<Rightarrow> 'm loader \<Rightarrow> (int \<times> mem \<times> 'm loader) option) \<Rightarrow> mem \<Rightarrow>
   u8 list \<Rightarrow> 'm loader \<Rightarrow> (bool \<times> 'm loader) option" where
  "ext2_dir env gread lb dirname s = ext2_walk env gread EXT2_ROOT_INO EXT2_ROOT_INO 0 dirname lb s"

definition ext2_env :: "mem \<Rightarrow> 'm loader_env \<Rightarrow> 'm loader_env" where
  "ext2_env lb env = env\<lparr>fs_mount := ext2_mount env, fs_read := ext2_read env, fs_close := Some,
     fs_dir := ext2_dir env (grub_read (env\<lparr>fs_read := ext2_read env\<rparr>)) lb\<rparr>"

end
