(* ===== verification/Ext2Blocks.thy ===== *)
theory Ext2Blocks
  imports Ext2 FatFiles
begin

text \<open>
  The ext2 driver, the blocks of a file.  The bytes of an inode give them by a tree of block numbers or by a tree of
  extents, both stated here as inductive predicates over the bytes of the partition; \<open>ext2_block_map\<close> and
  \<open>ext4_block_map\<close> find what the predicates say, over any \<open>fs_device\<close>.
\<close>

section \<open>Binary search\<close>

lemma search_ok:
  assumes "\<And>i j. 0 \<le> i \<Longrightarrow> i \<le> j \<Longrightarrow> j < n \<Longrightarrow> ext_block m h i \<le> ext_block m h j"
    and "1 \<le> l" "l \<le> r + 1" "r < n" "\<And>i. 1 \<le> i \<Longrightarrow> i < l \<Longrightarrow> ext_block m h i \<le> lb" "\<And>i. r < i \<Longrightarrow> i < n \<Longrightarrow> lb < ext_block m h i"
  shows "l - 1 \<le> ext4_search m h lb l r \<and> ext4_search m h lb l r \<le> r \<and>
    (\<forall>i. 1 \<le> i \<and> i \<le> ext4_search m h lb l r \<longrightarrow> ext_block m h i \<le> lb) \<and>
    (\<forall>i. ext4_search m h lb l r < i \<and> i < n \<longrightarrow> lb < ext_block m h i)"
  using assms
proof (induction m h lb l r rule: ext4_search.induct)
  case (1 m h lb l r)
  define mid where "mid = l + (r - l) sdiv 2"
  show ?case
  proof (cases "l \<le> r")
    case False
    then have "ext4_search m h lb l r = l - 1" by (subst ext4_search.simps) simp
    then show ?thesis using 1(4-8) False by auto
  next
    case True
    then have mid: "l \<le> mid" "mid \<le> r" by (auto simp: mid_def sdiv_nonneg)
    show ?thesis
    proof (cases "lb < ext_block m h mid")
      case True
      have e: "ext4_search m h lb l r = ext4_search m h lb l (mid - 1)"
        using \<open>l \<le> r\<close> True by (subst ext4_search.simps) (simp add: mid_def Let_def)
      have "lb < ext_block m h i" if "mid - 1 < i" "i < n" for i
        using True 1(3) [of mid i] mid 1(4) that by (auto intro: less_le_trans)
      moreover have "l \<le> mid - 1 + 1" "mid - 1 < n" using mid 1(6) by simp_all
      ultimately have "l - 1 \<le> ext4_search m h lb l (mid - 1) \<and> ext4_search m h lb l (mid - 1) \<le> mid - 1 \<and>
        (\<forall>i. 1 \<le> i \<and> i \<le> ext4_search m h lb l (mid - 1) \<longrightarrow> ext_block m h i \<le> lb) \<and>
        (\<forall>i. ext4_search m h lb l (mid - 1) < i \<and> i < n \<longrightarrow> lb < ext_block m h i)"
        by (intro 1(1) [OF \<open>l \<le> r\<close> mid_def True 1(3) 1(4) _ _ 1(7)]) auto
      then show ?thesis using mid unfolding e by auto
    next
      case False
      have e: "ext4_search m h lb l r = ext4_search m h lb (mid + 1) r"
        using \<open>l \<le> r\<close> False by (subst ext4_search.simps) (simp add: mid_def Let_def)
      have "ext_block m h i \<le> lb" if "1 \<le> i" "i < mid + 1" for i
        using False 1(3) [of i mid] mid 1(6) that by (auto intro: order_trans simp: not_less)
      moreover have "1 \<le> mid + 1" "mid + 1 \<le> r + 1" using mid 1(4) by simp_all
      ultimately have "mid + 1 - 1 \<le> ext4_search m h lb (mid + 1) r \<and> ext4_search m h lb (mid + 1) r \<le> r \<and>
        (\<forall>i. 1 \<le> i \<and> i \<le> ext4_search m h lb (mid + 1) r \<longrightarrow> ext_block m h i \<le> lb) \<and>
        (\<forall>i. ext4_search m h lb (mid + 1) r < i \<and> i < n \<longrightarrow> lb < ext_block m h i)"
        by (intro 1(2) [OF \<open>l \<le> r\<close> mid_def False 1(3) _ _ 1(6) _ 1(8)]) auto
      then show ?thesis using mid unfolding e by auto
    qed
  qed
qed

section \<open>The blocks of a file\<close>

text \<open>Number \<open>j\<close> in block \<open>b\<close> of the partition \<open>d\<close> with blocks of \<open>bsz\<close> bytes; the fields of an inode.\<close>

definition number_at :: "mem \<Rightarrow> nat \<Rightarrow> nat \<Rightarrow> nat \<Rightarrow> nat" where
  "number_at d bsz b j = unat (le32 d (b * bsz + 4 * j))"

definition inode_block :: "mem \<Rightarrow> nat \<Rightarrow> nat" where
  "inode_block ino i = unat (le32 ino (40 + 4 * i))"

definition inode_extents :: "mem \<Rightarrow> bool" where
  "inode_extents ino \<longleftrightarrow> le32 ino 32 AND 0x80000 \<noteq> 0"

text \<open>Block \<open>b\<close> is inside a partition of \<open>sz\<close> bytes, at a sector number that is an \<open>int\<close>.\<close>

definition block_inside :: "nat \<Rightarrow> nat \<Rightarrow> nat \<Rightarrow> bool" where
  "block_inside sz bsz b \<longleftrightarrow> (b + 1) * bsz \<le> sz \<and> b * (bsz div 512) < 2147483648 \<and> b < 2147483648"

text \<open>A block of numbers that exists: the numbers 0 stand for holes.\<close>

definition tree_ok :: "nat \<Rightarrow> nat \<Rightarrow> nat \<Rightarrow> bool" where
  "tree_ok sz bsz b \<longleftrightarrow> b \<noteq> 0 \<and> block_inside sz bsz b"

text \<open>\<open>tree_block\<close>: logical block \<open>lb\<close> is block \<open>z\<close>, through up to three levels of numbers, \<open>n = bsz div 4\<close> in a block.\<close>

inductive tree_block :: "nat \<Rightarrow> mem \<Rightarrow> nat \<Rightarrow> mem \<Rightarrow> nat \<Rightarrow> nat \<Rightarrow> bool" for sz d bsz ino where
  direct: "lb < 12 \<Longrightarrow> tree_block sz d bsz ino lb (inode_block ino lb)"
| single: "j < bsz div 4 \<Longrightarrow> tree_ok sz bsz (inode_block ino 12) \<Longrightarrow>
    tree_block sz d bsz ino (12 + j) (number_at d bsz (inode_block ino 12) j)"
| double: "j < bsz div 4 \<Longrightarrow> i < bsz div 4 \<Longrightarrow> tree_ok sz bsz (inode_block ino 13) \<Longrightarrow>
    tree_ok sz bsz (number_at d bsz (inode_block ino 13) i) \<Longrightarrow>
    tree_block sz d bsz ino (12 + bsz div 4 + i * (bsz div 4) + j) (number_at d bsz (number_at d bsz (inode_block ino 13) i) j)"
| triple: "j < bsz div 4 \<Longrightarrow> i < bsz div 4 \<Longrightarrow> k < bsz div 4 \<Longrightarrow> tree_ok sz bsz (inode_block ino 14) \<Longrightarrow>
    tree_ok sz bsz (number_at d bsz (inode_block ino 14) k) \<Longrightarrow>
    tree_ok sz bsz (number_at d bsz (number_at d bsz (inode_block ino 14) k) i) \<Longrightarrow>
    tree_block sz d bsz ino (12 + bsz div 4 + (bsz div 4) * (bsz div 4) + (k * (bsz div 4) + i) * (bsz div 4) + j)
      (number_at d bsz (number_at d bsz (number_at d bsz (inode_block ino 14) k) i) j)"

text \<open>
  A node of the tree of extents in \<open>n\<close> bytes at \<open>h\<close>, with its entries in order, and the entry that is responsible for
  block \<open>lb\<close>: the last one that does not begin behind it.
\<close>

definition node_sorted :: "mem \<Rightarrow> nat \<Rightarrow> nat \<Rightarrow> bool" where
  "node_sorted m h n \<longleftrightarrow> 0 < eh_entries m h \<and> 12 + 12 * eh_entries m h \<le> int n \<and>
     (\<forall>i j. 0 \<le> i \<and> i \<le> j \<and> j < eh_entries m h \<longrightarrow> ext_block m h i \<le> ext_block m h j)"

definition chosen_entry :: "mem \<Rightarrow> nat \<Rightarrow> u32 \<Rightarrow> int \<Rightarrow> bool" where
  "chosen_entry m h lb i \<longleftrightarrow> 0 \<le> i \<and> i < eh_entries m h \<and> (0 < i \<longrightarrow> ext_block m h i \<le> lb) \<and>
     (\<forall>j. i < j \<and> j < eh_entries m h \<longrightarrow> lb < ext_block m h j)"

lemma single_sorted:
  assumes "eh_entries m h = 1" "24 \<le> n"
  shows "node_sorted m h n"
proof -
  have "ext_block m h i \<le> ext_block m h j" if "0 \<le> i" "i \<le> j" "j < 1" for i j
  proof -
    have "i = j" using that by linarith
    then show ?thesis by simp
  qed
  then show ?thesis using assms by (simp add: node_sorted_def)
qed

lemma chosen_unique: "chosen_entry m h lb i \<Longrightarrow> chosen_entry m h lb j \<Longrightarrow> i = j"
  unfolding chosen_entry_def by (metis leD linorder_cases order_le_less_trans)

lemma binsearch_ok:
  assumes "node_sorted m h n"
  obtains i where "chosen_entry m h lb i" "ext4_ext_binsearch m h lb = ext_entry h i" "ext4_ext_binsearch_idx m h lb = ext_entry h i"
proof -
  have s: "0 \<le> i \<Longrightarrow> i \<le> j \<Longrightarrow> j < eh_entries m h \<Longrightarrow> ext_block m h i \<le> ext_block m h j" for i j
    using assms by (simp add: node_sorted_def)
  have n: "0 < eh_entries m h" using assms by (simp add: node_sorted_def)
  define i where "i = ext4_search m h lb 1 (eh_entries m h - 1)"
  have "0 \<le> i" "i < eh_entries m h" "\<forall>j. 1 \<le> j \<and> j \<le> i \<longrightarrow> ext_block m h j \<le> lb"
    "\<forall>j. i < j \<and> j < eh_entries m h \<longrightarrow> lb < ext_block m h j"
    using search_ok [of "eh_entries m h" m h 1 "eh_entries m h - 1" lb, OF s] n unfolding i_def by auto
  then have "chosen_entry m h lb i" by (auto simp: chosen_entry_def)
  then show ?thesis by (rule that) (simp_all add: ext4_ext_binsearch_def ext4_ext_binsearch_idx_def i_def)
qed

lemma binsearch_chosen:
  assumes "node_sorted m h n" "chosen_entry m h lb i"
  shows "ext4_ext_binsearch m h lb = ext_entry h i" "ext4_ext_binsearch_idx m h lb = ext_entry h i"
  using binsearch_ok [OF assms(1), of lb] chosen_unique [OF assms(2)] by metis+

text \<open>The reference for the search: entry by entry.\<close>

definition linear_entry :: "mem \<Rightarrow> nat \<Rightarrow> u32 \<Rightarrow> int" where
  "linear_entry m h lb = int (length (takeWhile (\<lambda>i. ext_block m h (int i) \<le> lb) [1..<nat (eh_entries m h)]))"

lemma linear_chosen:
  assumes "node_sorted m h n"
  shows "chosen_entry m h lb (linear_entry m h lb)"
proof -
  let ?e = "nat (eh_entries m h)" and ?P = "\<lambda>i. ext_block m h (int i) \<le> lb"
  define k where "k = length (takeWhile ?P [1..<?e])"
  have e: "0 < ?e" "int ?e = eh_entries m h" using assms by (simp_all add: node_sorted_def)
  have "k \<le> ?e - 1" using length_takeWhile_le [of ?P "[1..<?e]"] by (simp add: k_def)
  then have k: "k < ?e" using e(1) by linarith
  have in_k: "?P k" if "0 < k"
    using nth_mem [of "k - 1" "takeWhile ?P [1..<?e]"] that k set_takeWhileD [of k ?P "[1..<?e]"]
    by (auto simp: k_def takeWhile_nth)
  have "\<not> ?P (k + 1)" if "k + 1 < ?e"
    using nth_length_takeWhile [of ?P "[1..<?e]"] that by (simp add: k_def)
  then have "lb < ext_block m h j" if "int k < j" "j < eh_entries m h" for j
  proof -
    have "ext_block m h (int (k + 1)) \<le> ext_block m h j" using that assms by (simp add: node_sorted_def)
    moreover have "k + 1 < ?e" using that by linarith
    ultimately show ?thesis using \<open>k + 1 < ?e \<Longrightarrow> \<not> ?P (k + 1)\<close> by (simp add: less_le_trans)
  qed
  moreover have "linear_entry m h lb = int k" by (simp add: linear_entry_def k_def)
  moreover have "int k < eh_entries m h" using k by linarith
  ultimately show ?thesis using in_k unfolding chosen_entry_def by simp
qed

text \<open>
  \<open>leaf_block\<close>: the leaf at \<open>h\<close> has an extent with block \<open>lb\<close>, which is block \<open>z\<close> of the partition.  An extent of at
  most 32768 blocks has been written; numbers are below 2 ^ 31, as the driver keeps them in an \<open>int\<close>.
\<close>

definition leaf_block :: "mem \<Rightarrow> nat \<Rightarrow> nat \<Rightarrow> u32 \<Rightarrow> nat \<Rightarrow> bool" where
  "leaf_block m h n lb z \<longleftrightarrow> eh_depth m h = 0 \<and> node_sorted m h n \<and> (\<exists>i. chosen_entry m h lb i \<and>
     (let e = ext_entry h i in ee_start_hi m e = 0 \<and> ee_len m e \<le> 32768 \<and> uint (ee_block m e) \<le> uint lb \<and>
        uint lb < uint (ee_block m e) + ee_len m e \<and> uint (ee_block m e) + ee_len m e < 4294967296 \<and>
        uint (ee_start_lo m e) + ee_len m e \<le> 2147483648 \<and> int z = uint (ee_start_lo m e) + (uint lb - uint (ee_block m e))))"

text \<open>\<open>extent_block\<close>: the node in \<open>n\<close> bytes at \<open>h\<close> of \<open>m\<close> gives logical block \<open>lb\<close> the place \<open>z\<close>.\<close>

inductive extent_block :: "nat \<Rightarrow> mem \<Rightarrow> nat \<Rightarrow> mem \<Rightarrow> nat \<Rightarrow> nat \<Rightarrow> u32 \<Rightarrow> nat \<Rightarrow> bool" for sz d bsz where
  leaf: "eh_magic m h = EXT4_EXT_MAGIC \<Longrightarrow> leaf_block m h n lb z \<Longrightarrow> extent_block sz d bsz m h n lb z"
| index: "eh_magic m h = EXT4_EXT_MAGIC \<Longrightarrow> eh_depth m h \<noteq> 0 \<Longrightarrow> node_sorted m h n \<Longrightarrow> chosen_entry m h lb i \<Longrightarrow>
    ei_leaf_hi m (ext_entry h i) = 0 \<Longrightarrow> block_inside sz bsz (unat (ei_leaf_lo m (ext_entry h i))) \<Longrightarrow>
    extent_block sz d bsz d (unat (ei_leaf_lo m (ext_entry h i)) * bsz) bsz lb z \<Longrightarrow>
    extent_block sz d bsz m h n lb z"

lemma extent_block_magic: "extent_block sz d bsz m h n lb z \<Longrightarrow> eh_magic m h = EXT4_EXT_MAGIC"
  by (cases rule: extent_block.cases)

section \<open>What reading leaves alone\<close>

definition same_front :: "'m loader \<Rightarrow> 'm loader \<Rightarrow> bool" where
  "same_front s s' \<longleftrightarrow> (\<forall>i\<ge>EXT2_SUPER. i < ext2_data1 (fsys_buf s) \<longrightarrow> fsys_buf s' i = fsys_buf s i) \<and> filepos s' = filepos s \<and>
     filemax s' = filemax s \<and> disk_read_hook s' = disk_read_hook s \<and> print_possibilities s' = print_possibilities s"

lemmas super_fields = s_inodes_count_def s_blocks_count_def s_first_data_block_def s_log_block_size_def s_blocks_per_group_def
  s_inodes_per_group_def ext2_magic_def s_rev_level_def s_inode_size_def s_feature_incompat_def s_desc_size_def

lemma super_cong:
  assumes "\<forall>i\<in>{EXT2_SUPER..<GROUP_DESC}. m' i = m i"
  shows "s_first_data_block m' = s_first_data_block m" "s_inodes_per_group m' = s_inodes_per_group m"
    "ext2_bits m' = ext2_bits m" "ext2_block_size m' = ext2_block_size m" "addr_per_block m' = addr_per_block m"
    "addr_per_block_bits m' = addr_per_block_bits m" "ext2_inode_size m' = ext2_inode_size m"
    "ext2_inodes_per_block m' = ext2_inodes_per_block m" "incompat_64bit m' = incompat_64bit m"
    "incompat_extents m' = incompat_extents m" "ext2_desc_size m' = ext2_desc_size m" "ext2_desc_per_block m' = ext2_desc_per_block m"
    "ext2_inode_at m' = ext2_inode_at m" "ext2_data1 m' = ext2_data1 m" "ext2_data2 m' = ext2_data2 m"
    "ext2_super_valid m' = ext2_super_valid m" "ei_block_at m' = ei_block_at m"
proof -
  have l: "512 \<le> n \<Longrightarrow> n + 1 < 1536 \<Longrightarrow> le16 m' n = le16 m n" "512 \<le> n \<Longrightarrow> n + 3 < 1536 \<Longrightarrow> le32 m' n = le32 m n" for n
    by (auto intro!: le16_cong le32_cong bspec [OF assms])
  have f: "s_inodes_count m' = s_inodes_count m" "s_blocks_count m' = s_blocks_count m" "s_log_block_size m' = s_log_block_size m"
    "s_blocks_per_group m' = s_blocks_per_group m" "ext2_magic m' = ext2_magic m" "s_rev_level m' = s_rev_level m"
    "s_inode_size m' = s_inode_size m" "s_feature_incompat m' = s_feature_incompat m" "s_desc_size m' = s_desc_size m"
    by (simp_all add: super_fields l)
  show g: "s_first_data_block m' = s_first_data_block m" "s_inodes_per_group m' = s_inodes_per_group m"
    by (simp_all add: super_fields l)
  show b: "ext2_bits m' = ext2_bits m" by (simp add: ext2_bits_def f)
  show c: "ext2_block_size m' = ext2_block_size m" by (simp add: ext2_block_size_def b)
  show d: "addr_per_block m' = addr_per_block m" "ext2_inode_size m' = ext2_inode_size m" "incompat_64bit m' = incompat_64bit m"
    "incompat_extents m' = incompat_extents m" "ext2_inode_at m' = ext2_inode_at m"
    by (simp_all add: addr_per_block_def c ext2_inode_size_def f incompat_64bit_def incompat_extents_def ext2_inode_at_def)
  then show e: "addr_per_block_bits m' = addr_per_block_bits m" "ext2_inodes_per_block m' = ext2_inodes_per_block m"
    "ext2_desc_size m' = ext2_desc_size m" "ext2_data1 m' = ext2_data1 m" "ei_block_at m' = ei_block_at m"
    by (simp_all add: addr_per_block_bits_def ext2_inodes_per_block_def c ext2_desc_size_def f ext2_data1_def ei_block_at_def)
  then show "ext2_desc_per_block m' = ext2_desc_per_block m" "ext2_data2 m' = ext2_data2 m"
    by (simp_all add: ext2_desc_per_block_def c ext2_data2_def)
  show "ext2_super_valid m' = ext2_super_valid m" by (simp only: ext2_super_valid_def f g c)
qed

text \<open>The inode at its place; the driver looks at the first 128 bytes of it.\<close>

definition has_inode :: "mem \<Rightarrow> mem \<Rightarrow> bool" where
  "has_inode ino m \<longleftrightarrow> (\<forall>i<128. m (ext2_inode_at m + i) = ino i)"

lemma inode_fields:
  assumes "has_inode ino m"
  shows "i < 15 \<Longrightarrow> unat (ei_block m i) = inode_block ino i" "ei_flags m = le32 ino 32" "ei_size m = le32 ino 4"
    "ei_mode m = le16 ino 0" "ei_size_high m = le32 ino 108"
proof -
  let ?a = "ext2_inode_at m"
  have m: "m (?a + i) = ino i" if "i < 128" for i using assms that by (simp add: has_inode_def)
  have w: "le32 m (?a + i) = le32 ino i" if "i + 3 < 128" for i
    using m [of i] m [of "i + 1"] m [of "i + 2"] m [of "i + 3"] that by (simp add: le32_def le16_def add.assoc numeral_3_eq_3 numeral_2_eq_2)
  show "i < 15 \<Longrightarrow> unat (ei_block m i) = inode_block ino i"
    using w [of "40 + 4 * i"] by (simp add: ei_block_def ei_block_at_def inode_block_def add.assoc)
  show "ei_flags m = le32 ino 32" "ei_size m = le32 ino 4" "ei_size_high m = le32 ino 108"
    using w [of 32] w [of 4] w [of 108] by (simp_all add: ei_flags_def ei_size_def ei_size_high_def)
  show "ei_mode m = le16 ino 0" using m [of 0] m [of 1] by (simp add: ei_mode_def le16_def)
qed

lemma same_front_super:
  assumes "same_front s s'"
  shows "\<forall>i\<in>{EXT2_SUPER..<GROUP_DESC}. fsys_buf s' i = fsys_buf s i"
  using assms by (simp add: same_front_def ext2_data1_def ext2_inode_at_def)

lemma same_front_trans:
  assumes "same_front s s'" "same_front s' s''"
  shows "same_front s s''"
  using assms super_cong(14) [OF same_front_super [OF assms(1)]] by (simp add: same_front_def)

lemma same_front_refl [simp]: "same_front s s"
  by (simp add: same_front_def)

lemma same_front_simps [simp]:
  "same_front s (set_drv k v s') = same_front s s'" "same_front s (set_err e s') = same_front s s'"
  "same_front s (s'\<lparr>dsk := d\<rparr>) = same_front s s'"
  by (simp_all add: same_front_def set_err_def)

lemma same_front_inode:
  assumes "same_front s s'" "has_inode ino (fsys_buf s)"
  shows "has_inode ino (fsys_buf s')"
proof -
  have "ext2_inode_at (fsys_buf s') = ext2_inode_at (fsys_buf s)" by (rule super_cong(13) [OF same_front_super [OF assms(1)]])
  moreover have "fsys_buf s' (ext2_inode_at (fsys_buf s) + i) = fsys_buf s (ext2_inode_at (fsys_buf s) + i)" if "i < 128" for i
    using assms(1) that by (simp add: same_front_def ext2_data1_def ext2_inode_at_def)
  ultimately show ?thesis using assms(2) by (simp add: has_inode_def)
qed

section \<open>The driver over a device\<close>

text \<open>A block size the driver accepts.\<close>

definition ext2_ready :: "mem \<Rightarrow> bool" where
  "ext2_ready m \<longleftrightarrow> 10 \<le> ext2_bits m \<and> ext2_bits m \<le> 14"

lemma log2_pow: "k < 32 \<Longrightarrow> log2 (2 ^ k) = k"
proof -
  assume k: "k < 32"
  have "bit (2 ^ k :: u32) i \<longleftrightarrow> i = k" for i using k by (auto simp: bit_simps)
  then have "List.find (bit (2 ^ k :: u32)) [0..<32] = Some k" using k unfolding find_Some_iff by (intro exI [of _ k]) auto
  then show ?thesis by (simp add: log2_def)
qed

lemma ready_size:
  assumes "ext2_ready m"
  shows "addr_per_block_bits m = ext2_bits m - 2" "addr_per_block m = 2 ^ (ext2_bits m - 2)"
    "ext2_block_size m = 4 * addr_per_block m" "ext2_block_size m = 512 * (ext2_block_size m div 512)"
    "1024 \<le> ext2_block_size m" "ext2_block_size m \<le> 16384"
proof -
  define k where "k = ext2_bits m - 10"
  have k: "ext2_bits m = k + 10" "k \<le> 4" using assms by (auto simp: ext2_ready_def k_def)
  have bsz: "ext2_block_size m = 1024 * 2 ^ k" by (simp add: ext2_block_size_def k(1) power_add)
  then have a: "addr_per_block m = 256 * 2 ^ k" unfolding addr_per_block_def by simp
  show p: "addr_per_block m = 2 ^ (ext2_bits m - 2)" by (simp add: a k(1) power_add)
  show "addr_per_block_bits m = ext2_bits m - 2"
    unfolding addr_per_block_bits_def p using log2_pow [of "ext2_bits m - 2"] k by simp
  show "ext2_block_size m = 4 * addr_per_block m" "ext2_block_size m = 512 * (ext2_block_size m div 512)" by (simp_all add: bsz a)
  show "1024 \<le> ext2_block_size m" "ext2_block_size m \<le> 16384"
    using power_increasing [OF k(2), of "2 :: nat"] by (simp_all add: bsz)
qed

context fs_device
begin

lemma ext2_rdfsb_ok:
  assumes "dev_ok (dsk s)" "ext2_ready (fsys_buf s)" "block_inside (dev_size (dsk s)) (ext2_block_size (fsys_buf s)) b"
  shows "\<exists>s'. ext2_rdfsb env (int b) a s = Some (True, s') \<and> same_dev s s' \<and> drv s' = drv s \<and>
    fsys_buf s' = write_at a (read_at (b * ext2_block_size (fsys_buf s)) (ext2_block_size (fsys_buf s)) (content (dsk s))) (fsys_buf s) \<and>
    print_possibilities s' = print_possibilities s \<and> (ext2_data1 (fsys_buf s) \<le> a \<longrightarrow> same_front s s')"
proof -
  define bsz where "bsz = ext2_block_size (fsys_buf s)"
  note r = ready_size [OF assms(2), folded bsz_def]
  have e: "b * (bsz div 512) * 512 + 0 = b * bsz" using r(4) by (simp add: algebra_simps)
  have i: "b * (bsz div 512) < 2147483648" "b * bsz + bsz \<le> dev_size (dsk s)"
    using assms(3) by (simp_all add: block_inside_def bsz_def algebra_simps)
  have q: "int b * (int bsz div 512) = int (b * (bsz div 512))" by (simp only: of_nat_mult zdiv_int of_nat_numeral)
  have k: "s32 (int b * (int bsz div 512)) = int (b * (bsz div 512))" unfolding q by (rule s32_nat [OF i(1)])
  obtain d where "devread_buf env (int (b * (bsz div 512))) (int 0) (int bsz) a s =
      Some (True, s\<lparr>fsys_buf := write_at a (read_at (b * bsz) bsz (content (dsk s))) (fsys_buf s), dsk := d\<rparr>)"
    "dev_ok d" "content d = content (dsk s)" "dev_size d = dev_size (dsk s)"
    using read_buf_ok [OF assms(1), of bsz "b * (bsz div 512)" 0 a] i r(5,6) unfolding e by auto
  then show ?thesis
    unfolding ext2_rdfsb_def bsz_def [symmetric] Let_def k
    by (auto simp: same_dev_def same_front_def write_at_outside)
qed

text \<open>The buffers hold the blocks that the static variables say.\<close>

definition ext2_cache :: "mem \<Rightarrow> 'm loader \<Rightarrow> bool" where
  "ext2_cache ino s \<longleftrightarrow>
     (\<forall>k\<in>{1, 2, 3}. mapblock1 s = int k \<longrightarrow>
        read_at (ext2_data1 (fsys_buf s)) (ext2_block_size (fsys_buf s)) (fsys_buf s) =
        read_at (inode_block ino (11 + k) * ext2_block_size (fsys_buf s)) (ext2_block_size (fsys_buf s)) (content (dsk s))) \<and>
     (0 \<le> mapblock2 s \<longrightarrow>
        read_at (ext2_data2 (fsys_buf s)) (ext2_block_size (fsys_buf s)) (fsys_buf s) =
        read_at (nat (mapblock2 s) * ext2_block_size (fsys_buf s)) (ext2_block_size (fsys_buf s)) (content (dsk s)))"

definition ext2_at :: "mem \<Rightarrow> 'm loader \<Rightarrow> bool" where
  "ext2_at ino s \<longleftrightarrow> dev_ok (dsk s) \<and> ext2_ready (fsys_buf s) \<and> has_inode ino (fsys_buf s)"

lemma ext2_at_cong:
  assumes "ext2_at ino s" "same_dev s s'" "same_front s s'"
  shows "ext2_at ino s'"
  using assms super_cong(3) [OF same_front_super [OF assms(3)]] same_front_inode [OF assms(3)]
  by (simp add: ext2_at_def ext2_ready_def same_dev_def)

text \<open>A block of numbers in the buffer \<open>a\<close>, behind the inode.\<close>

lemma number_block_ok:
  assumes at: "ext2_at ino s" and b: "block_inside (dev_size (dsk s)) (ext2_block_size (fsys_buf s)) b"
    and a: "ext2_data1 (fsys_buf s) \<le> a"
    and c: "cached \<Longrightarrow> read_at a (ext2_block_size (fsys_buf s)) (fsys_buf s) =
      read_at (b * ext2_block_size (fsys_buf s)) (ext2_block_size (fsys_buf s)) (content (dsk s))"
  shows "\<exists>s'. number_block env cached (int b) a s = Some (True, s') \<and> same_dev s s' \<and> same_front s s' \<and> drv s' = drv s \<and>
    (\<forall>x n. x + n \<le> a \<or> a + ext2_block_size (fsys_buf s) \<le> x \<longrightarrow> read_at x n (fsys_buf s') = read_at x n (fsys_buf s)) \<and>
    read_at a (ext2_block_size (fsys_buf s)) (fsys_buf s') =
      read_at (b * ext2_block_size (fsys_buf s)) (ext2_block_size (fsys_buf s)) (content (dsk s))"
proof (cases cached)
  case True
  then show ?thesis using at c same_dev_refl by (auto simp: number_block_def ext2_at_def)
next
  case False
  obtain s' where s': "ext2_rdfsb env (int b) a s = Some (True, s')" "same_dev s s'" "drv s' = drv s" "same_front s s'"
    "fsys_buf s' = write_at a (read_at (b * ext2_block_size (fsys_buf s)) (ext2_block_size (fsys_buf s)) (content (dsk s))) (fsys_buf s)"
    using ext2_rdfsb_ok [of s b a] at b a unfolding ext2_at_def by blast
  then show ?thesis using False
    by (auto simp: number_block_def read_write_inside read_write_outside take_read_at)
qed

end

lemma number_in_block:
  assumes "read_at a bsz m = read_at (b * bsz) bsz d" "4 * i + 4 \<le> bsz" "number_at d bsz b i < 2147483648"
  shows "number_in m a i = int (number_at d bsz b i)"
  using le32_read_at [OF assms(1), of "4 * i"] assms(2,3) c_int_unat [of "le32 m (a + 4 * i)"]
  by (simp add: number_in_def number_at_def)

text \<open>Splitting a block number at powers of \<open>n = 2 ^ k\<close>.\<close>

lemma and_mask_mod: "(x :: nat) AND (2 ^ k - 1) = x mod 2 ^ k"
  using take_bit_eq_mask [of k x] by (simp add: take_bit_eq_mod mask_eq_exp_minus_1)

lemma two_digits:
  fixes i j n :: nat
  assumes "j < n"
  shows "(i * n + j) div n = i" "(i * n + j) mod n = j" "i < n \<Longrightarrow> i * n + j < n * n"
proof -
  show "(i * n + j) div n = i" "(i * n + j) mod n = j" using assms by simp_all
  assume "i < n"
  then have "(i + 1) * n \<le> n * n" by (intro mult_right_mono) auto
  then show "i * n + j < n * n" using assms by simp
qed

lemma three_digits:
  fixes i j k n :: nat
  assumes "j < n" "i < n"
  shows "((k * n + i) * n + j) div (n * n) = k" "((k * n + i) * n + j) div n mod n = i" "((k * n + i) * n + j) mod n = j"
  using two_digits [OF assms(1), of "k * n + i"] two_digits [OF assms(2), of k] by (simp_all add: div_mult2_eq)

context fs_device
begin

lemma ext2_cacheD:
  assumes "ext2_cache ino s" "k \<in> {1, 2, 3}" "mapblock1 s = int k"
  shows "read_at (ext2_data1 (fsys_buf s)) (ext2_block_size (fsys_buf s)) (fsys_buf s) =
        read_at (inode_block ino (11 + k) * ext2_block_size (fsys_buf s)) (ext2_block_size (fsys_buf s)) (content (dsk s))"
  using assms unfolding ext2_cache_def by blast

text \<open>The first block of numbers, \<open>k = 1, 2, 3\<close>.\<close>

lemma map_block1_ok:
  assumes at: "ext2_at ino s" and k: "k \<in> {1, 2, 3}"
    and b: "block_inside (dev_size (dsk s)) (ext2_block_size (fsys_buf s)) (inode_block ino (11 + k))"
    and c: "mapblock1 s = int k \<Longrightarrow> read_at (ext2_data1 (fsys_buf s)) (ext2_block_size (fsys_buf s)) (fsys_buf s) =
        read_at (inode_block ino (11 + k) * ext2_block_size (fsys_buf s)) (ext2_block_size (fsys_buf s)) (content (dsk s))"
  shows "\<exists>s'. number_block env (mapblock1 s = int k) (c_int (ei_block (fsys_buf s) (11 + k))) (ext2_data1 (fsys_buf s)) s = Some (True, s') \<and>
    same_dev s s' \<and> same_front s s' \<and> drv s' = drv s \<and>
    read_at (ext2_data2 (fsys_buf s)) (ext2_block_size (fsys_buf s)) (fsys_buf s') =
      read_at (ext2_data2 (fsys_buf s)) (ext2_block_size (fsys_buf s)) (fsys_buf s) \<and>
    read_at (ext2_data1 (fsys_buf s)) (ext2_block_size (fsys_buf s)) (fsys_buf s') =
      read_at (inode_block ino (11 + k) * ext2_block_size (fsys_buf s)) (ext2_block_size (fsys_buf s)) (content (dsk s))"
proof -
  have "unat (ei_block (fsys_buf s) (11 + k)) = inode_block ino (11 + k)"
    using at k inode_fields(1) [of ino "fsys_buf s" "11 + k"] by (auto simp: ext2_at_def)
  then have e: "c_int (ei_block (fsys_buf s) (11 + k)) = int (inode_block ino (11 + k))"
    using b c_int_unat [of "ei_block (fsys_buf s) (11 + k)"] by (simp add: block_inside_def)
  show ?thesis
    using number_block_ok [OF at b order_refl, of "mapblock1 s = int k", OF c] unfolding e
    by (auto simp: ext2_data2_def)
qed

lemma ext2_block_map_ok:
  assumes at: "ext2_at ino s" and cache: "ext2_cache ino s"
    and t: "tree_block (dev_size (dsk s)) (content (dsk s)) (ext2_block_size (fsys_buf s)) ino lb z" and z: "z < 2147483648"
  shows "\<exists>s'. ext2_block_map env lb s = Some (int z, s') \<and> same_dev s s' \<and> same_front s s' \<and> ext2_cache ino s'"
proof -
  define bsz n k where d: "bsz = ext2_block_size (fsys_buf s)" "n = addr_per_block (fsys_buf s)" "k = addr_per_block_bits (fsys_buf s)"
  have "ext2_ready (fsys_buf s)" using at by (simp add: ext2_at_def)
  note r = ready_size [OF this]
  have b: "n = 2 ^ k" "bsz div 4 = n" "bsz = 4 * n" "2 ^ (k * 2) = n * n" "0 < n"
    using r unfolding d by (simp_all add: power_mult power2_eq_square)
  have dig: "lb AND (n - 1) = lb mod n" "drop_bit k lb = lb div n" "drop_bit (k * 2) lb = lb div (n * n)" for lb
    unfolding b(1) by (simp_all add: and_mask_mod drop_bit_eq_div power_mult power2_eq_square del: One_nat_def)
  let ?d = "content (dsk s)" and ?m = "fsys_buf s"
  have dev: "dev_ok (dsk s)" using at by (simp add: ext2_at_def)
  from t show ?thesis
  proof (cases rule: tree_block.cases)
    case direct
    have "ei_block ?m lb = le32 ?m (ext2_inode_at ?m + 40 + 4 * lb)" by (simp add: ei_block_def ei_block_at_def)
    have "unat (ei_block ?m lb) = z" using direct at inode_fields(1) [of ino ?m lb] by (simp add: ext2_at_def)
    then have "ext2_block_map env lb s = Some (int z, s)"
      using direct z c_int_unat [of "ei_block ?m lb"] by (simp add: ext2_block_map_def Let_def)
    then show ?thesis using cache same_dev_refl [OF dev] by auto
  next
    case (single j)
    note single = single [folded d, unfolded b(2)]
    have "block_inside (dev_size (dsk s)) bsz (inode_block ino (11 + 1))" using single(4) by (simp add: tree_ok_def)
    from map_block1_ok [OF at _ this [unfolded d] ext2_cacheD [OF cache, of 1]]
    obtain s' where s': "number_block env (mapblock1 s = 1) (c_int (ei_block ?m 12)) (ext2_data1 ?m) s = Some (True, s')"
      "same_dev s s'" "same_front s s'" "drv s' = drv s"
      "read_at (ext2_data2 ?m) bsz (fsys_buf s') = read_at (ext2_data2 ?m) bsz ?m"
      "read_at (ext2_data1 ?m) bsz (fsys_buf s') = read_at (inode_block ino 12 * bsz) bsz ?d"
      by (auto simp: d)
    have num: "number_in (fsys_buf s') (ext2_data1 ?m) j = int z"
      using number_in_block [OF s'(6), of j] single(2,3) z b(3) by simp
    have c: "\<not> lb < 12" "lb - 12 = j" "j < n" using single by auto
    have "ext2_block_map env lb s = Some (int z, set_drv 0 1 s')"
      unfolding ext2_block_map_def d(2,3) [symmetric] Let_def
      by (simp only: c if_False if_True s'(1) bind.bind_lunit prod.case not_True_eq_False set_drv_simps num)
    moreover have "ext2_cache ino (set_drv 0 1 s')"
      using cache s'(2-6) super_cong(4,14,15) [OF same_front_super [OF s'(3)]]
      by (simp add: ext2_cache_def mapblock1_def mapblock2_def same_dev_def d)
    ultimately show ?thesis using s'(2,3) by (auto simp: same_dev_def)
  next
    case (double j i)
    note double = double [folded d, unfolded b(2)]
    let ?b = "number_at ?d bsz (inode_block ino 13) i"
    have ins: "block_inside (dev_size (dsk s)) bsz (inode_block ino (11 + 2))" "block_inside (dev_size (dsk s)) bsz ?b"
      using double(5,6) by (simp_all add: tree_ok_def)
    from map_block1_ok [OF at _ ins(1) [unfolded d] ext2_cacheD [OF cache, of 2]]
    obtain s1 where s1: "number_block env (mapblock1 s = 2) (c_int (ei_block ?m 13)) (ext2_data1 ?m) s = Some (True, s1)"
      "same_dev s s1" "same_front s s1" "drv s1 = drv s"
      "read_at (ext2_data2 ?m) bsz (fsys_buf s1) = read_at (ext2_data2 ?m) bsz ?m"
      "read_at (ext2_data1 ?m) bsz (fsys_buf s1) = read_at (inode_block ino 13 * bsz) bsz ?d"
      by (auto simp: d)
    have num: "number_in (fsys_buf s1) (ext2_data1 ?m) i = int ?b"
      using number_in_block [OF s1(6), of i] double(4) ins(2) b(3) by (simp add: block_inside_def)
    let ?s = "set_drv 0 2 s1"
    have at1: "ext2_at ino ?s" using ext2_at_cong [OF at s1(2,3)] by (simp add: ext2_at_def)
    have sz: "ext2_block_size (fsys_buf s1) = bsz" "ext2_data1 (fsys_buf s1) = ext2_data1 ?m" "ext2_data2 (fsys_buf s1) = ext2_data2 ?m"
      using super_cong(4,14,15) [OF same_front_super [OF s1(3)]] d by simp_all
    have c2: "read_at (ext2_data2 ?m) bsz (fsys_buf s1) = read_at (?b * bsz) bsz ?d" if "int ?b = mapblock2 ?s"
    proof -
      have "mapblock2 s = int ?b" using that s1(4) by (simp add: mapblock2_def)
      then show ?thesis using cache s1(5) by (simp add: ext2_cache_def d)
    qed
    have dev1: "content (dsk ?s) = ?d" "dev_size (dsk ?s) = dev_size (dsk s)" using s1(2) by (simp_all add: same_dev_def)
    obtain s2 where s2: "number_block env (int ?b = mapblock2 ?s) (int ?b) (ext2_data2 ?m) ?s = Some (True, s2)"
      "same_dev ?s s2" "same_front ?s s2" "drv s2 = drv ?s"
      "read_at (ext2_data1 ?m) bsz (fsys_buf s2) = read_at (ext2_data1 ?m) bsz (fsys_buf ?s)"
      "read_at (ext2_data2 ?m) bsz (fsys_buf s2) = read_at (?b * bsz) bsz ?d"
      using number_block_ok [OF at1, of ?b "ext2_data2 ?m" "int ?b = mapblock2 ?s"] ins(2) c2 unfolding dev1
      by (auto simp: sz ext2_data2_def d)
    have num2: "number_in (fsys_buf s2) (ext2_data2 ?m) j = int z"
      using number_in_block [OF s2(6), of j] double(2,3) z b(3) by simp
    have c: "\<not> lb < 12" "\<not> lb - 12 < n" "lb - 12 - n = i * n + j" "i * n + j < n * n"
      "(i * n + j) div n = i" "(i * n + j) mod n = j"
      using double(1) two_digits [OF double(3)] double(4) by simp_all
    have "ext2_block_map env lb s = Some (int z, set_drv 1 (int ?b) s2)"
      unfolding ext2_block_map_def d(2,3) [symmetric] Let_def dig b(4)
      by (simp only: c if_False if_True s1(1) bind.bind_lunit prod.case not_True_eq_False set_drv_simps num s2(1) num2)
    moreover have "ext2_cache ino (set_drv 1 (int ?b) s2)"
      using s1(2-6) s2(2-6) sz super_cong(4,14,15) [OF same_front_super [OF s2(3)]]
      by (simp add: ext2_cache_def mapblock1_def mapblock2_def same_dev_def d)
    moreover have "same_front s (set_drv 1 (int ?b) s2)" using same_front_trans [OF s1(3), of s2] s2(3) by (simp add: same_front_def)
    ultimately show ?thesis using s1(2) s2(2) by (auto simp: same_dev_def)
  next
    case (triple j i l)
    note triple = triple [folded d, unfolded b(2)]
    let ?b1 = "number_at ?d bsz (inode_block ino 14) l"
    let ?b2 = "number_at ?d bsz ?b1 i"
    have ins: "block_inside (dev_size (dsk s)) bsz (inode_block ino (11 + 3))" "block_inside (dev_size (dsk s)) bsz ?b1"
      "block_inside (dev_size (dsk s)) bsz ?b2"
      using triple(6,7,8) by (simp_all add: tree_ok_def)
    let ?s0 = "set_drv 1 (- 1) s"
    have at0: "ext2_at ino ?s0" using at by (simp add: ext2_at_def)
    have c0: "read_at (ext2_data1 (fsys_buf ?s0)) (ext2_block_size (fsys_buf ?s0)) (fsys_buf ?s0) =
        read_at (inode_block ino (11 + 3) * ext2_block_size (fsys_buf ?s0)) (ext2_block_size (fsys_buf ?s0)) (content (dsk ?s0))"
      if "mapblock1 ?s0 = int 3" using ext2_cacheD [OF cache, of 3] that by (simp add: mapblock1_def)
    have i0: "block_inside (dev_size (dsk ?s0)) (ext2_block_size (fsys_buf ?s0)) (inode_block ino (11 + 3))" using ins(1) by (simp add: d)
    obtain s1 where s1: "number_block env (mapblock1 ?s0 = 3) (c_int (ei_block ?m 14)) (ext2_data1 ?m) ?s0 = Some (True, s1)"
      "same_dev s s1" "same_front s s1" "drv s1 = drv ?s0"
      "read_at (ext2_data1 ?m) bsz (fsys_buf s1) = read_at (inode_block ino 14 * bsz) bsz ?d"
      using map_block1_ok [OF at0 _ i0 c0] by (auto simp: d same_dev_def same_front_def)
    have num: "number_in (fsys_buf s1) (ext2_data1 ?m) l = int ?b1"
      using number_in_block [OF s1(5), of l] triple(5) ins(2) b(3) by (simp add: block_inside_def)
    let ?s = "set_drv 0 3 s1"
    have at1: "ext2_at ino ?s" using ext2_at_cong [OF at s1(2,3)] by (simp add: ext2_at_def)
    have sz: "ext2_block_size (fsys_buf s1) = bsz" "ext2_data1 (fsys_buf s1) = ext2_data1 ?m" "ext2_data2 (fsys_buf s1) = ext2_data2 ?m"
      using super_cong(4,14,15) [OF same_front_super [OF s1(3)]] d by simp_all
    have dev1: "content (dsk ?s) = ?d" "dev_size (dsk ?s) = dev_size (dsk s)" using s1(2) by (simp_all add: same_dev_def)
    obtain s2 where s2: "number_block env False (int ?b1) (ext2_data2 ?m) ?s = Some (True, s2)"
      "same_dev ?s s2" "same_front ?s s2" "drv s2 = drv ?s"
      "read_at (ext2_data1 ?m) bsz (fsys_buf s2) = read_at (ext2_data1 ?m) bsz (fsys_buf ?s)"
      "read_at (ext2_data2 ?m) bsz (fsys_buf s2) = read_at (?b1 * bsz) bsz ?d"
      using number_block_ok [OF at1, of ?b1 "ext2_data2 ?m" False] ins(2) unfolding dev1
      by (auto simp: sz ext2_data2_def d)
    have num2: "number_in (fsys_buf s2) (ext2_data2 ?m) i = int ?b2"
      using number_in_block [OF s2(6), of i] triple(4) ins(3) b(3) by (simp add: block_inside_def)
    have at2: "ext2_at ino s2" using ext2_at_cong [OF at1 s2(2,3)] .
    have sz2: "ext2_block_size (fsys_buf s2) = bsz" "ext2_data1 (fsys_buf s2) = ext2_data1 ?m" "ext2_data2 (fsys_buf s2) = ext2_data2 ?m"
      using super_cong(4,14,15) [OF same_front_super [OF s2(3)]] sz by simp_all
    have dev2: "content (dsk s2) = ?d" "dev_size (dsk s2) = dev_size (dsk s)" using s1(2) s2(2) by (simp_all add: same_dev_def)
    obtain s3 where s3: "number_block env False (int ?b2) (ext2_data2 ?m) s2 = Some (True, s3)"
      "same_dev s2 s3" "same_front s2 s3" "drv s3 = drv s2"
      "read_at (ext2_data1 ?m) bsz (fsys_buf s3) = read_at (ext2_data1 ?m) bsz (fsys_buf s2)"
      "read_at (ext2_data2 ?m) bsz (fsys_buf s3) = read_at (?b2 * bsz) bsz ?d"
      using number_block_ok [OF at2, of ?b2 "ext2_data2 ?m" False] ins(3) unfolding dev2
      by (auto simp: sz2 ext2_data2_def d)
    have num3: "number_in (fsys_buf s3) (ext2_data2 ?m) j = int z"
      using number_in_block [OF s3(6), of j] triple(2,3) z b(3) by simp
    have c: "\<not> lb < 12" "\<not> lb - 12 < n" "\<not> lb - 12 - n < n * n" "lb - 12 - n - n * n = (l * n + i) * n + j"
      "((l * n + i) * n + j) div (n * n) = l" "((l * n + i) * n + j) div n mod n = i" "((l * n + i) * n + j) mod n = j"
      using triple(1) three_digits [OF triple(3,4)] by simp_all
    have "ext2_block_map env lb s = Some (int z, s3)"
      unfolding ext2_block_map_def d(2,3) [symmetric] Let_def dig b(4)
      by (simp only: c if_False if_True s1(1) bind.bind_lunit prod.case not_True_eq_False set_drv_simps num s2(1) num2 s3(1) num3)
    moreover have "ext2_cache ino s3"
      using s1(2-5) s2(2-5) s3(2-5) sz2 super_cong(4,14,15) [OF same_front_super [OF s3(3)]]
      by (simp add: ext2_cache_def mapblock1_def mapblock2_def same_dev_def d)
    moreover have "same_front s s3" using same_front_trans [OF same_front_trans [OF s1(3), of s2] s3(3)] s2(3) by (simp add: same_front_def)
    ultimately show ?thesis using s1(2) s2(2) s3(2) by (auto simp: same_dev_def)
  qed
qed

end

text \<open>A node that is a copy of another one.\<close>

lemma node_copy:
  assumes "read_at h n m = read_at h' n m'" "node_sorted m h n"
  shows "eh_magic m' h' = eh_magic m h" "eh_entries m' h' = eh_entries m h" "eh_depth m' h' = eh_depth m h"
    "\<And>i k. 0 \<le> i \<Longrightarrow> i < eh_entries m h \<Longrightarrow> k + 3 < 12 \<Longrightarrow> le32 m' (ext_entry h' i + k) = le32 m (ext_entry h i + k)"
    "\<And>i k. 0 \<le> i \<Longrightarrow> i < eh_entries m h \<Longrightarrow> k + 1 < 12 \<Longrightarrow> le16 m' (ext_entry h' i + k) = le16 m (ext_entry h i + k)"
    "node_sorted m' h' n" "chosen_entry m' h' lb i = chosen_entry m h lb i"
proof -
  have n: "12 + 12 * eh_entries m h \<le> int n" "0 < eh_entries m h" using assms(2) by (simp_all add: node_sorted_def)
  have l: "k + 1 < n \<Longrightarrow> le16 m' (h' + k) = le16 m (h + k)" "k + 3 < n \<Longrightarrow> le32 m' (h' + k) = le32 m (h + k)" for k
    using le16_read_at [OF assms(1), of k] le32_read_at [OF assms(1), of k] by simp_all
  have n2: "24 \<le> n" using n by linarith
  show e: "eh_magic m' h' = eh_magic m h" "eh_entries m' h' = eh_entries m h" "eh_depth m' h' = eh_depth m h"
    using l(1) [of 0] l(1) [of 2] l(1) [of 6] n2 by (simp_all add: eh_magic_def eh_entries_def eh_depth_def)
  have p: "12 + 12 * nat i + k < n" if "0 \<le> i" "i < eh_entries m h" "k < 12" for i k using that n(1) by linarith
  show w: "le32 m' (ext_entry h' i + k) = le32 m (ext_entry h i + k)" if "0 \<le> i" "i < eh_entries m h" "k + 3 < 12" for i k
    using l(2) [of "12 + 12 * nat i + k"] p [OF that(1,2), of "k + 3"] that(3) by (simp add: ext_entry_def add.assoc)
  show "le16 m' (ext_entry h' i + k) = le16 m (ext_entry h i + k)" if "0 \<le> i" "i < eh_entries m h" "k + 1 < 12" for i k
    using l(1) [of "12 + 12 * nat i + k"] p [OF that(1,2), of "k + 1"] that(3) by (simp add: ext_entry_def add.assoc)
  have b: "ext_block m' h' i = ext_block m h i" if "0 \<le> i" "i < eh_entries m h" for i
    using w [OF that, of 0] by (simp add: ext_block_def)
  show "node_sorted m' h' n" using assms(2) b by (simp add: node_sorted_def e)
  show "chosen_entry m' h' lb i = chosen_entry m h lb i" using b by (auto simp: chosen_entry_def e)
qed

lemmas entry_fields = ei_leaf_lo_def ei_leaf_hi_def ee_block_def ee_len_def ee_start_hi_def ee_start_lo_def

lemma leaf_copy:
  assumes "read_at h n m = read_at h' n m'" "leaf_block m h n lb z"
  shows "leaf_block m' h' n lb z"
proof -
  have s: "node_sorted m h n" using assms(2) by (simp add: leaf_block_def)
  note c = node_copy [OF assms(1) s]
  obtain i where i: "chosen_entry m h lb i" "let e = ext_entry h i in ee_start_hi m e = 0 \<and> ee_len m e \<le> 32768 \<and> uint (ee_block m e) \<le> uint lb \<and>
        uint lb < uint (ee_block m e) + ee_len m e \<and> uint (ee_block m e) + ee_len m e < 4294967296 \<and>
        uint (ee_start_lo m e) + ee_len m e \<le> 2147483648 \<and> int z = uint (ee_start_lo m e) + (uint lb - uint (ee_block m e))"
    using assms(2) by (auto simp: leaf_block_def)
  then have r: "0 \<le> i" "i < eh_entries m h" by (simp_all add: chosen_entry_def)
  have f: "ee_start_hi m' (ext_entry h' i) = ee_start_hi m (ext_entry h i)" "ee_len m' (ext_entry h' i) = ee_len m (ext_entry h i)"
    "ee_block m' (ext_entry h' i) = ee_block m (ext_entry h i)" "ee_start_lo m' (ext_entry h' i) = ee_start_lo m (ext_entry h i)"
    using c(4) [OF r, of 0] c(4) [OF r, of 8] c(5) [OF r, of 4] c(5) [OF r, of 6] by (simp_all add: entry_fields)
  show ?thesis unfolding leaf_block_def
    using assms(2) c(3,6) i c(7) [of lb i] by (intro conjI exI [of _ i]) (simp_all add: leaf_block_def Let_def f)
qed

context fs_device
begin

lemma descend_ok:
  assumes "extent_block sz d bsz m h n lb z"
    and "ext2_at ino s" "content (dsk s) = d" "dev_size (dsk s) = sz" "ext2_block_size (fsys_buf s) = bsz"
    and "read_at h n m = read_at h' n (fsys_buf s)"
  shows "\<exists>h1 n1 s'. ext4_descend env lb h' s = Some (Inr h1, s') \<and> same_dev s s' \<and> same_front s s' \<and> drv s' = drv s \<and>
    leaf_block (fsys_buf s') h1 n1 lb z"
  using assms
proof (induction arbitrary: h' s rule: extent_block.induct)
  case (leaf m h n lb z)
  have "leaf_block (fsys_buf s) h' n lb z" using leaf_copy [OF leaf.prems(5) leaf.hyps(2)] by simp
  moreover from this have "ext4_descend env lb h' s = Some (Inr h', s)"
    by (subst ext4_descend.simps) (simp add: leaf_block_def)
  moreover have "same_dev s s" using leaf.prems(1) by (simp add: ext2_at_def same_dev_refl)
  ultimately show ?case by auto
next
  case (index m h n lb i z)
  note c = node_copy [OF index.prems(5) index.hyps(3)]
  have r: "0 \<le> i" "i < eh_entries m h" using index.hyps(4) by (simp_all add: chosen_entry_def)
  let ?e = "ext_entry h' i"
  have f: "ei_leaf_hi (fsys_buf s) ?e = 0" "ei_leaf_lo (fsys_buf s) ?e = ei_leaf_lo m (ext_entry h i)"
    using c(4) [OF r, of 4] c(5) [OF r, of 8] index.hyps(5) by (simp_all add: entry_fields)
  define b where "b = unat (ei_leaf_lo m (ext_entry h i))"
  have e: "ext4_ext_binsearch_idx (fsys_buf s) h' lb = ?e"
    using binsearch_chosen(2) [OF c(6), of lb i] c(7) [of lb i] index.hyps(4) by simp
  have bl: "c_int (ei_leaf_lo (fsys_buf s) ?e) = int b"
    using c_int_unat [of "ei_leaf_lo m (ext_entry h i)"] index.hyps(6) unfolding f(2) b_def by (simp add: block_inside_def)
  let ?a = "ext2_data1 (fsys_buf s)"
  obtain s1 where s1: "ext2_rdfsb env (int b) ?a s = Some (True, s1)" "same_dev s s1" "drv s1 = drv s"
    "fsys_buf s1 = write_at ?a (read_at (b * bsz) bsz d) (fsys_buf s)" "same_front s s1"
    using ext2_rdfsb_ok [of s b ?a] index.hyps(6) index.prems(1-4) unfolding ext2_at_def b_def by auto
  have "ext4_descend env lb h' s = ext4_descend env lb ?a s1"
    by (subst ext4_descend.simps)
      (simp only: c(1,3) index.hyps(1,2) e f(1) bl s1(1) Let_def if_False if_True simp_thms bind.bind_lunit prod.case not_True_eq_False)
  moreover have "ext2_at ino s1" by (rule ext2_at_cong [OF index.prems(1) s1(2,5)])
  moreover have "read_at (b * bsz) bsz d = read_at ?a bsz (fsys_buf s1)"
    using read_write_same [of ?a "read_at (b * bsz) bsz d" "fsys_buf s"] s1(4) by simp
  moreover have "ext2_block_size (fsys_buf s1) = bsz" using super_cong(4) [OF same_front_super [OF s1(5)]] index.prems(4) by simp
  moreover have "content (dsk s1) = d" "dev_size (dsk s1) = sz" using s1(2) index.prems(2,3) by (simp_all add: same_dev_def)
  ultimately obtain h1 n1 s' where "ext4_descend env lb h' s = Some (Inr h1, s')" "same_dev s1 s'" "same_front s1 s'" "drv s' = drv s1"
      "leaf_block (fsys_buf s') h1 n1 lb z"
    using index.IH [of s1 ?a] unfolding b_def by auto
  then show ?case using same_dev_trans [OF s1(2)] same_front_trans [OF s1(5)] s1(3) by auto
qed

lemma ext4_block_map_ok:
  assumes t: "extent_block (dev_size (dsk s)) (content (dsk s)) (ext2_block_size (fsys_buf s)) ino 40 60 lb z"
    and at: "ext2_at ino s" and blk: "lbi = c_int lb"
  shows "\<exists>s'. ext4_block_map env lbi s = Some (int z, s') \<and> same_dev s s' \<and> same_front s s' \<and> drv s' = drv s"
proof -
  let ?h = "ei_block_at (fsys_buf s)"
  have e: "read_at 40 60 ino = read_at ?h 60 (fsys_buf s)"
  proof (rule nth_equalityI)
    fix i assume "i < length (read_at 40 60 ino)"
    then show "read_at 40 60 ino ! i = read_at ?h 60 (fsys_buf s) ! i"
      using at [unfolded ext2_at_def has_inode_def] by (simp add: ei_block_at_def add.assoc)
  qed simp
  have m: "eh_magic (fsys_buf s) ?h = EXT4_EXT_MAGIC"
    using extent_block_magic [OF t] le16_read_at [OF e, of 0] by (simp add: eh_magic_def)
  obtain h1 n1 s1 where s1: "ext4_descend env lb ?h s = Some (Inr h1, s1)" "same_dev s s1" "same_front s s1" "drv s1 = drv s"
    "leaf_block (fsys_buf s1) h1 n1 lb z"
    using descend_ok [OF t at refl refl refl e] by blast
  then obtain i where n: "node_sorted (fsys_buf s1) h1 n1" and i: "chosen_entry (fsys_buf s1) h1 lb i" and
    p: "let e = ext_entry h1 i in ee_start_hi (fsys_buf s1) e = 0 \<and> ee_len (fsys_buf s1) e \<le> 32768 \<and> uint (ee_block (fsys_buf s1) e) \<le> uint lb \<and>
        uint lb < uint (ee_block (fsys_buf s1) e) + ee_len (fsys_buf s1) e \<and> uint (ee_block (fsys_buf s1) e) + ee_len (fsys_buf s1) e < 4294967296 \<and>
        uint (ee_start_lo (fsys_buf s1) e) + ee_len (fsys_buf s1) e \<le> 2147483648 \<and>
        int z = uint (ee_start_lo (fsys_buf s1) e) + (uint lb - uint (ee_block (fsys_buf s1) e))"
    unfolding leaf_block_def by blast
  define w l st where d: "w = ee_block (fsys_buf s1) (ext_entry h1 i)" "l = ee_len (fsys_buf s1) (ext_entry h1 i)"
    "st = ee_start_lo (fsys_buf s1) (ext_entry h1 i)"
  note p = p [unfolded Let_def, folded d]
  have l: "0 \<le> l" unfolding d ee_len_def by (rule le16_range)
  have cl: "uint (c_ulong l) = l" using l p by (simp add: c_ulong_def uint_word_of_int)
  have "uint (w + c_ulong l) = uint w + l" using p l uint_ge_0 [of w] by (simp add: uint_plus_if' cl)
  then have nw: "\<not> w + c_ulong l < lb" using p by (simp add: word_less_def)
  have "uint (lb - w) = uint lb - uint w" using p by (simp add: uint_sub_if')
  then have "uint (st + (lb - w)) = int z" using p by (simp add: uint_plus_if')
  then have "uint (st + lb - w) = int z" by (simp add: algebra_simps)
  then have z: "c_int (st + lb - w) = int z" using p c_int_unat [of "st + lb - w"] unat_eqI [of "st + lb - w" z] by simp
  have cc: "c_ulong (c_int lb) = lb" by (rule c_ulong_c_int)
  have "ext4_block_map env lbi s = Some (int z, s1)"
    unfolding ext4_block_map_def blk cc Let_def m
    using s1(1) p nw z binsearch_chosen(1) [OF n i] by (simp add: d)
  then show ?thesis using s1 by blast
qed

end

end
