(* ===== verification/Ext2Files.thy ===== *)
theory Ext2Files
  imports Ext2Blocks
begin

text \<open>
  The ext2 driver, reading: the bytes of a file as a specification over the map of its blocks, and the contract of
  \<open>ext2_read\<close> over any \<open>fs_device\<close>.
\<close>

section \<open>Reading\<close>

text \<open>Block \<open>lb\<close> of the file is block \<open>z\<close>; \<open>ext\<close> is the extents feature of the file system.\<close>

definition block_at :: "bool \<Rightarrow> nat \<Rightarrow> mem \<Rightarrow> nat \<Rightarrow> mem \<Rightarrow> nat \<Rightarrow> nat \<Rightarrow> bool" where
  "block_at ext sz d bsz ino lb z \<longleftrightarrow>
     (if ext \<and> inode_extents ino then extent_block sz d bsz ino 40 60 (of_nat lb) z else tree_block sz d bsz ino lb z) \<and>
     (z = 0 \<or> block_inside sz bsz z)"

text \<open>\<open>zone\<close> gives the blocks of the \<open>n\<close> bytes from \<open>f\<close>; the bytes of a file, which are 0 in a hole.\<close>

definition zones_ok :: "bool \<Rightarrow> nat \<Rightarrow> mem \<Rightarrow> nat \<Rightarrow> mem \<Rightarrow> (nat \<Rightarrow> nat) \<Rightarrow> nat \<Rightarrow> nat \<Rightarrow> bool" where
  "zones_ok ext sz d bsz ino zone f n \<longleftrightarrow> (\<forall>p\<in>{f..<f + n}. block_at ext sz d bsz ino (p div bsz) (zone (p div bsz)))"

definition ext2_file :: "mem \<Rightarrow> nat \<Rightarrow> (nat \<Rightarrow> nat) \<Rightarrow> mem" where
  "ext2_file d bsz zone = (\<lambda>p. if zone (p div bsz) = 0 then 0 else d (zone (p div bsz) * bsz + p mod bsz))"

lemma read_block:
  assumes "f mod bsz + n \<le> bsz"
  shows "read_at f n (ext2_file d bsz zone) =
    (if zone (f div bsz) = 0 then replicate n 0 else read_at (zone (f div bsz) * bsz + f mod bsz) n d)"
  using assms by (intro nth_equalityI) (simp_all add: ext2_file_def div_mod_inside add.assoc)

lemma and_size_mod: "int f AND (2 ^ k - 1) = int (f mod 2 ^ k)"
  using take_bit_eq_mask [of k "int f"] by (simp add: take_bit_eq_mod mask_eq_exp_minus_1 zmod_int)

lemma c_ulong_nat: "c_ulong (int n) = of_nat n"
  by (simp add: c_ulong_def)

lemma min_len:
  assumes "n < 2147483648" "o' \<le> b" "b \<le> 16384"
  shows "(if of_nat b - of_nat o' > (of_nat n :: u32) then of_nat n else of_nat b - of_nat o') = (of_nat (min n (b - o')) :: u32)"
proof -
  have "(of_nat b - of_nat o' :: u32) = of_nat (b - o')" using assms(2) by (simp add: of_nat_diff)
  moreover have u: "unat (of_nat x :: u32) = x" if "x < 2147483648" for x :: nat using that by (simp add: unat_of_nat)
  have "b - o' < 2147483648" using assms by linarith
  from u [OF this] u [OF assms(1)] have "unat (of_nat (b - o') :: u32) = b - o'" "unat (of_nat n :: u32) = n" .
  then have "(of_nat (b - o') > (of_nat n :: u32)) = (b - o' > n)" by (simp only: word_less_nat_alt)
  ultimately show ?thesis by simp
qed

context fs_device
begin

definition ext2_inv :: "mem \<Rightarrow> 'm loader \<Rightarrow> bool" where
  "ext2_inv ino s \<longleftrightarrow> ext2_at ino s \<and> (\<not> (incompat_extents (fsys_buf s) \<and> inode_extents ino) \<longrightarrow> ext2_cache ino s)"

lemma ext2_inv_cong:
  "dsk s' = dsk s \<Longrightarrow> fsys_buf s' = fsys_buf s \<Longrightarrow> drv s' = drv s \<Longrightarrow> ext2_inv ino s' = ext2_inv ino s"
  by (simp add: ext2_inv_def ext2_at_def ext2_cache_def mapblock1_def mapblock2_def)

lemma ext_map_ok:
  assumes inv: "ext2_inv ino s" and lb: "lb < 4294967296"
    and t: "block_at (incompat_extents (fsys_buf s)) (dev_size (dsk s)) (content (dsk s)) (ext2_block_size (fsys_buf s)) ino lb z"
  shows "\<exists>s'. ext_map env (of_nat lb) s = Some (int z, s') \<and> same_dev s s' \<and> same_front s s' \<and> ext2_inv ino s'"
proof -
  have at: "ext2_at ino s" using inv by (simp add: ext2_inv_def)
  have fl: "(ei_flags (fsys_buf s) AND 0x80000 \<noteq> 0) = inode_extents ino"
    using at inode_fields(2) [of ino "fsys_buf s"] by (simp add: ext2_at_def inode_extents_def)
  have z: "z < 2147483648" using t by (auto simp: block_at_def block_inside_def)
  have i: "incompat_extents (fsys_buf s') = incompat_extents (fsys_buf s)" "ext2_at ino s'"
    if "same_dev s s'" "same_front s s'" for s'
    using super_cong(10) [OF same_front_super [OF that(2)]] ext2_at_cong [OF at that] by simp_all
  show ?thesis
  proof (cases "incompat_extents (fsys_buf s) \<and> inode_extents ino")
    case True
    then have "extent_block (dev_size (dsk s)) (content (dsk s)) (ext2_block_size (fsys_buf s)) ino 40 60 (of_nat lb) z"
      using t by (simp add: block_at_def)
    from ext4_block_map_ok [OF this at refl] obtain s' where
      "ext4_block_map env (c_int (of_nat lb)) s = Some (int z, s')" "same_dev s s'" "same_front s s'" by blast
    then show ?thesis using True i by (auto simp: ext_map_def fl ext2_inv_def)
  next
    case False
    then have "tree_block (dev_size (dsk s)) (content (dsk s)) (ext2_block_size (fsys_buf s)) ino lb z"
      using t by (simp add: block_at_def split: if_splits)
    from ext2_block_map_ok [OF at _ this z] False inv obtain s' where
      "ext2_block_map env lb s = Some (int z, s')" "same_dev s s'" "same_front s s'" "ext2_cache ino s'"
      by (auto simp: ext2_inv_def)
    moreover have "unat (of_nat lb :: u32) = lb" using lb by (simp add: unat_of_nat)
    moreover have "ext_map env (of_nat lb) s = ext2_block_map env (unat (of_nat lb :: u32)) s"
      using False by (auto simp: ext_map_def fl)
    ultimately show ?thesis using i by (auto simp: ext2_inv_def)
  qed
qed

lemma ext2_transfer_ok:
  assumes "dev_ok (dsk s)" "ext2_ready (fsys_buf s)" "z = 0 \<or> block_inside (dev_size (dsk s)) (ext2_block_size (fsys_buf s)) z"
    and "0 < m" "o' + m \<le> ext2_block_size (fsys_buf s)"
  shows "\<exists>d'. ext2_transfer env (int z) (of_nat o') (of_nat m) buf a s =
      Some (write_at a (if z = 0 then replicate m 0 else read_at (z * ext2_block_size (fsys_buf s) + o') m (content (dsk s))) buf, s\<lparr>dsk := d'\<rparr>) \<and>
    dev_ok d' \<and> content d' = content (dsk s) \<and> dev_size d' = dev_size (dsk s)"
proof -
  define bsz where "bsz = ext2_block_size (fsys_buf s)"
  note r = ready_size [OF assms(2), folded bsz_def]
  have n: "unat (of_nat m :: u32) = m" "unat (of_nat o' :: u32) = o'" "m \<le> 16384" "o' \<le> 16384"
    using assms(4,5) r(6) by (simp_all add: unat_of_nat bsz_def)
  show ?thesis
  proof (cases "z = 0")
    case True
    have "s\<lparr>dsk := dsk s\<rparr> = s" by simp
    then show ?thesis using True assms(1) by (intro exI [of _ "dsk s"]) (simp add: ext2_transfer_def n(1))
  next
    case False
    then have b: "(z + 1) * bsz \<le> dev_size (dsk s)" "z * (bsz div 512) < 2147483648"
      using assms(3) by (simp_all add: block_inside_def bsz_def)
    have e: "z * (bsz div 512) * 512 + o' = z * bsz + o'" using r(4) by (simp add: algebra_simps)
    have q: "int z * (int bsz div 512) = int (z * (bsz div 512))" by (simp only: of_nat_mult zdiv_int of_nat_numeral)
    have k: "s32 (int z * (int bsz div 512)) = int (z * (bsz div 512))" unfolding q by (rule s32_nat [OF b(2)])
    have ci: "c_int (of_nat o') = int o'" "c_int (of_nat m) = int m"
      using c_int_unat [of "of_nat o'"] c_int_unat [of "of_nat m"] n by simp_all
    let ?d = "(dsk s)\<lparr>disk_read_func := disk_read_hook s\<rparr>"
    have d: "dev_ok ?d" "content ?d = content (dsk s)" "dev_size ?d = dev_size (dsk s)" using assms(1) by (simp_all add: dev_hook)
    have rd: "z * (bsz div 512) * 512 + o' + m \<le> dev_size ?d" "o' + m + 512 \<le> 2147483648"
      using b(1) assms(5) r(6) unfolding e d(3) by (simp_all add: bsz_def algebra_simps)
    obtain d' where "dr (int (z * (bsz div 512))) (int o') (int m) buf a ?d =
        Some (True, write_at a (read_at (z * bsz + o') m (content (dsk s))) buf, d')"
      "dev_ok d'" "content d' = content (dsk s)" "dev_size d' = dev_size (dsk s)"
      using dev_read [OF d(1) assms(4) rd, of buf a] unfolding e d(2,3) by auto
    then show ?thesis
      using False by (intro exI [of _ "d'\<lparr>disk_read_func := False\<rparr>"])
        (simp add: ext2_transfer_def env_devread bsz_def [symmetric] k ci dev_hook)
  qed
qed

lemma ext2_read_loop_ok:
  assumes "ext2_inv ino s" "filepos s = int f" "f + n < 2147483648"
    and "zones_ok (incompat_extents (fsys_buf s)) (dev_size (dsk s)) (content (dsk s)) (ext2_block_size (fsys_buf s)) ino zone f n"
  shows "\<exists>s'. ext2_read_loop env (of_nat n) ret buf a s =
      Some (ret + of_nat n, write_at a (read_at f n (ext2_file (content (dsk s)) (ext2_block_size (fsys_buf s)) zone)) buf, s') \<and>
    same_dev s s' \<and> ext2_inv ino s' \<and> same_front (s\<lparr>filepos := int (f + n)\<rparr>) s'"
  using assms
proof (induction n arbitrary: f ret buf a s rule: less_induct)
  case (less n)
  define bsz k c where d: "bsz = ext2_block_size (fsys_buf s)" "k = ext2_bits (fsys_buf s)" "c = content (dsk s)"
  let ?F = "ext2_file c bsz zone"
  have at: "ext2_at ino s" using less.prems(1) by (simp add: ext2_inv_def)
  then have dev: "dev_ok (dsk s)" "ext2_ready (fsys_buf s)" by (simp_all add: ext2_at_def)
  note r = ready_size [OF dev(2), folded d]
  have bk: "bsz = 2 ^ k" by (simp add: d ext2_block_size_def)
  show ?case
  proof (cases "n = 0")
    case True
    then show ?thesis
      using less.prems dev same_dev_refl by (subst ext2_read_loop.simps) (auto simp: same_front_def)
  next
    case False
    define o' m where om: "o' = f mod bsz" "m = min n (bsz - o')"
    have o': "o' < bsz" using r(5) by (simp add: om)
    have m: "0 < m" "m \<le> n" "o' + m \<le> bsz" using False o' by (auto simp: om)
    define z where "z = zone (f div bsz)"
    have z: "block_at (incompat_extents (fsys_buf s)) (dev_size (dsk s)) c bsz ino (f div bsz) z"
      using less.prems(4) False by (simp add: zones_ok_def d z_def)
    have fb: "f div bsz < 4294967296" using less.prems(3) by (intro le_less_trans [OF div_le_dividend]) simp
    obtain s1 where s1: "ext_map env (of_nat (f div bsz)) s = Some (int z, s1)" "same_dev s s1" "same_front s s1" "ext2_inv ino s1"
      using ext_map_ok [OF less.prems(1) fb [unfolded d] z [unfolded d]] unfolding d by blast
    have b1: "ext2_block_size (fsys_buf s1) = bsz" "incompat_extents (fsys_buf s1) = incompat_extents (fsys_buf s)"
      using super_cong(4,10) [OF same_front_super [OF s1(3)]] by (simp_all add: d)
    have d1: "dev_ok (dsk s1)" "content (dsk s1) = c" "dev_size (dsk s1) = dev_size (dsk s)" "ext2_ready (fsys_buf s1)"
      using s1(2,4) by (simp_all add: same_dev_def d ext2_inv_def ext2_at_def)
    have zi: "z = 0 \<or> block_inside (dev_size (dsk s1)) (ext2_block_size (fsys_buf s1)) z"
      using z unfolding b1 d1 by (auto simp: block_at_def)
    have rb: "(if z = 0 then replicate m 0 else read_at (z * bsz + o') m c) = read_at f m ?F"
      using read_block [of f bsz m c zone] m(3) by (simp add: z_def om)
    obtain d' where d': "ext2_transfer env (int z) (of_nat o') (of_nat m) buf a s1 = Some (write_at a (read_at f m ?F) buf, s1\<lparr>dsk := d'\<rparr>)"
      "dev_ok d'" "content d' = c" "dev_size d' = dev_size (dsk s)"
      using ext2_transfer_ok [OF d1(1,4) zi m(1), of o' buf a] m(3) unfolding b1 d1 rb by auto
    let ?s2 = "s1\<lparr>dsk := d', filepos := int (f + m)\<rparr>"
    have f1: "filepos s1 = int f" using s1(3) less.prems(2) by (simp add: same_front_def)
    have u: "unat (of_nat m :: u32) = m" "(of_nat n :: u32) > 0" "\<not> int z < 0"
      using m less.prems(3) False r(6) by (simp_all add: unat_of_nat word_less_nat_alt)
    have num: "c_ulong (drop_bit k (filepos s)) = of_nat (f div bsz)" "c_ulong (filepos s AND (int bsz - 1)) = of_nat o'"
      unfolding less.prems(2) using c_ulong_nat [of "f div bsz"] by (simp_all add: c_ulong_nat drop_bit_eq_div zdiv_int om bk and_size_mod)
    have num2: "(if of_nat bsz - of_nat o' > (of_nat n :: u32) then of_nat n else of_nat bsz - of_nat o') = (of_nat m :: u32)"
      using min_len [of n o' bsz] less.prems(3) o' r(6) by (simp add: om)
    have num3: "c_int (c_ulong (filepos (s1\<lparr>dsk := d'\<rparr>)) + of_nat m) = int (f + m)" "of_nat n - of_nat m = (of_nat (n - m) :: u32)"
    proof -
      have "c_ulong (filepos (s1\<lparr>dsk := d'\<rparr>)) + of_nat m = c_ulong (int (f + m))" unfolding c_ulong_nat by (simp add: c_ulong_nat f1)
      then show "c_int (c_ulong (filepos (s1\<lparr>dsk := d'\<rparr>)) + of_nat m) = int (f + m)"
        using c_int_nat [of "f + m"] m less.prems(3) by simp
    qed (simp add: m of_nat_diff)
    have step: "ext2_read_loop env (of_nat n) ret buf a s =
      ext2_read_loop env (of_nat (n - m)) (ret + of_nat m) (write_at a (read_at f m ?F) buf) (a + m) ?s2"
      by (subst ext2_read_loop.simps)
        (simp only: d [symmetric] num Let_def s1(1) b1 bind.bind_lunit prod.case num2 d'(1) num3 u not_True_eq_False simp_thms if_False if_True loader.simps)
    have p: "ext2_inv ino ?s2" "filepos ?s2 = int (f + m)" "f + m + (n - m) < 2147483648" "n - m < n"
      "content (dsk ?s2) = c" "dev_size (dsk ?s2) = dev_size (dsk s)" "ext2_block_size (fsys_buf ?s2) = bsz"
      using s1(4) d'(2-4) d1(2,3) m less.prems(3) b1 False by (simp_all add: ext2_inv_def ext2_at_def ext2_cache_def mapblock1_def mapblock2_def)
    have q: "zones_ok (incompat_extents (fsys_buf ?s2)) (dev_size (dsk ?s2)) (content (dsk ?s2)) (ext2_block_size (fsys_buf ?s2)) ino zone (f + m) (n - m)"
      using less.prems(4) m(2) unfolding p by (simp add: zones_ok_def b1 d)
    obtain s' where s': "ext2_read_loop env (of_nat (n - m)) (ret + of_nat m) (write_at a (read_at f m ?F) buf) (a + m) ?s2 =
      Some (ret + of_nat m + of_nat (n - m), write_at (a + m) (read_at (f + m) (n - m) ?F) (write_at a (read_at f m ?F) buf), s')"
      "same_dev ?s2 s'" "ext2_inv ino s'" "same_front (?s2\<lparr>filepos := int (f + m + (n - m))\<rparr>) s'"
      using less.IH [OF p(4,1,2,3) q, of "ret + of_nat m" "write_at a (read_at f m ?F) buf" "a + m"] unfolding p by blast
    have w: "write_at (a + m) (read_at (f + m) (n - m) ?F) (write_at a (read_at f m ?F) buf) = write_at a (read_at f n ?F) buf"
      using write_at_append [of a "read_at f m ?F"] read_at_append [of f m "n - m" ?F] m by simp
    have e: "ret + of_nat m + of_nat (n - m) = ret + of_nat n" "f + m + (n - m) = f + n" using m by (simp_all add: of_nat_diff)
    have fr: "same_front (s\<lparr>filepos := int (f + n)\<rparr>) (?s2\<lparr>filepos := int (f + n)\<rparr>)" using s1(3) by (simp add: same_front_def)
    have "same_dev s s'" using s'(2) p(5,6) by (simp add: same_dev_def d)
    moreover have "ext2_read_loop env (of_nat n) ret buf a s = Some (ret + of_nat n, write_at a (read_at f n ?F) buf, s')"
      using step s'(1) unfolding w e by simp
    ultimately show ?thesis using s'(3) same_front_trans [OF fr s'(4) [unfolded e]] unfolding d by blast
  qed
qed

text \<open>The contract of \<open>fs_read\<close> for this driver.\<close>

lemma ext2_read_ok:
  assumes "ext2_inv ino s" "filepos s = int f" "f + n < 2147483648"
    and "zones_ok (incompat_extents (fsys_buf s)) (dev_size (dsk s)) (content (dsk s)) (ext2_block_size (fsys_buf s)) ino zone f n"
  shows "\<exists>s'. ext2_read env (int n) buf a s =
      Some (int n, write_at a (read_at f n (ext2_file (content (dsk s)) (ext2_block_size (fsys_buf s)) zone)) buf, s') \<and>
    same_dev s s' \<and> ext2_inv ino s' \<and> same_front (s\<lparr>filepos := int (f + n)\<rparr>) s'"
proof -
  obtain s' where s': "ext2_read_loop env (of_nat n) 0 buf a s =
      Some (of_nat n, write_at a (read_at f n (ext2_file (content (dsk s)) (ext2_block_size (fsys_buf s)) zone)) buf, s')"
    "same_dev s s'" "ext2_inv ino s'" "same_front (s\<lparr>filepos := int (f + n)\<rparr>) s'"
    using ext2_read_loop_ok [OF assms, of 0 buf a] by auto
  moreover have "err s' = ERR_NONE" using dev_no_error s'(2) by (simp add: same_dev_def)
  moreover have "c_int (of_nat n) = int n" using c_int_unat [of "of_nat n"] assms(3) by (simp add: unat_of_nat)
  ultimately show ?thesis by (simp add: ext2_read_def c_ulong_nat)
qed

end

end
