(* ===== verification/Ext2Inodes.thy ===== *)
theory Ext2Inodes
  imports Ext2Files MinixDirs
begin

text \<open>
  The ext2 driver, names in paths and inodes: where an inode lies on the partition as a specification, and the contract of
  \<open>ext2_get_inode\<close> over any \<open>fs_device\<close>.
\<close>

section \<open>Names\<close>

lemma quoted_simps [simp]:
  "quoted_name [] = []"
  "quoted_name (c # n) = (if c = 0 then [] else if c = ch CHR '' '' then backslash # c # quoted_name n else c # quoted_name n)"
  by (simp_all add: quoted_name_def)

lemma length_quoted: "length (quoted_name n) \<le> 2 * length n"
  by (induction n) auto

text \<open>A name that a path can contain, with its spaces quoted.\<close>

definition plain_name :: "u8 list \<Rightarrow> bool" where
  "plain_name n \<longleftrightarrow> n \<noteq> [] \<and> (\<forall>c\<in>set n. c \<noteq> 0 \<and> c \<noteq> backslash \<and> c \<noteq> ch CHR ''/'' \<and> (grub_isspace (sint c) \<longrightarrow> c = ch CHR '' ''))"

lemma quoted_inject:
  assumes "\<forall>c\<in>set n. c \<noteq> 0 \<and> c \<noteq> backslash" "0 \<notin> set a" "quoted_name a = quoted_name n"
  shows "a = n"
  using assms
proof (induction n arbitrary: a)
  case Nil
  then show ?case by (cases a) (auto split: if_splits)
next
  case (Cons c n)
  then obtain x a' where a: "a = x # a'" by (cases a) (auto split: if_splits)
  show ?case
  proof (cases "c = ch CHR '' ''")
    case True
    show ?thesis
    proof (cases "x = ch CHR '' ''")
      case True
      then show ?thesis using Cons a \<open>c = ch CHR '' ''\<close> by simp
    next
      case False
      then have "quoted_name a' = ch CHR '' '' # quoted_name n" using Cons.prems a True by simp
      then show ?thesis by (cases a') (auto split: if_splits)
    qed
  next
    case False
    then show ?thesis using Cons a by (auto split: if_splits)
  qed
qed

lemma fat_word_quoted:
  assumes "\<forall>c\<in>set n. c \<noteq> 0 \<and> c \<noteq> backslash \<and> c \<noteq> ch CHR ''/'' \<and> (grub_isspace (sint c) \<longrightarrow> c = ch CHR '' '')"
    and "r = [] \<or> fat_word_end (cur r)"
  shows "fat_word (quoted_name n @ r) = (quoted_name n, r)"
  using assms(1)
proof (induction n)
  case Nil
  show ?case using assms(2) by (cases r rule: fat_word.cases) auto
next
  case (Cons c n)
  then have e: "\<not> fat_word_end c" if "c \<noteq> ch CHR '' ''" using that by (simp add: fat_word_end_def)
  have b: "\<not> fat_word_end backslash" by (simp add: fat_word_end_def grub_isspace_def)
  show ?case
  proof (cases "c = ch CHR '' ''")
    case True
    then show ?thesis using Cons b by simp
  next
    case False
    then show ?thesis using Cons e by (cases "quoted_name n @ r") simp_all
  qed
qed

definition names_text :: "u8 list list \<Rightarrow> u8 list" where
  "names_text ns = concat (map (\<lambda>n. ch CHR ''/'' # quoted_name n) ns)"

section \<open>Inodes\<close>

text \<open>The super block of a partition at the place where the driver keeps it; the fields of \<open>Ext2\<close> apply to it.\<close>

definition super_of :: "mem \<Rightarrow> mem" where
  "super_of d = (\<lambda>i. d (i + 512))"

text \<open>
  Inode \<open>ino\<close> of the partition \<open>d\<close>: its group, the descriptor of the group in the blocks behind the super block, and its
  block and place in the table of inodes.
\<close>

definition inode_group :: "mem \<Rightarrow> nat \<Rightarrow> nat" where
  "inode_group d ino = (ino - 1) div unat (s_inodes_per_group (super_of d))"

definition inode_index :: "mem \<Rightarrow> nat \<Rightarrow> nat" where
  "inode_index d ino = (ino - 1) mod unat (s_inodes_per_group (super_of d))"

definition desc_block :: "mem \<Rightarrow> nat \<Rightarrow> nat" where
  "desc_block d g = 1 + unat (s_first_data_block (super_of d)) + g div (ext2_block_size (super_of d) div 32)"

definition inode_table :: "mem \<Rightarrow> nat \<Rightarrow> nat" where
  "inode_table d g = unat (le32 d (desc_block d g * ext2_block_size (super_of d) + 32 * (g mod (ext2_block_size (super_of d) div 32)) + 8))"

definition inodes_in_block :: "mem \<Rightarrow> nat" where
  "inodes_in_block d = ext2_block_size (super_of d) div nat (ext2_inode_size (super_of d))"

definition table_block :: "mem \<Rightarrow> nat \<Rightarrow> nat" where
  "table_block d ino = inode_table d (inode_group d ino) + inode_index d ino div inodes_in_block d"

definition ext2_inode_of :: "mem \<Rightarrow> nat \<Rightarrow> mem" where
  "ext2_inode_of d ino = (\<lambda>i. d (table_block d ino * ext2_block_size (super_of d) +
     (inode_index d ino mod inodes_in_block d) * nat (ext2_inode_size (super_of d)) + i))"

text \<open>A super block of a file system with descriptors of 32 bytes and whole blocks of inodes in every group.\<close>

definition ext2_volume :: "mem \<Rightarrow> bool" where
  "ext2_volume d \<longleftrightarrow> ext2_super_valid (super_of d) \<and> \<not> incompat_64bit (super_of d) \<and> 128 \<le> ext2_inode_size (super_of d) \<and>
     inodes_in_block d dvd unat (s_inodes_per_group (super_of d))"

definition inode_inside :: "nat \<Rightarrow> mem \<Rightarrow> nat \<Rightarrow> bool" where
  "inode_inside sz d ino \<longleftrightarrow> 0 < ino \<and> ino < 2147483648 \<and>
     block_inside sz (ext2_block_size (super_of d)) (desc_block d (inode_group d ino)) \<and>
     block_inside sz (ext2_block_size (super_of d)) (table_block d ino)"

lemma dvd_power_two: "(k :: nat) dvd 2 ^ n \<Longrightarrow> \<exists>i\<le>n. k = 2 ^ i"
proof (induction n arbitrary: k)
  case (Suc n)
  show ?case
  proof (cases "even k")
    case True
    then obtain k' where k: "k = 2 * k'" by (auto elim: evenE)
    then have "k' dvd 2 ^ n" using Suc.prems by simp
    then obtain i where "i \<le> n" "k' = 2 ^ i" using Suc.IH by blast
    then show ?thesis using k by (intro exI [of _ "Suc i"]) simp
  next
    case False
    then have "coprime k 2" by simp
    then have "k dvd 2 ^ n" using Suc.prems by (simp add: coprime_dvd_mult_right_iff)
    then show ?thesis using Suc.IH le_SucI by blast
  qed
qed simp

lemma super_ready: "ext2_super_valid m \<Longrightarrow> ext2_ready m"
proof -
  assume "ext2_super_valid m"
  then have "s_log_block_size m \<le> 4" by (simp add: ext2_super_valid_def)
  then have l: "unat (s_log_block_size m) \<le> 4" by (simp add: word_le_nat_alt)
  then have "ext2_bits m = unat (s_log_block_size m) + 10" by (simp add: ext2_bits_def unat_word_ariths)
  then show ?thesis using l by (simp add: ext2_ready_def)
qed

lemma volume_sizes:
  assumes "ext2_volume d"
  obtains i where "i \<le> ext2_bits (super_of d)" "7 \<le> i" "ext2_inode_size (super_of d) = 2 ^ i"
    "ext2_inodes_per_block (super_of d) = int (inodes_in_block d)" "inodes_in_block d = 2 ^ (ext2_bits (super_of d) - i)"
    "ext2_ready (super_of d)"
proof -
  let ?m = "super_of d"
  have v: "ext2_super_valid ?m" "128 \<le> ext2_inode_size ?m" using assms by (simp_all add: ext2_volume_def)
  have b: "10 \<le> ext2_bits ?m" "ext2_bits ?m \<le> 14" using super_ready [OF v(1)] by (simp_all add: ext2_ready_def)
  have "nat (ext2_inode_size ?m) dvd 2 ^ ext2_bits ?m"
  proof (cases "s_rev_level ?m = 0")
    case True
    then have "nat (ext2_inode_size ?m) = 2 ^ 7" by (simp add: ext2_inode_size_def)
    then show ?thesis using b(1) le_imp_power_dvd [of 7 "ext2_bits ?m" "2 :: nat"] by simp
  next
    case False
    then have "int (ext2_block_size ?m) mod s_inode_size ?m = 0" "ext2_inode_size ?m = s_inode_size ?m"
      using v(1) by (simp_all add: ext2_super_valid_def ext2_inode_size_def)
    then have "ext2_inode_size ?m dvd int (2 ^ ext2_bits ?m)" by (simp add: ext2_block_size_def mod_eq_0_iff_dvd)
    then show ?thesis using v(2) by (metis int_dvd_int_iff int_nat_eq order_trans zero_le_numeral)
  qed
  then obtain i where i: "i \<le> ext2_bits ?m" "nat (ext2_inode_size ?m) = 2 ^ i" using dvd_power_two by blast
  then have "ext2_inode_size ?m = int (2 ^ i)" using v(2) by simp
  then have e: "ext2_inode_size ?m = 2 ^ i" by simp
  have "128 \<le> nat (ext2_inode_size ?m)" using v(2) by linarith
  then have "(2 :: nat) ^ 7 \<le> 2 ^ i" unfolding i(2) by simp
  then have i7: "7 \<le> i" by (simp only: power_increasing_iff one_less_numeral_iff semiring_norm)
  have ib: "inodes_in_block d = 2 ^ (ext2_bits ?m - i)"
    unfolding inodes_in_block_def i(2) ext2_block_size_def using i(1) by (simp add: power_diff)
  moreover have "ext2_inodes_per_block ?m = int (inodes_in_block d)"
    using v(2) by (simp add: ext2_inodes_per_block_def inodes_in_block_def zdiv_int)
  ultimately show ?thesis using that [OF i(1) i7 e] b by (simp add: ext2_ready_def)
qed

lemma log2_int: "k < 32 \<Longrightarrow> log2 (c_ulong (2 ^ k)) = k"
  using log2_pow [of k] by (simp add: c_ulong_def)

lemma of_nat_unat_u32: "of_nat (unat w) = (w :: u32)"
  by simp

context fs_device
begin

text \<open>The super block is in the buffer.\<close>

definition at_volume :: "'m loader \<Rightarrow> bool" where
  "at_volume s \<longleftrightarrow> dev_ok (dsk s) \<and> print_possibilities s = 0 \<and> ext2_volume (content (dsk s)) \<and>
     (\<forall>i\<in>{EXT2_SUPER..<GROUP_DESC}. fsys_buf s i = super_of (content (dsk s)) i)"

lemma at_volume_super:
  assumes "at_volume s"
  shows "\<forall>i\<in>{EXT2_SUPER..<GROUP_DESC}. fsys_buf s i = super_of (content (dsk s)) i"
  using assms by (simp add: at_volume_def)

lemma at_volume_ready:
  assumes "at_volume s"
  shows "ext2_ready (fsys_buf s)" "ext2_ready (super_of (content (dsk s)))" "ext2_block_size (fsys_buf s) = ext2_block_size (super_of (content (dsk s)))"
proof -
  have v: "ext2_volume (content (dsk s))" using assms by (simp add: at_volume_def)
  show r: "ext2_ready (super_of (content (dsk s)))" by (rule volume_sizes [OF v])
  show "ext2_block_size (fsys_buf s) = ext2_block_size (super_of (content (dsk s)))" by (rule super_cong(4) [OF at_volume_super [OF assms]])
  have "ext2_bits (fsys_buf s) = ext2_bits (super_of (content (dsk s)))" by (rule super_cong(3) [OF at_volume_super [OF assms]])
  then show "ext2_ready (fsys_buf s)" using r by (simp add: ext2_ready_def)
qed

lemma at_volume_step:
  assumes "at_volume s" "same_dev s s'" "print_possibilities s' = print_possibilities s"
    and "\<forall>i\<in>{EXT2_SUPER..<GROUP_DESC}. fsys_buf s' i = fsys_buf s i"
  shows "at_volume s'"
  using assms by (simp add: at_volume_def same_dev_def)

lemma ext2_get_inode_ok:
  assumes at: "at_volume s" and i: "inode_inside (dev_size (dsk s)) (content (dsk s)) ino"
  shows "\<exists>s'. ext2_get_inode env (int ino) s = Some (Inr (), s') \<and> same_dev s s' \<and> at_volume s' \<and> ext2_inv (ext2_inode_of (content (dsk s)) ino) s'"
proof -
  let ?d = "content (dsk s)" and ?m = "fsys_buf s" and ?M = "super_of (content (dsk s))"
  note c = super_cong [OF at_volume_super [OF at]]
  note rd = at_volume_ready [OF at]
  define bsz bits where b: "bsz = ext2_block_size ?M" "bits = ext2_bits ?M"
  have dev: "dev_ok (dsk s)" and vol: "ext2_volume ?d" using at by (simp_all add: at_volume_def)
  obtain k where k: "k \<le> bits" "7 \<le> k" "ext2_inode_size ?M = 2 ^ k" "ext2_inodes_per_block ?M = int (inodes_in_block ?d)"
    "inodes_in_block ?d = 2 ^ (bits - k)" using volume_sizes [OF vol] unfolding b by metis
  have bits: "10 \<le> bits" "bits \<le> 14" "bsz = 2 ^ bits" using rd(2) by (simp_all add: b ext2_ready_def ext2_block_size_def)
  have no64: "\<not> incompat_64bit ?m" using vol c(9) by (simp add: ext2_volume_def)
  have ds: "ext2_desc_size ?m = 32" using no64 by (simp add: ext2_desc_size_def)
  define dpb where "dpb = bsz div 32"
  have dpb: "dpb = 2 ^ (bits - 5)" using bits power_diff [of "2 :: nat" 5 bits] by (simp add: dpb_def)
  have edpb: "ext2_desc_per_block ?m = int dpb" using rd(3) by (simp add: ext2_desc_per_block_def ds dpb_def b zdiv_int)
  let ?g = "inode_group ?d ino" and ?x = "inode_index ?d ino"
  define gb where "gb = desc_block ?d ?g"
  define tb where "tb = table_block ?d ino"
  have ino: "0 < ino" "ino < 2147483648" and gi: "block_inside (dev_size (dsk s)) bsz gb" and ti: "block_inside (dev_size (dsk s)) bsz tb"
    using i by (simp_all add: inode_inside_def gb_def tb_def b)
  have w1: "c_ulong (int ino - 1) = of_nat (ino - 1)" using ino c_ulong_nat [of "ino - 1"] by (simp add: of_nat_diff)
  have u1: "unat (of_nat (ino - 1) :: u32) = ino - 1" unfolding unat_of_nat using ino by simp
  have ud: "unat (c_ulong (int ino - 1) div s_inodes_per_group ?m) = ?g" "unat (c_ulong (int ino - 1) mod s_inodes_per_group ?m) = ?x"
    unfolding w1 c(2) unat_div unat_mod u1 by (simp_all add: inode_group_def inode_index_def)
  have g31: "?g < 2147483648" using ino by (simp add: inode_group_def le_less_trans [OF div_le_dividend])
  have group: "c_int (c_ulong (int ino - 1) div s_inodes_per_group ?m) = int ?g" using c_int_unat [of "c_ulong (int ino - 1) div s_inodes_per_group ?m"] ud g31 by simp
  have ld: "log2 (c_ulong (int dpb)) = bits - 5" using log2_int [of "bits - 5"] bits by (simp add: dpb)
  have gd: "drop_bit (bits - 5) (int ?g) = int (?g div dpb)" by (simp add: drop_bit_eq_div zdiv_int dpb)
  have desc: "int ?g AND (int dpb - 1) = int (?g mod dpb)" using and_size_mod [of ?g "bits - 5"] by (simp add: dpb)
  have nb: "c_int (1 + c_ulong (int (?g div dpb)) + s_first_data_block ?m) = int gb"
  proof -
    have "1 + c_ulong (int (?g div dpb)) + s_first_data_block ?m = of_nat gb"
      unfolding c_ulong_nat c(1) by (simp add: gb_def desc_block_def dpb_def b)
    then show ?thesis using gi c_int_of_nat [of gb] by (simp add: block_inside_def)
  qed
  obtain s1 where s1: "ext2_rdfsb env (int gb) GROUP_DESC s = Some (True, s1)" "same_dev s s1" "drv s1 = drv s"
    "fsys_buf s1 = write_at GROUP_DESC (read_at (gb * bsz) bsz ?d) ?m" "print_possibilities s1 = print_possibilities s"
    using ext2_rdfsb_ok [OF dev rd(1), of gb GROUP_DESC] gi unfolding rd(3) b by blast
  have at1: "at_volume s1" using at_volume_step [OF at s1(2,5)] s1(4) by (simp add: write_at_outside)
  have d1: "dev_ok (dsk s1)" "content (dsk s1) = ?d" "dev_size (dsk s1) = dev_size (dsk s)" using s1(2) by (simp_all add: same_dev_def)
  note c1 = super_cong [OF at_volume_super [OF at1], unfolded d1]
  have tab: "le32 (fsys_buf s1) (GROUP_DESC + nat (int (?g mod dpb) * 32) + 8) = le32 ?d (gb * bsz + 32 * (?g mod dpb) + 8)"
  proof -
    have "read_at GROUP_DESC bsz (fsys_buf s1) = read_at (gb * bsz) bsz ?d"
      using read_write_same [of GROUP_DESC "read_at (gb * bsz) bsz ?d"] by (simp add: s1(4))
    moreover have "?g mod dpb + 1 \<le> dpb" using dpb by (simp add: Suc_le_eq)
    moreover have "bsz = 32 * dpb" using bits power_add [of "2 :: nat" 5 "bits - 5"] by (simp add: dpb)
    ultimately show ?thesis using le32_read_at [of GROUP_DESC bsz "fsys_buf s1" "gb * bsz" ?d "32 * (?g mod dpb) + 8"]
      by (simp add: add.assoc mult.commute nat_mult_distrib)
  qed
  let ?n = "inodes_in_block ?d"
  have ln: "log2 (c_ulong (int ?n)) = bits - k" using log2_int [of "bits - k"] bits by (simp add: k(5))
  have nt: "c_int (le32 (fsys_buf s1) (GROUP_DESC + nat (int (?g mod dpb) * 32) + 8) +
      drop_bit (bits - k) (c_ulong (int ino - 1) mod s_inodes_per_group ?m)) = int tb"
  proof -
    have "unat (drop_bit (bits - k) (c_ulong (int ino - 1) mod s_inodes_per_group ?m)) = ?x div ?n"
      unfolding unat_drop_bit ud k(5) by simp
    moreover have "unat (le32 ?d (gb * bsz + 32 * (?g mod dpb) + 8)) = inode_table ?d ?g"
      by (simp add: inode_table_def gb_def b dpb_def)
    ultimately have "le32 ?d (gb * bsz + 32 * (?g mod dpb) + 8) + drop_bit (bits - k) (c_ulong (int ino - 1) mod s_inodes_per_group ?m) = of_nat tb"
      using of_nat_unat_u32 unfolding tb_def table_block_def of_nat_add by metis
    then show ?thesis unfolding tab using ti c_int_of_nat [of tb] by (simp add: block_inside_def)
  qed
  let ?a = "ext2_inode_at ?m"
  have a: "?a = GROUP_DESC + bsz" using rd(3) by (simp add: ext2_inode_at_def b)
  obtain s2 where s2: "ext2_rdfsb env (int tb) ?a s1 = Some (True, s2)" "same_dev s1 s2" "drv s2 = drv s1"
    "fsys_buf s2 = write_at ?a (read_at (tb * bsz) bsz ?d) (fsys_buf s1)" "print_possibilities s2 = print_possibilities s1"
    using ext2_rdfsb_ok [OF d1(1) at_volume_ready(1) [OF at1], of tb ?a] ti unfolding c1(4) d1 b by blast
  define slot where "slot = ?x mod ?n * 2 ^ k"
  have sl: "nat (((int ino - 1) AND (int ?n - 1)) * 2 ^ k) = slot"
  proof -
    have "?n dvd unat (s_inodes_per_group ?M)" using vol by (simp add: ext2_volume_def)
    then have x: "(ino - 1) mod ?n = ?x mod ?n" unfolding inode_index_def by (simp only: mod_mod_cancel)
    have i: "int ino - 1 = int (ino - 1)" using ino by (simp add: of_nat_diff)
    have n: "int ?n = 2 ^ (bits - k)" unfolding k(5) by simp
    have "(int ino - 1) AND (int ?n - 1) = int (?x mod ?n)" unfolding i n and_size_mod x [symmetric] unfolding k(5) ..
    then have "((int ino - 1) AND (int ?n - 1)) * 2 ^ k = int slot" by (simp add: slot_def)
    then show ?thesis by (simp only: nat_int)
  qed
  have room: "slot + 128 \<le> bsz"
  proof -
    have "(?x mod ?n + 1) * 2 ^ k \<le> ?n * 2 ^ k" using k(5) by (intro mult_right_mono) (simp_all add: Suc_le_eq)
    moreover have "?n * 2 ^ k = bsz" using k(1) bits(3) by (simp add: k(5) flip: power_add)
    moreover have "(2 :: nat) ^ 7 \<le> 2 ^ k" using k(2) by (intro power_increasing) simp_all
    ultimately show ?thesis by (simp add: slot_def)
  qed
  let ?s3 = "set_drv 0 (- 1) (set_drv 1 (- 1) s2)"
  define s' where "s' = ?s3\<lparr>fsys_buf := write_at ?a (read_at (?a + slot) 156 (fsys_buf ?s3)) (fsys_buf ?s3)\<rparr>"
  have run: "ext2_get_inode env (int ino) s = Some (Inr (), s')"
    unfolding ext2_get_inode_def Let_def ds edpb ld group gd desc nb s1(1) bind.bind_lunit prod.case c(8) k(4) ln
    using no64 c1(9,11) ds c(7,9,11) k(3) nt s2(1) sl by (simp add: s'_def)
  have d2: "dev_ok (dsk s2)" "content (dsk s2) = ?d" "dev_size (dsk s2) = dev_size (dsk s)" using s2(2) d1 by (simp_all add: same_dev_def)
  have buf: "fsys_buf s' i = fsys_buf s1 i" if "i < ?a" for i using that by (simp add: s'_def s2(4) write_at_outside)
  have at': "at_volume s'"
    using at_volume_step [OF at1, of s'] s2(5) d2 d1 buf by (simp add: s'_def same_dev_def a)
  have ia: "ext2_inode_at (fsys_buf s') = ?a" using super_cong(13) [OF at_volume_super [OF at']] c(13) d2(2) by (simp add: s'_def)
  have "fsys_buf s' (?a + i) = ext2_inode_of ?d ino i" if "i < 128" for i
  proof -
    have "fsys_buf s' (?a + i) = fsys_buf s2 (?a + slot + i)" using that by (simp add: s'_def write_at_inside)
    also have "\<dots> = ?d (tb * bsz + slot + i)"
      using that room write_at_inside [of ?a "?a + slot + i" "read_at (tb * bsz) bsz ?d" "fsys_buf s1"] by (simp add: s2(4) add.assoc)
    finally show ?thesis using k(3) by (simp add: ext2_inode_of_def tb_def b slot_def nat_power_eq)
  qed
  then have "has_inode (ext2_inode_of ?d ino) (fsys_buf s')" by (simp add: has_inode_def ia)
  then have "ext2_inv (ext2_inode_of ?d ino) s'"
    using at_volume_ready(1) [OF at'] d2(1) by (simp add: ext2_inv_def ext2_at_def ext2_cache_def mapblock1_def mapblock2_def s'_def)
  moreover have "same_dev s s'" using d2 by (simp add: s'_def same_dev_def)
  ultimately show ?thesis using run at' by blast
qed

end

end
