(* ===== verification/Ext2Dirs.thy ===== *)
theory Ext2Dirs
  imports Ext2Inodes
begin

text \<open>
  The ext2 driver, directories and paths as inductive predicates over the bytes of the partition, and the contracts of
  mounting and of looking up a path without symbolic links over any \<open>fs_device\<close>.
\<close>

section \<open>Directories\<close>

text \<open>The entry at \<open>p\<close> of a directory with bytes \<open>f\<close>: its inode, its length and its name, inside its block.\<close>

definition entry_ino :: "mem \<Rightarrow> nat \<Rightarrow> nat" where "entry_ino f p = unat (le32 f p)"
definition entry_len :: "mem \<Rightarrow> nat \<Rightarrow> nat" where "entry_len f p = nat (le16 f (p + 4))"
definition entry_name :: "mem \<Rightarrow> nat \<Rightarrow> u8 list" where
  "entry_name f p = takeWhile (\<lambda>c. c \<noteq> 0) (read_at (p + 8) (unat (f (p + 6))) f)"
definition entry_inside :: "mem \<Rightarrow> nat \<Rightarrow> nat \<Rightarrow> bool" where
  "entry_inside f bsz p \<longleftrightarrow> p mod bsz + 8 + unat (f (p + 6)) \<le> bsz"

text \<open>Looking for the name \<open>n\<close> from \<open>p\<close> on in a directory of \<open>sz\<close> bytes.\<close>

inductive dir_lookup :: "mem \<Rightarrow> nat \<Rightarrow> nat \<Rightarrow> u8 list \<Rightarrow> nat \<Rightarrow> nat option \<Rightarrow> bool" for f sz bsz n where
  missing: "sz \<le> p \<Longrightarrow> dir_lookup f sz bsz n p None"
| found: "p < sz \<Longrightarrow> entry_inside f bsz p \<Longrightarrow> entry_ino f p \<noteq> 0 \<Longrightarrow> entry_name f p = n \<Longrightarrow> dir_lookup f sz bsz n p (Some (entry_ino f p))"
| other: "p < sz \<Longrightarrow> entry_inside f bsz p \<Longrightarrow> entry_ino f p = 0 \<or> entry_name f p \<noteq> n \<Longrightarrow>
    dir_lookup f sz bsz n (p + entry_len f p) r \<Longrightarrow> dir_lookup f sz bsz n p r"

lemma entry_fields_copy:
  assumes "read_at a (bsz - p mod bsz) m = read_at p (bsz - p mod bsz) f" "entry_inside f bsz p" 
  shows "unat (le32 m a) = entry_ino f p" "le16 m (a + 4) = int (entry_len f p)" 
    "quoted_name (read_at (a + 8) (unat (m (a + 6))) m) = quoted_name (entry_name f p)"
proof -
  have i: "p mod bsz + 8 + unat (f (p + 6)) \<le> bsz" using assms(2) by (simp add: entry_inside_def)
  show "unat (le32 m a) = entry_ino f p" "le16 m (a + 4) = int (entry_len f p)"
    using le32_read_at [OF assms(1), of 0] le16_read_at [OF assms(1), of 4] i le16_range(1)
    by (simp_all add: entry_ino_def entry_len_def)
  have "read_at (a + 6) 1 m = read_at (p + 6) 1 f" using read_at_sub [OF assms(1), of 6 1] i by simp
  then have "m (a + 6) = f (p + 6)" by (simp add: read_at_def)
  moreover have "read_at (a + 8) (unat (f (p + 6))) m = read_at (p + 8) (unat (f (p + 6))) f"
    using i by (intro read_at_sub [OF assms(1)]) simp
  ultimately show "quoted_name (read_at (a + 8) (unat (m (a + 6))) m) = quoted_name (entry_name f p)"
    by (simp add: quoted_name_def entry_name_def)
qed

lemma length_entry_name: "length (entry_name f p) \<le> 255"
proof -
  have "length (entry_name f p) \<le> unat (f (p + 6))" unfolding entry_name_def by (rule order_trans [OF length_takeWhile_le]) simp
  moreover have "unat (f (p + 6)) < 256" using unsigned_less [of "f (p + 6)"] by simp
  ultimately show ?thesis by simp
qed

lemma entry_match:
  assumes "plain_name n"
  shows "str_prefix (quoted_name n) (quoted_name (entry_name f p)) = 0 \<longleftrightarrow> entry_name f p = n"
proof -
  have "0 \<notin> set (entry_name f p)" by (auto simp: entry_name_def dest: set_takeWhileD)
  then show ?thesis using assms quoted_inject [of n "entry_name f p"] by (auto simp: str_prefix_iff plain_name_def)
qed

text \<open>The blocks of a directory: none is a hole.\<close>

definition dir_zones :: "nat \<Rightarrow> mem \<Rightarrow> mem \<Rightarrow> (nat \<Rightarrow> nat) \<Rightarrow> bool" where
  "dir_zones sz d ino zone \<longleftrightarrow> (\<forall>q\<in>{0..<unat (le32 ino 4)}. let lb = q div ext2_block_size (super_of d) in
     block_at (incompat_extents (super_of d)) sz d (ext2_block_size (super_of d)) ino lb (zone lb) \<and> zone lb \<noteq> 0)"

lemma size_le_pos: "p < 4294967296 \<Longrightarrow> w \<le> c_ulong (int p) \<longleftrightarrow> unat w \<le> p"
  by (simp add: c_ulong_def word_le_nat_alt unat_of_nat)

context fs_device
begin

text \<open>Writing below the super block.\<close>

lemma low_write:
  assumes "\<And>i. EXT2_SUPER \<le> i \<Longrightarrow> m' i = fsys_buf s i"
  shows "ext2_inv ino (s\<lparr>fsys_buf := m'\<rparr>) = ext2_inv ino s" "at_volume (s\<lparr>fsys_buf := m'\<rparr>) = at_volume s"
proof -
  have "\<forall>i\<in>{EXT2_SUPER..<GROUP_DESC}. m' i = fsys_buf s i" using assms by simp
  note c = super_cong [OF this]
  have r: "read_at a n m' = read_at a n (fsys_buf s)" if "EXT2_SUPER \<le> a" for a n using that assms by (intro read_at_cong) auto
  have p: "EXT2_SUPER \<le> ext2_data1 (fsys_buf s)" "EXT2_SUPER \<le> ext2_data2 (fsys_buf s)" by (simp_all add: ext2_data1_def ext2_data2_def ext2_inode_at_def)
  have h: "has_inode ino m' = has_inode ino (fsys_buf s)" using assms by (simp add: has_inode_def c ext2_inode_at_def)
  have e: "ext2_ready m' = ext2_ready (fsys_buf s)" by (simp add: ext2_ready_def c)
  show "ext2_inv ino (s\<lparr>fsys_buf := m'\<rparr>) = ext2_inv ino s"
    by (simp add: ext2_inv_def ext2_at_def ext2_cache_def mapblock1_def mapblock2_def c h e r [OF p(1)] r [OF p(2)])
  show "at_volume (s\<lparr>fsys_buf := m'\<rparr>) = at_volume s" using assms by (simp add: at_volume_def)
qed

text \<open>A block of a directory comes to the second buffer.\<close>

lemma ext2_dir_block_ok:
  assumes inv: "ext2_inv ino s" and at: "at_volume s" and lb: "p < 4294967296"
    and t: "block_at (incompat_extents (super_of (content (dsk s)))) (dev_size (dsk s)) (content (dsk s))
      (ext2_block_size (super_of (content (dsk s)))) ino (p div ext2_block_size (super_of (content (dsk s)))) z" "z \<noteq> 0"
  shows "\<exists>s1 s2. ext_map env (of_nat (p div ext2_block_size (super_of (content (dsk s))))) s = Some (int z, s1) \<and>
    ext2_rdfsb env (int z) (ext2_data2 (fsys_buf s)) (set_drv 1 (- 1) s1) = Some (True, s2) \<and> same_dev s s2 \<and> at_volume s2 \<and>
    ext2_inv ino s2 \<and> ext2_data2 (fsys_buf s2) = ext2_data2 (fsys_buf s) \<and>
    read_at (ext2_data2 (fsys_buf s)) (ext2_block_size (super_of (content (dsk s)))) (fsys_buf s2) =
      read_at (z * ext2_block_size (super_of (content (dsk s)))) (ext2_block_size (super_of (content (dsk s)))) (content (dsk s))"
proof -
  let ?d = "content (dsk s)"
  define bsz where "bsz = ext2_block_size (super_of ?d)"
  note c = super_cong [OF at_volume_super [OF at], folded bsz_def]
  have "p div bsz < 4294967296" using lb by (rule le_less_trans [OF div_le_dividend])
  then obtain s1 where s1: "ext_map env (of_nat (p div bsz)) s = Some (int z, s1)" "same_dev s s1" "same_front s s1" "ext2_inv ino s1"
    using ext_map_ok [OF inv, of "p div bsz" z] t(1) unfolding c(4,10) bsz_def by blast
  have d1: "dev_ok (dsk s1)" "content (dsk s1) = ?d" "dev_size (dsk s1) = dev_size (dsk s)" using s1(2) by (simp_all add: same_dev_def)
  have at1: "at_volume s1"
    using at_volume_step [OF at s1(2) _ same_front_super [OF s1(3)]] s1(3) by (simp add: same_front_def)
  note c1 = super_cong [OF at_volume_super [OF at1], unfolded d1, folded bsz_def]
  let ?s = "set_drv 1 (- 1) s1" and ?a = "ext2_data2 (fsys_buf s)"
  have a: "?a = ext2_data2 (fsys_buf s1)" unfolding c c1 ..
  have zi: "block_inside (dev_size (dsk ?s)) (ext2_block_size (fsys_buf ?s)) z" using t by (simp add: block_at_def c1(4) d1 bsz_def)
  obtain s2 where s2: "ext2_rdfsb env (int z) ?a ?s = Some (True, s2)" "same_dev ?s s2" "drv s2 = drv ?s"
    "fsys_buf s2 = write_at ?a (read_at (z * bsz) bsz ?d) (fsys_buf s1)" "same_front ?s s2"
    using ext2_rdfsb_ok [OF _ _ zi, of ?a] d1(1) at_volume_ready(1) [OF at1] unfolding a by (auto simp: c1(4) d1(2) ext2_data2_def)
  have sd: "same_dev s s2" using s1(2) s2(2) by (simp add: same_dev_def)
  have at2: "at_volume s2"
    using at_volume_step [OF at1 _ _ ] same_front_super [OF s2(5)] s2(2,5) by (simp add: same_front_def same_dev_def)
  have d2: "content (dsk s2) = ?d" using sd by (simp add: same_dev_def)
  note c2 = super_cong [OF at_volume_super [OF at2], unfolded d2, folded bsz_def]
  have "ext2_at ino s2" using ext2_at_cong [of ino s1 s2] s1(4) s2(2,5) by (simp add: ext2_inv_def same_dev_def same_front_def)
  moreover have "read_at (ext2_data1 (fsys_buf s1)) bsz (fsys_buf s2) = read_at (ext2_data1 (fsys_buf s1)) bsz (fsys_buf s1)"
    unfolding s2(4) a by (rule read_write_outside) (simp add: ext2_data2_def c1(4))
  ultimately have "ext2_inv ino s2"
    using s1(4) s2(3) d1 d2 by (simp add: ext2_inv_def ext2_cache_def mapblock1_def mapblock2_def c1 c2)
  moreover have "read_at ?a bsz (fsys_buf s2) = read_at (z * bsz) bsz ?d"
    using read_write_same [of ?a "read_at (z * bsz) bsz ?d"] by (simp add: s2(4))
  moreover have "ext2_data2 (fsys_buf s2) = ?a" unfolding c2 c ..
  ultimately show ?thesis using s1(1) s2(1) sd at2 unfolding bsz_def by blast
qed

lemma ext2_scan_step:
  fixes d zone
  defines "bsz \<equiv> ext2_block_size (super_of d)"
  defines "f \<equiv> ext2_file d bsz zone"
  assumes inv: "ext2_inv ino s" and at: "at_volume s" and d: "content (dsk s) = d" "dev_size (dsk s) = dsz"
    and p: "p < unat (le32 ino 4)" "unat (le32 ino 4) + 65536 < 2147483648" and e: "entry_inside f bsz p" and n: "plain_name n"
    and z: "dir_zones dsz d ino zone"
  shows "\<exists>chk' s'. ext2_scan env (quoted_name n) c (int p) chk s =
      (if entry_ino f p = 0 \<or> entry_name f p \<noteq> n then ext2_scan env (quoted_name n) c (int (p + entry_len f p)) chk' s'
       else Some (Inr (c_int (of_nat (entry_ino f p))), s')) \<and>
    same_dev s s' \<and> at_volume s' \<and> ext2_inv ino s'"
proof -
  let ?z = "zone (p div bsz)" and ?a = "ext2_data2 (fsys_buf s)" and ?w = "quoted_name n"
  have t: "block_at (incompat_extents (super_of d)) dsz d bsz ino (p div bsz) ?z" "?z \<noteq> 0"
    using z p(1) by (simp_all add: dir_zones_def bsz_def Let_def)
  have p32: "p < 4294967296" using p by simp
  obtain s1 s2 where s1: "ext_map env (of_nat (p div bsz)) s = Some (int ?z, s1)"
    and s2: "ext2_rdfsb env (int ?z) ?a (set_drv 1 (- 1) s1) = Some (True, s2)" "same_dev s s2" "at_volume s2" "ext2_inv ino s2"
      "ext2_data2 (fsys_buf s2) = ?a" "read_at ?a bsz (fsys_buf s2) = read_at (?z * bsz) bsz d"
    using ext2_dir_block_ok [OF inv at p32, unfolded d, folded bsz_def, OF t] by blast
  note c = super_cong [OF at_volume_super [OF at], unfolded d, folded bsz_def]
  have d2: "content (dsk s2) = d" using s2(2) d(1) by (simp add: same_dev_def)
  note c2 = super_cong [OF at_volume_super [OF s2(3)], unfolded d2, folded bsz_def]
  define x where "x = ext2_bits (super_of d)"
  have bx: "bsz = 2 ^ x" by (simp add: bsz_def ext2_block_size_def x_def)
  define o' where "o' = p mod bsz"
  have o': "o' \<le> bsz" unfolding o'_def bx by (simp add: less_imp_le)
  let ?e = "?a + o'"
  have copy: "read_at ?e (bsz - o') (fsys_buf s2) = read_at p (bsz - o') f"
    using read_at_sub [OF s2(6), of o' "bsz - o'"] read_block [of p bsz "bsz - o'" d zone] o' t(2) by (simp add: f_def o'_def)
  note en = entry_fields_copy [OF copy [unfolded o'_def] e, folded o'_def]
  have pp: "print_possibilities s2 = 0" using s2(3) by (simp add: at_volume_def)
  have size: "\<not> ei_size (fsys_buf s) \<le> c_ulong (int p)"
    using inode_fields(3) [of ino "fsys_buf s"] inv p(1) p32 by (simp add: ext2_inv_def ext2_at_def size_le_pos)
  have len: "entry_len f p < 65536" using le16_range by (simp add: entry_len_def nat_less_iff)
  have num: "c_ulong (drop_bit x (int p)) = of_nat (p div bsz)" "int p AND (int bsz - 1) = int o'"
    "s32 (int p + int (entry_len f p)) = int (p + entry_len f p)"
    using c_ulong_nat [of "p div bsz"] and_size_mod [of p x] s32_nat [of "p + entry_len f p"] p len
    by (simp_all add: drop_bit_eq_div zdiv_int bx o'_def)
  have io: "le32 (fsys_buf s2) ?e = of_nat (entry_ino f p)" using en(1) of_nat_unat_u32 by metis
  have i0: "(of_nat (entry_ino f p) :: u32) = 0 \<longleftrightarrow> entry_ino f p = 0" unfolding io [symmetric] en(1) [symmetric] by (simp add: word_unat_eq_iff)
  define nm where "nm = quoted_name (entry_name f p)"
  define s3 where "s3 = (if entry_ino f p \<noteq> 0 then s2\<lparr>fsys_buf := write_at 0 (nm @ [0]) (fsys_buf s2)\<rparr> else s2)"
  have low: "write_at 0 (nm @ [0]) (fsys_buf s2) i = fsys_buf s2 i" if "EXT2_SUPER \<le> i" for i
    using that length_quoted [of "entry_name f p"] length_entry_name [of f p] by (simp add: nm_def write_at_outside)
  have s3: "same_dev s s3" "at_volume s3" "ext2_inv ino s3"
    using s2(2-4) low_write [of "write_at 0 (nm @ [0]) (fsys_buf s2)" s2, OF low] by (simp_all add: s3_def same_dev_def)
  have pp3: "print_possibilities s3 = 0" using pp by (simp add: s3_def)
  let ?chk = "if entry_ino f p \<noteq> 0 then str_prefix ?w nm else chk"
  have step: "ext2_scan env ?w c (int p) chk s =
      (if entry_ino f p = 0 \<or> ?chk \<noteq> 0 then ext2_scan env ?w c (int (p + entry_len f p)) ?chk s3
       else Some (Inr (c_int (of_nat (entry_ino f p))), s3))"
    by (subst ext2_scan.simps)
      (simp only: size if_False if_True c(3) x_def [symmetric] num s1 bind.bind_lunit prod.case Let_def s2(1) not_True_eq_False
        of_nat_less_0_iff s2(5) c2(4) en(2) nat_int io i0 en(3) nm_def [symmetric] set_drv_simps; simp add: s3_def pp Let_def)
  have "(entry_ino f p = 0 \<or> ?chk \<noteq> 0) = (entry_ino f p = 0 \<or> entry_name f p \<noteq> n)"
    using entry_match [OF n, of f p] by (auto simp: nm_def)
  then show ?thesis using step s3 by metis
qed

lemma ext2_scan_ok:
  fixes d zone
  defines "bsz \<equiv> ext2_block_size (super_of d)"
  assumes "dir_lookup (ext2_file d bsz zone) sz bsz n p r"
    and "ext2_inv ino s" "at_volume s" "content (dsk s) = d" "dev_size (dsk s) = dsz"
    and "sz = unat (le32 ino 4)" "sz + 65536 < 2147483648" "p < sz + 65536" "plain_name n" "dir_zones dsz d ino zone"
    and "\<forall>i. r = Some i \<longrightarrow> i < 2147483648"
  shows "\<exists>s'. ext2_scan env (quoted_name n) c (int p) chk s =
      Some (case r of None \<Rightarrow> (Inl False, set_err ERR_FILE_NOT_FOUND s') | Some i \<Rightarrow> (Inr (int i), s')) \<and> same_dev s s' \<and> at_volume s'"
  using assms(2-)
proof (induction p r arbitrary: s chk rule: dir_lookup.induct)
  case (missing p)
  then have "ei_size (fsys_buf s) \<le> c_ulong (int p)"
    using inode_fields(3) [of ino "fsys_buf s"] by (simp add: ext2_inv_def ext2_at_def size_le_pos)
  moreover have "print_possibilities s = 0" "same_dev s s" using missing by (simp_all add: at_volume_def same_dev_refl)
  ultimately show ?case using missing by (subst ext2_scan.simps) auto
next
  case (found p)
  have i: "c_int (of_nat (entry_ino (ext2_file d bsz zone) p)) = int (entry_ino (ext2_file d bsz zone) p)"
    using found by (simp add: c_int_of_nat)
  show ?case
    using ext2_scan_step [of ino s d dsz p zone n c chk, folded bsz_def] found unfolding i by auto
next
  case (other p r)
  obtain chk' s' where s': "ext2_scan env (quoted_name n) c (int p) chk s =
      ext2_scan env (quoted_name n) c (int (p + entry_len (ext2_file d bsz zone) p)) chk' s'"
    "same_dev s s'" "at_volume s'" "ext2_inv ino s'"
    using ext2_scan_step [of ino s d dsz p zone n c chk, folded bsz_def] other by auto
  have "entry_len (ext2_file d bsz zone) p < 65536" using le16_range by (simp add: entry_len_def nat_less_iff)
  then have "p + entry_len (ext2_file d bsz zone) p < sz + 65536" using other(1) by simp
  then obtain s'' where "ext2_scan env (quoted_name n) c (int (p + entry_len (ext2_file d bsz zone) p)) chk' s' =
      Some (case r of None \<Rightarrow> (Inl False, set_err ERR_FILE_NOT_FOUND s'') | Some i \<Rightarrow> (Inr (int i), s''))" "same_dev s' s''" "at_volume s''"
    using other.IH [of s' chk'] other.prems s'(2-4) by (auto simp: same_dev_def)
  then show ?case using s'(1) same_dev_trans [OF s'(2)] by auto
qed

end

section \<open>Paths\<close>

definition ext2_mode :: "mem \<Rightarrow> nat \<Rightarrow> int" where
  "ext2_mode d ino = le16 (ext2_inode_of d ino) 0"

definition ext2_size :: "mem \<Rightarrow> nat \<Rightarrow> nat" where
  "ext2_size d ino = unat (le32 (ext2_inode_of d ino) 4)"

text \<open>Inode \<open>ino\<close> is a directory whose bytes are given by \<open>zone\<close>.\<close>

definition ext2_directory :: "nat \<Rightarrow> mem \<Rightarrow> nat \<Rightarrow> (nat \<Rightarrow> nat) \<Rightarrow> bool" where
  "ext2_directory sz d ino zone \<longleftrightarrow> inode_inside sz d ino \<and> S_ISDIR (ext2_mode d ino) \<and> ext2_size d ino \<noteq> 0 \<and>
     ext2_size d ino + 65536 < 2147483648 \<and> dir_zones sz d (ext2_inode_of d ino) zone"

definition ext2_lookup :: "mem \<Rightarrow> nat \<Rightarrow> (nat \<Rightarrow> nat) \<Rightarrow> u8 list \<Rightarrow> nat option \<Rightarrow> bool" where
  "ext2_lookup d ino zone n r \<longleftrightarrow>
     dir_lookup (ext2_file d (ext2_block_size (super_of d)) zone) (ext2_size d ino) (ext2_block_size (super_of d)) n 0 r"

definition ext2_huge :: "mem \<Rightarrow> bool" where
  "ext2_huge ino \<longleftrightarrow> le32 ino 32 AND 0x40000 \<noteq> 0 \<and> le32 ino 108 = 0"

text \<open>The inode that a path without symbolic links leads to from inode \<open>ino\<close>, or the error.\<close>

inductive ext2_path :: "nat \<Rightarrow> mem \<Rightarrow> nat \<Rightarrow> u8 list list \<Rightarrow> grub_error + nat \<Rightarrow> bool" for sz d where
  regular: "inode_inside sz d ino \<Longrightarrow> S_ISREG (ext2_mode d ino) \<Longrightarrow> \<not> ext2_huge (ext2_inode_of d ino) \<Longrightarrow> ext2_path sz d ino [] (Inr ino)"
| too_long: "inode_inside sz d ino \<Longrightarrow> S_ISREG (ext2_mode d ino) \<Longrightarrow> ext2_huge (ext2_inode_of d ino) \<Longrightarrow>
    ext2_path sz d ino [] (Inl ERR_FILELENGTH)"
| no_file: "inode_inside sz d ino \<Longrightarrow> \<not> S_ISLNK (ext2_mode d ino) \<Longrightarrow> \<not> S_ISREG (ext2_mode d ino) \<Longrightarrow>
    ext2_path sz d ino [] (Inl ERR_BAD_FILETYPE)"
| no_directory: "inode_inside sz d ino \<Longrightarrow> \<not> S_ISLNK (ext2_mode d ino) \<Longrightarrow> ext2_size d ino = 0 \<or> \<not> S_ISDIR (ext2_mode d ino) \<Longrightarrow>
    ext2_path sz d ino (n # ns) (Inl ERR_BAD_FILETYPE)"
| absent: "ext2_directory sz d ino zone \<Longrightarrow> ext2_lookup d ino zone n None \<Longrightarrow> ext2_path sz d ino (n # ns) (Inl ERR_FILE_NOT_FOUND)"
| enter: "ext2_directory sz d ino zone \<Longrightarrow> ext2_lookup d ino zone n (Some i) \<Longrightarrow> i < 2147483648 \<Longrightarrow> ext2_path sz d i ns r \<Longrightarrow>
    ext2_path sz d ino (n # ns) r"

lemma path_head:
  assumes "plain_name n" "path_end rest"
  shows "dropWhile (\<lambda>c. c = ch CHR ''/'') (names_text (n # ns) @ rest) = quoted_name n @ names_text ns @ rest"
    "fat_word (quoted_name n @ names_text ns @ rest) = (quoted_name n, names_text ns @ rest)"
proof -
  obtain c n' where n: "n = c # n'" using assms(1) by (cases n) (auto simp: plain_name_def)
  then show "dropWhile (\<lambda>c. c = ch CHR ''/'') (names_text (n # ns) @ rest) = quoted_name n @ names_text ns @ rest"
    using assms(1) by (simp add: names_text_def plain_name_def)
  have "names_text ns @ rest = [] \<or> fat_word_end (cur (names_text ns @ rest))"
    using assms(2) by (cases ns) (auto simp: names_text_def path_end_def fat_word_end_def)
  then show "fat_word (quoted_name n @ names_text ns @ rest) = (quoted_name n, names_text ns @ rest)"
    using assms(1) by (intro fat_word_quoted) (simp_all add: plain_name_def)
qed

context fs_device
begin

text \<open>The state after a path has been followed to the file \<open>ino\<close>.\<close>

definition ext2_at_file :: "nat \<Rightarrow> 'm loader \<Rightarrow> bool" where
  "ext2_at_file ino s \<longleftrightarrow> ext2_inv (ext2_inode_of (content (dsk s)) ino) s \<and> filemax s = c_int (le32 (ext2_inode_of (content (dsk s)) ino) 4)"

lemma inode_loaded:
  assumes "ext2_inv (ext2_inode_of d ino) s"
  shows "ei_mode (fsys_buf s) = ext2_mode d ino" "ei_size (fsys_buf s) = le32 (ext2_inode_of d ino) 4"
    "(ei_flags (fsys_buf s) AND 0x40000 \<noteq> 0 \<and> ei_size_high (fsys_buf s) = 0) = ext2_huge (ext2_inode_of d ino)"
  using inode_fields(2-5) [of "ext2_inode_of d ino" "fsys_buf s"] assms
  by (simp_all add: ext2_inv_def ext2_at_def ext2_mode_def ext2_huge_def)

lemma ext2_walk_end:
  assumes "at_volume s" "content (dsk s) = d" "inode_inside (dev_size (dsk s)) d ino" "path_end rest" "\<not> S_ISLNK (ext2_mode d ino)"
  shows "\<exists>s1. ext2_walk env gread (int ino) updir links rest lb s =
      Some (if \<not> S_ISREG (ext2_mode d ino) then (False, set_err ERR_BAD_FILETYPE s1)
            else if ext2_huge (ext2_inode_of d ino) then (False, set_err ERR_FILELENGTH s1)
            else (True, s1\<lparr>filemax := c_int (le32 (ext2_inode_of d ino) 4)\<rparr>)) \<and>
    same_dev s s1 \<and> at_volume s1 \<and> ext2_inv (ext2_inode_of d ino) s1"
proof -
  obtain s1 where s1: "ext2_get_inode env (int ino) s = Some (Inr (), s1)" "same_dev s s1" "at_volume s1" "ext2_inv (ext2_inode_of d ino) s1"
    using ext2_get_inode_ok [of s ino] assms(1-3) by auto
  note i = inode_loaded [OF s1(4)]
  have "name_end (cur rest)" using assms(4) by (cases rest) (auto simp: path_end_def name_end_def)
  then show ?thesis using s1 assms(5) by (intro exI [of _ s1], subst ext2_walk.simps) (simp add: i)
qed

lemma ext2_walk_head:
  assumes "at_volume s" "content (dsk s) = d" "inode_inside (dev_size (dsk s)) d ino" "plain_name n" "path_end rest" "\<not> S_ISLNK (ext2_mode d ino)"
  shows "\<exists>s1. ext2_walk env gread (int ino) updir links (names_text (n # ns) @ rest) lb s =
      (if ext2_size d ino = 0 \<or> \<not> S_ISDIR (ext2_mode d ino) then Some (False, set_err ERR_BAD_FILETYPE s1)
       else do {
         (r, s) \<leftarrow> ext2_scan env (quoted_name n) (cur (names_text ns @ rest)) 0 0 s1;
         case r of
           Inl ok \<Rightarrow> Some (ok, s)
         | Inr ino' \<Rightarrow> ext2_walk env gread ino' (int ino) links (names_text ns @ rest) lb s
       }) \<and>
    same_dev s s1 \<and> at_volume s1 \<and> ext2_inv (ext2_inode_of d ino) s1"
proof -
  obtain s1 where s1: "ext2_get_inode env (int ino) s = Some (Inr (), s1)" "same_dev s s1" "at_volume s1" "ext2_inv (ext2_inode_of d ino) s1"
    using ext2_get_inode_ok [of s ino] assms(1-3) by auto
  note i = inode_loaded [OF s1(4)]
  have z: "ext2_size d ino = 0 \<longleftrightarrow> le32 (ext2_inode_of d ino) 4 = 0" by (simp add: ext2_size_def word_unat_eq_iff)
  have slash: "cur (names_text (n # ns) @ rest) = ch CHR ''/''" "\<not> name_end (ch CHR ''/'')"
    by (simp_all add: names_text_def name_end_def grub_isspace_def)
  have "ext2_walk env gread (int ino) updir links (names_text (n # ns) @ rest) lb s =
      (if le32 (ext2_inode_of d ino) 4 = 0 \<or> \<not> S_ISDIR (ext2_mode d ino) then Some (False, set_err ERR_BAD_FILETYPE s1)
       else do {
         (r, s) \<leftarrow> ext2_scan env (quoted_name n) (cur (names_text ns @ rest)) 0 0 s1;
         case r of
           Inl ok \<Rightarrow> Some (ok, s)
         | Inr ino' \<Rightarrow> ext2_walk env gread ino' (int ino) links (names_text ns @ rest) lb s
       })"
    using assms(6) by (subst ext2_walk.simps)
      (simp only: s1(1) i slash bind.bind_lunit prod.case sum.case Let_def if_False path_head [OF assms(4,5)] of_nat_0)
  then show ?thesis using s1(2-4) z by auto
qed

lemma directory_lookup:
  assumes "ext2_directory sz d ino zone" "ext2_lookup d ino zone n r" "ext2_inv (ext2_inode_of d ino) s" "at_volume s"
    and "content (dsk s) = d" "dev_size (dsk s) = sz" "plain_name n" "\<forall>i. r = Some i \<longrightarrow> i < 2147483648"
  shows "\<exists>s'. ext2_scan env (quoted_name n) c 0 0 s =
      Some (case r of None \<Rightarrow> (Inl False, set_err ERR_FILE_NOT_FOUND s') | Some i \<Rightarrow> (Inr (int i), s')) \<and> same_dev s s' \<and> at_volume s'"
  using ext2_scan_ok [of d zone "ext2_size d ino" n 0 r "ext2_inode_of d ino" s sz c 0] assms
  by (simp add: ext2_directory_def ext2_lookup_def ext2_size_def)

lemma ext2_walk_ok:
  assumes "ext2_path sz d ino ns r"
    and "at_volume s" "content (dsk s) = d" "dev_size (dsk s) = sz" "\<forall>n\<in>set ns. plain_name n" "path_end rest"
  shows "\<exists>s'. ext2_walk env gread (int ino) updir links (names_text ns @ rest) lb s =
      Some (case r of Inl e \<Rightarrow> (False, set_err e s') | Inr i \<Rightarrow> (True, s')) \<and> same_dev s s' \<and> at_volume s' \<and>
    (\<forall>i. r = Inr i \<longrightarrow> ext2_at_file i s')"
  using assms
proof (induction arbitrary: updir s rule: ext2_path.induct)
  case (regular ino)
  then have "\<not> S_ISLNK (ext2_mode d ino)" by (simp add: S_ISLNK_def S_ISREG_def)
  then obtain s1 where s1: "ext2_walk env gread (int ino) updir links rest lb s = Some (True, s1\<lparr>filemax := c_int (le32 (ext2_inode_of d ino) 4)\<rparr>)"
    "same_dev s s1" "at_volume s1" "ext2_inv (ext2_inode_of d ino) s1"
    using ext2_walk_end [of s d ino rest gread updir links lb] regular by auto
  then show ?case using regular.prems(2)
    by (intro exI [of _ "s1\<lparr>filemax := c_int (le32 (ext2_inode_of d ino) 4)\<rparr>"])
      (simp add: names_text_def same_dev_def at_volume_def ext2_at_file_def ext2_inv_cong [of "s1\<lparr>filemax := c_int (le32 (ext2_inode_of d ino) 4)\<rparr>" s1])
next
  case (too_long ino)
  then have "\<not> S_ISLNK (ext2_mode d ino)" by (simp add: S_ISLNK_def S_ISREG_def)
  then show ?case using ext2_walk_end [of s d ino rest gread updir links lb] too_long by (auto simp: names_text_def)
next
  case (no_file ino)
  then show ?case using ext2_walk_end [of s d ino rest gread updir links lb] by (auto simp: names_text_def)
next
  case (no_directory ino n ns)
  then show ?case using ext2_walk_head [of s d ino n rest gread updir links ns lb] by auto
next
  case (absent ino zone n ns)
  then have p: "inode_inside sz d ino" "\<not> S_ISLNK (ext2_mode d ino)" "ext2_size d ino \<noteq> 0" "S_ISDIR (ext2_mode d ino)"
    by (auto simp: ext2_directory_def S_ISLNK_def S_ISDIR_def)
  obtain s1 where s1: "ext2_walk env gread (int ino) updir links (names_text (n # ns) @ rest) lb s =
      do { (r, s) \<leftarrow> ext2_scan env (quoted_name n) (cur (names_text ns @ rest)) 0 0 s1;
           case r of Inl ok \<Rightarrow> Some (ok, s) | Inr ino' \<Rightarrow> ext2_walk env gread ino' (int ino) links (names_text ns @ rest) lb s }"
    "same_dev s s1" "at_volume s1" "ext2_inv (ext2_inode_of d ino) s1"
    using ext2_walk_head [of s d ino n rest gread updir links ns lb] absent.prems p by auto
  have d1: "content (dsk s1) = d" "dev_size (dsk s1) = sz" using s1(2) absent.prems by (simp_all add: same_dev_def)
  obtain s2 where "ext2_scan env (quoted_name n) (cur (names_text ns @ rest)) 0 0 s1 = Some (Inl False, set_err ERR_FILE_NOT_FOUND s2)"
    "same_dev s1 s2" "at_volume s2"
    using directory_lookup [OF absent.hyps(1,2) s1(4,3) d1, of "cur (names_text ns @ rest)"] absent.prems by auto
  then show ?case using s1(1) same_dev_trans [OF s1(2)] by (intro exI [of _ s2]) simp
next
  case (enter ino zone n i ns r)
  then have p: "inode_inside sz d ino" "\<not> S_ISLNK (ext2_mode d ino)" "ext2_size d ino \<noteq> 0" "S_ISDIR (ext2_mode d ino)"
    by (auto simp: ext2_directory_def S_ISLNK_def S_ISDIR_def)
  obtain s1 where s1: "ext2_walk env gread (int ino) updir links (names_text (n # ns) @ rest) lb s =
      do { (r, s) \<leftarrow> ext2_scan env (quoted_name n) (cur (names_text ns @ rest)) 0 0 s1;
           case r of Inl ok \<Rightarrow> Some (ok, s) | Inr ino' \<Rightarrow> ext2_walk env gread ino' (int ino) links (names_text ns @ rest) lb s }"
    "same_dev s s1" "at_volume s1" "ext2_inv (ext2_inode_of d ino) s1"
    using ext2_walk_head [of s d ino n rest gread updir links ns lb] enter.prems p by auto
  have d1: "content (dsk s1) = d" "dev_size (dsk s1) = sz" using s1(2) enter.prems by (simp_all add: same_dev_def)
  obtain s2 where s2: "ext2_scan env (quoted_name n) (cur (names_text ns @ rest)) 0 0 s1 = Some (Inr (int i), s2)"
    "same_dev s1 s2" "at_volume s2"
    using directory_lookup [OF enter.hyps(1,2) s1(4,3) d1, of "cur (names_text ns @ rest)"] enter.prems enter.hyps(3) by auto
  have d2: "content (dsk s2) = d" "dev_size (dsk s2) = sz" using s2(2) d1 by (simp_all add: same_dev_def)
  obtain s' where "ext2_walk env gread (int i) (int ino) links (names_text ns @ rest) lb s2 =
      Some (case r of Inl e \<Rightarrow> (False, set_err e s') | Inr i \<Rightarrow> (True, s'))" "same_dev s2 s'" "at_volume s'"
    "\<forall>i. r = Inr i \<longrightarrow> ext2_at_file i s'"
    using enter.IH [OF s2(3) d2 _ enter.prems(5), of "int ino"] enter.prems(4) by auto
  then show ?case using s1(1) s2(1) same_dev_trans [OF s1(2) same_dev_trans [OF s2(2)]] by (intro exI [of _ s']) simp
qed

lemma ext2_mount_super:
  assumes "dev_ok (dsk s)" "2048 \<le> dev_size (dsk s)" "\<not> part_length (dsk s) < 4" "ext2_super_valid (super_of (content (dsk s)))"
  shows "\<exists>s'. ext2_mount env s = Some (True, s') \<and> same_dev s s' \<and> print_possibilities s' = print_possibilities s \<and>
    (\<forall>i\<in>{EXT2_SUPER..<GROUP_DESC}. fsys_buf s' i = super_of (content (dsk s)) i)"
proof -
  have e: "2 * 512 + 0 = (1024 :: nat)" by simp
  obtain d where d: "devread_buf env 2 0 1024 EXT2_SUPER s =
      Some (True, s\<lparr>fsys_buf := write_at EXT2_SUPER (read_at 1024 1024 (content (dsk s))) (fsys_buf s), dsk := d\<rparr>)"
    "dev_ok d" "content d = content (dsk s)" "dev_size d = dev_size (dsk s)"
    using read_buf_ok [OF assms(1), of 1024 2 0 EXT2_SUPER] assms(2) unfolding e by auto
  let ?m = "write_at EXT2_SUPER (read_at 1024 1024 (content (dsk s))) (fsys_buf s)"
  have m: "\<forall>i\<in>{EXT2_SUPER..<GROUP_DESC}. ?m i = super_of (content (dsk s)) i"
    by (auto simp: write_at_inside super_of_def add.commute)
  have "ext2_super_valid ?m" using super_cong(16) [OF m] assms(4) by simp
  then show ?thesis using assms(3) d m by (auto simp: ext2_mount_def same_dev_def)
qed

lemma ext2_mount_ok:
  assumes "dev_ok (dsk s)" "2048 \<le> dev_size (dsk s)" "\<not> part_length (dsk s) < 4" "print_possibilities s = 0" "ext2_volume (content (dsk s))"
  shows "\<exists>s'. ext2_mount env s = Some (True, s') \<and> same_dev s s' \<and> at_volume s'"
  using ext2_mount_super [OF assms(1-3)] assms(4,5) by (auto simp: at_volume_def same_dev_def ext2_volume_def)

text \<open>The inode of the root when the file system has the 64-bit feature.\<close>

lemma root_inode_64bit:
  fixes d
  defines "b \<equiv> 1 + unat (s_first_data_block (super_of d))"
  assumes "\<forall>i\<in>{EXT2_SUPER..<GROUP_DESC}. fsys_buf s i = super_of d i" "dev_ok (dsk s)" "content (dsk s) = d"
    and "ext2_ready (super_of d)" "incompat_64bit (super_of d)" "ext2_desc_size (super_of d) \<noteq> 0" "1 < s_inodes_per_group (super_of d)"
    and "block_inside (dev_size (dsk s)) (ext2_block_size (super_of d)) b"
    and "le32 d (b * ext2_block_size (super_of d) + 40) = 0"
  shows "\<exists>s'. ext2_get_inode env 2 s = Some (Inl True, set_err ERR_FILELENGTH s')"
proof -
  note c = super_cong [OF assms(2)]
  let ?b = "ext2_block_size (super_of d)"
  have "ext2_ready (fsys_buf s)" using assms(5) by (simp add: ext2_ready_def c)
  then obtain s1 where s1: "ext2_rdfsb env (int b) GROUP_DESC s = Some (True, s1)"
    "fsys_buf s1 = write_at GROUP_DESC (read_at (b * ?b) ?b d) (fsys_buf s)"
    using ext2_rdfsb_ok [OF assms(3), of b GROUP_DESC] assms(9) unfolding c(4) assms(4) by blast
  have "\<forall>i\<in>{EXT2_SUPER..<GROUP_DESC}. fsys_buf s1 i = super_of d i" using assms(2) by (simp add: s1(2) write_at_outside)
  note c1 = super_cong [OF this]
  have "read_at GROUP_DESC ?b (fsys_buf s1) = read_at (b * ?b) ?b d"
    using read_write_same [of GROUP_DESC "read_at (b * ?b) ?b d"] by (simp add: s1(2))
  then have t: "le32 (fsys_buf s1) (GROUP_DESC + 40) = 0"
    using le32_read_at [of GROUP_DESC ?b "fsys_buf s1" "b * ?b" d 40] ready_size(5) [OF assms(5)] assms(10) by simp
  have "unat (1 div s_inodes_per_group (super_of d)) = 1 div unat (s_inodes_per_group (super_of d))" unfolding unat_div by simp
  also have "\<dots> = 0" using assms(8) by (simp add: word_less_nat_alt del: One_nat_def)
  finally have g: "c_ulong (2 - 1) div s_inodes_per_group (super_of d) = 0" unfolding c_ulong_def by (simp only: word_unat_eq_iff unat_0) simp
  have "1 + c_ulong 0 + s_first_data_block (super_of d) = of_nat b" by (simp add: b_def c_ulong_def)
  then have nb: "c_int (1 + c_ulong 0 + s_first_data_block (super_of d)) = int b" using assms(9) c_int_of_nat [of b] by (simp add: block_inside_def)
  have z: "c_int 0 = 0" by (simp add: c_int_def s32_def)
  show ?thesis
    unfolding ext2_get_inode_def Let_def c g z drop_bit_of_0 using assms(6,7) nb s1(1) t by (auto simp: c1)
qed

end

end
