(* ===== verification/Ext2Volume.thy ===== *)
theory Ext2Volume
  imports Ext2Dirs
begin

text \<open>
  The ext2 driver on a partition behind the BIOS: the properties, and two small volumes on which they are tried.
\<close>

section \<open>Properties\<close>

text \<open>C5: on an ext2, ext3 or ext4 partition a path is looked up from the root, names with spaces included, to the inode
  that the bytes of the partition define for it; a path that leads to no file is refused with the error of the first
  step that fails.  The reads that follow deliver the bytes of the file for every range whose blocks are given by
  \<open>zones_ok\<close>.  In a file of block numbers these are direct blocks and blocks behind up to three levels of blocks of
  numbers, all of which exist; the last number may be 0, and its block reads as zeros.  In a file of extents, in a tree of
  any depth, every block must lie in an extent that has been written: nothing is said here about the holes of such a
  file, which the driver does not treat as holes (\<open>ext4_hole_behind_extent\<close>).\<close>

theorem ext2_lookup_and_read:
  assumes "lba_drive fw drive g 9 disk \<or> chs_drive fw drive g 9 disk"
    and "\<And>g0. get_diskinfo fw drive g0 = (0, g)" "drive \<in> {128..<136}" "ldisk env = bios_env fw lr ba sa"
    and "part_ok drive g disk (dsk s)" "2048 \<le> part_size (dsk s)" "print_possibilities s = 0"
    and "ext2_volume (part_content disk (dsk s))" "ext2_path (part_size (dsk s)) (part_content disk (dsk s)) 2 ns r"
    and "\<forall>n\<in>set ns. plain_name n" "path_end rest"
  shows "\<exists>s1 s2. ext2_mount env s = Some (True, s1) \<and>
    (case r of
       Inl e \<Rightarrow> ext2_dir env gread lb (names_text ns @ rest) s1 = Some (False, s2) \<and> err s2 = e
     | Inr ino \<Rightarrow>
         let d = part_content disk (dsk s); bsz = ext2_block_size (super_of d) in
         ext2_dir env gread lb (names_text ns @ rest) s1 = Some (True, s2) \<and> filemax s2 = c_int (le32 (ext2_inode_of d ino) 4) \<and>
         (\<forall>zone f n buf a. f + n < 2147483648 \<and>
           zones_ok (incompat_extents (super_of d)) (part_size (dsk s)) d bsz (ext2_inode_of d ino) zone f n \<longrightarrow>
           (\<exists>s3. ext2_read env (int n) buf a (s2\<lparr>filepos := int f\<rparr>) =
             Some (int n, write_at a (read_at f n (ext2_file d bsz zone)) buf, s3))))"
proof -
  let ?d = "part_content disk (dsk s)" and ?sz = "part_size (dsk s)"
  note f = partition_fs [OF bios_part [OF assms(1-3)] assms(4)]
  have len: "\<not> part_length (dsk s) < 4" using assms(6) by (simp add: part_size_def word_less_nat_alt)
  obtain s1 where s1: "ext2_mount env s = Some (True, s1)" "fs_device.same_dev (part_ok drive g disk) (part_content disk) part_size s s1"
    "fs_device.at_volume (part_ok drive g disk) (part_content disk) s1"
    using fs_device.ext2_mount_ok [OF f assms(5,6) len assms(7,8)] by blast
  have d1: "part_content disk (dsk s1) = ?d" "part_size (dsk s1) = ?sz"
    using s1(2) by (simp_all add: fs_device.same_dev_def [OF f])
  obtain s2 where s2: "ext2_walk env gread (int 2) 2 0 (names_text ns @ rest) lb s1 =
      Some (case r of Inl e \<Rightarrow> (False, set_err e s2) | Inr i \<Rightarrow> (True, s2))"
    "fs_device.same_dev (part_ok drive g disk) (part_content disk) part_size s1 s2"
    "fs_device.at_volume (part_ok drive g disk) (part_content disk) s2"
    "\<forall>i. r = Inr i \<longrightarrow> fs_device.ext2_at_file (part_ok drive g disk) (part_content disk) i s2"
    using fs_device.ext2_walk_ok [OF f assms(9) s1(3) d1 assms(10,11), of gread 2 0 lb] by blast
  have d2: "part_content disk (dsk s2) = ?d" "part_size (dsk s2) = ?sz"
    using s2(2) d1 by (simp_all add: fs_device.same_dev_def [OF f])
  show ?thesis
  proof (cases r)
    case (Inl e)
    then show ?thesis using s1(1) s2(1) by (auto simp: ext2_dir_def intro: exI [of _ "set_err e s2"])
  next
    case (Inr ino)
    let ?i = "ext2_inode_of ?d ino" and ?b = "ext2_block_size (super_of ?d)"
    have at: "fs_device.ext2_inv (part_ok drive g disk) (part_content disk) ?i s2" "filemax s2 = c_int (le32 ?i 4)"
      using s2(4) Inr d2(1) by (simp_all add: fs_device.ext2_at_file_def [OF f])
    note c = super_cong [OF fs_device.at_volume_super [OF f s2(3)], unfolded d2]
    have "\<exists>s3. ext2_read env (int n) buf a (s2\<lparr>filepos := int p\<rparr>) = Some (int n, write_at a (read_at p n (ext2_file ?d ?b zone)) buf, s3)"
      if "p + n < 2147483648" "zones_ok (incompat_extents (super_of ?d)) ?sz ?d ?b ?i zone p n" for zone p n buf a
      using fs_device.ext2_read_ok [OF f, of ?i "s2\<lparr>filepos := int p\<rparr>" p n zone buf a] that at(1) d2 c(4,10)
        fs_device.ext2_inv_cong [OF f, of "s2\<lparr>filepos := int p\<rparr>" s2 ?i] by auto
    then show ?thesis using s1(1) s2(1) at(2) Inr by (auto simp: ext2_dir_def Let_def)
  qed
qed

section \<open>A small volume\<close>

text \<open>
  A partition of 100 sectors with blocks of 1024 bytes and extents.  The root directory, inode 2 in block 8, has the file
  \<open>a b\<close>, inode 11, whose one extent has the blocks 9 and 10.
\<close>

definition ext2_part :: mem where
  "ext2_part = (\<lambda>i. case map_of
     [(1024, 32), (1028, 50), (1044, 1), (1057, 32), (1064, 32), (1080, 0x53), (1081, 0xEF), (1100, 1), (1112, 128), (1120, 0x40),
      (2056, 3),
      (3200, 0), (3201, 0x40), (3205, 4), (3240, 8),
      (4352, 0), (4353, 0x80), (4356, 0xDC), (4357, 5), (4386, 8), (4392, 0x0A), (4393, 0xF3), (4394, 1), (4408, 2), (4412, 9),
      (8192, 2), (8196, 12), (8198, 1), (8200, 46), (8204, 11), (8208, 0xF4), (8209, 3), (8210, 3), (8212, 97), (8213, 32), (8214, 98),
      (10239, 91), (10240, 93)] i of
     None \<Rightarrow> 0 | Some b \<Rightarrow> b)"

text \<open>The first drive with a partition \<open>p\<close> of 100 sectors.\<close>

definition hd_volume :: "mem \<Rightarrow> mem loader" where
  "hd_volume p = start_loader (hd_state\<lparr>media := (\<lambda>i. if i < 32256 then 0 else p (i - 32256))\<rparr>)"

lemma hd_volume_ok: "part_ok 128 (hd_geometry 1) (\<lambda>m. m) (dsk (hd_volume p))"
proof -
  have "no_ezd (hd_geometry 1) 9 (\<lambda>i. if i < 32256 then 0 else p (i - 32256))"
    by (auto simp: no_ezd_def hd_vtrack is_ezd_def PC_SLICE_TYPE_def)
  then show ?thesis
    using hd_part_ok by (simp add: part_ok_def readable_def hd_volume_def start_loader_def hd_state_def)
qed

lemma hd_volume_content: "part_content (\<lambda>m. m) (dsk (hd_volume p)) = p" "part_size (dsk (hd_volume p)) = 51200"
  "print_possibilities (hd_volume p) = 0"
  by (simp_all add: part_content_def part_size_def hd_volume_def start_loader_def hd_state_def)

lemma ext2_layout:
  "s_inodes_per_group (super_of ext2_part) = 32" "s_first_data_block (super_of ext2_part) = 1" "ext2_block_size (super_of ext2_part) = 1024"
  "ext2_inode_size (super_of ext2_part) = 128" "incompat_extents (super_of ext2_part)" "ext2_volume ext2_part"
proof -
  have f: "s_inodes_count (super_of ext2_part) = 32" "s_blocks_count (super_of ext2_part) = 50" "s_log_block_size (super_of ext2_part) = 0"
    "s_blocks_per_group (super_of ext2_part) = 8192" "ext2_magic (super_of ext2_part) = 0xEF53" "s_rev_level (super_of ext2_part) = 1"
    "s_inode_size (super_of ext2_part) = 128" "s_feature_incompat (super_of ext2_part) = 0x40"
    by (simp_all add: super_fields super_of_def le16_def le32_def ext2_part_def)
  show l: "s_inodes_per_group (super_of ext2_part) = 32" "s_first_data_block (super_of ext2_part) = 1"
    by (simp_all add: super_fields super_of_def le16_def le32_def ext2_part_def)
  show b: "ext2_block_size (super_of ext2_part) = 1024" by (simp add: ext2_block_size_def ext2_bits_def f)
  show i: "ext2_inode_size (super_of ext2_part) = 128" "incompat_extents (super_of ext2_part)"
    by (simp_all add: ext2_inode_size_def incompat_extents_def f)
  show "ext2_volume ext2_part"
    by (simp add: ext2_volume_def ext2_super_valid_def f l b i incompat_64bit_def inodes_in_block_def)
qed

lemma ext2_inodes:
  "table_block ext2_part 2 = 3" "table_block ext2_part 11 = 4" "inode_inside 51200 ext2_part 2" "inode_inside 51200 ext2_part 11"
  "ext2_inode_of ext2_part 2 = (\<lambda>i. ext2_part (3200 + i))" "ext2_inode_of ext2_part 11 = (\<lambda>i. ext2_part (4352 + i))"
proof -
  have g: "inode_group ext2_part 2 = 0" "inode_group ext2_part 11 = 0" "inode_index ext2_part 2 = 1" "inode_index ext2_part 11 = 10"
    "inodes_in_block ext2_part = 8" "desc_block ext2_part 0 = 2"
    by (simp_all add: inode_group_def inode_index_def inodes_in_block_def desc_block_def ext2_layout)
  have t: "inode_table ext2_part 0 = 3" by (simp add: inode_table_def g ext2_layout le32_def le16_def) (simp add: ext2_part_def)
  show b: "table_block ext2_part 2 = 3" "table_block ext2_part 11 = 4" by (simp_all add: table_block_def g t)
  show "inode_inside 51200 ext2_part 2" "inode_inside 51200 ext2_part 11"
    by (simp_all add: inode_inside_def block_inside_def ext2_layout g b)
  show "ext2_inode_of ext2_part 2 = (\<lambda>i. ext2_part (3200 + i))" "ext2_inode_of ext2_part 11 = (\<lambda>i. ext2_part (4352 + i))"
    by (simp_all add: ext2_inode_of_def b g ext2_layout)
qed

lemma ext2_root:
  "ext2_directory 51200 ext2_part 2 (\<lambda>_. 8)" "ext2_lookup ext2_part 2 (\<lambda>_. 8) [97, 32, 98] (Some 11)"
proof -
  have m: "ext2_mode ext2_part 2 = 0x4000" "ext2_size ext2_part 2 = 1024" "inode_block (ext2_inode_of ext2_part 2) 0 = 8"
    "\<not> inode_extents (ext2_inode_of ext2_part 2)"
    by (simp_all add: ext2_mode_def ext2_size_def inode_block_def inode_extents_def ext2_inodes le16_def le32_def) (simp_all add: ext2_part_def)
  have b: "block_at True 51200 ext2_part 1024 (ext2_inode_of ext2_part 2) 0 8"
    using tree_block.direct [of 0 51200 ext2_part 1024 "ext2_inode_of ext2_part 2"] m(3,4) by (simp add: block_at_def block_inside_def)
  have "dir_zones 51200 ext2_part (ext2_inode_of ext2_part 2) (\<lambda>_. 8)"
    using b m(2) by (simp add: dir_zones_def ext2_layout ext2_size_def)
  then show "ext2_directory 51200 ext2_part 2 (\<lambda>_. 8)" by (simp add: ext2_directory_def m ext2_inodes S_ISDIR_def)
  let ?f = "ext2_file ext2_part 1024 (\<lambda>_. 8)"
  have f: "?f p = ext2_part (8192 + p)" if "p < 1024" for p using that by (simp add: ext2_file_def)
  have e0: "entry_inside ?f 1024 0" "entry_name ?f 0 = [46]" "entry_len ?f 0 = 12"
    by (simp_all add: entry_inside_def entry_name_def entry_len_def le16_def f read_at_def upt_rec) (simp_all add: ext2_part_def)
  have e1: "entry_inside ?f 1024 12" "entry_name ?f 12 = [97, 32, 98]" "entry_ino ?f 12 = 11"
    by (simp_all add: entry_inside_def entry_name_def entry_ino_def le16_def le32_def f read_at_def upt_rec) (simp_all add: ext2_part_def)
  have "dir_lookup ?f 1024 1024 [97, 32, 98] 12 (Some 11)" using dir_lookup.found [of 12 1024 ?f 1024 "[97, 32, 98]"] e1 by simp
  then have "dir_lookup ?f 1024 1024 [97, 32, 98] 0 (Some 11)" using dir_lookup.other [of 0 1024 ?f 1024 "[97, 32, 98]" "Some 11"] e0 by simp
  then show "ext2_lookup ext2_part 2 (\<lambda>_. 8) [97, 32, 98] (Some 11)" by (simp add: ext2_lookup_def m ext2_layout)
qed

lemma ext2_a_b:
  "ext2_path 51200 ext2_part 2 [[97, 32, 98]] (Inr 11)"
  "zones_ok True 51200 ext2_part 1024 (ext2_inode_of ext2_part 11) (\<lambda>lb. 9 + lb) 1023 2"
proof -
  let ?i = "ext2_inode_of ext2_part 11"
  have m: "ext2_mode ext2_part 11 = 0x8000" "le32 ?i 32 = 0x80000"
    by (simp_all add: ext2_mode_def ext2_inodes le16_def le32_def) (simp_all add: ext2_part_def)
  then have m2: "\<not> ext2_huge ?i" "inode_extents ?i" by (simp_all add: ext2_huge_def inode_extents_def)
  have "ext2_path 51200 ext2_part 11 [] (Inr 11)" by (rule ext2_path.regular) (simp_all add: m m2 ext2_inodes(4) S_ISREG_def)
  from ext2_path.enter [OF ext2_root _ this] show "ext2_path 51200 ext2_part 2 [[97, 32, 98]] (Inr 11)" by simp
  have h: "eh_magic ?i 40 = 0xF30A" "eh_entries ?i 40 = 1" "eh_depth ?i 40 = 0"
    by (simp_all add: eh_magic_def eh_entries_def eh_depth_def ext2_inodes le16_def) (simp_all add: ext2_part_def)
  have e: "ee_block ?i 52 = 0" "ee_len ?i 52 = 2" "ee_start_hi ?i 52 = 0" "ee_start_lo ?i 52 = 9"
    by (simp_all add: entry_fields ext2_inodes le16_def le32_def) (simp_all add: ext2_part_def)
  have ns: "node_sorted ?i 40 60" by (rule single_sorted) (simp_all add: h)
  have "leaf_block ?i 40 60 (of_nat lb) (9 + lb)" if "lb < 2" for lb
    using that by (auto simp: leaf_block_def h ns chosen_entry_def Let_def ext_entry_def e unsigned_of_nat less_2_cases_iff
      intro!: exI [of _ 0])
  then have bl: "block_at True 51200 ext2_part 1024 ?i lb (9 + lb)" if "lb < 2" for lb
    using that extent_block.leaf [of ?i 40 60 "of_nat lb" "9 + lb" 51200 ext2_part 1024] h m2(2) by (auto simp: block_at_def block_inside_def)
  have "block_at True 51200 ext2_part 1024 ?i (p div 1024) (9 + p div 1024)" if "p < 1025" for p
    using that by (intro bl) (simp add: div_less_iff_less_mult)
  then show "zones_ok True 51200 ext2_part 1024 ?i (\<lambda>lb. 9 + lb) 1023 2" by (simp add: zones_ok_def)
qed

theorem ext2_lookup_and_read_witness:
  "\<exists>s1 s2 s3. ext2_mount hd_loader_env (hd_volume ext2_part) = Some (True, s1) \<and>
     ext2_dir hd_loader_env (\<lambda>_ _ _ _. None) (\<lambda>_. 0) (bs ''/a'' @ [backslash] @ bs '' b'') s1 = Some (True, s2) \<and>
     ext2_read hd_loader_env 2 (\<lambda>_. 0) 0 (s2\<lparr>filepos := 1023\<rparr>) = Some (2, write_at 0 (bs ''[]'') (\<lambda>_. 0), s3)"
proof -
  have t: "names_text [[97, 32, 98]] @ [] = bs ''/a'' @ [backslash] @ bs '' b''" by (simp add: names_text_def)
  have n: "\<forall>n\<in>set [[97, 32, 98]]. plain_name n" by (simp add: plain_name_def grub_isspace_def)
  have c: "read_at 1023 2 (ext2_file ext2_part 1024 (\<lambda>lb. 9 + lb)) = bs ''[]''"
    by (simp add: read_at_def upt_rec ext2_file_def) (simp add: ext2_part_def)
  have e: "path_end []" by (simp add: path_end_def)
  obtain s1 s2 where s: "ext2_mount hd_loader_env (hd_volume ext2_part) = Some (True, s1)"
    "ext2_dir hd_loader_env (\<lambda>_ _ _ _. None) (\<lambda>_. 0) (bs ''/a'' @ [backslash] @ bs '' b'') s1 = Some (True, s2)"
    "\<forall>zone f n buf a. f + n < 2147483648 \<and> zones_ok True 51200 ext2_part 1024 (ext2_inode_of ext2_part 11) zone f n \<longrightarrow>
       (\<exists>s3. ext2_read hd_loader_env (int n) buf a (s2\<lparr>filepos := int f\<rparr>) =
         Some (int n, write_at a (read_at f n (ext2_file ext2_part 1024 zone)) buf, s3))"
    using ext2_lookup_and_read [OF disjI1 [OF hd_lba.lba_drive_axioms] hd_probe _ hd_loader_disk hd_volume_ok, where ns = "[[97, 32, 98]]"
        and r = "Inr 11" and rest = "[]" and gread = "\<lambda>_ _ _ _. None" and lb = "\<lambda>_. 0", unfolded hd_volume_content, OF _ _ refl ext2_layout(6) ext2_a_b(1) n e]
    unfolding t by (auto simp: Let_def ext2_layout)
  have "\<exists>s3. ext2_read hd_loader_env (int 2) (\<lambda>_. 0) 0 (s2\<lparr>filepos := int 1023\<rparr>) =
      Some (int 2, write_at 0 (read_at 1023 2 (ext2_file ext2_part 1024 (\<lambda>lb. 9 + lb))) (\<lambda>_. 0), s3)"
    using ext2_a_b(2) by (intro mp [OF spec [OF spec [OF spec [OF spec [OF spec [OF s(3)]]]]]]) simp
  then show ?thesis using s(1,2) unfolding c by simp
qed

text \<open>The same with the 64-bit feature and descriptors of 64 bytes.\<close>

definition ext2_part64 :: mem where
  "ext2_part64 = ext2_part(1120 := 0xC0, 1278 := 64)"

lemma ext2_layout64:
  "s_inodes_per_group (super_of ext2_part64) = 32" "s_first_data_block (super_of ext2_part64) = 1" "ext2_block_size (super_of ext2_part64) = 1024"
  "incompat_64bit (super_of ext2_part64)" "s_desc_size (super_of ext2_part64) = 64" "ext2_super_valid (super_of ext2_part64)"
proof -
  have f: "s_inodes_count (super_of ext2_part64) = 32" "s_blocks_count (super_of ext2_part64) = 50" "s_log_block_size (super_of ext2_part64) = 0"
    "s_blocks_per_group (super_of ext2_part64) = 8192" "ext2_magic (super_of ext2_part64) = 0xEF53" "s_rev_level (super_of ext2_part64) = 1"
    "s_inode_size (super_of ext2_part64) = 128" "s_feature_incompat (super_of ext2_part64) = 0xC0"
    by (simp_all add: super_fields super_of_def le16_def le32_def ext2_part64_def) (simp_all add: ext2_part_def)
  show l: "s_inodes_per_group (super_of ext2_part64) = 32" "s_first_data_block (super_of ext2_part64) = 1" "s_desc_size (super_of ext2_part64) = 64"
    by (simp_all add: super_fields super_of_def le16_def le32_def ext2_part64_def) (simp_all add: ext2_part_def)
  show b: "ext2_block_size (super_of ext2_part64) = 1024" by (simp add: ext2_block_size_def ext2_bits_def f)
  show "incompat_64bit (super_of ext2_part64)" by (simp add: incompat_64bit_def f)
  show "ext2_super_valid (super_of ext2_part64)" by (simp add: ext2_super_valid_def f l b)
qed

text \<open>C18: the test of the upper half of a table of inodes is inverted: on a file system with the 64-bit feature whose first table
  lies below block 2 ^ 32, as every one of less than 16 TiB does, no file is found, and \<open>ext2fs_dir\<close> reports success with
  an error that says the file is too long.\<close>

theorem ext2_64bit_refused:
  assumes "lba_drive fw drive g 9 disk \<or> chs_drive fw drive g 9 disk"
    and "\<And>g0. get_diskinfo fw drive g0 = (0, g)" "drive \<in> {128..<136}" "ldisk env = bios_env fw lr ba sa"
    and "part_ok drive g disk (dsk s)" "2048 \<le> part_size (dsk s)" "ext2_super_valid (super_of (part_content disk (dsk s)))"
    and "incompat_64bit (super_of (part_content disk (dsk s)))" "s_desc_size (super_of (part_content disk (dsk s))) \<noteq> 0"
    and "1 < s_inodes_per_group (super_of (part_content disk (dsk s)))"
    and "block_inside (part_size (dsk s)) (ext2_block_size (super_of (part_content disk (dsk s))))
      (1 + unat (s_first_data_block (super_of (part_content disk (dsk s)))))"
    and "le32 (part_content disk (dsk s))
      ((1 + unat (s_first_data_block (super_of (part_content disk (dsk s))))) * ext2_block_size (super_of (part_content disk (dsk s))) + 40) = 0"
  shows "\<exists>s1 s2. ext2_mount env s = Some (True, s1) \<and> ext2_dir env gread lb name s1 = Some (True, s2) \<and> err s2 = ERR_FILELENGTH"
proof -
  let ?d = "part_content disk (dsk s)"
  note f = partition_fs [OF bios_part [OF assms(1-3)] assms(4)]
  have len: "\<not> part_length (dsk s) < 4" using assms(6) by (simp add: part_size_def word_less_nat_alt)
  obtain s1 where s1: "ext2_mount env s = Some (True, s1)" "fs_device.same_dev (part_ok drive g disk) (part_content disk) part_size s s1"
    "\<forall>i\<in>{EXT2_SUPER..<GROUP_DESC}. fsys_buf s1 i = super_of ?d i"
    using fs_device.ext2_mount_super [OF f assms(5,6) len assms(7)] by blast
  have d1: "part_ok drive g disk (dsk s1)" "part_content disk (dsk s1) = ?d" "part_size (dsk s1) = part_size (dsk s)"
    using s1(2) by (simp_all add: fs_device.same_dev_def [OF f])
  have ds: "ext2_desc_size (super_of ?d) \<noteq> 0" using assms(8,9) by (simp add: ext2_desc_size_def)
  obtain s2 where "ext2_get_inode env 2 s1 = Some (Inl True, set_err ERR_FILELENGTH s2)"
    using fs_device.root_inode_64bit [OF f s1(3) d1(1,2) super_ready [OF assms(7)] assms(8) ds assms(10)] assms(11,12) unfolding d1(3) by blast
  then have "ext2_dir env gread lb name s1 = Some (True, set_err ERR_FILELENGTH s2)"
    unfolding ext2_dir_def by (subst ext2_walk.simps) simp
  then show ?thesis using s1(1) by auto
qed

text \<open>C17: the check for holes in a leaf of extents lets one block too many pass: the block right behind an extent, which is a
  hole when the next extent begins later, is read from the block behind the extent on the disk and not as zeros.\<close>

theorem ext4_hole_behind_extent:
  assumes "eh_magic (fsys_buf s) (ei_block_at (fsys_buf s)) = EXT4_EXT_MAGIC" "eh_depth (fsys_buf s) (ei_block_at (fsys_buf s)) = 0"
    and "node_sorted (fsys_buf s) (ei_block_at (fsys_buf s)) n" "chosen_entry (fsys_buf s) (ei_block_at (fsys_buf s)) lb i"
    and "e = ext_entry (ei_block_at (fsys_buf s)) i" "ee_start_hi (fsys_buf s) e = 0"
    and "uint lb = uint (ee_block (fsys_buf s) e) + ee_len (fsys_buf s) e"
    and "uint (ee_start_lo (fsys_buf s) e) + ee_len (fsys_buf s) e < 2147483648"
  shows "ext4_block_map env (c_int lb) s = Some (uint (ee_start_lo (fsys_buf s) e) + ee_len (fsys_buf s) e, s)"
proof -
  let ?w = "ee_block (fsys_buf s) e" and ?l = "ee_len (fsys_buf s) e" and ?st = "ee_start_lo (fsys_buf s) e"
  have l: "0 \<le> ?l" "?l < 65536" by (simp_all add: ee_len_def le16_range)
  have u: "uint (c_ulong ?l) = ?l" using l by (simp add: c_ulong_def uint_word_of_int)
  have "uint (?w + c_ulong ?l) = uint lb"
    using assms(7) uint_lt2p [of lb] by (simp add: uint_plus_if' u)
  then have "lb = ?w + c_ulong ?l" by (simp only: word_uint_eq_iff)
  then have w: "\<not> ?w + c_ulong ?l < lb" "?st + lb - ?w = ?st + c_ulong ?l" by simp_all
  have "uint (?st + c_ulong ?l) = uint ?st + ?l" using assms(8) by (simp add: uint_plus_if' u)
  then have z: "c_int (?st + lb - ?w) = uint ?st + ?l" unfolding w(2) using assms(8) by (simp add: c_int_small)
  have d: "ext4_descend env lb (ei_block_at (fsys_buf s)) s = Some (Inr (ei_block_at (fsys_buf s)), s)"
    using assms(2) by (subst ext4_descend.simps) simp
  show ?thesis
    unfolding ext4_block_map_def c_ulong_c_int Let_def assms(1) using d binsearch_chosen(1) [OF assms(3,4)] assms(6) w(1) z
    by (simp add: assms(5) [symmetric])
qed

theorem ext2_64bit_refused_witness:
  "\<exists>s1 s2. ext2_mount hd_loader_env (hd_volume ext2_part64) = Some (True, s1) \<and>
     ext2_dir hd_loader_env (\<lambda>_ _ _ _. None) (\<lambda>_. 0) (bs ''/a'') s1 = Some (True, s2) \<and> err s2 = ERR_FILELENGTH"
proof -
  have z: "le32 ext2_part64 2088 = 0" by (simp add: le32_def le16_def ext2_part64_def) (simp add: ext2_part_def)
  have i: "block_inside 51200 1024 (Suc (Suc 0))" by (simp add: block_inside_def)
  show ?thesis
    using ext2_64bit_refused [OF disjI1 [OF hd_lba.lba_drive_axioms] hd_probe _ hd_loader_disk hd_volume_ok [of ext2_part64], where
        gread = "\<lambda>_ _ _ _. None" and lb = "\<lambda>_. 0" and name = "bs ''/a''", unfolded hd_volume_content, OF _ _ ext2_layout64(6,4)] z i
    by (simp add: ext2_layout64)
qed

text \<open>C16: the binary searches through a node of the tree of extents find the entry that the search entry by entry finds, and end.\<close>

theorem ext4_binsearch_linear:
  assumes "node_sorted m h n"
  shows "ext4_ext_binsearch m h lb = ext_entry h (linear_entry m h lb) \<and>
    ext4_ext_binsearch_idx m h lb = ext_entry h (linear_entry m h lb)"
  using binsearch_chosen [OF assms linear_chosen [OF assms]] by blast

text \<open>A leaf in the inode with one extent of two blocks.\<close>

definition extent_buf :: mem where
  "extent_buf = (\<lambda>i. case map_of [(2600, 0x0A), (2601, 0xF3), (2602, 1), (2616, 2), (2620, 9)] i of None \<Rightarrow> 0 | Some b \<Rightarrow> b)"

theorem ext4_hole_behind_extent_witness:
  "ext4_block_map hd_loader_env 2 (start_loader hd_state\<lparr>fsys_buf := extent_buf\<rparr>) =
     Some (11, start_loader hd_state\<lparr>fsys_buf := extent_buf\<rparr>)"
proof -
  have "s_log_block_size extent_buf = 0" by (simp add: super_fields le32_def le16_def extent_buf_def)
  then have a: "ei_block_at extent_buf = 2600" by (simp add: ei_block_at_def ext2_inode_at_def ext2_block_size_def ext2_bits_def)
  have h: "eh_magic extent_buf 2600 = 0xF30A" "eh_entries extent_buf 2600 = 1" "eh_depth extent_buf 2600 = 0"
    by (simp_all add: eh_magic_def eh_entries_def eh_depth_def le16_def extent_buf_def)
  have e: "ee_block extent_buf 2612 = 0" "ee_len extent_buf 2612 = 2" "ee_start_hi extent_buf 2612 = 0" "ee_start_lo extent_buf 2612 = 9"
    by (simp_all add: entry_fields le16_def le32_def extent_buf_def)
  have n: "node_sorted extent_buf 2600 60" by (rule single_sorted) (simp_all add: h)
  have c: "chosen_entry extent_buf 2600 2 0" unfolding chosen_entry_def h by auto
  have i: "c_int 2 = 2" by (simp add: c_int_def s32_def)
  show ?thesis
    using ext4_hole_behind_extent [where s = "start_loader hd_state\<lparr>fsys_buf := extent_buf\<rparr>" and n = 60 and lb = 2 and i = 0 and e = 2612
        and env = hd_loader_env] a h(1,3) n c e i
    by (simp add: ext_entry_def)
qed

text \<open>Three entries for the blocks from 0, 10 and 20 on.\<close>

definition node_buf :: mem where
  "node_buf = (\<lambda>i. case map_of [(2, 3), (24, 10), (36, 20)] i of None \<Rightarrow> 0 | Some b \<Rightarrow> b)"

theorem ext4_binsearch_linear_witness:
  "ext4_ext_binsearch node_buf 0 15 = 24 \<and> ext4_ext_binsearch_idx node_buf 0 15 = 24"
proof -
  have n: "eh_entries node_buf 0 = 3" by (simp add: eh_entries_def le16_def node_buf_def)
  have b: "ext_block node_buf 0 0 = 0" "ext_block node_buf 0 1 = 10" "ext_block node_buf 0 2 = 20"
    by (simp_all add: ext_block_def ext_entry_def le32_def le16_def node_buf_def)
  have "ext_block node_buf 0 i \<le> ext_block node_buf 0 j" if "0 \<le> i" "i \<le> j" "j < 3" for i j
  proof -
    have "(i = 0 \<or> i = 1 \<or> i = 2) \<and> (j = 0 \<or> j = 1 \<or> j = 2)" using that by linarith
    then show ?thesis using that b by auto
  qed
  then have "node_sorted node_buf 0 48" by (simp add: node_sorted_def n)
  moreover have "linear_entry node_buf 0 15 = 1" using b by (simp add: linear_entry_def n upt_rec)
  ultimately show ?thesis using ext4_binsearch_linear [of node_buf 0 48 15] by (simp add: ext_entry_def)
qed

end
