(* ===== verification/Iso9660.thy ===== *)
theory Iso9660
  imports Globals
begin

text \<open>
  The ISO 9660 driver, \<open>loader/filesys/fsys_iso9660.c\<close> and \<open>iso9660.h\<close>, with the names and modes of Rock Ridge.
  \<open>FSYS_BUF\<close> holds the number of the volume descriptor (at 0), the first sector of the open file (at 4), the
  descriptor (at 2048), a sector of a directory (at 4096), one of a continuation (at 6144) and a name (at 8192).
  Pointers are places in this memory; \<open>FSYS_BUF\<close> itself is at an even address.
\<close>

section \<open>Layout\<close>

abbreviation (input) ISO_SECTOR_SIZE :: int where "ISO_SECTOR_SIZE \<equiv> 2048"
abbreviation (input) ISO_PRIMDESC :: nat where "ISO_PRIMDESC \<equiv> 2048"
abbreviation (input) ISO_DIRREC :: nat where "ISO_DIRREC \<equiv> 4096"
abbreviation (input) ISO_RRCONT :: nat where "ISO_RRCONT \<equiv> 6144"
abbreviation (input) ISO_NAME :: nat where "ISO_NAME \<equiv> 8192"
abbreviation (input) ISO_ROOT :: nat where "ISO_ROOT \<equiv> 2204"

datatype iso_type = ISO_OTHER | ISO_REGULAR | ISO_DIRECTORY

definition file_start :: "mem \<Rightarrow> u32" where "file_start m = le32 m 4"

text \<open>Fields of a directory record at \<open>p\<close> and of an entry of Rock Ridge at \<open>r\<close>.\<close>

definition rec_length :: "mem \<Rightarrow> nat \<Rightarrow> nat" where "rec_length m p = unat (m p)"
definition rec_extent :: "mem \<Rightarrow> nat \<Rightarrow> u32" where "rec_extent m p = le32 m (p + 2)"
definition rec_size :: "mem \<Rightarrow> nat \<Rightarrow> u32" where "rec_size m p = le32 m (p + 10)"
definition rec_flags :: "mem \<Rightarrow> nat \<Rightarrow> u8" where "rec_flags m p = m (p + 25)"
definition rec_name_len :: "mem \<Rightarrow> nat \<Rightarrow> nat" where "rec_name_len m p = unat (m (p + 32))"
definition rr_length :: "mem \<Rightarrow> nat \<Rightarrow> nat" where "rr_length m r = unat (m (r + 2))"
definition rr_version :: "mem \<Rightarrow> nat \<Rightarrow> u8" where "rr_version m r = m (r + 3)"
definition rr_signature :: "mem \<Rightarrow> nat \<Rightarrow> int" where "rr_signature m r = le16 m r"

definition RRMAGIC :: "char \<Rightarrow> char \<Rightarrow> int" where
  "RRMAGIC a b = uint (ch a) + 256 * uint (ch b)"

section \<open>Sectors\<close>

text \<open>
  A sector of 2048 bytes in sectors of the drive.  The offset is turned into sectors of the drive before the shift, so
  it is added at the wrong scale unless a sector of the drive has 2048 bytes.
\<close>

definition iso9660_devread ::
  "'m loader_env \<Rightarrow> int \<Rightarrow> int \<Rightarrow> int \<Rightarrow> mem \<Rightarrow> nat \<Rightarrow> 'm disk_state \<Rightarrow> (bool \<times> mem \<times> 'm disk_state) option" where
  "iso9660_devread env sector byte_offset byte_len buf a st =
     (let sector_size_lg2 = log2 (sector_size (buf_geom st)) in
      if sector < 0 then Some (False, buf, st\<lparr>errnum := ERR_OUTSIDE_PART\<rparr>)
      else if byte_len \<le> 0 then Some (True, buf, st)
      else
        let sector = s32 (sector + drop_bit sector_size_lg2 byte_offset);
            byte_offset = c_int (c_ulong byte_offset AND (sector_size (buf_geom st) - 1));
            shift = nat ((11 - int sector_size_lg2) mod 32);
            sector = push_bit shift (c_ulong sector)
        in rawread (ldisk env) (c_int (current_drive st)) (c_int (part_start st + sector)) byte_offset byte_len buf a st)"

text \<open>A whole sector to the place \<open>a\<close> of \<open>FSYS_BUF\<close>.\<close>

definition iso_fetch :: "'m loader_env \<Rightarrow> int \<Rightarrow> nat \<Rightarrow> 'm loader \<Rightarrow> (bool \<times> 'm loader) option" where
  "iso_fetch env sector a s =
     do {
       (ok, m, d) \<leftarrow> iso9660_devread env sector 0 ISO_SECTOR_SIZE (fsys_buf s) a (dsk s);
       Some (ok, s\<lparr>fsys_buf := m, dsk := d\<rparr>)
     }"

section \<open>Mounting\<close>

fun iso_mount_loop :: "'m loader_env \<Rightarrow> nat list \<Rightarrow> 'm loader \<Rightarrow> (bool \<times> 'm loader) option" where
  "iso_mount_loop env [] s = Some (False, s)"
| "iso_mount_loop env (sector # ks) s =
     do {
       (ok, s) \<leftarrow> iso_fetch env (int sector) ISO_PRIMDESC s;
       let m = fsys_buf s;
       if \<not> ok then Some (False, s)
       else if m ISO_PRIMDESC = 1 \<and> read_at (ISO_PRIMDESC + 1) 5 m = bs ''CD001''
       then Some (True, s\<lparr>fsys_buf := put32 4 0 (put32 0 (of_nat sector) m), fsmax := c_int (le32 m (ISO_PRIMDESC + 80))\<rparr>)
       else iso_mount_loop env ks s
     }"

definition iso9660_mount :: "'m loader_env \<Rightarrow> 'm loader \<Rightarrow> (bool \<times> 'm loader) option" where
  "iso9660_mount env s = iso_mount_loop env [16..<32] s"

section \<open>Rock Ridge\<close>

text \<open>
  What the loop over the entries of a record changes: the place and the rest of the entries, the entry of a
  continuation, the extensions that have not been met, the name, and the type of the file.
\<close>

record rock_ridge =
  rr_ptr :: nat
  rr_len :: u32
  ce_ptr :: "nat option"
  rr_flag :: u8
  rr_name :: nat
  rr_name_len :: u32
  rr_type :: iso_type

definition rr_entry :: "mem \<Rightarrow> rock_ridge \<Rightarrow> rock_ridge" where
  "rr_entry m v =
     (let r = rr_ptr v; n = rr_length m r; sig = rr_signature m r in
      if rr_version m r \<noteq> 1 then v
      else if sig = RRMAGIC CHR ''R'' CHR ''R''
      then (if n \<ge> 4 then v\<lparr>rr_flag := rr_flag v AND m (r + 4)\<rparr> else v)
      else if sig = RRMAGIC CHR ''N'' CHR ''M''
      then v\<lparr>rr_name := r + 5, rr_name_len := c_ulong (int n - 5), rr_flag := rr_flag v AND NOT 0x08\<rparr>
      else if sig = RRMAGIC CHR ''P'' CHR ''X''
      then (if n \<ge> 35
            then let mode = le32 m (r + 4) AND 0xF000 in
                 v\<lparr>rr_type := (if mode = 0x8000 then ISO_REGULAR else if mode = 0x4000 then ISO_DIRECTORY else ISO_OTHER),
                   rr_flag := rr_flag v AND NOT 0x01\<rparr>
            else v)
      else if sig = RRMAGIC CHR ''C'' CHR ''E''
      then (if n \<ge> 27 then v\<lparr>ce_ptr := Some r\<rparr> else v)
      else v)"

text \<open>Behind an entry, and on to the continuation when the record has no more; a continuation that cannot be read is not fatal.\<close>

definition rr_next :: "'m loader_env \<Rightarrow> rock_ridge \<Rightarrow> 'm loader \<Rightarrow> ((bool \<times> rock_ridge) \<times> 'm loader) option" where
  "rr_next env v s =
     (let n = rr_length (fsys_buf s) (rr_ptr v);
          v = v\<lparr>rr_len := rr_len v - of_nat n, rr_ptr := rr_ptr v + n\<rparr>
      in case ce_ptr v of
           None \<Rightarrow> Some ((True, v), s)
         | Some ce \<Rightarrow>
             if rr_len v \<ge> 4 then Some ((True, v), s)
             else
               let inside = ISO_RRCONT \<le> rr_name v \<and> rr_name v < ISO_RRCONT + 2048;
                   m = (if inside then write_at ISO_NAME (read_at (rr_name v) (unat (rr_name_len v)) (fsys_buf s)) (fsys_buf s)
                        else fsys_buf s);
                   v = (if inside then v\<lparr>rr_name := ISO_NAME\<rparr> else v);
                   v = v\<lparr>rr_ptr := ISO_RRCONT + unat (le32 m (ce + 12)), rr_len := le32 m (ce + 20)\<rparr>
               in do {
                 (ok, s) \<leftarrow> iso_fetch env (c_int (le32 m (ce + 4))) ISO_RRCONT (s\<lparr>fsys_buf := m\<rparr>);
                 Some (if ok then ((True, v\<lparr>ce_ptr := None\<rparr>), s) else ((False, v), set_err ERR_NONE s))
               })"

partial_function (option) rr_loop :: "'m loader_env \<Rightarrow> rock_ridge \<Rightarrow> 'm loader \<Rightarrow> (rock_ridge \<times> 'm loader) option" where
  "rr_loop env v s =
     (if rr_len v < 4 then Some (v, s)
      else
        let v = rr_entry (fsys_buf s) v in
        if rr_flag v = 0 then Some (v, s)
        else do {
          ((more, v), s) \<leftarrow> rr_next env v s;
          if more then rr_loop env v s else Some (v, s)
        })"

section \<open>Looking up a name\<close>

text \<open>The length of a name without its version and the dot in front of it.\<close>

definition iso_name_len :: "mem \<Rightarrow> nat \<Rightarrow> nat \<Rightarrow> nat" where
  "iso_name_len m name len =
     (if len > 2 \<and> le16 m (name + len - 2) = uint (ch CHR '';'') + 256 * uint (ch CHR ''1'')
      then let len = len - 2 in if len > 1 \<and> m (name + len - 1) = ch CHR ''.'' then len - 1 else len
      else len)"

text \<open>The start of the loop for the record at \<open>p\<close>.\<close>

definition rr_start :: "mem \<Rightarrow> nat \<Rightarrow> rock_ridge" where
  "rr_start m p =
     (let n = rec_name_len m p; r = p + 33 + n; len = c_ulong (int (rec_length m p) - int n - 33); odd = (r mod 2 = 1)
      in \<lparr>rr_ptr = (if odd then r + 1 else r), rr_len = (if odd then len - 1 else len), ce_ptr = None,
          rr_flag = 0x09, rr_name = p + 33, rr_name_len = of_nat (iso_name_len m (p + 33) n),
          rr_type = (if rec_flags m p AND 2 \<noteq> 0 then ISO_DIRECTORY else ISO_REGULAR)\<rparr>)"

text \<open>
  What a record leads to: the next record, a directory to look in (\<open>IsoEnter\<close>, its record), or a return of
  \<open>iso9660_dir\<close>.  \<open>word\<close> is the name looked for and \<open>c\<close> the character behind it.
\<close>

datatype iso_outcome = IsoNext | IsoEnter nat | IsoReturn bool

definition iso_compare :: "u8 list \<Rightarrow> u8 \<Rightarrow> nat \<Rightarrow> rock_ridge \<Rightarrow> 'm loader \<Rightarrow> iso_outcome \<times> 'm loader" where
  "iso_compare word c p v s =
     (let s = s\<lparr>filemax := MAXINT\<rparr>; m = fsys_buf s; n = unat (rr_name_len v) in
      if length word \<le> n \<and> read_at (rr_name v) (length word) m = word
      then
        if c = ch CHR ''/'' \<or> print_possibilities s = 0
        then
          if length word = n
          then
            if c = ch CHR ''/''
            then if rr_type v \<noteq> ISO_DIRECTORY then (IsoReturn False, set_err ERR_BAD_FILETYPE s) else (IsoEnter p, s)
            else if rr_type v \<noteq> ISO_REGULAR then (IsoReturn False, set_err ERR_BAD_FILETYPE s)
            else (IsoReturn True, s\<lparr>fsys_buf := put32 4 (rec_extent m p) m, filepos := 0, filemax := c_int (rec_size m p)\<rparr>)
          else (IsoNext, s)
        else
          let s = (if print_possibilities s > 0 then s\<lparr>print_possibilities := - print_possibilities s\<rparr> else s);
              name = read_at (rr_name v) n m
          in (IsoNext, print_a_completion (takeWhile (\<lambda>c. c \<noteq> 0) name) (s\<lparr>fsys_buf := write_at ISO_NAME (name @ [0]) m\<rparr>))
      else (IsoNext, s))"

definition iso_record :: "'m loader_env \<Rightarrow> u8 list \<Rightarrow> u8 \<Rightarrow> nat \<Rightarrow> 'm loader \<Rightarrow> (iso_outcome \<times> 'm loader) option" where
  "iso_record env word c p s =
     (let m = fsys_buf s in
      if rec_name_len m p = 1 \<and> (m (p + 33) = 0 \<or> m (p + 33) = 1) then Some (IsoNext, s)
      else do {
        (v, s) \<leftarrow> rr_loop env (rr_start m p) s;
        Some (iso_compare word c p v s)
      })"

text \<open>The records of a sector, up to one of length 0; a sector that is full is read on behind its end.\<close>

partial_function (option) iso_sector :: "'m loader_env \<Rightarrow> u8 list \<Rightarrow> u8 \<Rightarrow> nat \<Rightarrow> 'm loader \<Rightarrow> (iso_outcome \<times> 'm loader) option" where
  "iso_sector env word c p s =
     (if rec_length (fsys_buf s) p = 0 then Some (IsoNext, s)
      else do {
        (r, s) \<leftarrow> iso_record env word c p s;
        if r = IsoNext then iso_sector env word c (p + rec_length (fsys_buf s) p) s else Some (r, s)
      })"

partial_function (option) iso_sectors :: "'m loader_env \<Rightarrow> u8 list \<Rightarrow> u8 \<Rightarrow> u32 \<Rightarrow> int \<Rightarrow> 'm loader \<Rightarrow> (iso_outcome \<times> 'm loader) option" where
  "iso_sectors env word c extent sz s =
     (if sz \<le> 0 then Some (IsoNext, s)
      else do {
        (ok, s) \<leftarrow> iso_fetch env (c_int extent) ISO_DIRREC s;
        if \<not> ok then Some (IsoReturn False, set_err ERR_FSYS_CORRUPT s)
        else do {
          (r, s) \<leftarrow> iso_sector env word c ISO_DIRREC s;
          if r = IsoNext then iso_sectors env word c (extent + 1) (s32 (sz - ISO_SECTOR_SIZE)) s else Some (r, s)
        }
      })"

definition iso_word_end :: "u8 \<Rightarrow> bool" where
  "iso_word_end c \<longleftrightarrow> grub_isspace (sint c) \<or> c = ch CHR ''/''"

text \<open>The loop over the components of the path; \<open>p\<close> is the record of the directory.\<close>

partial_function (option) iso_walk :: "'m loader_env \<Rightarrow> u8 list \<Rightarrow> nat \<Rightarrow> 'm loader \<Rightarrow> (bool \<times> 'm loader) option" where
  "iso_walk env dirname p s =
     (let dirname = dropWhile (\<lambda>c. c = ch CHR ''/'') dirname;
          word = takeWhile (\<lambda>c. \<not> iso_word_end c) dirname;
          rest = dropWhile (\<lambda>c. \<not> iso_word_end c) dirname
      in do {
        (r, s) \<leftarrow> iso_sectors env word (cur rest) (rec_extent (fsys_buf s) p) (c_int (rec_size (fsys_buf s) p)) s;
        case r of
          IsoReturn ok \<Rightarrow> Some (ok, s)
        | IsoEnter p \<Rightarrow> if cur rest = ch CHR ''/'' then iso_walk env rest p s else Some (True, s)
        | IsoNext \<Rightarrow>
            if cur rest = ch CHR ''/'' \<or> print_possibilities s \<ge> 0 then Some (False, set_err ERR_FILE_NOT_FOUND s)
            else Some (True, s)
      })"

definition iso9660_dir :: "'m loader_env \<Rightarrow> u8 list \<Rightarrow> 'm loader \<Rightarrow> (bool \<times> 'm loader) option" where
  "iso9660_dir env dirname s = iso_walk env dirname ISO_ROOT (s\<lparr>fsys_buf := put32 4 0 (fsys_buf s)\<rparr>)"

section \<open>Reading\<close>

text \<open>A failed transfer returns at once and leaves \<open>disk_read_func\<close> set.\<close>

partial_function (option) iso_read_loop ::
  "'m loader_env \<Rightarrow> int \<Rightarrow> int \<Rightarrow> int \<Rightarrow> int \<Rightarrow> mem \<Rightarrow> nat \<Rightarrow> 'm loader \<Rightarrow> (int \<times> mem \<times> 'm loader) option" where
  "iso_read_loop env sector blkoffset len ret buf a s =
     (if \<not> len > 0 then Some (ret, buf, s)
      else do {
        let sz = ISO_SECTOR_SIZE - blkoffset;
        let sz = (if sz > len then len else sz);
        (ok, buf, d) \<leftarrow> iso9660_devread env (c_int (file_start (fsys_buf s) + c_ulong sector)) blkoffset sz buf a
                          ((dsk s)\<lparr>disk_read_func := disk_read_hook s\<rparr>);
        if \<not> ok then Some (0, buf, s\<lparr>dsk := d\<rparr>)
        else iso_read_loop env (sector + 1) 0 (len - sz) (ret + sz) buf (a + nat sz)
               (s\<lparr>dsk := d\<lparr>disk_read_func := False\<rparr>, filepos := s32 (filepos s + sz)\<rparr>)
      })"

definition iso9660_read :: "'m loader_env \<Rightarrow> int \<Rightarrow> mem \<Rightarrow> nat \<Rightarrow> 'm loader \<Rightarrow> (int \<times> mem \<times> 'm loader) option" where
  "iso9660_read env len buf a s =
     (if file_start (fsys_buf s) = 0 then Some (0, buf, s)
      else iso_read_loop env (drop_bit 11 (filepos s)) (filepos s AND (ISO_SECTOR_SIZE - 1)) len 0 buf a s)"

definition iso9660_env :: "'m loader_env \<Rightarrow> 'm loader_env" where
  "iso9660_env env = env\<lparr>fs_mount := iso9660_mount env, fs_read := iso9660_read env, fs_close := Some, fs_dir := iso9660_dir env\<rparr>"

end
