(* ===== verification/IsoFiles.thy ===== *)
theory IsoFiles
  imports Iso9660 FatFiles MinixDirs
begin

text \<open>
  The ISO 9660 driver over a device of sectors of 2048 bytes: directories and paths as inductive predicates over the bytes
  of the volume, for records without extensions, and the contracts of mounting, of looking up a path and of reading.
\<close>

section \<open>Directories and paths\<close>

text \<open>Sector \<open>x\<close> of the volume.\<close>

definition iso_bytes :: "mem \<Rightarrow> nat \<Rightarrow> mem" where
  "iso_bytes d x = (\<lambda>i. d (x * 2048 + i))"

text \<open>The records of a directory itself and of its parent.\<close>

definition rec_special :: "mem \<Rightarrow> nat \<Rightarrow> bool" where
  "rec_special f p \<longleftrightarrow> rec_name_len f p = 1 \<and> (f (p + 33) = 0 \<or> f (p + 33) = 1)"

definition rec_name :: "mem \<Rightarrow> nat \<Rightarrow> u8 list" where
  "rec_name f p = read_at (p + 33) (iso_name_len f (p + 33) (rec_name_len f p)) f"

definition rec_directory :: "mem \<Rightarrow> nat \<Rightarrow> bool" where
  "rec_directory f p \<longleftrightarrow> rec_flags f p AND 2 \<noteq> 0"

text \<open>The record ends in front of the last byte of its sector, and has no room for an extension.\<close>

definition rec_inside :: "mem \<Rightarrow> nat \<Rightarrow> bool" where
  "rec_inside f p \<longleftrightarrow> 33 + rec_name_len f p \<le> rec_length f p \<and> p + rec_length f p < 2048"

definition rec_plain :: "mem \<Rightarrow> nat \<Rightarrow> bool" where
  "rec_plain f p \<longleftrightarrow> rec_inside f p \<and> (let k = rec_length f p - rec_name_len f p - 33; odd = (p + 33 + rec_name_len f p) mod 2 in
     odd \<le> k \<and> k < 4 + odd)"

inductive sector_find :: "mem \<Rightarrow> u8 list \<Rightarrow> nat \<Rightarrow> nat option \<Rightarrow> bool" for f n where
  sector_end: "p < 2048 \<Longrightarrow> rec_length f p = 0 \<Longrightarrow> sector_find f n p None"
| special: "rec_inside f p \<Longrightarrow> rec_special f p \<Longrightarrow> sector_find f n (p + rec_length f p) r \<Longrightarrow> sector_find f n p r"
| other: "rec_plain f p \<Longrightarrow> \<not> rec_special f p \<Longrightarrow> rec_name f p \<noteq> n \<Longrightarrow> sector_find f n (p + rec_length f p) r \<Longrightarrow> sector_find f n p r"
| found: "rec_plain f p \<Longrightarrow> \<not> rec_special f p \<Longrightarrow> rec_name f p = n \<Longrightarrow> sector_find f n p (Some p)"

text \<open>The place of the record for \<open>n\<close> in a directory of \<open>l\<close> bytes from sector \<open>x\<close> on; the volume has \<open>sz\<close> bytes.\<close>

inductive iso_find :: "nat \<Rightarrow> mem \<Rightarrow> u8 list \<Rightarrow> nat \<Rightarrow> nat \<Rightarrow> nat option \<Rightarrow> bool" for sz d n where
  nowhere: "iso_find sz d n x 0 None"
| here: "0 < l \<Longrightarrow> (x + 1) * 2048 \<le> sz \<Longrightarrow> sector_find (iso_bytes d x) n 0 (Some p) \<Longrightarrow> iso_find sz d n x l (Some (x * 2048 + p))"
| further: "0 < l \<Longrightarrow> (x + 1) * 2048 \<le> sz \<Longrightarrow> sector_find (iso_bytes d x) n 0 None \<Longrightarrow> iso_find sz d n (x + 1) (l - 2048) r \<Longrightarrow>
    iso_find sz d n x l r"

definition iso_in :: "nat \<Rightarrow> mem \<Rightarrow> nat \<Rightarrow> u8 list \<Rightarrow> nat option \<Rightarrow> bool" where
  "iso_in sz d q n r \<longleftrightarrow> unat (rec_size d q) < 2147483648 \<and> iso_find sz d n (unat (rec_extent d q)) (unat (rec_size d q)) r"

text \<open>The record that a path leads to from the directory with the record at \<open>q\<close>, or the error.\<close>

inductive iso_path :: "nat \<Rightarrow> mem \<Rightarrow> nat \<Rightarrow> u8 list list \<Rightarrow> grub_error + nat \<Rightarrow> bool" for sz d where
  regular: "iso_in sz d q n (Some q') \<Longrightarrow> \<not> rec_directory d q' \<Longrightarrow> iso_path sz d q [n] (Inr q')"
| no_file: "iso_in sz d q n (Some q') \<Longrightarrow> rec_directory d q' \<Longrightarrow> iso_path sz d q [n] (Inl ERR_BAD_FILETYPE)"
| no_directory: "iso_in sz d q n (Some q') \<Longrightarrow> \<not> rec_directory d q' \<Longrightarrow> iso_path sz d q (n # n' # ns) (Inl ERR_BAD_FILETYPE)"
| absent: "iso_in sz d q n None \<Longrightarrow> iso_path sz d q (n # ns) (Inl ERR_FILE_NOT_FOUND)"
| enter: "iso_in sz d q n (Some q') \<Longrightarrow> rec_directory d q' \<Longrightarrow> iso_path sz d q' (n' # ns) r \<Longrightarrow> iso_path sz d q (n # n' # ns) r"

text \<open>Sector \<open>k\<close> has the primary volume descriptor.\<close>

definition iso_primary :: "mem \<Rightarrow> nat \<Rightarrow> bool" where
  "iso_primary d k \<longleftrightarrow> d (k * 2048) = 1 \<and> read_at (k * 2048 + 1) 5 d = bs ''CD001''"

definition iso_word :: "u8 list \<Rightarrow> bool" where
  "iso_word n \<longleftrightarrow> n \<noteq> [] \<and> (\<forall>c\<in>set n. \<not> iso_word_end c)"

lemma rec_bytes:
  "rec_extent (iso_bytes d x) p = rec_extent d (x * 2048 + p)" "rec_size (iso_bytes d x) p = rec_size d (x * 2048 + p)"
  "rec_directory (iso_bytes d x) p = rec_directory d (x * 2048 + p)"
  by (simp_all add: iso_bytes_def rec_extent_def rec_size_def rec_directory_def rec_flags_def le32_def le16_def ac_simps)

lemma iso_path_end: "path_end r \<Longrightarrow> r = [] \<or> iso_word_end (cur r)" "path_end r \<Longrightarrow> cur r \<noteq> ch CHR ''/''"
  by (auto simp: path_end_def iso_word_end_def grub_isspace_def)

lemma iso_path_head:
  assumes "iso_word n" "r = [] \<or> iso_word_end (cur r)"
  shows "dropWhile (\<lambda>c. c = ch CHR ''/'') (ch CHR ''/'' # n @ r) = n @ r"
    "takeWhile (\<lambda>c. \<not> iso_word_end c) (n @ r) = n" "dropWhile (\<lambda>c. \<not> iso_word_end c) (n @ r) = r"
proof -
  obtain c cs where n: "n = c # cs" "\<not> iso_word_end c" using assms(1) by (cases n) (auto simp: iso_word_def)
  then have "c \<noteq> ch CHR ''/''" by (auto simp: iso_word_end_def)
  then show "dropWhile (\<lambda>c. c = ch CHR ''/'') (ch CHR ''/'' # n @ r) = n @ r" using n(1) by simp
  have r: "takeWhile (\<lambda>c. \<not> iso_word_end c) r = []" "dropWhile (\<lambda>c. \<not> iso_word_end c) r = r"
    using assms(2) by (cases r; simp)+
  have a: "\<And>x. x \<in> set n \<Longrightarrow> \<not> iso_word_end x" using assms(1) by (simp add: iso_word_def)
  then show "takeWhile (\<lambda>c. \<not> iso_word_end c) (n @ r) = n" "dropWhile (\<lambda>c. \<not> iso_word_end c) (n @ r) = r"
    using r by (simp_all add: takeWhile_append2 dropWhile_append2)
qed

text \<open>A record in a copy of its sector.\<close>

lemma rec_copy:
  assumes "\<And>i. i < 2048 \<Longrightarrow> m (a + i) = f i" "rec_inside f p"
  shows "rec_extent m (a + p) = rec_extent f p" "rec_size m (a + p) = rec_size f p" "rec_flags m (a + p) = rec_flags f p"
    "rec_name_len m (a + p) = rec_name_len f p" "k \<le> rec_name_len f p \<Longrightarrow> read_at (a + p + 33) k m = read_at (p + 33) k f"
    "iso_name_len m (a + p + 33) (rec_name_len f p) = iso_name_len f (p + 33) (rec_name_len f p)"
proof -
  have l: "p + 33 + rec_name_len f p < 2048" using assms(2) by (simp add: rec_inside_def)
  have b: "m (a + p + i) = f (p + i)" if "i < 33 + rec_name_len f p" for i using assms(1) [of "p + i"] that l by (simp add: add.assoc)
  have w: "le32 m (a + p + i) = le32 f (p + i)" if "i + 3 < 33" for i
    using b [of i] b [of "i + 1"] b [of "i + 2"] b [of "i + 3"] that
    by (simp add: le32_def le16_def add.assoc numeral_3_eq_3 numeral_2_eq_2)
  show "rec_extent m (a + p) = rec_extent f p" "rec_size m (a + p) = rec_size f p" using w [of 2] w [of 10] by (simp_all add: rec_extent_def rec_size_def)
  show "rec_flags m (a + p) = rec_flags f p" "rec_name_len m (a + p) = rec_name_len f p"
    using b [of 25] b [of 32] by (simp_all add: rec_flags_def rec_name_len_def)
  show "read_at (a + p + 33) k m = read_at (p + 33) k f" if "k \<le> rec_name_len f p" for k
    using that b by (intro nth_equalityI) (simp_all add: add.assoc)
  let ?n = "rec_name_len f p"
  show "iso_name_len m (a + p + 33) ?n = iso_name_len f (p + 33) ?n"
  proof (cases "2 < ?n")
    case True
    then obtain k where k: "?n = k + 3" using that [of "?n - 3"] by simp
    show ?thesis using b [of "33 + k"] b [of "34 + k"] b [of "35 + k"] k by (simp add: iso_name_len_def Let_def le16_def ac_simps)
  qed (simp add: iso_name_len_def)
qed

lemma iso_name_len_le: "iso_name_len f a n \<le> n"
  by (simp add: iso_name_len_def Let_def)

lemma rr_start_plain:
  assumes "rec_plain f p" "\<And>i. i < 2048 \<Longrightarrow> m (a + i) = f i" "even a"
  shows "rr_len (rr_start m (a + p)) < 4" "rr_name (rr_start m (a + p)) = a + p + 33"
    "unat (rr_name_len (rr_start m (a + p))) = length (rec_name f p)"
    "rr_type (rr_start m (a + p)) = (if rec_directory f p then ISO_DIRECTORY else ISO_REGULAR)"
proof -
  have ins: "rec_inside f p" using assms(1) by (simp add: rec_plain_def)
  note c = rec_copy [OF assms(2) ins]
  have len: "rec_length m (a + p) = rec_length f p" using assms(2) [of p] ins by (simp add: rec_length_def rec_inside_def)
  define n k odd where d: "n = rec_name_len f p" "k = rec_length f p - n - 33" "odd = (p + 33 + n) mod 2"
  have k: "odd \<le> k" "k < 4 + odd" "int (rec_length f p) - int n - 33 = int k"
    using assms(1) ins by (simp_all add: rec_plain_def rec_inside_def d Let_def)
  have o1: "(a + p + 33 + n) mod 2 = odd" using assms(3) unfolding d by (metis add.assoc even_iff_mod_2_eq_zero mod_add_left_eq add.left_neutral)
  have n: "n < 256" using unsigned_less [of "f (p + 32)"] by (simp add: d rec_name_len_def)
  show "rr_len (rr_start m (a + p)) < 4"
  proof -
    have "rr_len (rr_start m (a + p)) = c_ulong (int k) - of_nat odd"
      using o1 by (simp add: rr_start_def Let_def c len d(1) [symmetric] k(3) d(3))
    also have "\<dots> = of_nat (k - odd)" using k(1) by (simp add: c_ulong_def of_nat_diff)
    finally have e: "rr_len (rr_start m (a + p)) = of_nat (k - odd)" .
    have "k - odd < 4" using k by linarith
    then have "unat (of_nat (k - odd) :: u32) < 4" unfolding unat_of_nat by simp
    then show ?thesis unfolding e word_less_nat_alt by simp
  qed
  show "rr_name (rr_start m (a + p)) = a + p + 33" by (simp add: rr_start_def Let_def)
  have "iso_name_len f (p + 33) n < 256" using iso_name_len_le [of f "p + 33" n] n by simp
  then show "unat (rr_name_len (rr_start m (a + p))) = length (rec_name f p)"
    by (simp add: rr_start_def Let_def c rec_name_def d unat_of_nat)
  show "rr_type (rr_start m (a + p)) = (if rec_directory f p then ISO_DIRECTORY else ISO_REGULAR)"
    by (simp add: rr_start_def Let_def c rec_directory_def)
qed


section \<open>The driver over a device\<close>

text \<open>What the driver relies on: a device that delivers bytes of its sectors of 2048 bytes.\<close>

locale cd_device =
  fixes env :: "'m loader_env"
    and dev_ok :: "'m disk_state \<Rightarrow> bool"
    and content :: "'m disk_state \<Rightarrow> mem"
    and dev_size :: "'m disk_state \<Rightarrow> nat"
    and blk :: nat
  assumes cd_read: "dev_ok d \<Longrightarrow> 0 < l \<Longrightarrow> off + l \<le> 2048 \<Longrightarrow> (sec + off div blk) * 2048 + off mod blk + l \<le> dev_size d \<Longrightarrow>
    \<exists>d'. iso9660_devread env (int sec) (int off) (int l) dst a d =
        Some (True, write_at a (read_at ((sec + off div blk) * 2048 + off mod blk) l (content d)) dst, d') \<and>
      dev_ok d' \<and> content d' = content d \<and> dev_size d' = dev_size d"
    and cd_hook: "dev_ok (d\<lparr>disk_read_func := h\<rparr>) = dev_ok d" "content (d\<lparr>disk_read_func := h\<rparr>) = content d"
      "dev_size (d\<lparr>disk_read_func := h\<rparr>) = dev_size d"
    and blk_pos: "0 < blk"
    and cd_small: "dev_ok d \<Longrightarrow> dev_size d \<le> 2147483648 * 2048"
begin

definition same_cd :: "'m loader \<Rightarrow> 'm loader \<Rightarrow> bool" where
  "same_cd s s' \<longleftrightarrow> dev_ok (dsk s') \<and> content (dsk s') = content (dsk s) \<and> dev_size (dsk s') = dev_size (dsk s) \<and>
     print_possibilities s' = print_possibilities s"

lemma same_cd_trans: "same_cd s s' \<Longrightarrow> same_cd s' s'' \<Longrightarrow> same_cd s s''"
  by (simp add: same_cd_def)

lemma cd_sector:
  assumes "dev_ok d" "(x + 1) * 2048 \<le> dev_size d"
  shows "x < 2147483648"
  using order_trans [OF assms(2) cd_small [OF assms(1)]] by simp

lemma fetch_ok:
  assumes "dev_ok (dsk s)" "(x + 1) * 2048 \<le> dev_size (dsk s)"
  shows "\<exists>s'. iso_fetch env (int x) a s = Some (True, s') \<and> same_cd s s' \<and>
    fsys_buf s' = write_at a (read_at (x * 2048) 2048 (content (dsk s))) (fsys_buf s)"
  using cd_read [OF assms(1), of 2048 0 x "fsys_buf s" a] assms(2) blk_pos by (auto simp: iso_fetch_def same_cd_def)

lemma fetched:
  assumes "fsys_buf s' = write_at a (read_at (x * 2048) 2048 d) m" "i < 2048"
  shows "fsys_buf s' (a + i) = iso_bytes d x i"
  using assms by (simp add: iso_bytes_def write_at_inside)

subsection \<open>Mounting\<close>

definition at_iso :: "'m loader \<Rightarrow> bool" where
  "at_iso s \<longleftrightarrow> dev_ok (dsk s) \<and> print_possibilities s = 0"

lemma mount_step:
  assumes "dev_ok (dsk s)" "(k + 1) * 2048 \<le> dev_size (dsk s)" "k < 32"
  shows "\<exists>s'. iso_mount_loop env (k # ks) s =
      (if iso_primary (content (dsk s)) k
       then Some (True, s'\<lparr>fsys_buf := put32 4 0 (put32 0 (of_nat k) (fsys_buf s')), fsmax := c_int (le32 (content (dsk s)) (k * 2048 + 80))\<rparr>)
       else iso_mount_loop env ks s') \<and> same_cd s s' \<and>
    (\<forall>i<2048. fsys_buf s' (ISO_PRIMDESC + i) = content (dsk s) (k * 2048 + i))"
proof -
  let ?d = "content (dsk s)"
  obtain s' where s': "iso_fetch env (int k) ISO_PRIMDESC s = Some (True, s')" "same_cd s s'"
    "fsys_buf s' = write_at ISO_PRIMDESC (read_at (k * 2048) 2048 ?d) (fsys_buf s)"
    using fetch_ok [OF assms(1,2), of ISO_PRIMDESC] by auto
  have b: "\<forall>i<2048. fsys_buf s' (ISO_PRIMDESC + i) = ?d (k * 2048 + i)" using fetched [OF s'(3)] by (simp add: iso_bytes_def)
  have r: "read_at ISO_PRIMDESC 2048 (fsys_buf s') = read_at (k * 2048) 2048 ?d" by (rule nth_equalityI) (use b in auto)
  have "read_at (ISO_PRIMDESC + 1) 5 (fsys_buf s') = read_at (k * 2048 + 1) 5 ?d" by (rule read_at_sub [OF r]) simp
  moreover have "le32 (fsys_buf s') (ISO_PRIMDESC + 80) = le32 ?d (k * 2048 + 80)"
    using le32_read_at [OF r, of 80] by simp
  moreover have "fsys_buf s' ISO_PRIMDESC = ?d (k * 2048)" using spec [OF b, of 0] by simp
  ultimately have "iso_mount_loop env (k # ks) s =
      (if iso_primary ?d k
       then Some (True, s'\<lparr>fsys_buf := put32 4 0 (put32 0 (of_nat k) (fsys_buf s')), fsmax := c_int (le32 ?d (k * 2048 + 80))\<rparr>)
       else iso_mount_loop env ks s')"
    using s'(1) by (simp add: iso_primary_def Let_def)
  then show ?thesis using s'(2) b by blast
qed

lemma mount_ok:
  assumes "dev_ok (dsk s)" "k \<in> {16..<32}" "(k + 1) * 2048 \<le> dev_size (dsk s)" "iso_primary (content (dsk s)) k"
    and "\<forall>j\<in>{16..<k}. \<not> iso_primary (content (dsk s)) j"
  shows "\<exists>s'. iso9660_mount env s = Some (True, s') \<and> same_cd s s' \<and>
    (\<forall>i<2048. fsys_buf s' (ISO_PRIMDESC + i) = content (dsk s) (k * 2048 + i))"
proof -
  have "\<exists>s'. iso_mount_loop env [j..<32] s = Some (True, s') \<and> same_cd s s' \<and>
    (\<forall>i<2048. fsys_buf s' (ISO_PRIMDESC + i) = content (dsk s) (k * 2048 + i))"
    if "16 \<le> j" "j \<le> k" "dev_ok (dsk s)" "(k + 1) * 2048 \<le> dev_size (dsk s)" "iso_primary (content (dsk s)) k"
      "\<forall>j\<in>{16..<k}. \<not> iso_primary (content (dsk s)) j" for j s
    using that
  proof (induction "k - j" arbitrary: j s)
    case 0
    then have j: "j = k" by simp
    have "[k..<32] = k # [Suc k..<32]" using assms(2) by (simp add: upt_conv_Cons)
    obtain s1 where s1: "iso_mount_loop env [k..<32] s =
        Some (True, s1\<lparr>fsys_buf := put32 4 0 (put32 0 (of_nat k) (fsys_buf s1)), fsmax := c_int (le32 (content (dsk s)) (k * 2048 + 80))\<rparr>)"
      "same_cd s s1" "\<forall>i<2048. fsys_buf s1 (ISO_PRIMDESC + i) = content (dsk s) (k * 2048 + i)"
      using mount_step [of s k "[Suc k..<32]"] 0(4-6) assms(2) \<open>[k..<32] = k # [Suc k..<32]\<close> by auto
    show ?case unfolding j s1(1) using s1(2,3) by (auto simp: same_cd_def put32_def write_at_outside)
  next
    case (Suc x)
    have "j < k" using Suc.hyps(2) by simp
    then have u: "[j..<32] = j # [Suc j..<32]" using assms(2) by (simp add: upt_conv_Cons)
    have np: "\<not> iso_primary (content (dsk s)) j" using Suc.prems(1,6) Suc.hyps(2) by simp
    have "(j + 1) * 2048 \<le> dev_size (dsk s)" using Suc.prems(2,4) by (intro order_trans [OF _ Suc.prems(4)]) simp
    moreover have "j < 32" using \<open>j < k\<close> assms(2) by simp
    ultimately obtain s1 where s1: "iso_mount_loop env [j..<32] s = iso_mount_loop env [Suc j..<32] s1" "same_cd s s1"
      using mount_step [of s j "[Suc j..<32]"] Suc.prems(3) np unfolding u by (auto simp del: iso_mount_loop.simps)
    have c1: "dev_ok (dsk s1)" "content (dsk s1) = content (dsk s)" "dev_size (dsk s1) = dev_size (dsk s)"
      using s1(2) by (simp_all add: same_cd_def)
    have "x = k - Suc j" "16 \<le> Suc j" "Suc j \<le> k" using Suc.hyps(2) Suc.prems(1) \<open>j < k\<close> by simp_all
    from Suc.hyps(1) [OF this c1(1), unfolded c1(2,3), OF Suc.prems(4-6)]
    obtain s' where "iso_mount_loop env [Suc j..<32] s1 = Some (True, s')" "same_cd s1 s'"
      "\<forall>i<2048. fsys_buf s' (ISO_PRIMDESC + i) = content (dsk s) (k * 2048 + i)" by blast
    then show ?case using s1 same_cd_trans by (metis same_cd_def)
  qed
  from this [of 16 s] assms show ?thesis by (simp add: iso9660_mount_def)
qed

subsection \<open>A directory\<close>

text \<open>What the loop does at the record at \<open>p\<close> for the name it looks for, a directory or not.\<close>

definition iso_meets :: "u8 \<Rightarrow> nat \<Rightarrow> bool \<Rightarrow> 'm loader \<Rightarrow> iso_outcome \<times> 'm loader" where
  "iso_meets c p isdir s =
     (if c = ch CHR ''/'' \<and> isdir then (IsoEnter p, s)
      else if c \<noteq> ch CHR ''/'' \<and> \<not> isdir
      then (IsoReturn True, s\<lparr>fsys_buf := put32 4 (rec_extent (fsys_buf s) p) (fsys_buf s), filepos := 0,
        filemax := c_int (rec_size (fsys_buf s) p)\<rparr>)
      else (IsoReturn False, set_err ERR_BAD_FILETYPE s))"

lemma iso_meets_not_next [simp]: "iso_meets c p isdir s \<noteq> (IsoNext, s')"
  by (simp add: iso_meets_def)

lemma iso_compare_plain:
  assumes "print_possibilities s = 0" "read_at (rr_name v) (unat (rr_name_len v)) (fsys_buf s) = n'"
    and "unat (rr_name_len v) = length n'" "rr_type v = (if isdir then ISO_DIRECTORY else ISO_REGULAR)"
  shows "iso_compare n c p v s = (if n' = n then iso_meets c p isdir (s\<lparr>filemax := MAXINT\<rparr>) else (IsoNext, s\<lparr>filemax := MAXINT\<rparr>))"
proof -
  have "(length n \<le> length n' \<and> read_at (rr_name v) (length n) (fsys_buf s) = n \<and> length n = length n') = (n' = n)"
    using assms(2,3) by (metis length_read_at order_refl)
  then have e: "(length n \<le> length n' \<and> read_at (rr_name v) (length n) (fsys_buf s) = n) \<and> length n = length n' \<longleftrightarrow> n' = n" by blast
  let ?s = "s\<lparr>filemax := MAXINT\<rparr>"
  have "iso_compare n c p v s = (if (length n \<le> length n' \<and> read_at (rr_name v) (length n) (fsys_buf s) = n) \<and> length n = length n'
      then iso_meets c p isdir ?s else (IsoNext, ?s))"
  proof (cases "length n \<le> length n' \<and> read_at (rr_name v) (length n) (fsys_buf s) = n")
    case True
    then show ?thesis
      using assms(4) by (cases "length n = length n'") (simp_all add: iso_compare_def iso_meets_def Let_def assms(1,3))
  next
    case False
    have b: "fsys_buf ?s = fsys_buf s" by simp
    have "iso_compare n c p v s = (IsoNext, ?s)"
      unfolding iso_compare_def Let_def assms(3) b if_not_P [OF False] ..
    then show ?thesis using False by (simp only: simp_thms if_False)
  qed
  then show ?thesis unfolding e .
qed

lemma iso_record_plain:
  assumes "rec_plain f p" "\<not> rec_special f p" "\<And>i. i < 2048 \<Longrightarrow> fsys_buf s (ISO_DIRREC + i) = f i" "print_possibilities s = 0"
  shows "iso_record env n c (ISO_DIRREC + p) s =
    Some (if rec_name f p = n then iso_meets c (ISO_DIRREC + p) (rec_directory f p) (s\<lparr>filemax := MAXINT\<rparr>)
      else (IsoNext, s\<lparr>filemax := MAXINT\<rparr>))"
proof -
  have ins: "rec_inside f p" using assms(1) by (simp add: rec_plain_def)
  let ?v = "rr_start (fsys_buf s) (ISO_DIRREC + p)"
  note v = rr_start_plain [OF assms(1,3), simplified] and c = rec_copy [OF assms(3) ins]
  have sp: "\<not> (rec_name_len (fsys_buf s) (ISO_DIRREC + p) = 1 \<and>
      (fsys_buf s (ISO_DIRREC + p + 33) = 0 \<or> fsys_buf s (ISO_DIRREC + p + 33) = 1))"
    using assms(2) assms(3) [of "p + 33"] ins c(4) by (auto simp: rec_special_def rec_inside_def add.assoc)
  have "rr_loop env ?v s = Some (?v, s)" using v(1) by (subst rr_loop.simps) simp
  moreover have "iso_compare n c (ISO_DIRREC + p) ?v s =
      (if rec_name f p = n then iso_meets c (ISO_DIRREC + p) (rec_directory f p) (s\<lparr>filemax := MAXINT\<rparr>)
       else (IsoNext, s\<lparr>filemax := MAXINT\<rparr>))"
  proof (rule iso_compare_plain [OF assms(4)])
    show "read_at (rr_name ?v) (unat (rr_name_len ?v)) (fsys_buf s) = rec_name f p"
      unfolding v(2,3) using c(5) [of "length (rec_name f p)"] iso_name_len_le [of f "p + 33" "rec_name_len f p"]
      by (simp add: rec_name_def)
  qed (use v in simp_all)
  ultimately show ?thesis unfolding iso_record_def Let_def if_not_P [OF sp] by simp
qed

lemma sector_find_inside: "sector_find f n p r \<Longrightarrow> r = Some q \<Longrightarrow> rec_plain f q"
  by (induction rule: sector_find.induct) auto

lemma iso_sector_ok:
  assumes "sector_find f n p r" "\<And>i. i < 2048 \<Longrightarrow> fsys_buf s (ISO_DIRREC + i) = f i" "print_possibilities s = 0"
  shows "\<exists>s1. (s1 = s \<or> s1 = s\<lparr>filemax := MAXINT\<rparr>) \<and> iso_sector env n c (ISO_DIRREC + p) s =
    Some (case r of None \<Rightarrow> (IsoNext, s1) | Some q \<Rightarrow> iso_meets c (ISO_DIRREC + q) (rec_directory f q) s1)"
  using assms
proof (induction arbitrary: s rule: sector_find.induct)
  case (sector_end p)
  have "rec_length (fsys_buf s) (ISO_DIRREC + p) = 0" using sector_end by (simp add: rec_length_def)
  then show ?case by (subst iso_sector.simps) auto
next
  case (special p r)
  note c = rec_copy [OF special.prems(1) special.hyps(1)]
  have p: "rec_length (fsys_buf s) (ISO_DIRREC + p) = rec_length f p" "rec_length f p \<noteq> 0" "p + 33 < 2048"
    using special.prems(1) [of p] special.hyps(1) by (simp_all add: rec_length_def rec_inside_def)
  have "iso_record env n c (ISO_DIRREC + p) s = Some (IsoNext, s)"
    using special.hyps(2) special.prems(1) [of "p + 33"] c(4) p(3) by (auto simp: iso_record_def rec_special_def add.assoc)
  then have "iso_sector env n c (ISO_DIRREC + p) s = iso_sector env n c (ISO_DIRREC + (p + rec_length f p)) s"
    using p by (subst iso_sector.simps) (simp add: add.assoc)
  then show ?case using special.IH [of s] special.prems by simp
next
  case (other p r)
  have ins: "rec_inside f p" using other.hyps(1) by (simp add: rec_plain_def)
  let ?s = "s\<lparr>filemax := MAXINT\<rparr>"
  have p: "rec_length (fsys_buf s) (ISO_DIRREC + p) = rec_length f p" "rec_length f p \<noteq> 0"
    using other.prems(1) [of p] ins by (simp_all add: rec_length_def rec_inside_def)
  have "iso_record env n c (ISO_DIRREC + p) s = Some (IsoNext, ?s)"
    using iso_record_plain [OF other.hyps(1,2) other.prems] other.hyps(3) by simp
  then have e: "iso_sector env n c (ISO_DIRREC + p) s = iso_sector env n c (ISO_DIRREC + (p + rec_length f p)) ?s"
    using p by (subst iso_sector.simps) (simp add: add.assoc)
  show ?case using other.IH [of ?s] other.prems unfolding e by auto
next
  case (found p)
  have ins: "rec_inside f p" using found.hyps(1) by (simp add: rec_plain_def)
  let ?s = "s\<lparr>filemax := MAXINT\<rparr>"
  have p: "rec_length (fsys_buf s) (ISO_DIRREC + p) \<noteq> 0"
    using found.prems(1) [of p] ins by (simp add: rec_length_def rec_inside_def)
  have "iso_record env n c (ISO_DIRREC + p) s = Some (iso_meets c (ISO_DIRREC + p) (rec_directory f p) ?s)"
    using iso_record_plain [OF found.hyps(1,2) found.prems] found.hyps(3) by simp
  then have "iso_sector env n c (ISO_DIRREC + p) s = Some (iso_meets c (ISO_DIRREC + p) (rec_directory f p) ?s)"
    using p by (subst iso_sector.simps) (auto simp: iso_meets_def)
  then show ?case by auto
qed

lemma iso_sectors_ok:
  assumes "iso_find z d n x l r" "dev_ok (dsk s)" "dev_size (dsk s) = z" "content (dsk s) = d" "print_possibilities s = 0"
    and "nat sz = l" "- 2048 \<le> sz" "sz < 2147483648"
  shows "\<exists>s1. same_cd s s1 \<and> iso_sectors env n c (of_nat x) sz s =
      Some (case r of None \<Rightarrow> (IsoNext, s1) | Some q \<Rightarrow> iso_meets c (ISO_DIRREC + q mod 2048) (rec_directory d q) s1) \<and>
    (\<forall>q. r = Some q \<longrightarrow> rec_plain (iso_bytes d (q div 2048)) (q mod 2048) \<and>
       (\<forall>i<2048. fsys_buf s1 (ISO_DIRREC + i) = iso_bytes d (q div 2048) i))"
  using assms
proof (induction arbitrary: s sz rule: iso_find.induct)
  case (nowhere x)
  then show ?case by (subst iso_sectors.simps) (auto simp: same_cd_def)
next
  case (here l x p)
  obtain s' where s': "iso_fetch env (int x) ISO_DIRREC s = Some (True, s')" "same_cd s s'"
    "fsys_buf s' = write_at ISO_DIRREC (read_at (x * 2048) 2048 d) (fsys_buf s)"
    using fetch_ok [OF here.prems(1), of x ISO_DIRREC] here.hyps(2) here.prems(2,3) by auto
  have "x < 2147483648" using cd_sector [OF here.prems(1), of x] here.hyps(2) here.prems(2) by simp
  then have x: "c_int (of_nat x) = int x" by (rule c_int_of_nat)
  have pp: "print_possibilities s' = 0" using s'(2) here.prems(4) by (simp add: same_cd_def)
  have b: "\<And>i. i < 2048 \<Longrightarrow> fsys_buf s' (ISO_DIRREC + i) = iso_bytes d x i" using fetched [OF s'(3)] .
  obtain s1 where s1: "s1 = s' \<or> s1 = s'\<lparr>filemax := MAXINT\<rparr>"
    "iso_sector env n c ISO_DIRREC s' = Some (iso_meets c (ISO_DIRREC + p) (rec_directory (iso_bytes d x) p) s1)"
    using iso_sector_ok [OF here.hyps(3) b pp, of c] by auto
  have pl: "rec_plain (iso_bytes d x) p" using sector_find_inside [OF here.hyps(3)] by simp
  then have p: "p < 2048" by (simp add: rec_plain_def rec_inside_def)
  have "fst (iso_meets c (ISO_DIRREC + p) (rec_directory (iso_bytes d x) p) s1) \<noteq> IsoNext" by (simp add: iso_meets_def)
  then have "iso_sectors env n c (of_nat x) sz s = Some (iso_meets c (ISO_DIRREC + p) (rec_directory (iso_bytes d x) p) s1)"
    using here.hyps(1) here.prems(5) s'(1) s1(2) x by (subst iso_sectors.simps) (auto split: prod.splits)
  moreover have "same_cd s s1" using s1(1) s'(2) by (auto simp: same_cd_def)
  moreover have "\<forall>i<2048. fsys_buf s1 (ISO_DIRREC + i) = iso_bytes d x i" using s1(1) b by auto
  ultimately show ?case using pl p by (intro exI [of _ s1]) (simp add: rec_bytes)
next
  case (further l x r)
  obtain s' where s': "iso_fetch env (int x) ISO_DIRREC s = Some (True, s')" "same_cd s s'"
    "fsys_buf s' = write_at ISO_DIRREC (read_at (x * 2048) 2048 d) (fsys_buf s)"
    using fetch_ok [OF further.prems(1), of x ISO_DIRREC] further.hyps(2) further.prems(2,3) by auto
  have "x < 2147483648" using cd_sector [OF further.prems(1), of x] further.hyps(2) further.prems(2) by simp
  then have x: "c_int (of_nat x) = int x" by (rule c_int_of_nat)
  have pp: "print_possibilities s' = 0" using s'(2) further.prems(4) by (simp add: same_cd_def)
  have b: "\<And>i. i < 2048 \<Longrightarrow> fsys_buf s' (ISO_DIRREC + i) = iso_bytes d x i" using fetched [OF s'(3)] .
  obtain s1 where s1: "s1 = s' \<or> s1 = s'\<lparr>filemax := MAXINT\<rparr>" "iso_sector env n c ISO_DIRREC s' = Some (IsoNext, s1)"
    using iso_sector_ok [OF further.hyps(3) b pp, of c] by auto
  have sz: "s32 (sz - 2048) = sz - 2048" "0 < sz" using further.prems(5-7) further.hyps(1) by simp_all
  have e: "iso_sectors env n c (of_nat x) sz s = iso_sectors env n c (of_nat (x + 1)) (sz - 2048) s1"
    using s'(1) s1(2) x sz by (subst iso_sectors.simps) (simp add: add.commute)
  have d1: "same_cd s s1" using s1(1) s'(2) by (auto simp: same_cd_def)
  then have c1: "dev_ok (dsk s1)" "dev_size (dsk s1) = z" "content (dsk s1) = d" "print_possibilities s1 = 0"
    using further.prems(2-4) by (simp_all add: same_cd_def)
  have "nat (sz - 2048) = l - 2048" "- 2048 \<le> sz - 2048" "sz - 2048 < 2147483648" using further.prems(5,7) sz(2) by linarith+
  from further.IH [OF c1 this] show ?case unfolding e using same_cd_trans [OF d1] by (elim exE conjE, intro exI conjI) assumption+
qed

subsection \<open>Paths\<close>

text \<open>The record at \<open>p\<close> of the memory is the one at \<open>q\<close> of the volume.\<close>

definition at_rec :: "nat \<Rightarrow> nat \<Rightarrow> 'm loader \<Rightarrow> bool" where
  "at_rec p q s \<longleftrightarrow> dev_ok (dsk s) \<and> print_possibilities s = 0 \<and>
     rec_extent (fsys_buf s) p = rec_extent (content (dsk s)) q \<and> rec_size (fsys_buf s) p = rec_size (content (dsk s)) q"

definition at_data :: "nat \<Rightarrow> 'm loader \<Rightarrow> bool" where
  "at_data q s \<longleftrightarrow> file_start (fsys_buf s) = rec_extent (content (dsk s)) q \<and> filemax s = c_int (rec_size (content (dsk s)) q) \<and>
     filepos s = 0"

lemma iso_lookup_ok:
  assumes "iso_in (dev_size (dsk s)) (content (dsk s)) q n r" "at_rec p q s"
  shows "\<exists>s1. same_cd s s1 \<and> iso_sectors env n c (rec_extent (fsys_buf s) p) (c_int (rec_size (fsys_buf s) p)) s =
      Some (case r of None \<Rightarrow> (IsoNext, s1) | Some q' \<Rightarrow> iso_meets c (ISO_DIRREC + q' mod 2048) (rec_directory (content (dsk s)) q') s1) \<and>
    (\<forall>q'. r = Some q' \<longrightarrow> at_rec (ISO_DIRREC + q' mod 2048) q' s1)"
proof -
  let ?d = "content (dsk s)"
  have a: "dev_ok (dsk s)" "print_possibilities s = 0" "rec_extent (fsys_buf s) p = rec_extent ?d q" "rec_size (fsys_buf s) p = rec_size ?d q"
    using assms(2) by (simp_all add: at_rec_def)
  have z: "unat (rec_size ?d q) < 2147483648" "iso_find (dev_size (dsk s)) ?d n (unat (rec_extent ?d q)) (unat (rec_size ?d q)) r"
    using assms(1) by (simp_all add: iso_in_def)
  have "c_int (rec_size ?d q) = int (unat (rec_size ?d q))" using z(1) by (rule c_int_unat)
  then have pre: "nat (c_int (rec_size ?d q)) = unat (rec_size ?d q)" "- 2048 \<le> c_int (rec_size ?d q)" "c_int (rec_size ?d q) < 2147483648"
    using z(1) by linarith+
  obtain s1 where s1: "same_cd s s1" "iso_sectors env n c (rec_extent ?d q) (c_int (rec_size ?d q)) s =
      Some (case r of None \<Rightarrow> (IsoNext, s1) | Some q' \<Rightarrow> iso_meets c (ISO_DIRREC + q' mod 2048) (rec_directory ?d q') s1)"
    "\<forall>q'. r = Some q' \<longrightarrow> rec_plain (iso_bytes ?d (q' div 2048)) (q' mod 2048) \<and>
       (\<forall>i<2048. fsys_buf s1 (ISO_DIRREC + i) = iso_bytes ?d (q' div 2048) i)"
    using iso_sectors_ok [OF z(2) a(1) refl refl a(2) pre, of c] by auto
  have "at_rec (ISO_DIRREC + q' mod 2048) q' s1" if "r = Some q'" for q'
  proof -
    have f: "rec_inside (iso_bytes ?d (q' div 2048)) (q' mod 2048)" "\<And>i. i < 2048 \<Longrightarrow> fsys_buf s1 (ISO_DIRREC + i) = iso_bytes ?d (q' div 2048) i"
      using s1(3) that by (auto simp: rec_plain_def)
    show ?thesis using rec_copy(1,2) [OF f(2,1)] s1(1) a(2) by (simp add: at_rec_def rec_bytes same_cd_def)
  qed
  then show ?thesis unfolding a(3,4) using s1(1,2) by blast
qed

lemma iso_walk_word:
  assumes "iso_word n" "r = [] \<or> iso_word_end (cur r)"
  shows "iso_walk env (path_text [n] @ r) p s =
     do {
       (o', s) \<leftarrow> iso_sectors env n (cur r) (rec_extent (fsys_buf s) p) (c_int (rec_size (fsys_buf s) p)) s;
       case o' of
         IsoReturn ok \<Rightarrow> Some (ok, s)
       | IsoEnter p \<Rightarrow> if cur r = ch CHR ''/'' then iso_walk env r p s else Some (True, s)
       | IsoNext \<Rightarrow>
           if cur r = ch CHR ''/'' \<or> print_possibilities s \<ge> 0 then Some (False, set_err ERR_FILE_NOT_FOUND s)
           else Some (True, s)
     }"
proof -
  have t: "path_text [n] @ r = ch CHR ''/'' # n @ r" by (simp add: path_text_def)
  show ?thesis unfolding t by (subst iso_walk.simps) (simp only: Let_def iso_path_head [OF assms])
qed

lemma iso_walk_ok:
  assumes "iso_path z d q ns r" "at_rec p q s" "dev_size (dsk s) = z" "content (dsk s) = d" "\<forall>n\<in>set ns. iso_word n" "path_end rest"
  shows "\<exists>s1. same_cd s s1 \<and> iso_walk env (path_text ns @ rest) p s =
      Some (case r of Inl e \<Rightarrow> (False, set_err e s1) | Inr q' \<Rightarrow> (True, s1)) \<and> (\<forall>q'. r = Inr q' \<longrightarrow> at_data q' s1)"
  using assms
proof (induction arbitrary: p s rule: iso_path.induct)
  case (regular q n q')
  have w: "iso_word n" "rest = [] \<or> iso_word_end (cur rest)" "cur rest \<noteq> ch CHR ''/''" using regular.prems(4,5) iso_path_end by simp_all
  obtain s1 where s1: "same_cd s s1" "iso_sectors env n (cur rest) (rec_extent (fsys_buf s) p) (c_int (rec_size (fsys_buf s) p)) s =
      Some (iso_meets (cur rest) (ISO_DIRREC + q' mod 2048) (rec_directory d q') s1)" "at_rec (ISO_DIRREC + q' mod 2048) q' s1"
    using iso_lookup_ok [OF _ regular.prems(1), of n "Some q'" "cur rest"] regular.hyps(1) regular.prems(2,3) by auto
  let ?s = "s1\<lparr>fsys_buf := put32 4 (rec_extent (fsys_buf s1) (ISO_DIRREC + q' mod 2048)) (fsys_buf s1), filepos := 0,
    filemax := c_int (rec_size (fsys_buf s1) (ISO_DIRREC + q' mod 2048))\<rparr>"
  have "iso_walk env (path_text [n] @ rest) p s = Some (True, ?s)"
    using s1(2) regular.hyps(2) w(3) by (subst iso_walk_word [OF w(1,2)]) (simp add: iso_meets_def)
  moreover have "same_cd s ?s" using s1(1) by (simp add: same_cd_def)
  moreover have "at_data q' ?s" using s1(3) by (simp add: at_data_def at_rec_def file_start_def)
  ultimately show ?case by (intro exI [of _ ?s]) simp
next
  case (no_file q n q')
  have w: "iso_word n" "rest = [] \<or> iso_word_end (cur rest)" "cur rest \<noteq> ch CHR ''/''" using no_file.prems(4,5) iso_path_end by simp_all
  obtain s1 where s1: "same_cd s s1" "iso_sectors env n (cur rest) (rec_extent (fsys_buf s) p) (c_int (rec_size (fsys_buf s) p)) s =
      Some (iso_meets (cur rest) (ISO_DIRREC + q' mod 2048) (rec_directory d q') s1)"
    using iso_lookup_ok [OF _ no_file.prems(1), of n "Some q'" "cur rest"] no_file.hyps(1) no_file.prems(2,3) by auto
  have "iso_walk env (path_text [n] @ rest) p s = Some (False, set_err ERR_BAD_FILETYPE s1)"
    using s1(2) no_file.hyps(2) w(3) by (subst iso_walk_word [OF w(1,2)]) (simp add: iso_meets_def)
  then show ?case using s1(1) by auto
next
  case (no_directory q n q' n' ns)
  let ?r = "path_text (n' # ns) @ rest"
  have w: "iso_word n" "cur ?r = ch CHR ''/''" "?r = [] \<or> iso_word_end (cur ?r)"
    using no_directory.prems(4) by (simp_all add: path_text_def iso_word_end_def)
  obtain s1 where s1: "same_cd s s1" "iso_sectors env n (cur ?r) (rec_extent (fsys_buf s) p) (c_int (rec_size (fsys_buf s) p)) s =
      Some (iso_meets (cur ?r) (ISO_DIRREC + q' mod 2048) (rec_directory d q') s1)"
    using iso_lookup_ok [OF _ no_directory.prems(1), of n "Some q'" "cur ?r"] no_directory.hyps(1) no_directory.prems(2,3) by auto
  have "iso_walk env (path_text [n] @ ?r) p s = Some (False, set_err ERR_BAD_FILETYPE s1)"
    using s1(2) no_directory.hyps(2) w(2) by (subst iso_walk_word [OF w(1,3)]) (simp add: iso_meets_def)
  then show ?case using s1(1) by (auto simp: path_text_def)
next
  case (absent q n ns)
  let ?r = "path_text ns @ rest"
  have w: "iso_word n" "?r = [] \<or> iso_word_end (cur ?r)"
    using absent.prems(4,5) iso_path_end [of rest] by (cases ns; simp add: path_text_def iso_word_end_def)+
  obtain s1 where s1: "same_cd s s1" "iso_sectors env n (cur ?r) (rec_extent (fsys_buf s) p) (c_int (rec_size (fsys_buf s) p)) s =
      Some (IsoNext, s1)"
    using iso_lookup_ok [OF _ absent.prems(1), of n None "cur ?r"] absent.hyps(1) absent.prems(2,3) by auto
  have "print_possibilities s1 = 0" using s1(1) absent.prems(1) by (simp add: same_cd_def at_rec_def)
  then have "iso_walk env (path_text [n] @ ?r) p s = Some (False, set_err ERR_FILE_NOT_FOUND s1)"
    using s1(2) by (subst iso_walk_word [OF w]) simp
  then show ?case using s1(1) by (auto simp: path_text_def)
next
  case (enter q n q' n' ns r)
  let ?r = "path_text (n' # ns) @ rest"
  have w: "iso_word n" "cur ?r = ch CHR ''/''" "?r = [] \<or> iso_word_end (cur ?r)"
    using enter.prems(4) by (simp_all add: path_text_def iso_word_end_def)
  obtain s1 where s1: "same_cd s s1" "iso_sectors env n (cur ?r) (rec_extent (fsys_buf s) p) (c_int (rec_size (fsys_buf s) p)) s =
      Some (iso_meets (cur ?r) (ISO_DIRREC + q' mod 2048) (rec_directory d q') s1)" "at_rec (ISO_DIRREC + q' mod 2048) q' s1"
    using iso_lookup_ok [OF _ enter.prems(1), of n "Some q'" "cur ?r"] enter.hyps(1) enter.prems(2,3) by auto
  have e: "iso_walk env (path_text [n] @ ?r) p s = iso_walk env ?r (ISO_DIRREC + q' mod 2048) s1"
    using s1(2) enter.hyps(2) w(2) by (subst iso_walk_word [OF w(1,3)]) (simp add: iso_meets_def)
  have "dev_size (dsk s1) = z" "content (dsk s1) = d" "\<forall>n\<in>set (n' # ns). iso_word n"
    using s1(1) enter.prems(2-4) by (simp_all add: same_cd_def)
  from enter.IH [OF s1(3) this enter.prems(5)]
  obtain s2 where s2: "same_cd s1 s2" "iso_walk env ?r (ISO_DIRREC + q' mod 2048) s1 =
      Some (case r of Inl e \<Rightarrow> (False, set_err e s2) | Inr q' \<Rightarrow> (True, s2))" "\<forall>q'. r = Inr q' \<longrightarrow> at_data q' s2" by blast
  have "path_text (n # n' # ns) @ rest = path_text [n] @ ?r" by (simp add: path_text_def)
  then show ?case using e s2(2,3) same_cd_trans [OF s1(1) s2(1)] by auto
qed

lemma iso_dir_ok:
  assumes "\<forall>i<2048. fsys_buf s (ISO_PRIMDESC + i) = content (dsk s) (k * 2048 + i)" "dev_ok (dsk s)" "print_possibilities s = 0"
    and "iso_path (dev_size (dsk s)) (content (dsk s)) (k * 2048 + 156) ns r" "\<forall>n\<in>set ns. iso_word n" "path_end rest"
  shows "\<exists>s1. same_cd s s1 \<and> iso9660_dir env (path_text ns @ rest) s =
      Some (case r of Inl e \<Rightarrow> (False, set_err e s1) | Inr q' \<Rightarrow> (True, s1)) \<and> (\<forall>q'. r = Inr q' \<longrightarrow> at_data q' s1)"
proof -
  let ?s = "s\<lparr>fsys_buf := put32 4 0 (fsys_buf s)\<rparr>"
  have b: "fsys_buf s (2048 + i) = content (dsk s) (k * 2048 + i)" if "i < 2048" for i using assms(1) that by simp
  have "at_rec ISO_ROOT (k * 2048 + 156) ?s"
    using assms(2,3) b [of 158] b [of 159] b [of 160] b [of 161] b [of 166] b [of 167] b [of 168] b [of 169]
    by (simp add: at_rec_def rec_extent_def rec_size_def le32_put32_other) (simp add: le32_def le16_def ac_simps)
  from iso_walk_ok [OF assms(4) this _ _ assms(5,6)] show ?thesis by (simp add: iso9660_dir_def same_cd_def)
qed

subsection \<open>Reading\<close>

text \<open>One pass of the loop, up to the end of a sector.\<close>

lemma iso_read_step:
  assumes "dev_ok (dsk s)" "unat (file_start (fsys_buf s)) = x" "0 < n" "o' < 2048" "m = min n (2048 - o')"
    and "p = (x + k + o' div blk) * 2048 + o' mod blk" "p + m \<le> dev_size (dsk s)"
  shows "\<exists>s'. iso_read_loop env (int k) (int o') (int n) ret buf a s =
      iso_read_loop env (int (k + 1)) (int 0) (int (n - m)) (ret + int m) (write_at a (read_at p m (content (dsk s))) buf) (a + m) s' \<and>
    dev_ok (dsk s') \<and> content (dsk s') = content (dsk s) \<and> dev_size (dsk s') = dev_size (dsk s) \<and> fsys_buf s' = fsys_buf s"
proof -
  have m: "0 < m" "m \<le> n" "o' + m \<le> 2048" "(if 2048 - int o' > int n then int n else 2048 - int o') = int m"
    using assms(3-5) by auto
  let ?d = "(dsk s)\<lparr>disk_read_func := disk_read_hook s\<rparr>"
  have d: "dev_ok ?d" "content ?d = content (dsk s)" "dev_size ?d = dev_size (dsk s)" using assms(1) by (simp_all add: cd_hook)
  have "(x + k) * 2048 + 1 \<le> p + m" using m(1) unfolding assms(6) by simp
  then have "(x + k) * 2048 + 1 \<le> 2147483648 * 2048" using assms(7) cd_small [OF assms(1)] by linarith
  then have "x + k < 2147483648" by simp
  moreover have "file_start (fsys_buf s) + c_ulong (int k) = of_nat (x + k)"
    unfolding assms(2) [symmetric] by (simp add: c_ulong_def)
  ultimately have sec: "c_int (file_start (fsys_buf s) + c_ulong (int k)) = int (x + k)" by (simp only: c_int_of_nat)
  have "p + m \<le> dev_size ?d" using assms(7) unfolding d(3) .
  then obtain d' where d': "iso9660_devread env (int (x + k)) (int o') (int m) buf a ?d =
      Some (True, write_at a (read_at p m (content (dsk s))) buf, d')"
    "dev_ok d'" "content d' = content (dsk s)" "dev_size d' = dev_size (dsk s)"
    using cd_read [OF d(1) m(1,3), of "x + k" buf a] unfolding assms(6) d(2,3) by auto
  let ?s = "s\<lparr>dsk := d'\<lparr>disk_read_func := False\<rparr>, filepos := s32 (filepos s + int m)\<rparr>"
  have "iso_read_loop env (int k) (int o') (int n) ret buf a s =
      iso_read_loop env (int (k + 1)) (int 0) (int (n - m)) (ret + int m) (write_at a (read_at p m (content (dsk s))) buf) (a + m) ?s"
    using assms(3) d'(1) m by (subst iso_read_loop.simps) (simp add: sec Let_def of_nat_diff add.commute)
  moreover have "dev_ok (dsk ?s)" "content (dsk ?s) = content (dsk s)" "dev_size (dsk ?s) = dev_size (dsk s)" "fsys_buf ?s = fsys_buf s"
    using d'(2-4) by (simp_all add: cd_hook)
  ultimately show ?thesis by blast
qed

lemma iso_read_loop_ok:
  assumes "dev_ok (dsk s)" "unat (file_start (fsys_buf s)) = x" "o' < blk" "o' < 2048" "(x + k) * 2048 + o' + n \<le> dev_size (dsk s)"
  shows "\<exists>s'. iso_read_loop env (int k) (int o') (int n) ret buf a s =
    Some (ret + int n, write_at a (read_at ((x + k) * 2048 + o') n (content (dsk s))) buf, s')"
  using assms
proof (induction n arbitrary: k o' ret buf a s rule: less_induct)
  case (less n)
  show ?case
  proof (cases "n = 0")
    case True
    then show ?thesis by (subst iso_read_loop.simps) simp
  next
    case False
    define m where "m = min n (2048 - o')"
    let ?p = "(x + k) * 2048 + o'"
    have m: "0 < m" "m \<le> n" using False less.prems(4) by (auto simp: m_def)
    have p: "?p = (x + k + o' div blk) * 2048 + o' mod blk" using less.prems(3) by simp
    have pm: "?p + m \<le> dev_size (dsk s)" using less.prems(5) m(2) by linarith
    obtain s' where e: "iso_read_loop env (int k) (int o') (int n) ret buf a s =
        iso_read_loop env (int (k + 1)) (int 0) (int (n - m)) (ret + int m) (write_at a (read_at ?p m (content (dsk s))) buf) (a + m) s'"
      and c: "dev_ok (dsk s')" "content (dsk s') = content (dsk s)" "dev_size (dsk s') = dev_size (dsk s)" "fsys_buf s' = fsys_buf s"
      using iso_read_step [OF less.prems(1,2) _ less.prems(4) m_def p pm, of ret buf a] False by blast
    show ?thesis
    proof (cases "n = m")
      case True
      have "iso_read_loop env (int (k + 1)) (int 0) (int 0) r b i s' = Some (r, b, s')" for r b i by (subst iso_read_loop.simps) simp
      then show ?thesis using e True by (intro exI [of _ s']) simp
    next
      case False
      then have om: "o' + m = 2048" using less.prems(4) by (auto simp: m_def min_def split: if_splits)
      then have pos: "(x + (k + 1)) * 2048 + 0 = ?p + m" by simp
      have "(x + (k + 1)) * 2048 + 0 + (n - m) \<le> dev_size (dsk s')" using less.prems(5) m(2) unfolding pos c(3) by linarith
      from less.IH [OF _ c(1) _ blk_pos _ this, of "ret + int m" "write_at a (read_at ?p m (content (dsk s))) buf" "a + m"] m less.prems(2) c(4)
      obtain s2 where "iso_read_loop env (int (k + 1)) (int 0) (int (n - m)) (ret + int m) (write_at a (read_at ?p m (content (dsk s))) buf) (a + m) s' =
          Some (ret + int m + int (n - m), write_at (a + m) (read_at (?p + m) (n - m) (content (dsk s)))
            (write_at a (read_at ?p m (content (dsk s))) buf), s2)"
        unfolding pos c(2) by auto
      moreover have "read_at ?p n (content (dsk s)) = read_at ?p m (content (dsk s)) @ read_at (?p + m) (n - m) (content (dsk s))"
        using read_at_append [of ?p m "n - m" "content (dsk s)"] m(2) by simp
      ultimately show ?thesis
        using write_at_append [of a "read_at ?p m (content (dsk s))" "read_at (?p + m) (n - m) (content (dsk s))" buf] e m(2)
        by (simp only: length_read_at) (simp add: of_nat_diff)
    qed
  qed
qed

lemma iso_read_start:
  assumes "at_data q s" "rec_extent (content (dsk s)) q \<noteq> 0"
  shows "iso9660_read env (int n) buf a (s\<lparr>filepos := int f\<rparr>) =
    iso_read_loop env (int (f div 2048)) (int (f mod 2048)) (int n) 0 buf a (s\<lparr>filepos := int f\<rparr>)"
proof -
  have fs: "file_start (fsys_buf s) = rec_extent (content (dsk s)) q" using assms(1) by (simp add: at_data_def)
  have q: "drop_bit 11 (int f) = int (f div 2048)" "int f AND (2048 - 1) = int (f mod 2048)"
    using take_bit_eq_mask [of 11 "int f"] by (simp_all add: drop_bit_eq_div zdiv_int mask_eq_exp_minus_1 take_bit_eq_mod zmod_int)
  show ?thesis using fs assms(2) unfolding iso9660_read_def by (simp add: q [simplified])
qed

lemma iso_read_ok:
  assumes "dev_ok (dsk s)" "at_data q s" "rec_extent (content (dsk s)) q \<noteq> 0" "f mod 2048 < blk"
    and "unat (rec_extent (content (dsk s)) q) * 2048 + f + n \<le> dev_size (dsk s)"
  shows "\<exists>s'. iso9660_read env (int n) buf a (s\<lparr>filepos := int f\<rparr>) =
    Some (int n, write_at a (read_at (unat (rec_extent (content (dsk s)) q) * 2048 + f) n (content (dsk s))) buf, s')"
proof -
  let ?x = "unat (rec_extent (content (dsk s)) q)" and ?s = "s\<lparr>filepos := int f\<rparr>"
  have e: "(?x + f div 2048) * 2048 + f mod 2048 = ?x * 2048 + f" using div_mult_mod_eq [of f 2048] by (simp add: algebra_simps)
  have fs: "file_start (fsys_buf s) = rec_extent (content (dsk s)) q" using assms(2) by (simp add: at_data_def)
  have "\<exists>s'. iso_read_loop env (int (f div 2048)) (int (f mod 2048)) (int n) 0 buf a ?s =
      Some (0 + int n, write_at a (read_at ((?x + f div 2048) * 2048 + f mod 2048) n (content (dsk ?s))) buf, s')"
    by (rule iso_read_loop_ok) (use assms fs e in auto)
  then show ?thesis unfolding e iso_read_start [OF assms(2,3)] by simp
qed

text \<open>A read inside a sector: behind the first sector of the drive it gets bytes of a later sector.\<close>

lemma iso_read_inside:
  assumes "dev_ok (dsk s)" "at_data q s" "rec_extent (content (dsk s)) q \<noteq> 0" "0 < n" "f mod 2048 + n \<le> 2048"
    and "p = (unat (rec_extent (content (dsk s)) q) + f div 2048 + f mod 2048 div blk) * 2048 + f mod 2048 mod blk" "p + n \<le> dev_size (dsk s)"
  shows "\<exists>s'. iso9660_read env (int n) buf a (s\<lparr>filepos := int f\<rparr>) = Some (int n, write_at a (read_at p n (content (dsk s))) buf, s')"
proof -
  let ?s = "s\<lparr>filepos := int f\<rparr>"
  have m: "n = min n (2048 - f mod 2048)" using assms(5) by simp
  have fs: "unat (file_start (fsys_buf ?s)) = unat (rec_extent (content (dsk s)) q)" "dev_ok (dsk ?s)" "p + n \<le> dev_size (dsk ?s)"
    using assms(1,2,7) by (simp_all add: at_data_def)
  obtain s' where "iso_read_loop env (int (f div 2048)) (int (f mod 2048)) (int n) 0 buf a ?s =
      iso_read_loop env (int (f div 2048 + 1)) (int 0) (int (n - n)) (0 + int n) (write_at a (read_at p n (content (dsk ?s))) buf) (a + n) s'"
    using iso_read_step [OF fs(2,1) assms(4) _ m assms(6) fs(3), of 0 buf a] by auto
  moreover have "iso_read_loop env x y (int (n - n)) r b i s' = Some (r, b, s')" for x y r b i by (subst iso_read_loop.simps) simp
  ultimately show ?thesis unfolding iso_read_start [OF assms(2,3)] by simp
qed

end

section \<open>A partition behind the BIOS\<close>

text \<open>A volume in a partition of a drive with sectors of any size; the driver does not look at the length of the partition.\<close>

definition cd_ok :: "int \<Rightarrow> geometry \<Rightarrow> nat \<Rightarrow> ('m \<Rightarrow> mem) \<Rightarrow> 'm disk_state \<Rightarrow> bool" where
  "cd_ok drive g bits disk st \<longleftrightarrow> readable drive g bits disk st \<and> buffer_ready drive g st \<and> c_int (current_drive st) = drive \<and>
     tracks_inside g bits (unat (part_start st)) 0 (unat (part_length st) * 2 ^ bits)"

definition cd_content :: "nat \<Rightarrow> ('m \<Rightarrow> mem) \<Rightarrow> 'm disk_state \<Rightarrow> mem" where
  "cd_content bits disk st = (\<lambda>i. disk (media st) (unat (part_start st) * 2 ^ bits + i))"

definition cd_size :: "nat \<Rightarrow> 'm disk_state \<Rightarrow> nat" where
  "cd_size bits st = unat (part_length st) * 2 ^ bits"

lemma cd_geometry:
  assumes "geom_sane g bits"
  shows "log2 (sector_size g) = bits" "nat ((11 - int bits) mod 32) = 11 - bits" "2 ^ (11 - bits) * 2 ^ bits = (2048 :: nat)"
    "c_int (c_ulong (int off) AND (sector_size g - 1)) = int (off mod 2 ^ bits)" "(2 :: nat) ^ bits \<le> 2048"
proof -
  have ss: "uint (sector_size g) = 2 ^ bits" and b: "bits \<in> {9, 10, 11}" using assms by (auto simp: geom_sane_def)
  show "log2 (sector_size g) = bits" by (rule log2_power [OF ss b])
  show "nat ((11 - int bits) mod 32) = 11 - bits" "2 ^ (11 - bits) * 2 ^ bits = (2048 :: nat)" "(2 :: nat) ^ bits \<le> 2048"
    using b by auto
  have "sector_size g = 2 ^ bits" unfolding word_uint_eq_iff using ss b by auto
  then have "c_ulong (int off) AND (sector_size g - 1) = take_bit bits (of_nat off)"
    by (simp add: c_ulong_def take_bit_eq_mask mask_eq_exp_minus_1)
  also have "\<dots> = of_nat (take_bit bits off)" by (simp only: take_bit_of_nat)
  also have "take_bit bits off = off mod 2 ^ bits" by (simp add: take_bit_eq_mod)
  finally have e: "c_ulong (int off) AND (sector_size g - 1) = of_nat (off mod 2 ^ bits)" .
  have "off mod 2 ^ bits < 2 ^ bits" by simp
  also have "(2 :: nat) ^ bits \<le> 2048" using b by auto
  finally show "c_int (c_ulong (int off) AND (sector_size g - 1)) = int (off mod 2 ^ bits)" unfolding e by (intro c_int_of_nat) simp
qed

lemma tracks_end:
  assumes "tracks_inside g bits s 0 (n * 2 ^ bits)" "0 < n" "0 < vtrack g bits"
  shows "s + n \<le> unat (total_sectors g)"
proof -
  let ?v = "nat (vtrack g bits)" and ?B = "(2 :: nat) ^ bits"
  obtain k where k: "s + n = Suc k" using assms(2) by (cases "s + n") auto
  have "s * ?B + 0 + n * ?B = ?B + k * ?B" using arg_cong [OF k, of "\<lambda>x. x * ?B"] by (simp add: add_mult_distrib)
  then have "s * ?B + 0 + n * ?B - 1 = (?B - 1) + k * ?B" by simp
  moreover have "(?B - 1 + k * ?B) div ?B = k" by (subst div_mult_self1) simp_all
  ultimately have "(s * ?B + 0 + n * ?B - 1) div ?B = k" by (simp only:)
  then have "(k div ?v + 1) * ?v \<le> unat (total_sectors g)" using assms(1) unfolding tracks_inside_def Let_def by (simp only:)
  moreover have "k < (k div ?v + 1) * ?v"
    using dividend_less_div_times [of ?v k] assms(3) by (simp add: algebra_simps)
  ultimately show ?thesis using k by linarith
qed

context disk_reader
begin

lemma cd_read_ready:
  assumes "cd_ok drive geom bits disk st" "0 < l" "off + l \<le> 2048"
    and "(sec + off div 2 ^ bits) * 2048 + off mod 2 ^ bits + l \<le> cd_size bits st" "ldisk e = env"
  shows "\<exists>st'. iso9660_devread e (int sec) (int off) (int l) dst a st =
      Some (True, write_at a (read_at ((sec + off div 2 ^ bits) * 2048 + off mod 2 ^ bits) l (cd_content bits disk st)) dst, st') \<and>
    cd_ok drive geom bits disk st' \<and> cd_content bits disk st' = cd_content bits disk st \<and> cd_size bits st' = cd_size bits st"
proof -
  define z o' where z: "z = sec + off div 2 ^ bits" "o' = off mod 2 ^ bits"
  let ?ps = "unat (part_start st)" and ?pl = "unat (part_length st)" and ?k = "11 - bits"
  note g = cd_geometry [OF sane]
  have ok: "readable drive geom bits disk st" "buf_geom st = geom" "c_int (current_drive st) = drive" "tracks_inside geom bits ?ps 0 (?pl * 2 ^ bits)"
    using assms(1) by (simp_all add: cd_ok_def buffer_ready_def)
  have inside: "z * 2048 + o' + l \<le> ?pl * 2 ^ bits" using assms(4) by (simp add: z cd_size_def)
  have "0 < ?pl" using assms(2) inside by (cases "?pl") (auto simp: cd_size_def)
  then have pe: "?ps + ?pl \<le> unat (total_sectors geom)" using tracks_end [OF ok(4)] vtrack_bounds(1) [OF sane] by simp
  have k: "z * 2 ^ ?k * 2 ^ bits = z * 2048" using g(3) by (simp only: mult.assoc)
  have "z * 2 ^ ?k * 2 ^ bits < ?pl * 2 ^ bits" using assms(2) inside unfolding k by linarith
  then have "z * 2 ^ ?k < ?pl" by simp
  then have n: "?ps + z * 2 ^ ?k < 2147483648" using pe total_range by linarith
  have "z * 1 \<le> z * 2 ^ ?k" by (intro mult_le_mono) simp_all
  then have sec: "z < 2147483648" using n by linarith
  have d0: "s32 (int sec + drop_bit bits (int off)) = int z"
    using s32_nat [OF sec] unfolding z by (simp only: drop_bit_of_nat of_nat_add) (simp add: drop_bit_eq_div)
  have start: "c_int (part_start st + push_bit ?k (c_ulong (int z))) = int (?ps + z * 2 ^ ?k)"
  proof -
    have "part_start st + push_bit ?k (c_ulong (int z)) = of_nat (?ps + z * 2 ^ ?k)"
      by (simp add: c_ulong_def push_bit_eq_mult)
    then show ?thesis using n by (simp only: c_int_of_nat)
  qed
  have rd: "iso9660_devread e (int sec) (int off) (int l) dst a st = rawread env drive (int (?ps + z * 2 ^ ?k)) (int o') (int l) dst a st"
    using assms(2,5) by (simp add: iso9660_devread_def Let_def ok(2,3) g(1,2) d0 start g(4) [of off] z(2) [symmetric] del: of_nat_add of_nat_mult)
  have e: "(?ps + z * 2 ^ ?k) * B + o' = ?ps * 2 ^ bits + (z * 2048 + o')" using k by (simp add: B_def add_mult_distrib)
  have b1: "o' < B" "B \<le> 2048" using z(2) g(5) by (simp_all add: B_def)
  then have b: "o' < B" "o' + l + B \<le> 2147483648" using assms(3) by linarith+
  have "tracks_inside geom bits (?ps + z * 2 ^ ?k) o' l"
  proof (rule tracks_inside_mono [OF ok(4)])
    show "(?ps + z * 2 ^ ?k) * 2 ^ bits + o' + l \<le> ?ps * 2 ^ bits + 0 + ?pl * 2 ^ bits"
      using e inside unfolding B_def by linarith
  qed
  from rawread_ready [OF ok(1) b(1) assms(2) b(2) this, of dst a, unfolded e]
  obtain st' where st': "iso9660_devread e (int sec) (int off) (int l) dst a st =
      Some (True, write_at a (read_at (?ps * 2 ^ bits + (z * 2048 + o')) l (disk (media st))) dst, st')"
    "same_view st st'" "readable drive geom bits disk st'" "buf_drive st' = drive" unfolding rd by blast
  have "cd_ok drive geom bits disk st'" "cd_content bits disk st' = cd_content bits disk st" "cd_size bits st' = cd_size bits st"
    using st'(2-4) ok(3,4) by (simp_all add: cd_ok_def cd_content_def cd_size_def same_view_def readable_def)
  moreover have "read_at (?ps * 2 ^ bits + (z * 2048 + o')) l (disk (media st)) = read_at (z * 2048 + o') l (cd_content bits disk st)"
    by (rule nth_equalityI) (simp_all add: cd_content_def add.assoc)
  ultimately show ?thesis using st'(1) unfolding z by auto
qed

lemma cd_part:
  assumes "ldisk e = env"
  shows "cd_device e (cd_ok drive geom bits disk) (cd_content bits disk) (cd_size bits) (2 ^ bits)"
proof (rule cd_device.intro)
  fix d :: "'m disk_state" and l off sec a :: nat and dst :: mem
  show "\<exists>d'. iso9660_devread e (int sec) (int off) (int l) dst a d =
        Some (True, write_at a (read_at ((sec + off div 2 ^ bits) * 2048 + off mod 2 ^ bits) l (cd_content bits disk d)) dst, d') \<and>
      cd_ok drive geom bits disk d' \<and> cd_content bits disk d' = cd_content bits disk d \<and> cd_size bits d' = cd_size bits d"
    if "cd_ok drive geom bits disk d" "0 < l" "off + l \<le> 2048" "(sec + off div 2 ^ bits) * 2048 + off mod 2 ^ bits + l \<le> cd_size bits d"
    using cd_read_ready [OF that assms] .
  show "cd_size bits d \<le> 2147483648 * 2048" if "cd_ok drive geom bits disk d"
  proof (cases "unat (part_length d) = 0")
    case False
    then have "unat (part_start d) + unat (part_length d) \<le> unat (total_sectors geom)"
      using tracks_end [of geom bits "unat (part_start d)" "unat (part_length d)"] that vtrack_bounds(1) [OF sane] by (simp add: cd_ok_def)
    then have "unat (part_length d) \<le> 2147483648" using total_range by linarith
    then show ?thesis using cd_geometry(5) [OF sane] unfolding cd_size_def by (rule mult_le_mono)
  qed (simp add: cd_size_def)
qed (auto simp: cd_ok_def cd_content_def cd_size_def readable_def buffer_ready_def cache_ok_def)

end

end
