(* ===== verification/IsoVolume.thy ===== *)
theory IsoVolume
  imports IsoFiles Ext2Volume
begin

text \<open>
  The ISO 9660 driver on a partition behind the BIOS, and a small volume on which it is tried.
\<close>

section \<open>The property\<close>

text \<open>C6: on an ISO 9660 volume whose records have no extensions, the primary descriptor is found among the sectors 16 to 31, a
  path is looked up from the root, with the versions of the names and the dots in front of them left out, and the reads that
  follow deliver the file it names, on drives with sectors of 512 to 2048 bytes, when they start in front of the end of the
  first sector of the drive in a sector of the volume; a read that starts further behind gets bytes of a later sector of the
  volume.  A path that leads to no file is refused with the error of the first step that fails.\<close>

theorem iso9660_lookup_and_read:
  assumes "lba_drive fw drive g bits disk \<or> chs_drive fw drive g bits disk"
    and "\<And>g0. get_diskinfo fw drive g0 = (0, g)" "\<not> (0xC0 \<le> drive \<and> drive \<le> 0xC7)" "ldisk env = bios_env fw lr ba sa"
    and "cd_ok drive g bits disk (dsk s)" "print_possibilities s = 0"
    and "k \<in> {16..<32}" "(k + 1) * 2048 \<le> cd_size bits (dsk s)" "iso_primary (cd_content bits disk (dsk s)) k"
    and "\<forall>j\<in>{16..<k}. \<not> iso_primary (cd_content bits disk (dsk s)) j"
    and "iso_path (cd_size bits (dsk s)) (cd_content bits disk (dsk s)) (k * 2048 + 156) ns r" "\<forall>n\<in>set ns. iso_word n" "path_end rest"
  shows "\<exists>s1 s2. iso9660_mount env s = Some (True, s1) \<and>
    (case r of
       Inl e \<Rightarrow> iso9660_dir env (path_text ns @ rest) s1 = Some (False, s2) \<and> err s2 = e
     | Inr q \<Rightarrow>
         let d = cd_content bits disk (dsk s); x = unat (rec_extent d q) in
         iso9660_dir env (path_text ns @ rest) s1 = Some (True, s2) \<and> filemax s2 = c_int (rec_size d q) \<and>
         (x \<noteq> 0 \<longrightarrow>
           (\<forall>f n buf a. f mod 2048 < 2 ^ bits \<and> x * 2048 + f + n \<le> cd_size bits (dsk s) \<longrightarrow>
             (\<exists>s3. iso9660_read env (int n) buf a (s2\<lparr>filepos := int f\<rparr>) =
               Some (int n, write_at a (read_at (x * 2048 + f) n d) buf, s3))) \<and>
           (\<forall>f n p buf a. 0 < n \<and> f mod 2048 + n \<le> 2048 \<and> p + n \<le> cd_size bits (dsk s) \<and>
             p = (x + f div 2048 + f mod 2048 div 2 ^ bits) * 2048 + f mod 2048 mod 2 ^ bits \<longrightarrow>
             (\<exists>s3. iso9660_read env (int n) buf a (s2\<lparr>filepos := int f\<rparr>) = Some (int n, write_at a (read_at p n d) buf, s3)))))"
proof -
  let ?d = "cd_content bits disk (dsk s)" and ?sz = "cd_size bits (dsk s)"
  note f = disk_reader.cd_part [OF bios_partition(1) [OF assms(1-3)] assms(4)]
  obtain s1 where s1: "iso9660_mount env s = Some (True, s1)"
    "cd_device.same_cd (cd_ok drive g bits disk) (cd_content bits disk) (cd_size bits) s s1"
    "\<forall>i<2048. fsys_buf s1 (2048 + i) = ?d (k * 2048 + i)"
    using cd_device.mount_ok [OF f assms(5,7-10)] by blast
  have d1: "cd_ok drive g bits disk (dsk s1)" "cd_content bits disk (dsk s1) = ?d" "cd_size bits (dsk s1) = ?sz" "print_possibilities s1 = 0"
    using s1(2) assms(6) by (simp_all add: cd_device.same_cd_def [OF f])
  obtain s2 where s2: "cd_device.same_cd (cd_ok drive g bits disk) (cd_content bits disk) (cd_size bits) s1 s2"
    "iso9660_dir env (path_text ns @ rest) s1 = Some (case r of Inl e \<Rightarrow> (False, set_err e s2) | Inr q \<Rightarrow> (True, s2))"
    "\<forall>q. r = Inr q \<longrightarrow> cd_device.at_data (cd_content bits disk) q s2"
    using cd_device.iso_dir_ok [OF f _ d1(1,4) _ assms(12,13), of k r] s1(3) assms(11) unfolding d1(2,3) by blast
  have d2: "cd_ok drive g bits disk (dsk s2)" "cd_content bits disk (dsk s2) = ?d" "cd_size bits (dsk s2) = ?sz"
    using s2(1) d1 by (simp_all add: cd_device.same_cd_def [OF f])
  show ?thesis
  proof (cases r)
    case (Inl e)
    then show ?thesis using s1(1) s2(2) by (auto intro: exI [of _ "set_err e s2"])
  next
    case (Inr q)
    then have at: "cd_device.at_data (cd_content bits disk) q s2" using s2(3) by simp
    then have fm: "filemax s2 = c_int (rec_size ?d q)" by (simp add: cd_device.at_data_def [OF f] d2(2))
    note rd = cd_device.iso_read_ok [OF f d2(1) at, unfolded d2(2,3)] and rs = cd_device.iso_read_inside [OF f d2(1) at, unfolded d2(2,3)]
    have "(\<forall>f n buf a. f mod 2048 < 2 ^ bits \<and> unat (rec_extent ?d q) * 2048 + f + n \<le> ?sz \<longrightarrow>
        (\<exists>s3. iso9660_read env (int n) buf a (s2\<lparr>filepos := int f\<rparr>) =
          Some (int n, write_at a (read_at (unat (rec_extent ?d q) * 2048 + f) n ?d) buf, s3)))"
      "(\<forall>f n p buf a. 0 < n \<and> f mod 2048 + n \<le> 2048 \<and> p + n \<le> ?sz \<and>
        p = (unat (rec_extent ?d q) + f div 2048 + f mod 2048 div 2 ^ bits) * 2048 + f mod 2048 mod 2 ^ bits \<longrightarrow>
        (\<exists>s3. iso9660_read env (int n) buf a (s2\<lparr>filepos := int f\<rparr>) = Some (int n, write_at a (read_at p n ?d) buf, s3)))"
      if "unat (rec_extent ?d q) \<noteq> 0"
    proof -
      have "rec_extent ?d q \<noteq> 0" using that by auto
      then show "(\<forall>f n buf a. f mod 2048 < 2 ^ bits \<and> unat (rec_extent ?d q) * 2048 + f + n \<le> ?sz \<longrightarrow>
          (\<exists>s3. iso9660_read env (int n) buf a (s2\<lparr>filepos := int f\<rparr>) =
            Some (int n, write_at a (read_at (unat (rec_extent ?d q) * 2048 + f) n ?d) buf, s3)))"
        "(\<forall>f n p buf a. 0 < n \<and> f mod 2048 + n \<le> 2048 \<and> p + n \<le> ?sz \<and>
          p = (unat (rec_extent ?d q) + f div 2048 + f mod 2048 div 2 ^ bits) * 2048 + f mod 2048 mod 2 ^ bits \<longrightarrow>
          (\<exists>s3. iso9660_read env (int n) buf a (s2\<lparr>filepos := int f\<rparr>) = Some (int n, write_at a (read_at p n ?d) buf, s3)))"
        using rd rs by blast+
    qed
    then show ?thesis using s1(1) s2(2) fm Inr by (auto simp: Let_def)
  qed
qed

section \<open>A small volume\<close>

text \<open>
  A partition of 100 sectors of 512 bytes, so of 25 sectors of the volume, with the primary descriptor in sector 16, the root
  directory in sector 18 and its file \<open>A.;1\<close> of 1000 bytes in sector 20.
\<close>

definition iso_part :: mem where
  "iso_part = (\<lambda>i. case map_of
     ((32768, 1) # zip [32769..<32774] (bs ''CD001'') @
      [(32924, 34), (32926, 18), (32935, 8), (32949, 2),
       (36864, 34), (36896, 1),
       (36898, 34), (36930, 1), (36931, 1),
       (36932, 38), (36934, 20), (36942, 0xE8), (36943, 3), (36964, 4), (36965, 65), (36966, 46), (36967, 59), (36968, 49),
       (40963, 91), (40964, 93), (41560, 97), (43096, 98)]) i of
     None \<Rightarrow> 0 | Some b \<Rightarrow> b)"

text \<open>The drive is the buffered one.\<close>

definition iso_state :: "mem loader" where
  "iso_state = (hd_volume iso_part)\<lparr>dsk := (dsk (hd_volume iso_part))\<lparr>buf_drive := 128, buf_geom := hd_geometry 1, cur_sector_size := 512\<rparr>\<rparr>"

lemma iso_state_ok:
  "cd_ok 128 (hd_geometry 1) 9 (\<lambda>m. m) (dsk iso_state)" "cd_content 9 (\<lambda>m. m) (dsk iso_state) = iso_part" "cd_size 9 (dsk iso_state) = 51200"
  "print_possibilities iso_state = 0"
proof -
  have s: "sector_size (hd_geometry 1) = 512" by (simp add: hd_geometry_def)
  show "cd_ok 128 (hd_geometry 1) 9 (\<lambda>m. m) (dsk iso_state)"
    using hd_volume_ok [of iso_part]
    by (simp add: cd_ok_def part_ok_def readable_def buffer_ready_def cache_ok_def iso_state_def hd_volume_def start_loader_def hd_state_def s)
  show "cd_content 9 (\<lambda>m. m) (dsk iso_state) = iso_part" "cd_size 9 (dsk iso_state) = 51200" "print_possibilities iso_state = 0"
    by (simp_all add: cd_content_def cd_size_def iso_state_def hd_volume_def start_loader_def hd_state_def)
qed

lemma iso_a: "iso_primary iso_part 16" "iso_path 51200 iso_part 32924 [[65]] (Inr 36932)"
proof -
  show "iso_primary iso_part 16" by (simp add: iso_primary_def read_at_def upt_rec iso_part_def)
  let ?f = "iso_bytes iso_part 18"
  have l: "rec_length ?f 0 = 34" "rec_length ?f 34 = 34" "rec_length ?f 68 = 38" "rec_name_len ?f 0 = 1" "rec_name_len ?f 34 = 1"
    "rec_name_len ?f 68 = 4"
    by (simp_all add: rec_length_def rec_name_len_def iso_bytes_def) (simp_all add: iso_part_def upt_rec)
  have sp: "rec_special ?f 0" "rec_special ?f 34" "\<not> rec_special ?f 68"
    by (simp_all add: rec_special_def l) (simp_all add: iso_bytes_def iso_part_def upt_rec)
  have c: "?f 101 = 65" "?f 102 = 46" "?f 103 = 59" "?f 104 = 49" by (simp_all add: iso_bytes_def iso_part_def upt_rec)
  have "iso_name_len ?f 101 4 = 1" by (simp add: iso_name_len_def Let_def le16_def c)
  then have nm: "rec_name ?f 68 = [65]" by (simp add: rec_name_def l c read_at_def upt_rec)
  have pl: "rec_inside ?f 0" "rec_inside ?f 34" "rec_plain ?f 68" by (simp_all add: rec_inside_def rec_plain_def l Let_def)
  have "sector_find ?f [65] 68 (Some 68)" using sector_find.found [OF pl(3) sp(3) nm] .
  then have "sector_find ?f [65] 34 (Some 68)" using sector_find.special [OF pl(2) sp(2), of "[65]" "Some 68"] l by simp
  then have sf: "sector_find ?f [65] 0 (Some 68)" using sector_find.special [OF pl(1) sp(1), of "[65]" "Some 68"] l by simp
  have r: "rec_extent iso_part 32924 = 18" "rec_size iso_part 32924 = 2048" "rec_flags iso_part 36932 = 0"
    by (simp_all add: rec_extent_def rec_size_def rec_flags_def le32_def le16_def) (simp_all add: iso_part_def upt_rec)
  have "iso_find 51200 iso_part [65] 18 2048 (Some 36932)" using iso_find.here [OF _ _ sf, of 2048 51200] by simp
  then have "iso_in 51200 iso_part 32924 [65] (Some 36932)" by (simp add: iso_in_def r)
  then show "iso_path 51200 iso_part 32924 [[65]] (Inr 36932)" by (rule iso_path.regular) (simp add: rec_directory_def r)
qed

theorem iso9660_lookup_and_read_witness:
  "\<exists>s1 s2 s3 s4. iso9660_mount hd_loader_env iso_state = Some (True, s1) \<and>
     iso9660_dir hd_loader_env (bs ''/A'') s1 = Some (True, s2) \<and> filemax s2 = 1000 \<and>
     iso9660_read hd_loader_env 2 (\<lambda>_. 0) 0 (s2\<lparr>filepos := 3\<rparr>) = Some (2, write_at 0 (bs ''[]'') (\<lambda>_. 0), s3) \<and>
     iso_part (20 * 2048 + 600) = ch CHR ''a'' \<and>
     iso9660_read hd_loader_env 1 (\<lambda>_. 0) 0 (s2\<lparr>filepos := 600\<rparr>) = Some (1, write_at 0 (bs ''b'') (\<lambda>_. 0), s4)"
proof -
  have t: "path_text [[65]] @ [] = bs ''/A''" by (simp add: path_text_def)
  have n: "\<forall>n\<in>set [[65]]. iso_word n" "path_end []" by (simp_all add: iso_word_def iso_word_end_def path_end_def grub_isspace_def)
  have r: "rec_extent iso_part 36932 = 20" "rec_size iso_part 36932 = 1000"
    by (simp_all add: rec_extent_def rec_size_def le32_def le16_def) (simp_all add: iso_part_def upt_rec)
  have b: "read_at 40963 2 iso_part = bs ''[]''" "iso_part 41560 = 97" "read_at 43096 1 iso_part = bs ''b''"
    by (simp_all add: read_at_def upt_rec) (simp_all add: iso_part_def upt_rec)
  have z: "c_int 1000 = 1000" by (simp add: c_int_def s32_def)
  obtain s1 s2 where s: "iso9660_mount hd_loader_env iso_state = Some (True, s1)"
    "iso9660_dir hd_loader_env (bs ''/A'') s1 = Some (True, s2)" "filemax s2 = 1000"
    "\<forall>f n buf a. f mod 2048 < 2 ^ 9 \<and> 40960 + f + n \<le> 51200 \<longrightarrow>
       (\<exists>s3. iso9660_read hd_loader_env (int n) buf a (s2\<lparr>filepos := int f\<rparr>) = Some (int n, write_at a (read_at (40960 + f) n iso_part) buf, s3))"
    "\<forall>f n p buf a. 0 < n \<and> f mod 2048 + n \<le> 2048 \<and> p + n \<le> 51200 \<and>
       p = (20 + f div 2048 + f mod 2048 div 2 ^ 9) * 2048 + f mod 2048 mod 2 ^ 9 \<longrightarrow>
       (\<exists>s3. iso9660_read hd_loader_env (int n) buf a (s2\<lparr>filepos := int f\<rparr>) = Some (int n, write_at a (read_at p n iso_part) buf, s3))"
    using iso9660_lookup_and_read [OF disjI1 [OF hd_lba.lba_drive_axioms] hd_probe _ hd_loader_disk iso_state_ok(1,4), where k = 16
        and ns = "[[65]]" and r = "Inr 36932" and rest = "[]", unfolded iso_state_ok(2,3)] iso_a n
    unfolding t by (auto simp: Let_def r z)
  have "\<exists>s3. iso9660_read hd_loader_env (int 2) (\<lambda>_. 0) 0 (s2\<lparr>filepos := int 3\<rparr>) =
      Some (int 2, write_at 0 (read_at (40960 + 3) 2 iso_part) (\<lambda>_. 0), s3)"
    by (intro mp [OF spec [OF spec [OF spec [OF spec [OF s(4)]]]]]) simp
  moreover have "\<exists>s3. iso9660_read hd_loader_env (int 1) (\<lambda>_. 0) 0 (s2\<lparr>filepos := int 600\<rparr>) =
      Some (int 1, write_at 0 (read_at 43096 1 iso_part) (\<lambda>_. 0), s3)"
    by (intro mp [OF spec [OF spec [OF spec [OF spec [OF spec [OF s(5)]]]]]]) simp
  ultimately show ?thesis using s(1-3) b by auto
qed

end
