(* ===== verification/Spec2Isabelle.thy ===== *)
theory Spec2Isabelle
  imports Parms MemMap FatVolume Ext2Volume IsoVolume
begin

text \<open>
  FreeLdr, a boot loader for PCs derived from GRUB, by the parts of it under \<open>loader/\<close> that run before a kernel or
  a second-stage loader is started.

  \<^bold>\<open>The program.\<close>  A boot sector (\<open>bootsec/\<close>, assembly) loads the pre-loader \<open>preldr/\<close>.  The pre-loader knows how to
  transfer sectors through the BIOS (\<open>bios.c\<close>), gives byte-granular access to a drive and a partition
  (\<open>dskaccess.c\<close>), walks partition tables (\<open>part.c\<close>), parses device names (\<open>../setdev.c\<close>), keeps the current root
  device (\<open>root.c\<close>) and offers files (\<open>func.c\<close>) on top of one of the file system drivers in \<open>filesys/\<close>, each of
  them a separately linked binary that gets its services through the table \<open>lip1_t\<close> (\<open>filesys/fsys.c\<close>).
  \<open>stage0_fs.c\<close> is its main program: it opens the boot device, reads its configuration with \<open>../cfgparse.c\<close>, and
  loads and relocates the blackboxes (terminals, loaders, mini file systems).  The loaders use the pre-loader through
  the table \<open>lip2_t\<close> of \<open>u_*\<close> routines.

  \<^bold>\<open>The theories\<close>, from the bottom up; each names the files it models in its own header.

  \<^item> \<open>Prelude\<close>: C integers (\<open>s32\<close>, \<open>c_int\<close>, \<open>c_ulong\<close>), memory as a function, little-endian fields, C strings,
    error numbers.
  \<^item> \<open>Libc\<close>, \<open>Numbers\<close>: \<open>shared/\<close>, the mini C library.
  \<^item> \<open>BlockDevice\<close> (locales \<open>block_device\<close> and \<open>rw_block_device\<close>: what the client of a sector transfer relies on) and
    \<open>BiosDisk\<close> (\<open>preldr/bios.c\<close>, with its interpretations in LBA and CHS mode over an interface \<open>fw\<close> to the BIOS).
  \<^item> \<open>Dskaccess\<close>: the track buffer, \<open>rawread\<close>, \<open>rawwrite\<close>, \<open>devread\<close> and \<open>devwrite\<close>; a sublocale shows that a drive
    behind \<open>block_device\<close> is the string of its bytes.
  \<^item> \<open>Partition\<close>, \<open>Device\<close>: \<open>part.c\<close>; \<open>setdev.c\<close>, \<open>root.c\<close> and \<open>cmdline.c\<close>.
  \<^item> \<open>Globals\<close>: the globals of the pre-loader as the record \<open>loader\<close>, what it calls outside of its own code as the
    record \<open>loader_env\<close>, and name completion.
  \<^item> \<open>Files\<close>, \<open>ByteDevice\<close>, \<open>BlockFiles\<close>: the file layer of \<open>func.c\<close>, the interface \<open>byte_device\<close> that \<open>devread\<close>
    implements for a partition, and files that are block lists.
  \<^item> \<open>Minix\<close>, \<open>MinixFiles\<close>, \<open>MinixDirs\<close>: \<open>filesys/fsys_minix.c\<close>, reading and path lookup over any \<open>fs_device\<close>.
  \<^item> \<open>Fat\<close>, \<open>FatFiles\<close>, \<open>FatMount\<close>, \<open>FatVolume\<close>: \<open>filesys/fsys_fat.c\<close>, the whole driver; chains of clusters over any
    \<open>fs_device\<close>, the layout in the boot sector, and both on a partition.
  \<^item> \<open>Ext2\<close>, \<open>Ext2Blocks\<close>, \<open>Ext2Files\<close>, \<open>Ext2Inodes\<close>, \<open>Ext2Dirs\<close>, \<open>Ext2Volume\<close>: \<open>filesys/fsys_ext2fs.c\<close>, the whole
    driver; block numbers and trees of extents, files, inodes, directories and paths over any \<open>fs_device\<close>, and all of
    them on a partition.
  \<^item> \<open>Iso9660\<close>, \<open>IsoFiles\<close>, \<open>IsoVolume\<close>: \<open>filesys/fsys_iso9660.c\<close>, the whole driver; directories, paths and reading
    over any \<open>cd_device\<close> for records without Rock Ridge, and on a partition.
  \<^item> \<open>Config\<close>, \<open>ConfigLines\<close>: \<open>cfgparse.c\<close> with the file and the handler as arguments; the logical lines of a text
    as a specification.
  \<^item> \<open>Settings\<close>: the structure \<open>conf\<close> and its handler \<open>process_cfg_line1\<close> of \<open>stage0_fs.c\<close>.
  \<^item> \<open>Lip\<close>, \<open>BootConfig\<close>, \<open>Driver16\<close>: \<open>freeldr_*\<close> and \<open>u_*\<close> of \<open>stage0_fs.c\<close> over the file layer or the 16-bit driver
    of the boot sector, and the reading of the configuration through all the layers down to the BIOS.
  \<^item> \<open>Parms\<close>: \<open>u_parm\<close>, \<open>u_diskctl\<close>, \<open>determine_boot_drive\<close>, relocation and loading of blackboxes.
  \<^item> \<open>MemMap\<close>: \<open>preldr/common.c\<close>, the memory map and the drive table handed to a kernel.

  \<^bold>\<open>Conventions.\<close>  Operations take and return the state; \<open>None\<close> is a fault of the code, a call that does not return,
  or a loop that does not end (loops without a structural measure are \<open>partial_function (option)\<close>), so every property
  that says \<open>Some\<close> includes termination.  There is no fuel.  Error numbers are left in \<open>errnum\<close> as in the code.
  Interfaces are locales, interpreted on the model's own definitions; the properties stand outside of them, over the
  assumptions on the BIOS (\<open>lba_drive\<close>, \<open>chs_drive\<close>), which \<open>hd_lba\<close> and its relatives meet for a disk image.

  \<^bold>\<open>What is shown.\<close>  Transfers deliver the bytes of the drive in both BIOS modes, and a failed LBA read is repeated by
  cylinder, head and sector; \<open>rawread\<close> and \<open>devread\<close> deliver every range of the partition, and what \<open>devread\<close> refuses is
  stated exactly; partitions are found where the tables put them; device names round-trip; block lists, Minix, FAT, ext2
  and ISO 9660 files deliver their bytes through the caches of the drivers (for block lists and FAT, in any sequence of
  operations); a configuration file that is a text reaches its handler by its logical lines, wherever the chunks end, as
  far as the lines fit into the buffers and without a last line that lacks its end; the parameters of the loader interface
  are independent cells; relocation changes exactly the listed words; the memory sizes are those of the map.
  The defects found on the way are properties of their own (stale track after a write, an endless search for a
  partition, the root directory of FAT12 and FAT16, the 64-bit feature and the holes of ext4), parts of a property (the
  overflow in the check of \<open>devread\<close>, the text of \<open>ltoa\<close> that is not terminated, the last line of a configuration file)
  or listed with the manifest's findings.

  \<^bold>\<open>Assumed and bounded.\<close>  The BIOS, the 16-bit driver, the drivers' entry points where a component is generic in them,
  and the boot sector's parameter block (a header of a submodule) are arguments.  Sector numbers stay below \<open>2 ^ 31\<close>
  and files below 2 GiB where the code's \<open>int\<close> needs it; these bounds are hypotheses of the properties.

  \<^bold>\<open>Not modelled.\<close>  Assembly (boot sectors, mode switching, interrupt stubs, the call of a loader); the handlers of
  \<open>set_ftable\<close>, whose structure is in a header of a submodule; \<open>u_termctl\<close>, \<open>u_vbectl\<close>, \<open>u_msg\<close> (terminals and video);
  \<open>u_load\<close> and \<open>u_boot\<close>, which are stubs; the other file system drivers; the loaders (\<open>loader/\<close>, \<open>kernels/\<close>), terminals
  (\<open>term/\<close>), the line editor, the installer and the boot sector tools.
\<close>

end
